(* ===== verification/Prelude.thy ===== *)
theory Prelude
  imports Complex_Main "HOL-Library.Word" "HOL-Library.Char_ord" "HOL-Library.List_Lexorder"
begin

text \<open>
  Shared vocabulary of the development: the result type of fallible code, the parts of
  Rust's standard library the sources use on strings and integers (trimming, splitting,
  joining, decimal parsing and printing, ASCII case folding, \<open>as\<close> casts between 64-bit
  integers), and the generic list lemmas the components share.

  Strings are Isabelle strings, that is lists of bytes: a \<open>&str\<close> is its UTF-8 encoding.
  The functions below treat ASCII as Rust does; a byte of a longer UTF-8 sequence is never
  a space, a digit or an ASCII letter, which is how the sources' ASCII functions see it.
  (Rust's \<open>trim\<close> and \<open>split_whitespace\<close> also strip the few Unicode spaces; those are
  not modelled.)
\<close>

named_theorems op_defs \<open>definitions of state-changing operations\<close>
named_theorems frame_simps \<open>fields an operation leaves alone\<close>

section \<open>Results\<close>

text \<open>\<open>Result<T, E>\<close> is \<open>'e + 'a\<close>, \<open>Inl\<close> for \<open>Err\<close>; \<open>bind_res\<close> is the \<open>?\<close> operator.\<close>

definition bind_res :: "'e + 'a \<Rightarrow> ('a \<Rightarrow> 'e + 'b) \<Rightarrow> 'e + 'b" where
  "bind_res r f = (case r of Inl e \<Rightarrow> Inl e | Inr a \<Rightarrow> f a)"

definition map_err :: "('e \<Rightarrow> 'f) \<Rightarrow> 'e + 'a \<Rightarrow> 'f + 'a" where
  "map_err g r = (case r of Inl e \<Rightarrow> Inl (g e) | Inr a \<Rightarrow> Inr a)"

definition ok_or :: "'e \<Rightarrow> 'a option \<Rightarrow> 'e + 'a" where
  "ok_or e x = (case x of None \<Rightarrow> Inl e | Some a \<Rightarrow> Inr a)"

definition is_ok :: "'e + 'a \<Rightarrow> bool" where
  "is_ok r = (case r of Inl e \<Rightarrow> False | Inr a \<Rightarrow> True)"

lemma bind_res_simps [simp]:
  "bind_res (Inl e) f = Inl e" "bind_res (Inr a) f = f a"
  by (simp_all add: bind_res_def)

lemma map_err_simps [simp]:
  "map_err g (Inl e) = Inl (g e)" "map_err g (Inr a) = Inr a"
  by (simp_all add: map_err_def)

lemma ok_or_simps [simp]:
  "ok_or e None = Inl e" "ok_or e (Some a) = Inr a"
  by (simp_all add: ok_or_def)

lemma is_ok_simps [simp]:
  "is_ok (Inl e) = False" "is_ok (Inr a) = True"
  by (simp_all add: is_ok_def)

lemma bind_res_eq_Inr: "bind_res r f = Inr b \<longleftrightarrow> (\<exists>a. r = Inr a \<and> f a = Inr b)"
  by (cases r) auto

section \<open>Characters and strings\<close>

definition is_space :: "char \<Rightarrow> bool" where
  "is_space c = (let n = (of_char c :: nat) in (9 \<le> n \<and> n \<le> 13) \<or> n = 32)"

definition ascii_lower :: "char \<Rightarrow> char" where
  "ascii_lower c =
     (let n = (of_char c :: nat) in if 65 \<le> n \<and> n \<le> 90 then char_of (n + 32) else c)"

definition to_ascii_lowercase :: "string \<Rightarrow> string" where
  "to_ascii_lowercase s = map ascii_lower s"

definition eq_ignore_ascii_case :: "string \<Rightarrow> string \<Rightarrow> bool" where
  "eq_ignore_ascii_case a b = (to_ascii_lowercase a = to_ascii_lowercase b)"

definition trim_with :: "(char \<Rightarrow> bool) \<Rightarrow> string \<Rightarrow> string" where
  "trim_with p s = rev (dropWhile p (rev (dropWhile p s)))"

definition trim :: "string \<Rightarrow> string" where
  "trim s = trim_with is_space s"

fun split_ws :: "string \<Rightarrow> string \<Rightarrow> string list" where
  "split_ws acc [] = (if acc = [] then [] else [rev acc])"
| "split_ws acc (c # cs) =
     (if is_space c
      then (if acc = [] then split_ws [] cs else rev acc # split_ws [] cs)
      else split_ws (c # acc) cs)"

definition split_whitespace :: "string \<Rightarrow> string list" where
  "split_whitespace s = split_ws [] s"

fun join :: "string \<Rightarrow> string list \<Rightarrow> string" where
  "join sep [] = []"
| "join sep [x] = x"
| "join sep (x # y # ys) = x @ sep @ join sep (y # ys)"

text \<open>\<open>str::split\<close> on one character: always at least one piece.\<close>

fun split_on :: "char \<Rightarrow> string \<Rightarrow> string list" where
  "split_on d [] = [[]]"
| "split_on d (c # cs) =
     (if c = d then [] # split_on d cs
      else (case split_on d cs of [] \<Rightarrow> [[c]] | p # ps \<Rightarrow> (c # p) # ps))"

definition starts_with :: "string \<Rightarrow> string \<Rightarrow> bool" where
  "starts_with p s = (take (length p) s = p)"

definition strip_prefix :: "string \<Rightarrow> string \<Rightarrow> string option" where
  "strip_prefix p s = (if starts_with p s then Some (drop (length p) s) else None)"

fun contains_str :: "string \<Rightarrow> string \<Rightarrow> bool" where
  "contains_str p [] = (p = [])"
| "contains_str p (c # cs) = (starts_with p (c # cs) \<or> contains_str p cs)"

lemma split_on_not_Nil [simp]: "split_on d s \<noteq> []"
  by (induction s) (auto split: list.splits)

lemma split_on_plain: "d \<notin> set s \<Longrightarrow> split_on d s = [s]"
  by (induction s) auto

lemma split_on_append: "d \<notin> set a \<Longrightarrow> split_on d (a @ d # b) = a # split_on d b"
  by (induction a) auto

lemma split_on_join:
  "ps \<noteq> [] \<Longrightarrow> \<forall>p \<in> set ps. d \<notin> set p \<Longrightarrow> split_on d (join [d] ps) = ps"
proof (induction ps)
  case Nil
  then show ?case by simp
next
  case (Cons p ps)
  show ?case
  proof (cases ps)
    case Nil
    with Cons.prems show ?thesis by (simp add: split_on_plain)
  next
    case ps: (Cons q qs)
    have "split_on d (p @ d # join [d] ps) = p # split_on d (join [d] ps)"
      using Cons.prems by (intro split_on_append) auto
    moreover have "split_on d (join [d] ps) = ps"
      using Cons ps by auto
    ultimately show ?thesis using ps by simp
  qed
qed

lemma strip_prefix_append [simp]: "strip_prefix p (p @ s) = Some s"
  by (simp add: strip_prefix_def starts_with_def)

lemma strip_prefix_Some: "strip_prefix p s = Some r \<longleftrightarrow> s = p @ r"
  by (auto simp: strip_prefix_def starts_with_def) (metis append_take_drop_id)

section \<open>Decimal numbers\<close>

definition digit_char :: "nat \<Rightarrow> char" where
  "digit_char n = char_of (48 + n)"

definition digit_val :: "char \<Rightarrow> nat option" where
  "digit_val c = (let n = (of_char c :: nat) in if 48 \<le> n \<and> n \<le> 57 then Some (n - 48) else None)"

fun show_nat :: "nat \<Rightarrow> string" where
  "show_nat n = (if n < 10 then [digit_char n] else show_nat (n div 10) @ [digit_char (n mod 10)])"

declare show_nat.simps [simp del]

fun parse_digits :: "nat \<Rightarrow> string \<Rightarrow> nat option" where
  "parse_digits acc [] = Some acc"
| "parse_digits acc (c # cs) =
     (case digit_val c of None \<Rightarrow> None | Some d \<Rightarrow> parse_digits (10 * acc + d) cs)"

text \<open>\<open>u64::from_str\<close>: an optional \<open>+\<close>, at least one digit, no overflow.\<close>

definition parse_unsigned :: "nat \<Rightarrow> string \<Rightarrow> nat option" where
  "parse_unsigned w s =
     (let ds = (case s of c # cs \<Rightarrow> if c = CHR ''+'' then cs else s | [] \<Rightarrow> [])
      in if ds = [] then None
         else case parse_digits 0 ds of
                Some n \<Rightarrow> if n < 2 ^ w then Some n else None
              | None \<Rightarrow> None)"

definition parse_u64 :: "string \<Rightarrow> nat option" where
  "parse_u64 s = parse_unsigned 64 s"

lemma of_char_digit: "n < 10 \<Longrightarrow> (of_char (digit_char n) :: nat) = 48 + n"
  by (simp add: digit_char_def)

lemma digit_val_digit_char [simp]: "n < 10 \<Longrightarrow> digit_val (digit_char n) = Some n"
  by (simp add: digit_val_def of_char_digit)

lemma digit_char_neq_plus: "n < 10 \<Longrightarrow> digit_char n \<noteq> CHR ''+''"
proof
  assume n: "n < 10" and eq: "digit_char n = CHR ''+''"
  have "(of_char (digit_char n) :: nat) = of_char (CHR ''+'')" using eq by simp
  then have "48 + n = 43" using of_char_digit [OF n] by simp
  then show False by simp
qed

lemma parse_digits_append:
  "parse_digits acc (a @ b) =
     (case parse_digits acc a of None \<Rightarrow> None | Some n \<Rightarrow> parse_digits n b)"
  by (induction a arbitrary: acc) (auto split: option.splits)

lemma show_nat_not_Nil [simp]: "show_nat n \<noteq> []"
  by (subst show_nat.simps) simp

lemma parse_digits_show: "parse_digits 0 (show_nat n) = Some n"
proof (induction n rule: show_nat.induct)
  case (1 n)
  show ?case
  proof (cases "n < 10")
    case True
    then show ?thesis by (subst show_nat.simps) simp
  next
    case False
    have "10 * (n div 10) + n mod 10 = n" by simp
    with False 1 show ?thesis
      by (subst show_nat.simps) (simp add: parse_digits_append)
  qed
qed

lemma show_nat_digits: "c \<in> set (show_nat n) \<Longrightarrow> \<exists>d < 10. c = digit_char d"
proof (induction n rule: show_nat.induct)
  case (1 n)
  show ?case
  proof (cases "n < 10")
    case True
    then have "show_nat n = [digit_char n]" by (subst show_nat.simps) simp
    with 1 True show ?thesis by auto
  next
    case False
    then have "show_nat n = show_nat (n div 10) @ [digit_char (n mod 10)]"
      by (subst show_nat.simps) simp
    then consider "c \<in> set (show_nat (n div 10))" | "c = digit_char (n mod 10)"
      using "1.prems" by auto
    then show ?thesis
    proof cases
      case 1
      with "1.IH" False show ?thesis by blast
    next
      case 2
      moreover have "n mod 10 < 10" by simp
      ultimately show ?thesis by blast
    qed
  qed
qed

lemma parse_unsigned_show: "n < 2 ^ w \<Longrightarrow> parse_unsigned w (show_nat n) = Some n"
proof -
  assume n: "n < 2 ^ w"
  obtain c cs where s: "show_nat n = c # cs"
    using show_nat_not_Nil by (cases "show_nat n") auto
  then have "c \<noteq> CHR ''+''"
    using show_nat_digits [of c n] digit_char_neq_plus by auto
  with s n parse_digits_show [of n] show ?thesis
    by (simp add: parse_unsigned_def)
qed

lemma parse_u64_show: "n < 2 ^ 64 \<Longrightarrow> parse_u64 (show_nat n) = Some n"
  unfolding parse_u64_def by (rule parse_unsigned_show)

lemma parse_u64_bound: "parse_u64 s = Some n \<Longrightarrow> n < 2 ^ 64"
  by (auto simp: parse_u64_def parse_unsigned_def Let_def split: if_splits option.splits)

lemma show_nat_inj: "show_nat m = show_nat n \<Longrightarrow> m = n"
  using parse_digits_show by (metis option.inject)

section \<open>Integer casts\<close>

text \<open>
  Rust's \<open>as\<close> between integer types of the same or smaller width keeps the low bits;
  \<open>u64\<close> and \<open>u32\<close> values are \<open>nat\<close>, \<open>i64\<close> values are \<open>int\<close>.
\<close>

definition u64_as_i64 :: "nat \<Rightarrow> int" where
  "u64_as_i64 n = (let m = n mod 2 ^ 64 in if m < 2 ^ 63 then int m else int m - 2 ^ 64)"

definition i64_as_u64 :: "int \<Rightarrow> nat" where
  "i64_as_u64 i = nat (i mod 2 ^ 64)"

definition i64_as_u32 :: "int \<Rightarrow> nat" where
  "i64_as_u32 i = nat (i mod 2 ^ 32)"

lemma i64_as_u64_inverse: "n < 2 ^ 64 \<Longrightarrow> i64_as_u64 (u64_as_i64 n) = n"
proof -
  assume n: "n < 2 ^ 64"
  then have m: "n mod 2 ^ 64 = n" by simp
  show ?thesis
  proof (cases "n < 2 ^ 63")
    case True
    then have "int n mod 2 ^ 64 = int n" using n by simp
    with True m show ?thesis by (simp add: u64_as_i64_def i64_as_u64_def Let_def)
  next
    case False
    have "(int n - 2 ^ 64) mod 2 ^ 64 = int n mod 2 ^ 64"
      by (metis minus_mod_self2)
    also have "\<dots> = int n" using n by simp
    finally show ?thesis using False m by (simp add: u64_as_i64_def i64_as_u64_def Let_def)
  qed
qed

lemma i64_as_u32_inverse: "n < 2 ^ 32 \<Longrightarrow> i64_as_u32 (int n) = n"
  by (simp add: i64_as_u32_def)

section \<open>Bytes of integers\<close>

text \<open>\<open>to_be_bytes\<close> and \<open>from_be_bytes\<close> at a width of \<open>k\<close> bytes.\<close>

fun be_bytes :: "nat \<Rightarrow> nat \<Rightarrow> string" where
  "be_bytes 0 n = []"
| "be_bytes (Suc k) n = be_bytes k (n div 256) @ [char_of (n mod 256)]"

definition of_be_bytes :: "string \<Rightarrow> nat" where
  "of_be_bytes s = foldl (\<lambda>a c. 256 * a + of_char c) 0 s"

definition le_bytes :: "nat \<Rightarrow> nat \<Rightarrow> string" where
  "le_bytes k n = rev (be_bytes k n)"

definition of_le_bytes :: "string \<Rightarrow> nat" where
  "of_le_bytes s = of_be_bytes (rev s)"

lemma length_be_bytes [simp]: "length (be_bytes k n) = k"
  by (induction k arbitrary: n) simp_all

lemma length_le_bytes [simp]: "length (le_bytes k n) = k"
  by (simp add: le_bytes_def)

lemma of_be_be_bytes: "of_be_bytes (be_bytes k n) = n mod 256 ^ k"
proof (induction k arbitrary: n)
  case 0
  then show ?case by (simp add: of_be_bytes_def)
next
  case (Suc k)
  have "of_be_bytes (be_bytes (Suc k) n) = 256 * of_be_bytes (be_bytes k (n div 256)) + n mod 256"
    by (simp add: of_be_bytes_def)
  also have "\<dots> = 256 * (n div 256 mod 256 ^ k) + n mod 256" by (simp add: Suc)
  also have "\<dots> = n mod 256 ^ Suc k"
    by (simp add: mod_mult2_eq)
  finally show ?case .
qed

lemma of_be_bytes_inverse: "n < 256 ^ k \<Longrightarrow> of_be_bytes (be_bytes k n) = n"
  by (simp add: of_be_be_bytes)

lemma of_le_bytes_inverse: "n < 256 ^ k \<Longrightarrow> of_le_bytes (le_bytes k n) = n"
  by (simp add: of_le_bytes_def le_bytes_def of_be_be_bytes)

lemma of_be_bytes_snoc: "of_be_bytes (s @ [c]) = 256 * of_be_bytes s + of_char c"
  by (simp add: of_be_bytes_def)

lemma of_be_bytes_bound: "of_be_bytes s < 256 ^ length s"
proof (induction s rule: rev_induct)
  case Nil
  then show ?case by (simp add: of_be_bytes_def)
next
  case (snoc c s)
  have "(of_char c :: nat) < 256" by simp
  then have "256 * of_be_bytes s + of_char c < 256 * (of_be_bytes s + 1)" by simp
  also have "\<dots> \<le> 256 * 256 ^ length s" using snoc by (intro mult_le_mono2) simp
  finally show ?case by (simp add: of_be_bytes_snoc)
qed

lemma be_bytes_of_be: "be_bytes (length s) (of_be_bytes s) = s"
proof (induction s rule: rev_induct)
  case Nil
  then show ?case by simp
next
  case (snoc c s)
  have "(of_char c :: nat) < 256" by simp
  then have "(256 * of_be_bytes s + of_char c) div 256 = of_be_bytes s"
    "(256 * of_be_bytes s + of_char c) mod 256 = (of_char c :: nat)" by simp_all
  with snoc show ?case by (simp add: of_be_bytes_snoc)
qed

section \<open>FNV-1a, 64 bit\<close>

text \<open>
  The same function stands in three crates (vector ids, entity ids, cache keys):
  xor with the byte, wrapping multiply.
\<close>

definition fnv_step :: "64 word \<Rightarrow> char \<Rightarrow> 64 word" where
  "fnv_step h b = xor h (of_nat (of_char b)) * 0x100000001b3"

definition fnv1a_64 :: "string \<Rightarrow> 64 word" where
  "fnv1a_64 s = foldl fnv_step 0xcbf29ce484222325 s"

definition constant_time_eq :: "string \<Rightarrow> string \<Rightarrow> bool" where
  "constant_time_eq a b =
     (if length a \<noteq> length b then False
      else foldl (\<lambda>d (x, y). or d (xor (of_nat (of_char x)) (of_nat (of_char y))))
             (0 :: 8 word) (zip a b) = 0)"

lemma or_zero_iff: "or a b = (0 :: 'w::len word) \<longleftrightarrow> a = 0 \<and> b = 0"
  by (auto simp: or_eq_0_iff)

lemma xor_zero_imp_eq:
  assumes "xor a b = (0 :: 'w::len word)"
  shows "a = b"
proof -
  have "xor (xor a b) b = b" using assms by simp
  then show ?thesis by (simp add: xor.assoc)
qed

lemma foldl_or_zero:
  "foldl (\<lambda>d (x, y). or d (f x y)) (d :: 8 word) zs = 0
     \<longleftrightarrow> d = 0 \<and> (\<forall>(x, y) \<in> set zs. f x y = 0)"
  by (induction zs arbitrary: d) (auto simp: or_zero_iff)

lemma of_char_word_inj:
  "of_nat (of_char x) = (of_nat (of_char y) :: 8 word) \<Longrightarrow> x = y"
proof -
  assume "of_nat (of_char x) = (of_nat (of_char y) :: 8 word)"
  then have "unat (of_nat (of_char x) :: 8 word) = unat (of_nat (of_char y) :: 8 word)" by simp
  then have "(of_char x :: nat) mod 2 ^ 8 = of_char y mod 2 ^ 8"
    by (simp add: unat_of_nat)
  moreover have "(of_char x :: nat) < 256" "(of_char y :: nat) < 256" by simp_all
  ultimately have "(of_char x :: nat) = of_char y" by simp
  then show ?thesis by (metis char_of_char)
qed

lemma constant_time_eq_iff: "constant_time_eq a b \<longleftrightarrow> a = b"
proof
  assume h: "constant_time_eq a b"
  then have len: "length a = length b"
    by (auto simp: constant_time_eq_def split: if_splits)
  from h len have z:
    "\<forall>(x, y) \<in> set (zip a b). xor (of_nat (of_char x)) (of_nat (of_char y)) = (0 :: 8 word)"
    by (simp add: constant_time_eq_def foldl_or_zero)
  show "a = b"
    using len
  proof (rule nth_equalityI)
    fix i assume i: "i < length a"
    then have "(a ! i, b ! i) \<in> set (zip a b)" using len by (auto simp: in_set_zip)
    with z have "xor (of_nat (of_char (a ! i))) (of_nat (of_char (b ! i))) = (0 :: 8 word)"
      by auto
    then have "of_nat (of_char (a ! i)) = (of_nat (of_char (b ! i)) :: 8 word)"
      by (rule xor_zero_imp_eq)
    then show "a ! i = b ! i" by (rule of_char_word_inj)
  qed
next
  assume "a = b"
  then show "constant_time_eq a b"
    by (auto simp: constant_time_eq_def foldl_or_zero in_set_zip)
qed

section \<open>Lists\<close>

text \<open>Keep the first occurrence of each element (\<open>HashSet::insert\<close> as a filter).\<close>

fun dedup_seen :: "'a list \<Rightarrow> 'a list \<Rightarrow> 'a list" where
  "dedup_seen seen [] = []"
| "dedup_seen seen (x # xs) =
     (if x \<in> set seen then dedup_seen seen xs else x # dedup_seen (x # seen) xs)"

lemma set_dedup_seen: "set (dedup_seen seen xs) = set xs - set seen"
  by (induction xs arbitrary: seen) auto

lemma distinct_dedup_seen: "distinct (dedup_seen seen xs)"
  by (induction xs arbitrary: seen) (auto simp: set_dedup_seen)

lemma sum_list_0_1: "(\<Sum>x\<leftarrow>xs. if P x then 1 else 0) = length (filter P xs)"
  by (induction xs) auto

lemma find_SomeD: "find P xs = Some x \<Longrightarrow> x \<in> set xs \<and> P x"
  by (auto simp: find_Some_iff)

lemma set_map_filter: "set (List.map_filter f xs) = {y. \<exists>x \<in> set xs. f x = Some y}"
  by (force simp: List.map_filter_def)

section \<open>Fallible steps on a state\<close>

text \<open>Sequencing of two fallible steps on a state.\<close>

definition then_do ::
  "('s \<Rightarrow> 's \<times> ('e + 'a)) \<Rightarrow> ('a \<Rightarrow> 's \<Rightarrow> 's \<times> ('e + 'b)) \<Rightarrow> 's \<Rightarrow> 's \<times> ('e + 'b)" where
  "then_do f g s = (case f s of (s1, Inl e) \<Rightarrow> (s1, Inl e) | (s1, Inr a) \<Rightarrow> g a s1)"

definition return_ok :: "'a \<Rightarrow> 's \<Rightarrow> 's \<times> ('e + 'a)" where
  "return_ok a s = (s, Inr a)"

lemma then_do_Inr:
  "then_do f g s = (s', Inr b) \<longleftrightarrow> (\<exists>s1 a. f s = (s1, Inr a) \<and> g a s1 = (s', Inr b))"
  by (auto simp: then_do_def split: prod.splits sum.splits)

section \<open>UTF-8\<close>

text \<open>\<open>str::from_utf8\<close>: the well-formed byte sequences of the Unicode standard.\<close>

definition tail_byte :: "nat \<Rightarrow> nat \<Rightarrow> nat \<Rightarrow> bool" where
  "tail_byte lo hi b = (lo \<le> b \<and> b \<le> hi)"

fun utf8_bytes :: "nat list \<Rightarrow> bool" where
  "utf8_bytes [] = True"
| "utf8_bytes (a # bs) =
     (if a < 0x80 then utf8_bytes bs
      else if 0xc2 \<le> a \<and> a \<le> 0xdf
      then (case bs of b # r \<Rightarrow> tail_byte 0x80 0xbf b \<and> utf8_bytes r | _ \<Rightarrow> False)
      else if 0xe0 \<le> a \<and> a \<le> 0xef
      then (case bs of
              b # c # r \<Rightarrow>
                tail_byte (if a = 0xe0 then 0xa0 else 0x80) (if a = 0xed then 0x9f else 0xbf) b
                \<and> tail_byte 0x80 0xbf c \<and> utf8_bytes r
            | _ \<Rightarrow> False)
      else if 0xf0 \<le> a \<and> a \<le> 0xf4
      then (case bs of
              b # c # d # r \<Rightarrow>
                tail_byte (if a = 0xf0 then 0x90 else 0x80) (if a = 0xf4 then 0x8f else 0xbf) b
                \<and> tail_byte 0x80 0xbf c \<and> tail_byte 0x80 0xbf d \<and> utf8_bytes r
            | _ \<Rightarrow> False)
      else False)"

definition is_utf8 :: "string \<Rightarrow> bool" where
  "is_utf8 s = utf8_bytes (map of_char s)"

text \<open>The characters of a UTF-8 string: a first byte and the continuation bytes after it.\<close>

definition is_cont :: "char \<Rightarrow> bool" where
  "is_cont c = (128 \<le> (of_char c :: nat) \<and> (of_char c :: nat) < 192)"

function utf8_chars :: "string \<Rightarrow> string list" where
  "utf8_chars [] = []"
| "utf8_chars (c # cs) = (c # takeWhile is_cont cs) # utf8_chars (dropWhile is_cont cs)"
  by pat_completeness auto
termination
  by (relation "measure length") (auto simp: le_imp_less_Suc length_dropWhile_le)

end
