(* ===== verification/Memo.thy ===== *)
theory Memo
  imports Prelude
begin

text \<open>
  The contract of a memory of answers with a limited life: the embedding client keeps the
  vectors it got from the model, the identity check keeps the tenants it got from the issuer.
  \<open>holds c k v t\<close> says that \<open>c\<close> keeps the answer \<open>v\<close> to \<open>k\<close>, given at time \<open>t\<close>.
\<close>

locale memo =
  fixes holds :: "'c \<Rightarrow> 'k \<Rightarrow> 'v \<Rightarrow> nat \<Rightarrow> bool"
    and ask :: "nat \<Rightarrow> 'k \<Rightarrow> 'c \<Rightarrow> 'c \<times> 'v option"
    and keep :: "nat \<Rightarrow> 'k \<Rightarrow> 'v \<Rightarrow> 'c \<Rightarrow> 'c"
    and life :: "'c \<Rightarrow> nat"
  assumes ask_holds: "ask now k c = (c', Some v) \<Longrightarrow> \<exists>t. holds c k v t \<and> now \<le> t + life c"
    and ask_keeps: "ask now k c = (c', r) \<Longrightarrow> holds c' k' v t \<Longrightarrow> holds c k' v t"
    and ask_life: "ask now k c = (c', r) \<Longrightarrow> life c' = life c"
    and keep_holds: "holds (keep now k v c) k' v' t \<Longrightarrow> (k' = k \<and> v' = v \<and> t = now) \<or> holds c k' v' t"
    and keep_life: "life (keep now k v c) = life c"
begin

text \<open>Every kept answer is genuine in the sense of \<open>P\<close>.\<close>

definition genuine :: "('k \<Rightarrow> 'v \<Rightarrow> nat \<Rightarrow> bool) \<Rightarrow> 'c \<Rightarrow> bool" where
  "genuine P c = (\<forall>k v t. holds c k v t \<longrightarrow> P k v t)"

lemma genuine_answer:
  assumes "genuine P c" and "ask now k c = (c', Some v)"
  shows "\<exists>t. P k v t \<and> now \<le> t + life c"
  using assms ask_holds unfolding genuine_def by blast

lemma genuine_ask: "\<lbrakk> genuine P c; ask now k c = (c', r) \<rbrakk> \<Longrightarrow> genuine P c'"
  using ask_keeps unfolding genuine_def by blast

lemma genuine_keep: "\<lbrakk> genuine P c; P k v now \<rbrakk> \<Longrightarrow> genuine P (keep now k v c)"
  using keep_holds unfolding genuine_def by blast

lemma genuine_mono: "\<lbrakk> genuine P c; \<And>k v t. P k v t \<Longrightarrow> Q k v t \<rbrakk> \<Longrightarrow> genuine Q c"
  unfolding genuine_def by blast

lemma genuine_empty: "(\<And>k v t. \<not> holds c k v t) \<Longrightarrow> genuine P c"
  unfolding genuine_def by blast

end

end
