(* ===== verification/Core.thy ===== *)
theory Core
  imports Prelude
begin

text \<open>
  The data model of the crate \<open>fm-core\<close>: memory types and tiers, the memory item (one turn of
  a conversation), interactions and turns, entities, the namespace visibility rule, the error
  enumeration, and the reports and queries of the engine interface.

  \<open>f64\<close> values are \<open>real\<close> (rounding is not modelled), \<open>u64\<close>, \<open>u32\<close> and \<open>usize\<close> values
  are \<open>nat\<close>; where the code converts or may overflow, the conversion is written out.
  A \<open>serde_json::Value\<close> is the datatype \<open>json\<close>.
\<close>

section \<open>JSON values\<close>

datatype json =
    JNull
  | JBool bool
  | JNat nat
  | JNeg int
  | JFloat real
  | JStr string
  | JArr "json list"
  | JObj "(string \<times> json) list"

definition jget :: "json \<Rightarrow> string \<Rightarrow> json option" where
  "jget j k = (case j of JObj kvs \<Rightarrow> map_of kvs k | _ \<Rightarrow> None)"

definition jas_str :: "json \<Rightarrow> string option" where
  "jas_str j = (case j of JStr s \<Rightarrow> Some s | _ \<Rightarrow> None)"

definition jas_u64 :: "json \<Rightarrow> nat option" where
  "jas_u64 j = (case j of JNat n \<Rightarrow> Some n | _ \<Rightarrow> None)"

definition jas_bool :: "json \<Rightarrow> bool option" where
  "jas_bool j = (case j of JBool b \<Rightarrow> Some b | _ \<Rightarrow> None)"

definition jas_array :: "json \<Rightarrow> json list option" where
  "jas_array j = (case j of JArr xs \<Rightarrow> Some xs | _ \<Rightarrow> None)"

definition jget_str :: "json \<Rightarrow> string \<Rightarrow> string option" where
  "jget_str j k = Option.bind (jget j k) jas_str"

definition jget_u64 :: "json \<Rightarrow> string \<Rightarrow> nat option" where
  "jget_u64 j k = Option.bind (jget j k) jas_u64"

lemma jget_JObj [simp]: "jget (JObj kvs) k = map_of kvs k"
  by (simp add: jget_def)

lemma jas_simps [simp]:
  "jas_str (JStr s) = Some s" "jas_u64 (JNat n) = Some n" "jas_bool (JBool b) = Some b"
  "jas_array (JArr xs) = Some xs"
  by (simp_all add: jas_str_def jas_u64_def jas_bool_def jas_array_def)

section \<open>Memory types and tiers\<close>

datatype memory_type = Episodic | Semantic | Procedural

fun memory_type_as_str :: "memory_type \<Rightarrow> string" where
  "memory_type_as_str Episodic = ''Episodic''"
| "memory_type_as_str Semantic = ''Semantic''"
| "memory_type_as_str Procedural = ''Procedural''"

definition memory_type_parse :: "string \<Rightarrow> memory_type option" where
  "memory_type_parse s =
     (if s = ''Episodic'' then Some Episodic
      else if s = ''Semantic'' then Some Semantic
      else if s = ''Procedural'' then Some Procedural
      else None)"

fun initial_weight :: "memory_type \<Rightarrow> real" where
  "initial_weight Episodic = 0.6"
| "initial_weight Semantic = 0.8"
| "initial_weight Procedural = 1.0"

fun tau_seconds :: "memory_type \<Rightarrow> real" where
  "tau_seconds Episodic = 86400"
| "tau_seconds Semantic = 2592000"
| "tau_seconds Procedural = 7776000"

datatype memory_tier = Working | Short | Long

fun memory_tier_as_str :: "memory_tier \<Rightarrow> string" where
  "memory_tier_as_str Working = ''working''"
| "memory_tier_as_str Short = ''short''"
| "memory_tier_as_str Long = ''long''"

definition memory_tier_parse :: "string \<Rightarrow> memory_tier option" where
  "memory_tier_parse s =
     (if s = ''working'' then Some Working
      else if s = ''short'' then Some Short
      else if s = ''long'' then Some Long
      else None)"

text \<open>The tiers are ordered by how long a memory is meant to live.\<close>

fun tier_rank :: "memory_tier \<Rightarrow> nat" where
  "tier_rank Working = 0"
| "tier_rank Short = 1"
| "tier_rank Long = 2"

lemma tier_rank_inj: "tier_rank a = tier_rank b \<longleftrightarrow> a = b"
  by (cases a; cases b) simp_all

instantiation memory_tier :: linorder
begin

definition less_eq_memory_tier :: "memory_tier \<Rightarrow> memory_tier \<Rightarrow> bool" where
  "less_eq_memory_tier a b = (tier_rank a \<le> tier_rank b)"

definition less_memory_tier :: "memory_tier \<Rightarrow> memory_tier \<Rightarrow> bool" where
  "less_memory_tier a b = (tier_rank a < tier_rank b)"

instance
  by standard (auto simp: less_eq_memory_tier_def less_memory_tier_def tier_rank_inj)

end

lemma memory_type_parse_as_str [simp]: "memory_type_parse (memory_type_as_str t) = Some t"
  by (cases t) (simp_all add: memory_type_parse_def)

lemma memory_tier_parse_as_str [simp]: "memory_tier_parse (memory_tier_as_str t) = Some t"
  by (cases t) (simp_all add: memory_tier_parse_def)

lemma memory_type_parse_Some: "memory_type_parse s = Some t \<longleftrightarrow> s = memory_type_as_str t"
  by (cases t) (auto simp: memory_type_parse_def)

lemma initial_weight_bounds: "0 < initial_weight t \<and> initial_weight t \<le> 1"
  by (cases t) simp_all

lemma tau_seconds_pos: "0 < tau_seconds t"
  by (cases t) simp_all

section \<open>Entities\<close>

datatype entity_type = User | Preference | Project | Tech | Behavior | Goal | Concept

fun entity_type_as_str :: "entity_type \<Rightarrow> string" where
  "entity_type_as_str User = ''User''"
| "entity_type_as_str Preference = ''Preference''"
| "entity_type_as_str Project = ''Project''"
| "entity_type_as_str Tech = ''Tech''"
| "entity_type_as_str Behavior = ''Behavior''"
| "entity_type_as_str Goal = ''Goal''"
| "entity_type_as_str Concept = ''Concept''"

definition entity_type_parse :: "string \<Rightarrow> entity_type option" where
  "entity_type_parse s =
     (if s = ''User'' then Some User
      else if s = ''Preference'' then Some Preference
      else if s = ''Project'' then Some Project
      else if s = ''Tech'' then Some Tech
      else if s = ''Behavior'' then Some Behavior
      else if s = ''Goal'' then Some Goal
      else if s = ''Concept'' then Some Concept
      else None)"

fun merge_threshold :: "entity_type \<Rightarrow> real option" where
  "merge_threshold Tech = Some 0.95"
| "merge_threshold Concept = Some 0.85"
| "merge_threshold _ = None"

record entity_node =
  en_id :: string
  en_name :: string
  en_aliases :: "string list"
  en_type :: entity_type

definition entity_node_new :: "string \<Rightarrow> string \<Rightarrow> entity_type \<Rightarrow> entity_node" where
  "entity_node_new i n t = \<lparr> en_id = i, en_name = n, en_aliases = [], en_type = t \<rparr>"

lemma entity_type_parse_as_str [simp]: "entity_type_parse (entity_type_as_str t) = Some t"
  by (cases t) (simp_all add: entity_type_parse_def)

lemma entity_node_new_simps [simp]:
  "en_id (entity_node_new i n t) = i" "en_name (entity_node_new i n t) = n"
  "en_aliases (entity_node_new i n t) = []" "en_type (entity_node_new i n t) = t"
  by (simp_all add: entity_node_new_def)

section \<open>Memory items\<close>

record memory_item =
  mi_id :: string
  mi_interaction :: string
  mi_turn_idx :: nat
  mi_session :: string
  mi_tenant :: string
  mi_ns :: string
  mi_ns_key :: string
  mi_type :: memory_type
  mi_tier :: memory_tier
  mi_content :: string
  mi_entities :: "entity_node list"
  mi_vector_ref :: string
  mi_weight :: real
  mi_access_count :: nat
  mi_last_accessed :: nat
  mi_created :: nat
  mi_provenance :: "string option"
  mi_tombstone :: bool
  mi_entities_pending :: bool

definition new_turn_skeleton ::
  "string \<Rightarrow> string \<Rightarrow> nat \<Rightarrow> string \<Rightarrow> string \<Rightarrow> memory_type \<Rightarrow> string \<Rightarrow> nat \<Rightarrow> memory_item" where
  "new_turn_skeleton i ix t sess ten ty c ts =
     \<lparr> mi_id = i, mi_interaction = ix, mi_turn_idx = t, mi_session = sess, mi_tenant = ten,
       mi_ns = [], mi_ns_key = [], mi_type = ty, mi_tier = Working, mi_content = c,
       mi_entities = [], mi_vector_ref = [], mi_weight = initial_weight ty,
       mi_access_count = 0, mi_last_accessed = ts, mi_created = ts, mi_provenance = None,
       mi_tombstone = False, mi_entities_pending = True \<rparr>"

definition with_namespace :: "memory_item \<Rightarrow> string \<Rightarrow> string \<Rightarrow> memory_item" where
  "with_namespace m ns k = m\<lparr> mi_ns := ns, mi_ns_key := k \<rparr>"

lemma new_turn_skeleton_simps [simp]:
  "mi_id (new_turn_skeleton i ix t sess ten ty c ts) = i"
  "mi_interaction (new_turn_skeleton i ix t sess ten ty c ts) = ix"
  "mi_turn_idx (new_turn_skeleton i ix t sess ten ty c ts) = t"
  "mi_session (new_turn_skeleton i ix t sess ten ty c ts) = sess"
  "mi_tenant (new_turn_skeleton i ix t sess ten ty c ts) = ten"
  "mi_type (new_turn_skeleton i ix t sess ten ty c ts) = ty"
  "mi_tier (new_turn_skeleton i ix t sess ten ty c ts) = Working"
  "mi_content (new_turn_skeleton i ix t sess ten ty c ts) = c"
  "mi_entities (new_turn_skeleton i ix t sess ten ty c ts) = []"
  "mi_vector_ref (new_turn_skeleton i ix t sess ten ty c ts) = []"
  "mi_weight (new_turn_skeleton i ix t sess ten ty c ts) = initial_weight ty"
  "mi_created (new_turn_skeleton i ix t sess ten ty c ts) = ts"
  "mi_tombstone (new_turn_skeleton i ix t sess ten ty c ts) = False"
  "mi_entities_pending (new_turn_skeleton i ix t sess ten ty c ts) = True"
  by (simp_all add: new_turn_skeleton_def)

section \<open>Interactions\<close>

record tool_call =
  tc_name :: string
  tc_args :: json
  tc_summary :: string

record turn =
  tu_idx :: nat
  tu_user :: string
  tu_assistant :: string
  tu_tools :: "tool_call list"

record interaction =
  ix_id :: string
  ix_session :: string
  ix_tenant :: string
  ix_ns :: string
  ix_ns_key :: string
  ix_turns :: "turn list"
  ix_timestamp :: nat
  ix_metadata :: json

section \<open>Namespaces\<close>

definition NS_USER :: string where "NS_USER = ''user''"
definition NS_PROJECT :: string where "NS_PROJECT = ''project''"
definition NS_LOCAL :: string where "NS_LOCAL = ''local''"

definition is_valid_namespace :: "string \<Rightarrow> bool" where
  "is_valid_namespace ns = (ns = [] \<or> ns = NS_USER \<or> ns = NS_PROJECT \<or> ns = NS_LOCAL)"

record ns_filter =
  nf_ns :: string
  nf_key :: string

definition ns_filter_new :: "string \<Rightarrow> string \<Rightarrow> ns_filter" where
  "ns_filter_new ns k = \<lparr> nf_ns = ns, nf_key = k \<rparr>"

definition ns_active :: "ns_filter \<Rightarrow> bool" where
  "ns_active f = (nf_ns f \<noteq> [])"

definition ns_visible :: "ns_filter \<Rightarrow> string \<Rightarrow> string \<Rightarrow> bool" where
  "ns_visible f ns k =
     (if \<not> ns_active f then True
      else let key_ok = (nf_key f = [] \<or> k = nf_key f)
           in if nf_ns f = NS_USER then ns = NS_USER \<and> key_ok
              else if nf_ns f = NS_PROJECT then (ns = NS_PROJECT \<and> key_ok) \<or> ns = NS_USER
              else if nf_ns f = NS_LOCAL then ns = NS_LOCAL \<and> key_ok
              else False)"

definition item_visible :: "ns_filter \<Rightarrow> memory_item \<Rightarrow> bool" where
  "item_visible f m = ns_visible f (mi_ns m) (mi_ns_key m)"

lemmas ns_names = NS_USER_def NS_PROJECT_def NS_LOCAL_def

lemma ns_visible_inactive [simp]: "\<not> ns_active f \<Longrightarrow> ns_visible f ns k"
  by (simp add: ns_visible_def)

section \<open>Errors\<close>

datatype memory_error =
    ESqlite string
  | EGraph string
  | EStore string
  | EEmbed string
  | EEntityParse string
  | EConsolidation string
  | ECluster string
  | ENotFound string
  | EUnsupported string
  | EAuth string
  | EIo string
  | ESerde string
  | EEncrypt string
  | EPoisoned
  | EBusy string

fun retryable :: "memory_error \<Rightarrow> bool" where
  "retryable (EBusy _) = True"
| "retryable _ = False"

fun is_not_found :: "memory_error \<Rightarrow> bool" where
  "is_not_found (ENotFound _) = True"
| "is_not_found _ = False"

text \<open>The \<open>Display\<close> text of an error, which the reports and the RPC layer carry.\<close>

fun err_display :: "memory_error \<Rightarrow> string" where
  "err_display (ESqlite s) = ''sqlite error: '' @ s"
| "err_display (EGraph s) = ''kuzu graph error: '' @ s"
| "err_display (EStore s) = ''vector store error: '' @ s"
| "err_display (EEmbed s) = ''embed/llm error: '' @ s"
| "err_display (EEntityParse s) = ''entity parse error: '' @ s"
| "err_display (EConsolidation s) = ''consolidation error: '' @ s"
| "err_display (ECluster s) = ''cluster sync error: '' @ s"
| "err_display (ENotFound s) = ''not found: '' @ s"
| "err_display (EUnsupported s) = ''unsupported operation: '' @ s"
| "err_display (EAuth s) = ''auth error: '' @ s"
| "err_display (EIo s) = ''io error: '' @ s"
| "err_display (ESerde s) = ''serde error: '' @ s"
| "err_display (EEncrypt s) = ''encryption error: '' @ s"
| "err_display EPoisoned = ''lock poisoned (prior panic in critical section, restart required)''"
| "err_display (EBusy s) = ''resource busy (transient, retry with backoff): '' @ s"

section \<open>Queries, contexts and reports\<close>

record retrieve_query =
  rq_text :: string
  rq_top_k :: nat
  rq_session :: "string option"
  rq_tenant :: string
  rq_ns :: string
  rq_ns_key :: string
  rq_tiers :: "memory_tier list option"
  rq_budget :: nat
  rq_aggregate :: bool

definition retrieve_query_new :: "string \<Rightarrow> nat \<Rightarrow> nat \<Rightarrow> retrieve_query" where
  "retrieve_query_new t k b =
     \<lparr> rq_text = t, rq_top_k = k, rq_session = None, rq_tenant = [], rq_ns = [], rq_ns_key = [],
       rq_tiers = None, rq_budget = b, rq_aggregate = True \<rparr>"

record context_block =
  cb_interaction :: string
  cb_turns :: "turn list"
  cb_type :: memory_type
  cb_text :: string
  cb_score :: real
  cb_entities :: "string list"

record formatted_context =
  fc_blocks :: "context_block list"
  fc_tokens :: nat
  fc_stale :: bool
  fc_last_sync :: nat

record consolidation_failure =
  cf_id :: string
  cf_stage :: string
  cf_error :: string

record consolidation_report =
  cr_dropped :: nat
  cr_promoted :: nat
  cr_merged :: nat
  cr_summarized :: nat
  cr_reextracted :: nat
  cr_reconciled :: nat
  cr_elapsed :: nat
  cr_failures :: "consolidation_failure list"

definition empty_report :: consolidation_report where
  "empty_report =
     \<lparr> cr_dropped = 0, cr_promoted = 0, cr_merged = 0, cr_summarized = 0, cr_reextracted = 0,
       cr_reconciled = 0, cr_elapsed = 0, cr_failures = [] \<rparr>"

record turn_failure =
  tf_idx :: nat
  tf_stage :: string
  tf_error :: string

record commit_outcome =
  co_ids :: "string list"
  co_failed :: "turn_failure list"

record list_query =
  lq_offset :: nat
  lq_limit :: nat
  lq_type :: "string option"
  lq_ns :: string
  lq_ns_key :: string
  lq_tombstoned :: bool

definition default_limit :: nat where
  "default_limit = 50"

definition list_query_default :: list_query where
  "list_query_default =
     \<lparr> lq_offset = 0, lq_limit = default_limit, lq_type = None, lq_ns = [], lq_ns_key = [],
       lq_tombstoned = False \<rparr>"

record audit_entry =
  ae_id :: nat
  ae_at :: nat
  ae_actor :: string
  ae_action :: string
  ae_target :: string
  ae_detail :: string

record merge_entry =
  me_id :: nat
  me_at :: nat
  me_source :: string
  me_target :: string
  me_reason :: string

end
