(* ===== verification/Redact.thy ===== *)
theory Redact
  imports Core
begin

text \<open>
  Redaction of personal data before a turn is stored (\<open>fm-engine/redact.rs\<close>). The credential
  redactor (\<open>fg-redact\<close>) and the regular expressions (\<open>regex\<close>) are other crates: a
  \<open>redactor\<close> holds the first as a function, if it could be built, and the compiled patterns by
  their index in \<open>PATTERNS\<close>, as a test and as a replacement of every match.
\<close>

record redactor =
  rd_credentials :: "(string \<Rightarrow> string) option"
  rd_is_match :: "nat \<Rightarrow> string \<Rightarrow> bool"
  rd_replace_all :: "nat \<Rightarrow> (string \<Rightarrow> string) \<Rightarrow> string \<Rightarrow> string"

definition TAGS :: "string list" where
  "TAGS = [''phone'', ''email'', ''idcard'', ''bankcard'', ''ip'', ''passport'', ''ip'', ''phone'']"

definition redact_order :: "nat list" where
  "redact_order = [2, 3, 0, 1, 4, 5, 6, 7]"

definition tag_text :: "nat \<Rightarrow> string" where
  "tag_text i = ''[REDACTED:'' @ TAGS ! i @ '']''"

section \<open>The Luhn check\<close>

definition luhn_double :: "nat \<Rightarrow> nat" where
  "luhn_double d = (let dd = d * 2 in if dd > 9 then dd - 9 else dd)"

text \<open>The loop runs over the digits from the right; \<open>od\<close> tells which are taken as they are.\<close>

fun luhn_loop :: "bool \<Rightarrow> nat \<Rightarrow> string \<Rightarrow> nat option" where
  "luhn_loop od s [] = Some s"
| "luhn_loop od s (c # cs) =
     (case digit_val c of
        None \<Rightarrow> None
      | Some d \<Rightarrow> luhn_loop (\<not> od) (s + (if od then d else luhn_double d)) cs)"

definition luhn_valid :: "string \<Rightarrow> bool" where
  "luhn_valid digits =
     (case luhn_loop True 0 (rev digits) of None \<Rightarrow> False | Some s \<Rightarrow> s mod 10 = 0)"

section \<open>Redaction\<close>

definition redact_match :: "nat \<Rightarrow> string \<Rightarrow> string" where
  "redact_match i x =
     (if i = 3 then (if luhn_valid x then tag_text i else x) else tag_text i)"

definition redact_pass :: "redactor \<Rightarrow> nat \<Rightarrow> string \<Rightarrow> string" where
  "redact_pass r i = rd_replace_all r i (redact_match i)"

definition redact_text :: "redactor \<Rightarrow> string \<Rightarrow> string" where
  "redact_text r input =
     (let after_cred = (case rd_credentials r of Some f \<Rightarrow> f input | None \<Rightarrow> input)
      in if \<not> list_ex (\<lambda>i. rd_is_match r i after_cred) [0..<8] then after_cred
         else fold (redact_pass r) redact_order after_cred)"

definition parse_env_bool :: "string \<Rightarrow> bool" where
  "parse_env_bool v = (v = ''1'' \<or> eq_ignore_ascii_case v ''true'')"

definition redact_enabled_env :: "string option \<Rightarrow> bool" where
  "redact_enabled_env var = (case var of Some v \<Rightarrow> parse_env_bool v | None \<Rightarrow> True)"

section \<open>What the check detects\<close>

text \<open>What a digit at a position contributes to the sum.\<close>

definition luhn_part :: "bool \<Rightarrow> nat \<Rightarrow> nat" where
  "luhn_part od d = (if od then d else luhn_double d)"

lemma luhn_part_inj:
  assumes "d < 10" and "e < 10" and "luhn_part od d mod 10 = luhn_part od e mod 10"
  shows "d = e"
proof -
  have "d \<in> {0, 1, 2, 3, 4, 5, 6, 7, 8, 9}" "e \<in> {0, 1, 2, 3, 4, 5, 6, 7, 8, 9}"
    using assms(1,2) by auto
  then show ?thesis
    using assms(3) by (auto simp: luhn_part_def luhn_double_def split: if_splits)
qed

lemma digit_val_bound: "digit_val c = Some d \<Longrightarrow> d < 10"
  by (auto simp: digit_val_def Let_def split: if_splits)

lemma digit_val_inj: "digit_val c = Some d \<Longrightarrow> digit_val c' = Some d \<Longrightarrow> c = c'"
  by (auto simp: digit_val_def Let_def split: if_splits)
     (metis add_diff_inverse_nat char_of_char not_less of_char_of)

lemma luhn_loop_step:
  "luhn_loop od s (c # cs) = Some n \<Longrightarrow>
     \<exists>d. digit_val c = Some d \<and> luhn_loop (\<not> od) (s + luhn_part od d) cs = Some n"
  by (auto simp: luhn_part_def split: option.splits)

text \<open>The sum is the start value plus a number that depends on the digits alone.\<close>

lemma luhn_loop_shift:
  "luhn_loop od s xs = Some n \<Longrightarrow> s \<le> n \<and> luhn_loop od t xs = Some (t + (n - s))"
proof (induction od s xs arbitrary: t n rule: luhn_loop.induct)
  case (2 od s c cs)
  then obtain d where d: "digit_val c = Some d" "luhn_loop (\<not> od) (s + luhn_part od d) cs = Some n"
    using luhn_loop_step by blast
  from 2(1) [of d n "t + luhn_part od d"] d show ?case
    by (auto simp: luhn_part_def split: if_splits)
qed simp

lemma mod_10_cancel: "(x + k) mod 10 = (y + k) mod (10 :: nat) \<Longrightarrow> x mod 10 = y mod 10"
proof -
  assume "(x + k) mod 10 = (y + k) mod (10 :: nat)"
  then have "(int x + int k) mod 10 = (int y + int k) mod 10"
    by (metis of_nat_add of_nat_mod of_nat_numeral)
  then have "int x mod 10 = int y mod 10" by (simp add: mod_eq_dvd_iff)
  then show ?thesis by (metis of_nat_eq_iff of_nat_mod of_nat_numeral)
qed

lemma luhn_loop_one_digit:
  assumes "luhn_loop od s (xs @ c # ys) = Some m" and "luhn_loop od s (xs @ c' # ys) = Some n"
    and "m mod 10 = n mod 10"
  shows "c = c'"
  using assms
proof (induction xs arbitrary: od s)
  case Nil
  then obtain d e where d: "digit_val c = Some d" "luhn_loop (\<not> od) (s + luhn_part od d) ys = Some m"
    and e: "digit_val c' = Some e" "luhn_loop (\<not> od) (s + luhn_part od e) ys = Some n"
    by (metis append_Nil luhn_loop_step)
  let ?k = "m - (s + luhn_part od d)"
  have le: "s + luhn_part od d \<le> m" and n: "n = s + luhn_part od e + ?k"
    using luhn_loop_shift [OF d(2), of "s + luhn_part od e"] e(2) by auto
  have m: "m = s + luhn_part od d + ?k" using le by simp
  have "(luhn_part od d + (s + ?k)) mod 10 = (luhn_part od e + (s + ?k)) mod 10"
    using Nil(3) m n by (simp add: ac_simps)
  then have "luhn_part od d mod 10 = luhn_part od e mod 10" by (rule mod_10_cancel)
  then have "d = e" using luhn_part_inj digit_val_bound d(1) e(1) by blast
  then show ?case using digit_val_inj d(1) e(1) by blast
next
  case (Cons x xs)
  then show ?case by (auto split: option.splits)
qed

text \<open>
  The Luhn check that keeps order numbers and time stamps from being taken for bank cards
  detects every error in a single digit: of the numbers that differ from a valid one in one
  place, none is valid.\<close>
lemma luhn_detects_single_error:
  assumes "luhn_valid (a @ c # b)" and "luhn_valid (a @ c' # b)"
  shows "c = c'"
proof -
  obtain m n where "luhn_loop True 0 (rev b @ c # rev a) = Some m" "m mod 10 = 0"
    "luhn_loop True 0 (rev b @ c' # rev a) = Some n" "n mod 10 = 0"
    using assms by (auto simp: luhn_valid_def split: option.splits)
  then show ?thesis using luhn_loop_one_digit by fastforce
qed

lemma luhn_detects_witness: "\<not> luhn_valid ''79927398723''"
  using luhn_detects_single_error [of "''799273987''" "CHR ''1''" "''3''" "CHR ''2''"]
  by (auto simp: luhn_valid_def digit_val_def luhn_double_def)

end
