(* ===== verification/Persist.thy ===== *)
theory Persist
  imports Core
begin

text \<open>
  The relational store of the crate \<open>fm-persist\<close> (\<open>store.rs\<close>, \<open>error.rs\<close>): the tables, every
  statement of \<open>Persist\<close>, the namespace predicate, and the error mapping.

  A table is the list of its rows in rowid order. \<open>memory_item\<close> rows are kept decoded (the
  theory Codec models the row encoding and the encryption of two columns). \<open>INSERT OR
  REPLACE\<close> removes the row with the same key, its \<open>memory_entity\<close> rows by \<open>ON DELETE
  CASCADE\<close>, and appends. \<open>ORDER BY\<close> is a stable sort; SQLite leaves the order of ties and of
  unordered queries open, the model takes rowid order.

  Every call may fail: the pool times out, the disk is full, the database is locked. The
  field \<open>db_faults\<close> is the script of the failures to come, one entry per statement (or per
  transaction, which is rolled back as a whole); a theorem about all databases is therefore a
  theorem about every pattern of failures.
\<close>

section \<open>Errors\<close>

datatype persist_error =
    PSqlite "nat option" string
  | PSerde string
  | PIo string
  | PPoisoned
  | PPool string
  | PEncrypt string
  | PNamespace string

fun sqlite_is_busy :: "nat option \<Rightarrow> string \<Rightarrow> bool" where
  "sqlite_is_busy (Some code) txt = (code = 5 \<or> code = 6)"
| "sqlite_is_busy None txt = contains_str ''busy'' (to_ascii_lowercase txt)"

fun to_memory :: "persist_error \<Rightarrow> memory_error" where
  "to_memory (PSerde e) = ESerde e"
| "to_memory (PIo e) = EIo e"
| "to_memory PPoisoned = EPoisoned"
| "to_memory (PPool s) =
     (if contains_str ''timed out'' (to_ascii_lowercase s)
         \<or> contains_str ''busy'' (to_ascii_lowercase s)
      then EBusy s else ESqlite s)"
| "to_memory (PSqlite c s) = (if sqlite_is_busy c s then EBusy s else ESqlite s)"
| "to_memory (PEncrypt s) = EEncrypt s"
| "to_memory (PNamespace s) =
     EUnsupported (''invalid namespace: '' @ s @ '' (expect user|project|local|empty)'')"

section \<open>Tables\<close>

text \<open>The \<open>aliases\<close> column is JSON text; \<open>None\<close> is text that does not parse.\<close>

record entity_row =
  er_id :: string
  er_name :: string
  er_aliases :: "string list option"
  er_type :: string

record relation_row =
  rr_src :: string
  rr_dst :: string
  rr_type :: string
  rr_weight :: real
  rr_priority :: int
  rr_first_seen :: nat

record wop_entry =
  we_seq :: int
  we_op :: string
  we_payload :: string
  we_at :: int

record reconcile_row =
  rc_at :: nat
  rc_id :: string
  rc_stage :: string
  rc_error :: string

record db =
  db_items :: "memory_item list"
  db_entities :: "entity_row list"
  db_links :: "(string \<times> string) list"
  db_relations :: "relation_row list"
  db_consolidations :: "(nat \<times> consolidation_report) list"
  db_merges :: "merge_entry list"
  db_merge_seq :: nat
  db_reconcile :: "reconcile_row list"
  db_wop :: "wop_entry list"
  db_wop_seq :: int
  db_audit :: "audit_entry list"
  db_audit_seq :: nat
  db_faults :: "persist_error option list"

definition empty_db :: "persist_error option list \<Rightarrow> db" where
  "empty_db fs =
     \<lparr> db_items = [], db_entities = [], db_links = [], db_relations = [],
       db_consolidations = [], db_merges = [], db_merge_seq = 0, db_reconcile = [],
       db_wop = [], db_wop_seq = 0, db_audit = [], db_audit_seq = 0, db_faults = fs \<rparr>"

section \<open>One statement or transaction\<close>

definition db_op :: "(db \<Rightarrow> db \<times> 'a) \<Rightarrow> db \<Rightarrow> db \<times> (persist_error + 'a)" where
  "db_op f d =
     (case db_faults d of
        Some e # fs \<Rightarrow> (d\<lparr> db_faults := fs \<rparr>, Inl e)
      | None # fs \<Rightarrow> (case f (d\<lparr> db_faults := fs \<rparr>) of (d', a) \<Rightarrow> (d', Inr a))
      | [] \<Rightarrow> (case f d of (d', a) \<Rightarrow> (d', Inr a)))"

definition db_query :: "(db \<Rightarrow> 'a) \<Rightarrow> db \<Rightarrow> db \<times> (persist_error + 'a)" where
  "db_query q = db_op (\<lambda>d. (d, q d))"

definition db_update :: "(db \<Rightarrow> db) \<Rightarrow> db \<Rightarrow> db \<times> (persist_error + unit)" where
  "db_update u = db_op (\<lambda>d. (u d, ()))"

lemma db_op_cases:
  assumes "db_op f d = (d', r)"
  obtains (fault) e fs where "r = Inl e" "d' = d\<lparr> db_faults := fs \<rparr>"
  | (success) a fs where "r = Inr a" "f (d\<lparr> db_faults := fs \<rparr>) = (d', a)"
proof -
  show thesis
  proof (cases "db_faults d")
    case Nil
    then have "d\<lparr> db_faults := [] \<rparr> = d" by simp
    with Nil assms success [of _ "[]"] show ?thesis
      by (auto simp: db_op_def split: prod.splits)
  next
    case (Cons x fs)
    with assms fault success [of _ fs] show ?thesis
      by (cases x) (auto simp: db_op_def split: prod.splits)
  qed
qed

lemma db_op_nofault [simp]:
  "db_faults d = [] \<Longrightarrow> db_op f d = (fst (f d), Inr (snd (f d)))"
  by (simp add: db_op_def split: prod.splits)

lemma db_op_preserves:
  assumes "\<And>d fs. P (d\<lparr> db_faults := fs \<rparr>) = P d"
    and "\<And>d. P d \<Longrightarrow> P (fst (f d))" and "P d"
  shows "P (fst (db_op f d))"
proof -
  obtain d' r where dr: "db_op f d = (d', r)" by fastforce
  then show ?thesis
  proof (cases rule: db_op_cases)
    case (fault e fs)
    with dr assms(1,3) show ?thesis by simp
  next
    case (success a fs)
    then have "d' = fst (f (d\<lparr> db_faults := fs \<rparr>))" by simp
    with dr assms show ?thesis by simp
  qed
qed

lemma db_query_state: "\<exists>fs. fst (db_query q d) = d\<lparr> db_faults := fs \<rparr>"
proof -
  obtain d' r where dr: "db_op (\<lambda>d. (d, q d)) d = (d', r)" by fastforce
  then show ?thesis
    by (cases rule: db_op_cases) (auto simp: db_query_def dr)
qed

lemma db_query_Inr:
  assumes "db_query q d = (d', Inr a)" and "\<And>d fs. q (d\<lparr> db_faults := fs \<rparr>) = q d"
  shows "a = q d"
  using assms(1) unfolding db_query_def
  by (cases rule: db_op_cases) (auto simp: assms(2))

lemma db_query_nofault [simp]: "db_faults d = [] \<Longrightarrow> db_query q d = (d, Inr (q d))"
  by (simp add: db_query_def)

lemma db_update_nofault [simp]: "db_faults d = [] \<Longrightarrow> db_update u d = (u d, Inr ())"
  by (simp add: db_update_def)

section \<open>The namespace predicate\<close>

text \<open>
  \<open>ns_predicate\<close> builds SQL text with one bound parameter; the datatype is the syntax of the
  conditions it can build, \<open>QKey\<close> carrying the bound key.
\<close>

datatype sql_pred = QTrue | QNs string | QKey string | QAnd sql_pred sql_pred | QOr sql_pred sql_pred

fun sql_eval :: "sql_pred \<Rightarrow> memory_item \<Rightarrow> bool" where
  "sql_eval QTrue m = True"
| "sql_eval (QNs n) m = (mi_ns m = n)"
| "sql_eval (QKey k) m = (mi_ns_key m = k)"
| "sql_eval (QAnd a b) m = (sql_eval a m \<and> sql_eval b m)"
| "sql_eval (QOr a b) m = (sql_eval a m \<or> sql_eval b m)"

definition ns_predicate :: "ns_filter \<Rightarrow> persist_error + sql_pred" where
  "ns_predicate f =
     (if \<not> ns_active f then Inr QTrue
      else if \<not> is_valid_namespace (nf_ns f) then Inl (PNamespace (nf_ns f))
      else if nf_ns f = NS_USER then
        (if nf_key f = [] then Inr (QNs ''user'')
         else Inr (QAnd (QNs ''user'') (QKey (nf_key f))))
      else if nf_ns f = NS_PROJECT then
        (if nf_key f = [] then Inr (QOr (QNs ''project'') (QNs ''user''))
         else Inr (QOr (QAnd (QNs ''project'') (QKey (nf_key f))) (QNs ''user'')))
      else if nf_ns f = NS_LOCAL then
        (if nf_key f = [] then Inr (QNs ''local'')
         else Inr (QAnd (QNs ''local'') (QKey (nf_key f))))
      else Inl (PNamespace (nf_ns f)))"

lemma ns_predicate_Inr: "ns_predicate f = Inr p \<Longrightarrow> sql_eval p m = item_visible f m"
  by (auto simp: ns_predicate_def ns_visible_def item_visible_def Let_def ns_names
      split: if_splits)

lemma ns_predicate_Inl:
  "ns_predicate f = Inl e \<longleftrightarrow> \<not> is_valid_namespace (nf_ns f) \<and> e = PNamespace (nf_ns f)"
  by (auto simp: ns_predicate_def ns_active_def is_valid_namespace_def split: if_splits)

section \<open>Writing memory items\<close>

definition entity_row_of :: "entity_node \<Rightarrow> entity_row" where
  "entity_row_of e =
     \<lparr> er_id = en_id e, er_name = en_name e, er_aliases = Some (en_aliases e),
       er_type = entity_type_as_str (en_type e) \<rparr>"

text \<open>\<open>INSERT OR IGNORE\<close> of one entity and of its link to the item.\<close>

definition insert_entity :: "entity_node \<Rightarrow> entity_row list \<Rightarrow> entity_row list" where
  "insert_entity e rows =
     (if en_id e \<in> er_id ` set rows then rows else rows @ [entity_row_of e])"

definition insert_link :: "string \<Rightarrow> string \<Rightarrow> (string \<times> string) list \<Rightarrow> (string \<times> string) list" where
  "insert_link m e ls = (if (m, e) \<in> set ls then ls else ls @ [(m, e)])"

definition replace_item :: "memory_item \<Rightarrow> memory_item list \<Rightarrow> memory_item list" where
  "replace_item m ms = filter (\<lambda>x. mi_id x \<noteq> mi_id m) ms @ [m]"

definition put_item :: "memory_item \<Rightarrow> db \<Rightarrow> db" where
  "put_item m d =
     d\<lparr> db_items := replace_item m (db_items d),
        db_entities := fold insert_entity (mi_entities m) (db_entities d),
        db_links := fold (\<lambda>e. insert_link (mi_id m) (en_id e)) (mi_entities m)
                      (filter (\<lambda>l. fst l \<noteq> mi_id m) (db_links d)) \<rparr>"

definition put_memory :: "memory_item \<Rightarrow> db \<Rightarrow> db \<times> (persist_error + unit)" where
  "put_memory m = db_update (put_item m)"

definition add_wop :: "string \<Rightarrow> string \<Rightarrow> nat \<Rightarrow> db \<Rightarrow> db \<times> int" where
  "add_wop op payload ts d =
     (let s = db_wop_seq d + 1
      in (d\<lparr> db_wop := db_wop d @
               [\<lparr> we_seq = s, we_op = op, we_payload = payload, we_at = u64_as_i64 ts \<rparr>],
             db_wop_seq := s \<rparr>, s))"

definition put_memory_with_wop ::
  "memory_item \<Rightarrow> string \<Rightarrow> string \<Rightarrow> nat \<Rightarrow> db \<Rightarrow> db \<times> (persist_error + int)" where
  "put_memory_with_wop m op payload ts = db_op (\<lambda>d. add_wop op payload ts (put_item m d))"

section \<open>Reading memory items\<close>

definition order_created :: "memory_item list \<Rightarrow> memory_item list" where
  "order_created = sort_key (\<lambda>m. u64_as_i64 (mi_created m))"

definition order_turn :: "memory_item list \<Rightarrow> memory_item list" where
  "order_turn = sort_key mi_turn_idx"

definition find_item :: "string \<Rightarrow> db \<Rightarrow> memory_item option" where
  "find_item i d = find (\<lambda>m. mi_id m = i) (db_items d)"

definition get_memory :: "string \<Rightarrow> db \<Rightarrow> db \<times> (persist_error + memory_item option)" where
  "get_memory i = db_query (find_item i)"

definition list_by_interaction :: "string \<Rightarrow> db \<Rightarrow> db \<times> (persist_error + memory_item list)" where
  "list_by_interaction ix =
     db_query (\<lambda>d. order_turn (filter (\<lambda>m. mi_interaction m = ix \<and> \<not> mi_tombstone m) (db_items d)))"

definition list_all :: "db \<Rightarrow> db \<times> (persist_error + memory_item list)" where
  "list_all = db_query (\<lambda>d. order_created (filter (\<lambda>m. \<not> mi_tombstone m) (db_items d)))"

text \<open>A query with a namespace predicate: a pooled connection first, then the predicate.\<close>

definition scoped_query ::
  "ns_filter \<Rightarrow> (sql_pred \<Rightarrow> db \<Rightarrow> 'a) \<Rightarrow> db \<Rightarrow> db \<times> (persist_error + 'a)" where
  "scoped_query f q d =
     (case db_query (\<lambda>_. ()) d of
        (d1, Inl e) \<Rightarrow> (d1, Inl e)
      | (d1, Inr _) \<Rightarrow>
          (case ns_predicate f of Inl e \<Rightarrow> (d1, Inl e) | Inr p \<Rightarrow> db_query (q p) d1))"

definition list_all_by_tenant_scoped ::
  "string \<Rightarrow> ns_filter \<Rightarrow> db \<Rightarrow> db \<times> (persist_error + memory_item list)" where
  "list_all_by_tenant_scoped ten f =
     scoped_query f (\<lambda>p d. order_created
       (filter (\<lambda>m. \<not> mi_tombstone m \<and> mi_tenant m = ten \<and> sql_eval p m) (db_items d)))"

definition list_all_by_tenant :: "string \<Rightarrow> db \<Rightarrow> db \<times> (persist_error + memory_item list)" where
  "list_all_by_tenant ten = list_all_by_tenant_scoped ten (ns_filter_new [] [])"

definition get_by_vector_refs :: "nat list \<Rightarrow> db \<Rightarrow> db \<times> (persist_error + memory_item list)" where
  "get_by_vector_refs vs d =
     (if vs = [] then (d, Inr [])
      else db_query (\<lambda>d. filter (\<lambda>m. \<not> mi_tombstone m \<and> mi_vector_ref m \<in> set (map show_nat vs))
             (db_items d)) d)"

definition get_by_vector_refs_tenant_scoped ::
  "nat list \<Rightarrow> string \<Rightarrow> ns_filter \<Rightarrow> db \<Rightarrow> db \<times> (persist_error + memory_item list)" where
  "get_by_vector_refs_tenant_scoped vs ten f d =
     (if vs = [] then (d, Inr [])
      else scoped_query f (\<lambda>p d.
             filter (\<lambda>m. \<not> mi_tombstone m \<and> mi_tenant m = ten \<and> sql_eval p m
                        \<and> mi_vector_ref m \<in> set (map show_nat vs)) (db_items d)) d)"

definition get_by_vector_refs_tenant ::
  "nat list \<Rightarrow> string \<Rightarrow> db \<Rightarrow> db \<times> (persist_error + memory_item list)" where
  "get_by_vector_refs_tenant vs ten = get_by_vector_refs_tenant_scoped vs ten (ns_filter_new [] [])"

definition count_where :: "(memory_item \<Rightarrow> bool) \<Rightarrow> db \<Rightarrow> db \<times> (persist_error + nat)" where
  "count_where p =
     db_query (\<lambda>d. length (filter (\<lambda>m. \<not> mi_tombstone m \<and> p m) (db_items d)))"

definition count_all :: "db \<Rightarrow> db \<times> (persist_error + nat)" where
  "count_all = count_where (\<lambda>m. True)"

definition count_by_tenant :: "string \<Rightarrow> db \<Rightarrow> db \<times> (persist_error + nat)" where
  "count_by_tenant ten = count_where (\<lambda>m. mi_tenant m = ten)"

definition count_by_session_tenant ::
  "string option \<Rightarrow> string \<Rightarrow> db \<Rightarrow> db \<times> (persist_error + nat)" where
  "count_by_session_tenant s ten =
     (case s of
        Some sess \<Rightarrow> count_where (\<lambda>m. mi_tenant m = ten \<and> mi_session m = sess)
      | None \<Rightarrow> count_where (\<lambda>m. mi_tenant m = ten))"

definition count_by_session :: "string option \<Rightarrow> db \<Rightarrow> db \<times> (persist_error + nat)" where
  "count_by_session s =
     (case s of Some sess \<Rightarrow> count_where (\<lambda>m. mi_session m = sess) | None \<Rightarrow> count_where (\<lambda>m. True))"

text \<open>
  The audit query joins the link table without \<open>DISTINCT\<close>: an item appears once for each of
  the asked entities it has.
\<close>

definition audit_by_entities ::
  "string list \<Rightarrow> db \<Rightarrow> db \<times> (persist_error + memory_item list)" where
  "audit_by_entities es d =
     (if es = [] then (d, Inr [])
      else db_query (\<lambda>d. order_created
             (concat (map (\<lambda>m. map (\<lambda>_. m)
                (filter (\<lambda>l. fst l = mi_id m \<and> snd l \<in> set es) (db_links d)))
                (filter (\<lambda>m. \<not> mi_tombstone m) (db_items d))))) d)"

definition list_by_session :: "string \<Rightarrow> db \<Rightarrow> db \<times> (persist_error + memory_item list)" where
  "list_by_session s =
     db_query (\<lambda>d. order_turn (filter (\<lambda>m. mi_session m = s \<and> \<not> mi_tombstone m) (db_items d)))"

definition list_by_session_tenant ::
  "string \<Rightarrow> string \<Rightarrow> db \<Rightarrow> db \<times> (persist_error + memory_item list)" where
  "list_by_session_tenant s ten =
     db_query (\<lambda>d. order_turn
       (filter (\<lambda>m. mi_session m = s \<and> mi_tenant m = ten \<and> \<not> mi_tombstone m) (db_items d)))"

definition list_changed_since_scoped ::
  "nat \<Rightarrow> ns_filter \<Rightarrow> db \<Rightarrow> db \<times> (persist_error + memory_item list)" where
  "list_changed_since_scoped since f =
     scoped_query f (\<lambda>p d. order_created
       (filter (\<lambda>m. \<not> mi_tombstone m
                  \<and> (u64_as_i64 (mi_last_accessed m) > u64_as_i64 since
                     \<or> u64_as_i64 (mi_created m) > u64_as_i64 since)
                  \<and> sql_eval p m) (db_items d)))"

definition list_changed_since :: "nat \<Rightarrow> db \<Rightarrow> db \<times> (persist_error + memory_item list)" where
  "list_changed_since since = list_changed_since_scoped since (ns_filter_new [] [])"

definition list_tombstoned :: "db \<Rightarrow> db \<times> (persist_error + memory_item list)" where
  "list_tombstoned = db_query (\<lambda>d. filter mi_tombstone (db_items d))"

section \<open>Updating memory items\<close>

definition update_items :: "(memory_item \<Rightarrow> bool) \<Rightarrow> (memory_item \<Rightarrow> memory_item) \<Rightarrow> db \<Rightarrow> db" where
  "update_items p u d = d\<lparr> db_items := map (\<lambda>m. if p m then u m else m) (db_items d) \<rparr>"

definition tombstone_memory :: "string \<Rightarrow> db \<Rightarrow> db \<times> (persist_error + unit)" where
  "tombstone_memory i = db_update (update_items (\<lambda>m. mi_id m = i) (mi_tombstone_update (\<lambda>_. True)))"

definition untombstone_memory :: "string \<Rightarrow> db \<Rightarrow> db \<times> (persist_error + unit)" where
  "untombstone_memory i =
     db_update (update_items (\<lambda>m. mi_id m = i) (mi_tombstone_update (\<lambda>_. False)))"

definition delete_where :: "(memory_item \<Rightarrow> bool) \<Rightarrow> db \<Rightarrow> db \<times> (persist_error + nat)" where
  "delete_where p =
     db_op (\<lambda>d. (update_items (\<lambda>m. p m \<and> \<not> mi_tombstone m) (mi_tombstone_update (\<lambda>_. True)) d,
                 length (filter (\<lambda>m. p m \<and> \<not> mi_tombstone m) (db_items d))))"

definition delete_by_session :: "string \<Rightarrow> db \<Rightarrow> db \<times> (persist_error + nat)" where
  "delete_by_session s = delete_where (\<lambda>m. mi_session m = s)"

definition delete_by_session_tenant ::
  "string \<Rightarrow> string \<Rightarrow> db \<Rightarrow> db \<times> (persist_error + nat)" where
  "delete_by_session_tenant s ten = delete_where (\<lambda>m. mi_session m = s \<and> mi_tenant m = ten)"

definition touch_item :: "nat \<Rightarrow> memory_item \<Rightarrow> memory_item" where
  "touch_item now m = m\<lparr> mi_access_count := mi_access_count m + 1, mi_last_accessed := now \<rparr>"

definition touch_access :: "string \<Rightarrow> nat \<Rightarrow> db \<Rightarrow> db \<times> (persist_error + unit)" where
  "touch_access i now =
     db_update (update_items (\<lambda>m. mi_id m = i \<and> \<not> mi_tombstone m) (touch_item now))"

definition touch_access_batch :: "string list \<Rightarrow> nat \<Rightarrow> db \<Rightarrow> db \<times> (persist_error + unit)" where
  "touch_access_batch ids now d =
     (if ids = [] then (d, Inr ())
      else let unique = dedup_seen [] ids
           in if unique = [] then (d, Inr ())
              else db_update (update_items
                     (\<lambda>m. mi_id m \<in> set unique \<and> \<not> mi_tombstone m) (touch_item now)) d)"

definition delete_item :: "string \<Rightarrow> db \<Rightarrow> db" where
  "delete_item i d =
     d\<lparr> db_items := filter (\<lambda>m. mi_id m \<noteq> i) (db_items d),
        db_links := filter (\<lambda>l. fst l \<noteq> i) (db_links d) \<rparr>"

definition physical_delete :: "string \<Rightarrow> db \<Rightarrow> db \<times> (persist_error + unit)" where
  "physical_delete i = db_update (delete_item i)"

section \<open>Logs\<close>

text \<open>A SQL \<open>LIMIT\<close> bound from a \<open>usize\<close> or \<open>u64\<close> cast to \<open>i64\<close>: a negative limit is none.\<close>

definition sql_limit :: "nat \<Rightarrow> 'a list \<Rightarrow> 'a list" where
  "sql_limit n xs = (let i = u64_as_i64 n in if i < 0 then xs else take (nat i) xs)"

text \<open>
  The consolidation row and each failure row are statements of their own, outside a
  transaction.
\<close>

fun insert_failures ::
  "nat \<Rightarrow> consolidation_failure list \<Rightarrow> db \<Rightarrow> db \<times> (persist_error + unit)" where
  "insert_failures started [] d = (d, Inr ())"
| "insert_failures started (f # fs) d =
     (case db_update (\<lambda>d. d\<lparr> db_reconcile := db_reconcile d @
              [\<lparr> rc_at = started, rc_id = cf_id f, rc_stage = cf_stage f, rc_error = cf_error f \<rparr>] \<rparr>) d
      of (d1, Inl e) \<Rightarrow> (d1, Inl e)
       | (d1, Inr _) \<Rightarrow> insert_failures started fs d1)"

definition record_consolidation ::
  "consolidation_report \<Rightarrow> nat \<Rightarrow> db \<Rightarrow> db \<times> (persist_error + unit)" where
  "record_consolidation rep started d =
     (case db_update (\<lambda>d. d\<lparr> db_consolidations := db_consolidations d @ [(started, rep)] \<rparr>) d of
        (d1, Inl e) \<Rightarrow> (d1, Inl e)
      | (d1, Inr _) \<Rightarrow> insert_failures started (cr_failures rep) d1)"

definition append_wop :: "string \<Rightarrow> string \<Rightarrow> nat \<Rightarrow> db \<Rightarrow> db \<times> (persist_error + int)" where
  "append_wop op payload ts = db_op (add_wop op payload ts)"

definition max_seq :: "wop_entry list \<Rightarrow> int" where
  "max_seq ws = (if ws = [] then 0 else Max (we_seq ` set ws))"

definition last_wop_seq :: "db \<Rightarrow> db \<times> (persist_error + int)" where
  "last_wop_seq = db_query (\<lambda>d. max_seq (db_wop d))"

definition wop_since :: "int \<Rightarrow> nat \<Rightarrow> wop_entry list \<Rightarrow> wop_entry list" where
  "wop_since since lmt ws = sql_limit lmt (sort_key we_seq (filter (\<lambda>w. we_seq w > since) ws))"

definition list_wop_since :: "int \<Rightarrow> nat \<Rightarrow> db \<Rightarrow> db \<times> (persist_error + wop_entry list)" where
  "list_wop_since since lmt = db_query (\<lambda>d. wop_since since lmt (db_wop d))"

definition prune_wop_before :: "int \<Rightarrow> db \<Rightarrow> db \<times> (persist_error + nat)" where
  "prune_wop_before before =
     db_op (\<lambda>d. (d\<lparr> db_wop := filter (\<lambda>w. \<not> we_seq w < before) (db_wop d) \<rparr>,
                 length (filter (\<lambda>w. we_seq w < before) (db_wop d))))"

definition record_merge ::
  "string \<Rightarrow> string \<Rightarrow> string \<Rightarrow> nat \<Rightarrow> db \<Rightarrow> db \<times> (persist_error + unit)" where
  "record_merge src tgt reason ts =
     db_update (\<lambda>d. let i = db_merge_seq d + 1 in
       d\<lparr> db_merges := db_merges d @
            [\<lparr> me_id = i, me_at = ts, me_source = src, me_target = tgt, me_reason = reason \<rparr>],
          db_merge_seq := i \<rparr>)"

definition list_merge_log :: "db \<Rightarrow> db \<times> (persist_error + merge_entry list)" where
  "list_merge_log = db_query (\<lambda>d. rev (sort_key me_id (db_merges d)))"

text \<open>
  \<open>unmerge\<close> of a merge id: an error of the \<open>SELECT\<close> is turned into "no such merge" by
  \<open>.ok()\<close>.
\<close>

definition unmerge_log :: "nat \<Rightarrow> db \<Rightarrow> db \<times> (persist_error + (string \<times> string) option)" where
  "unmerge_log mid d =
     (case db_query (\<lambda>_. ()) d of
        (d1, Inl e) \<Rightarrow> (d1, Inl e)
      | (d1, Inr _) \<Rightarrow>
          (case db_query (\<lambda>d. find (\<lambda>r. me_id r = mid) (db_merges d)) d1 of
             (d2, Inl e) \<Rightarrow> (d2, Inr None)
           | (d2, Inr None) \<Rightarrow> (d2, Inr None)
           | (d2, Inr (Some r)) \<Rightarrow>
               (case db_update (\<lambda>d. d\<lparr> db_merges := filter (\<lambda>r. me_id r \<noteq> mid) (db_merges d) \<rparr>) d2 of
                  (d3, Inl e) \<Rightarrow> (d3, Inl e)
                | (d3, Inr _) \<Rightarrow> (d3, Inr (Some (me_source r, me_target r))))))"

definition append_reconcile ::
  "nat \<Rightarrow> string \<Rightarrow> string \<Rightarrow> string \<Rightarrow> db \<Rightarrow> db \<times> (persist_error + unit)" where
  "append_reconcile ts i stage err =
     db_update (\<lambda>d. d\<lparr> db_reconcile := db_reconcile d @
       [\<lparr> rc_at = ts, rc_id = i, rc_stage = stage, rc_error = err \<rparr>] \<rparr>)"

definition append_audit ::
  "nat \<Rightarrow> string \<Rightarrow> string \<Rightarrow> string \<Rightarrow> string \<Rightarrow> db \<Rightarrow> db \<times> (persist_error + unit)" where
  "append_audit ts actor action target detail =
     db_update (\<lambda>d. let i = db_audit_seq d + 1 in
       d\<lparr> db_audit := db_audit d @
            [\<lparr> ae_id = i, ae_at = ts, ae_actor = actor, ae_action = action, ae_target = target,
               ae_detail = detail \<rparr>],
          db_audit_seq := i \<rparr>)"

definition list_audit :: "nat option \<Rightarrow> db \<Rightarrow> db \<times> (persist_error + audit_entry list)" where
  "list_audit lmt =
     db_query (\<lambda>d. sql_limit (case lmt of None \<Rightarrow> 2 ^ 63 - 1 | Some n \<Rightarrow> n)
                     (rev (sort_key ae_id (db_audit d))))"

definition last_consolidate_at :: "db \<Rightarrow> db \<times> (persist_error + nat)" where
  "last_consolidate_at =
     db_query (\<lambda>d. if db_consolidations d = [] then 0
                    else i64_as_u64 (Max ((u64_as_i64 \<circ> fst) ` set (db_consolidations d))))"

section \<open>Entities and relations\<close>

definition put_relation ::
  "string \<Rightarrow> string \<Rightarrow> string \<Rightarrow> real \<Rightarrow> int \<Rightarrow> nat \<Rightarrow> db \<Rightarrow> db \<times> (persist_error + unit)" where
  "put_relation src dst ty w pr seen =
     db_update (\<lambda>d.
       if (\<exists>r \<in> set (db_relations d). rr_src r = src \<and> rr_dst r = dst \<and> rr_type r = ty) then d
       else d\<lparr> db_relations := db_relations d @
              [\<lparr> rr_src = src, rr_dst = dst, rr_type = ty, rr_weight = w, rr_priority = pr,
                 rr_first_seen = seen \<rparr>] \<rparr>)"

definition list_relations_from ::
  "string \<Rightarrow> db \<Rightarrow> db \<times> (persist_error + (string \<times> string \<times> real) list)" where
  "list_relations_from src =
     db_query (\<lambda>d. map (\<lambda>r. (rr_dst r, rr_type r, rr_weight r))
                     (filter (\<lambda>r. rr_src r = src) (db_relations d)))"

definition list_entities_by_type ::
  "string \<Rightarrow> db \<Rightarrow> db \<times> (persist_error + (string \<times> string \<times> string list option) list)" where
  "list_entities_by_type ty =
     db_query (\<lambda>d. map (\<lambda>r. (er_id r, er_name r, er_aliases r))
                     (filter (\<lambda>r. er_type r = ty) (db_entities d)))"

definition append_entity_alias :: "string \<Rightarrow> string \<Rightarrow> db \<Rightarrow> db \<times> (persist_error + unit)" where
  "append_entity_alias eid al d =
     (case db_query (\<lambda>d. find (\<lambda>r. er_id r = eid) (db_entities d)) d of
        (d1, Inl e) \<Rightarrow> (d1, Inl e)
      | (d1, Inr None) \<Rightarrow> (d1, Inr ())
      | (d1, Inr (Some r)) \<Rightarrow>
          (let als = (case er_aliases r of Some v \<Rightarrow> v | None \<Rightarrow> [])
           in if \<not> (\<exists>a \<in> set als. eq_ignore_ascii_case a al)
              then db_update (\<lambda>d. d\<lparr> db_entities :=
                     map (\<lambda>x. if er_id x = eid then x\<lparr> er_aliases := Some (als @ [al]) \<rparr> else x)
                       (db_entities d) \<rparr>) d1
              else (d1, Inr ())))"

text \<open>
  The recursive query: level \<open>0\<close> is the start, level \<open>l + 1\<close> follows every edge from every
  row of level \<open>l\<close> (\<open>UNION ALL\<close>, no deduplication); then one row per node with its least
  level, ordered by level (ties in the order of \<open>GROUP BY\<close>), at most 256 of them.
\<close>

definition N_HOP_RESULT_LIMIT :: nat where
  "N_HOP_RESULT_LIMIT = 256"

definition dsts :: "relation_row list \<Rightarrow> string \<Rightarrow> string list" where
  "dsts rs n = map rr_dst (filter (\<lambda>r. rr_src r = n) rs)"

fun hop_rows :: "relation_row list \<Rightarrow> nat \<Rightarrow> nat \<Rightarrow> string list \<Rightarrow> (nat \<times> string) list" where
  "hop_rows rs lvl 0 ns = map (\<lambda>n. (lvl, n)) ns"
| "hop_rows rs lvl (Suc k) ns =
     map (\<lambda>n. (lvl, n)) ns @ hop_rows rs (Suc lvl) k (concat (map (dsts rs) ns))"

definition first_hops :: "(nat \<times> string) list \<Rightarrow> (string \<times> nat) list" where
  "first_hops rows =
     sort_key snd (map (\<lambda>n. (n, Min (fst ` set (filter (\<lambda>r. snd r = n) rows))))
       (sorted_list_of_set (snd ` set rows)))"

definition n_hops :: "relation_row list \<Rightarrow> string \<Rightarrow> nat \<Rightarrow> (string \<times> nat) list" where
  "n_hops rs start lmt =
     take N_HOP_RESULT_LIMIT
       (first_hops (filter (\<lambda>r. snd r \<noteq> start) (hop_rows rs 0 lmt [start])))"

definition n_hop_reachable ::
  "string \<Rightarrow> nat \<Rightarrow> db \<Rightarrow> db \<times> (persist_error + (string \<times> nat) list)" where
  "n_hop_reachable start lmt =
     db_query (\<lambda>d. n_hops (db_relations d) start (nat (u64_as_i64 lmt)))"

end
