(* ===== verification/ClusterBase.thy ===== *)
theory ClusterBase
  imports Persist
begin

text \<open>
  The errors of the crate \<open>fm-cluster\<close> (\<open>error.rs\<close>) with their \<open>Display\<close> texts, and which of
  them a follower treats as permanent.
\<close>

datatype cluster_error =
    KIo string
  | KSerde string
  | KPersist persist_error
  | KMemory memory_error
  | KReplay string
  | KTransport string
  | KLeaderDown nat
  | KNotLeader string
  | KNotFollower string
  | KStaleLeader nat nat
  | KPermanentReplay string
  | KAuthNotConfigured
  | KBindRequiresToken string

fun is_permanent :: "cluster_error \<Rightarrow> bool" where
  "is_permanent (KPermanentReplay _) = True"
| "is_permanent (KStaleLeader _ _) = True"
| "is_permanent KAuthNotConfigured = True"
| "is_permanent (KBindRequiresToken _) = True"
| "is_permanent (KNotLeader _) = True"
| "is_permanent (KNotFollower _) = True"
| "is_permanent _ = False"

fun persist_display :: "persist_error \<Rightarrow> string" where
  "persist_display (PSqlite c s) = ''sqlite error: '' @ s"
| "persist_display (PSerde s) = ''serde error: '' @ s"
| "persist_display (PIo s) = ''io error: '' @ s"
| "persist_display PPoisoned = ''persist conn lock poisoned (prior panic in critical section)''"
| "persist_display (PPool s) = ''connection pool error: '' @ s"
| "persist_display (PEncrypt s) = ''encryption error: '' @ s"
| "persist_display (PNamespace s) = ''invalid namespace: '' @ s"

fun cluster_display :: "cluster_error \<Rightarrow> string" where
  "cluster_display (KIo s) = ''cluster io: '' @ s"
| "cluster_display (KSerde s) = ''cluster serde: '' @ s"
| "cluster_display (KPersist e) = ''cluster persist: '' @ persist_display e"
| "cluster_display (KMemory e) = ''cluster memory: '' @ err_display e"
| "cluster_display (KReplay s) = ''cluster replay: '' @ s"
| "cluster_display (KTransport s) = ''cluster transport: '' @ s"
| "cluster_display (KLeaderDown n) = ''leader down: '' @ show_nat n @ '' consecutive heartbeat fails''"
| "cluster_display (KNotLeader s) = ''not a leader (role='' @ s @ '')''"
| "cluster_display (KNotFollower s) = ''not a follower (role='' @ s @ '')''"
| "cluster_display (KStaleLeader l e) =
     ''stale leader epoch: leader='' @ show_nat l @ '' < expected='' @ show_nat e"
| "cluster_display (KPermanentReplay s) = ''permanent replay failure: '' @ s"
| "cluster_display KAuthNotConfigured =
     ''cluster auth not configured: no token and FUSION_MEMORY_CLUSTER_ALLOW_NO_TOKEN unset''"
| "cluster_display (KBindRequiresToken a) =
     ''cluster bind to non-loopback '' @ a @ '' requires FUSION_MEMORY_CLUSTER_TOKEN''"

end
