(* ===== verification/Similarity.thy ===== *)
theory Similarity
  imports Core
begin

text \<open>
  The numeric core of the crate \<open>fm-similarity\<close>: the forgetting curve and the cosine. \<open>f32\<close>
  and \<open>f64\<close> arithmetic is real arithmetic here: the bounds below are those of the formulas,
  rounding is not modelled.
\<close>

section \<open>The forgetting curve\<close>

definition REINFORCE_CAP :: real where
  "REINFORCE_CAP = 5"

definition reinforce_factor :: "nat \<Rightarrow> real" where
  "reinforce_factor n = min (1 + log 2 (real n + 1)) REINFORCE_CAP"

definition weight_at :: "real \<Rightarrow> nat \<Rightarrow> nat \<Rightarrow> memory_type \<Rightarrow> nat \<Rightarrow> real" where
  "weight_at w0 created now ty acc =
     (let dt = real (now - created); tau = tau_seconds ty; decay = exp (- dt / tau)
      in w0 * decay * reinforce_factor acc)"

lemma reinforce_bounds: "1 \<le> reinforce_factor n" "reinforce_factor n \<le> 5"
proof -
  have "0 \<le> log 2 (real n + 1)" by simp
  then show "1 \<le> reinforce_factor n" "reinforce_factor n \<le> 5"
    by (simp_all add: reinforce_factor_def REINFORCE_CAP_def)
qed

lemma reinforce_mono: "m \<le> n \<Longrightarrow> reinforce_factor m \<le> reinforce_factor n"
  unfolding reinforce_factor_def by (intro min.mono add_left_mono) auto

lemma reinforce_capped: "15 \<le> n \<Longrightarrow> reinforce_factor n = 5"
proof -
  assume n: "15 \<le> n"
  have "(2 :: real) powr 4 \<le> real n + 1" using n by simp
  then have "4 \<le> log 2 (real n + 1)" by (subst le_log_iff) auto
  then show ?thesis by (simp add: reinforce_factor_def REINFORCE_CAP_def)
qed

lemma reinforce_zero [simp]: "reinforce_factor 0 = 1"
  by (simp add: reinforce_factor_def REINFORCE_CAP_def)

lemma decay_bounds: "0 < exp (- real d / tau_seconds ty)" "exp (- real d / tau_seconds ty) \<le> 1"
  using tau_seconds_pos [of ty] by (simp_all add: less_imp_le)

lemma weight_nonneg: "0 \<le> w0 \<Longrightarrow> 0 \<le> weight_at w0 c n ty a"
  using reinforce_bounds(1) [of a] by (simp add: weight_at_def Let_def)

lemma weight_le: "0 \<le> w0 \<Longrightarrow> weight_at w0 c n ty a \<le> 5 * w0"
proof -
  assume w: "0 \<le> w0"
  let ?e = "exp (- real (n - c) / tau_seconds ty)"
  have "w0 * ?e \<le> w0" using w decay_bounds(2) [of "n - c" ty] by (simp add: mult_left_le)
  moreover have "0 \<le> w0 * ?e" using w by simp
  ultimately have "w0 * ?e * reinforce_factor a \<le> w0 * 5"
    using reinforce_bounds [of a] w by (intro mult_mono) auto
  then show ?thesis by (simp add: weight_at_def Let_def)
qed

lemma weight_antimono_now:
  "\<lbrakk> 0 \<le> w0; n \<le> m \<rbrakk> \<Longrightarrow> weight_at w0 c m ty a \<le> weight_at w0 c n ty a"
proof -
  assume w: "0 \<le> w0" and nm: "n \<le> m"
  have "real (n - c) \<le> real (m - c)" using nm by simp
  then have "exp (- real (m - c) / tau_seconds ty) \<le> exp (- real (n - c) / tau_seconds ty)"
    using tau_seconds_pos [of ty] by (simp add: divide_right_mono less_imp_le)
  then show ?thesis
    using w reinforce_bounds(1) [of a]
    by (simp add: weight_at_def Let_def mult_left_mono mult_right_mono)
qed

section \<open>Cosine\<close>

fun dot3 :: "real list \<Rightarrow> real list \<Rightarrow> real \<times> real \<times> real" where
  "dot3 (x # xs) (y # ys) =
     (case dot3 xs ys of (d, a, b) \<Rightarrow> (x * y + d, x * x + a, y * y + b))"
| "dot3 _ _ = (0, 0, 0)"

definition cosine :: "real list \<Rightarrow> real list \<Rightarrow> real option" where
  "cosine a b =
     (if length a \<noteq> length b then None
      else case dot3 a b of (dot, na, nb) \<Rightarrow>
             let denom = sqrt (na * nb)
             in if denom = 0 then Some 0 else Some (dot / denom))"

lemma dot3_nonneg: "dot3 xs ys = (d, a, b) \<Longrightarrow> 0 \<le> a \<and> 0 \<le> b"
  by (induction xs ys arbitrary: d a b rule: dot3.induct)
    (auto split: prod.splits intro: add_nonneg_nonneg)

lemma cauchy_schwarz: "dot3 xs ys = (d, a, b) \<Longrightarrow> d\<^sup>2 \<le> a * b"
proof (induction xs ys arbitrary: d a b rule: dot3.induct)
  case (1 x xs y ys)
  obtain d' a' b' where r: "dot3 xs ys = (d', a', b')" by (metis prod_cases3)
  then have ih: "d'\<^sup>2 \<le> a' * b'" and nn: "0 \<le> a'" "0 \<le> b'"
    using 1 dot3_nonneg by auto
  have eq: "d = x * y + d'" "a = x * x + a'" "b = y * y + b'" using 1 r by auto
  have "\<bar>d'\<bar> \<le> sqrt (a' * b')"
    using ih by (simp add: real_le_rsqrt)
  then have "2 * \<bar>x * y\<bar> * \<bar>d'\<bar> \<le> 2 * \<bar>x * y\<bar> * sqrt (a' * b')"
    by (intro mult_left_mono) auto
  also have "\<dots> = 2 * (\<bar>x\<bar> * sqrt b') * (\<bar>y\<bar> * sqrt a')"
    by (simp add: real_sqrt_mult abs_mult)
  also have "\<dots> \<le> (\<bar>x\<bar> * sqrt b')\<^sup>2 + (\<bar>y\<bar> * sqrt a')\<^sup>2"
    by (rule sum_squares_bound)
  also have "\<dots> = x\<^sup>2 * b' + y\<^sup>2 * a'" using nn by (simp add: power_mult_distrib)
  finally have bound: "2 * \<bar>x * y\<bar> * \<bar>d'\<bar> \<le> x\<^sup>2 * b' + y\<^sup>2 * a'" .
  have "(x * y) * d' \<le> \<bar>x * y\<bar> * \<bar>d'\<bar>"
    by (metis abs_ge_self abs_mult)
  with bound have "2 * (x * y) * d' \<le> x\<^sup>2 * b' + y\<^sup>2 * a'" by linarith
  moreover have "d\<^sup>2 = (x * y)\<^sup>2 + 2 * (x * y) * d' + d'\<^sup>2"
    by (simp add: eq power2_sum)
  moreover have "a * b = (x * y)\<^sup>2 + (x\<^sup>2 * b' + y\<^sup>2 * a') + a' * b'"
    by (simp add: eq power2_eq_square algebra_simps)
  ultimately show ?case using ih by linarith
qed auto

lemma cosine_bounds: "cosine a b = Some c \<Longrightarrow> \<bar>c\<bar> \<le> 1"
proof -
  assume h: "cosine a b = Some c"
  obtain d na nb where r: "dot3 a b = (d, na, nb)" by (metis prod_cases3)
  show ?thesis
  proof (cases "sqrt (na * nb) = 0")
    case True
    with h r show ?thesis by (auto simp: cosine_def Let_def split: if_splits)
  next
    case False
    have nn: "0 \<le> na * nb" using dot3_nonneg [OF r] by simp
    have "\<bar>d\<bar> \<le> sqrt (na * nb)"
      using cauchy_schwarz [OF r] by (simp add: real_le_rsqrt)
    moreover have "0 < sqrt (na * nb)" using False nn by (simp add: less_le)
    moreover have "c = d / sqrt (na * nb)"
      using h r False by (simp add: cosine_def Let_def split: if_splits)
    ultimately show ?thesis by simp
  qed
qed

lemma dot3_self: "\<exists>n. dot3 xs xs = (n, n, n)"
  by (induction xs) (auto split: prod.splits)

lemma dot3_self_zero: "dot3 xs xs = (0, 0, 0) \<Longrightarrow> \<forall>x \<in> set xs. x = 0"
proof (induction xs)
  case (Cons x xs)
  obtain n where n: "dot3 xs xs = (n, n, n)" using dot3_self by blast
  then have "0 \<le> n" using dot3_nonneg by blast
  moreover have "x * x + n = 0" using Cons.prems n by simp
  moreover have "0 \<le> x * x" by simp
  ultimately have "x * x = 0" "n = 0" by linarith+
  with Cons n show ?case by simp
qed simp

section \<open>Properties\<close>

text \<open>
  the forgetting curve. For a nonnegative initial weight the current weight never grows
  with time, never shrinks with recalls, stays between zero and five times the initial weight,
  and is the initial weight at creation; a clock behind the creation time counts as no time.
\<close>

lemma weight_curve:
  assumes "0 \<le> w0" and "n \<le> m" and "a \<le> b"
  shows "weight_at w0 c m ty a \<le> weight_at w0 c n ty a
    \<and> weight_at w0 c n ty a \<le> weight_at w0 c n ty b
    \<and> 0 \<le> weight_at w0 c n ty a \<and> weight_at w0 c n ty a \<le> 5 * w0
    \<and> weight_at w0 c c ty 0 = w0 \<and> weight_at w0 (n + k) n ty a = w0 * reinforce_factor a"
proof (intro conjI)
  show "weight_at w0 c n ty a \<le> weight_at w0 c n ty b"
    unfolding weight_at_def Let_def
    using assms reinforce_mono [of a b] by (intro mult_left_mono) auto
qed (use assms in \<open>simp_all add: weight_antimono_now weight_nonneg weight_le\<close>,
     simp_all add: weight_at_def)

lemma weight_curve_witness:
  "weight_at 0.6 0 172800 Episodic 2 \<le> weight_at 0.6 0 86400 Episodic 2"
  using weight_curve [of "0.6" 86400 172800 2 3 0 Episodic 0] by simp

text \<open>
  The cosine of two vectors is defined exactly when they have the same length, lies
  between -1 and 1, and is 1 for a vector that is not zero with itself.
\<close>

lemma cosine_range:
  "(cosine a b = None) = (length a \<noteq> length b)
   \<and> (case cosine a b of Some c \<Rightarrow> -1 \<le> c \<and> c \<le> 1 | None \<Rightarrow> True)
   \<and> cosine a a = Some (if set a \<subseteq> {0} then 0 else 1)"
proof (intro conjI)
  show "(cosine a b = None) = (length a \<noteq> length b)"
    by (auto simp: cosine_def Let_def split: prod.splits)
  show "case cosine a b of Some c \<Rightarrow> -1 \<le> c \<and> c \<le> 1 | None \<Rightarrow> True"
  proof (cases "cosine a b")
    case (Some c)
    with cosine_bounds [OF Some] show ?thesis by (simp add: abs_le_iff)
  qed simp
  obtain n where n: "dot3 a a = (n, n, n)" using dot3_self by blast
  then have nn: "0 \<le> n" using dot3_nonneg by blast
  have z: "set a \<subseteq> {0} \<Longrightarrow> n = 0"
  proof -
    have "set a \<subseteq> {0} \<Longrightarrow> dot3 a a = (0, 0, 0)" by (induction a) auto
    then show "set a \<subseteq> {0} \<Longrightarrow> n = 0" using n by simp
  qed
  have z': "set a \<subseteq> {0}" if "n = 0"
  proof -
    have "dot3 a a = (0, 0, 0)" using n that by (simp only:)
    then have "\<forall>x \<in> set a. x = 0" by (rule dot3_self_zero)
    then show ?thesis by blast
  qed
  have "cosine a a = Some (if n = 0 then 0 else 1)"
    using nn by (simp add: cosine_def Let_def n)
  moreover have "(n = 0) = (set a \<subseteq> {0})" using z z' by (rule iffI [rotated])
  ultimately show "cosine a a = Some (if set a \<subseteq> {0} then 0 else 1)" by (simp only:)
qed

end
