(* ===== verification/LocalStore.thy ===== *)
theory LocalStore
  imports Similarity
begin

text \<open>
  The vector store of the crate \<open>fm-store\<close> (\<open>local.rs\<close>, \<open>error.rs\<close>, \<open>trait_def.rs\<close>): three
  ordered byte trees (vectors, tombstones, key-value), the in-memory index, and every
  operation of \<open>FusionStoreEngine\<close>, with the crash recovery and the compaction.

  A tree is its list of entries in key order. A vector is a list of \<open>f32\<close> bit patterns, an id
  a 64-bit word. The HNSW index is a third-party structure: its state is the list of points
  inserted since it was built, its search is the parameter \<open>knn\<close>. A failing sled call is a
  scripted failure at the start of an operation (\<open>ls_faults\<close>); a failure in the middle of one
  is not modelled.
\<close>

section \<open>Errors\<close>

datatype store_error =
    SSled string
  | SHnsw string
  | SDimension nat nat
  | SVectorNotFound nat
  | SSerde string
  | SIo string

fun store_error_display :: "store_error \<Rightarrow> string" where
  "store_error_display (SSled s) = ''sled kv error: '' @ s"
| "store_error_display (SHnsw s) = ''hnsw index error: '' @ s"
| "store_error_display (SDimension e g) =
     ''dimension mismatch: expected '' @ show_nat e @ '', got '' @ show_nat g"
| "store_error_display (SVectorNotFound n) = ''vector not found: '' @ show_nat n"
| "store_error_display (SSerde s) = ''serialization error: '' @ s"
| "store_error_display (SIo s) = ''io error: '' @ s"

fun store_to_memory :: "store_error \<Rightarrow> memory_error" where
  "store_to_memory (SSerde e) = ESerde e"
| "store_to_memory (SIo e) = EIo e"
| "store_to_memory other = EStore (store_error_display other)"

section \<open>Ordered byte trees\<close>

type_synonym tree = "(string \<times> string) list"

fun tree_insert :: "string \<Rightarrow> string \<Rightarrow> tree \<Rightarrow> tree" where
  "tree_insert k v [] = [(k, v)]"
| "tree_insert k v ((k', v') # t) =
     (if k = k' then (k, v) # t
      else if k < k' then (k, v) # (k', v') # t
      else (k', v') # tree_insert k v t)"

definition tree_remove :: "string \<Rightarrow> tree \<Rightarrow> tree" where
  "tree_remove k t = filter (\<lambda>e. fst e \<noteq> k) t"

definition tree_has :: "string \<Rightarrow> tree \<Rightarrow> bool" where
  "tree_has k t = (map_of t k \<noteq> None)"

definition tree_ok :: "tree \<Rightarrow> bool" where
  "tree_ok t = sorted_wrt (<) (map fst t)"

lemma map_of_tree_insert [simp]: "map_of (tree_insert k v t) = (map_of t)(k \<mapsto> v)"
  by (induction t) (auto simp: fun_eq_iff)

lemma map_of_tree_remove [simp]:
  "map_of (tree_remove k t) x = (if x = k then None else map_of t x)"
  by (induction t) (auto simp: tree_remove_def)

lemma keys_tree_insert: "fst ` set (tree_insert k v t) = insert k (fst ` set t)"
  by (induction k v t rule: tree_insert.induct) auto

lemma tree_ok_insert: "tree_ok t \<Longrightarrow> tree_ok (tree_insert k v t)"
proof (induction t)
  case (Cons e t)
  obtain k' v' where e: "e = (k', v')" by fastforce
  have keys: "\<forall>x \<in> set (map fst t). k' < x" and ok: "tree_ok t"
    using Cons.prems e by (auto simp: tree_ok_def)
  have "\<forall>x \<in> set (map fst (tree_insert k v t)). k' < x" if "\<not> k < k'" "k \<noteq> k'"
    using keys that keys_tree_insert [of k v t] by auto
  with Cons e ok keys show ?case
    by (auto simp: tree_ok_def)
qed (simp add: tree_ok_def)

lemma tree_ok_remove: "tree_ok t \<Longrightarrow> tree_ok (tree_remove k t)"
  unfolding tree_ok_def tree_remove_def by (induction t) auto

lemma tree_ok_distinct: "tree_ok t \<Longrightarrow> distinct (map fst t)"
  by (simp add: tree_ok_def strict_sorted_iff)

section \<open>Keys and values\<close>

type_synonym vec = "32 word list"
type_synonym vid = "64 word"

definition id_key :: "vid \<Rightarrow> string" where
  "id_key i = be_bytes 8 (unat i)"

definition parse_id_key :: "string \<Rightarrow> vid option" where
  "parse_id_key k = (if length k \<noteq> 8 then None else Some (of_nat (of_be_bytes k)))"

definition serialize_vec :: "vec \<Rightarrow> string" where
  "serialize_vec v = concat (map (\<lambda>f. le_bytes 4 (unat f)) v)"

fun chunks4 :: "string \<Rightarrow> vec" where
  "chunks4 (a # b # c # d # rest) = of_nat (of_le_bytes [a, b, c, d]) # chunks4 rest"
| "chunks4 _ = []"

definition deserialize_vec :: "string \<Rightarrow> store_error + vec" where
  "deserialize_vec bs =
     (if length bs mod 4 \<noteq> 0
      then Inl (SSled (''vec bytes len '' @ show_nat (length bs)
                       @ '' not multiple of 4 (corrupt or legacy json format)''))
      else Inr (chunks4 bs))"

text \<open>The value of an \<open>f32\<close> bit pattern (for the finite ones).\<close>

definition f32_real :: "32 word \<Rightarrow> real" where
  "f32_real w =
     (let n = unat w; s = n div 2 ^ 31; e = n div 2 ^ 23 mod 2 ^ 8; m = n mod 2 ^ 23;
          mag = (if e = 0 then real m / 2 ^ 149 else (1 + real m / 2 ^ 23) * 2 ^ e / 2 ^ 127)
      in if s = 0 then mag else - mag)"

lemma length_id_key [simp]: "length (id_key i) = 8"
  by (simp add: id_key_def)

lemma unat_be_bytes: "of_be_bytes (be_bytes 8 (unat (i :: vid))) = unat i"
  by (rule of_be_bytes_inverse) (use unsigned_less [of i] in simp)

lemma parse_id_key_id [simp]: "parse_id_key (id_key i) = Some i"
  by (simp add: parse_id_key_def id_key_def unat_be_bytes)

lemma id_key_inj [simp]: "id_key i = id_key j \<longleftrightarrow> i = j"
  by (metis option.inject parse_id_key_id)

lemma parse_id_key_Some: "parse_id_key k = Some i \<longleftrightarrow> k = id_key i"
proof
  assume h: "parse_id_key k = Some i"
  then have l: "length k = 8" and i: "i = of_nat (of_be_bytes k)"
    by (auto simp: parse_id_key_def split: if_splits)
  have "of_be_bytes k < 2 ^ 64" using of_be_bytes_bound [of k] l by simp
  then have "unat i = of_be_bytes k" by (simp add: i unat_of_nat)
  then show "k = id_key i" using be_bytes_of_be [of k] l by (simp add: id_key_def)
qed simp

lemma length_4: "length xs = 4 \<Longrightarrow> \<exists>a b c d. xs = [a, b, c, d]"
  by (auto simp: length_Suc_conv numeral_eq_Suc)

lemma chunks4_serialize: "chunks4 (serialize_vec v) = v"
proof (induction v)
  case (Cons f v)
  obtain a b c d where q: "le_bytes 4 (unat f) = [a, b, c, d]"
    using length_4 [of "le_bytes 4 (unat f)"] by auto
  have "of_le_bytes (le_bytes 4 (unat f)) = unat f"
    by (rule of_le_bytes_inverse) (use unsigned_less [of f] in simp)
  with q have "of_nat (of_le_bytes [a, b, c, d]) = f" by simp
  with q Cons show ?case by (simp add: serialize_vec_def)
qed (simp add: serialize_vec_def)

lemma length_serialize: "length (serialize_vec v) = 4 * length v"
  by (induction v) (simp_all add: serialize_vec_def)

lemma deserialize_serialize [simp]: "deserialize_vec (serialize_vec v) = Inr v"
  by (simp add: deserialize_vec_def length_serialize chunks4_serialize)

section \<open>The store\<close>

record lstore =
  ls_dim :: nat
  ls_vec :: tree
  ls_tomb :: tree
  ls_kv :: tree
  ls_hnsw :: "(vid \<times> vec) list"
  ls_faults :: "store_error option list"

definition st_op :: "(lstore \<Rightarrow> lstore \<times> (store_error + 'a)) \<Rightarrow> lstore \<Rightarrow> lstore \<times> (memory_error + 'a)" where
  "st_op f s =
     (case ls_faults s of
        Some e # fs \<Rightarrow> (s\<lparr> ls_faults := fs \<rparr>, Inl (store_to_memory e))
      | None # fs \<Rightarrow> (case f (s\<lparr> ls_faults := fs \<rparr>) of (s', r) \<Rightarrow> (s', map_err store_to_memory r))
      | [] \<Rightarrow> (case f s of (s', r) \<Rightarrow> (s', map_err store_to_memory r)))"

definition is_tombstoned :: "lstore \<Rightarrow> vid \<Rightarrow> bool" where
  "is_tombstoned s i = tree_has (id_key i) (ls_tomb s)"

definition tombstone_set :: "lstore \<Rightarrow> vid set" where
  "tombstone_set s = set (List.map_filter (\<lambda>e. parse_id_key (fst e)) (ls_tomb s))"

definition vector_ids :: "lstore \<Rightarrow> vid list" where
  "vector_ids s =
     List.map_filter (\<lambda>e. case parse_id_key (fst e) of
        None \<Rightarrow> None
      | Some i \<Rightarrow> if tree_has (fst e) (ls_tomb s) then None else Some i) (ls_vec s)"

fun rebuild_scan :: "tree \<Rightarrow> tree \<Rightarrow> store_error + (vid \<times> vec) list" where
  "rebuild_scan tomb [] = Inr []"
| "rebuild_scan tomb ((k, v) # t) =
     (case parse_id_key k of
        None \<Rightarrow> rebuild_scan tomb t
      | Some i \<Rightarrow>
          if tree_has (id_key i) tomb then rebuild_scan tomb t
          else bind_res (deserialize_vec v) (\<lambda>x.
               bind_res (rebuild_scan tomb t) (\<lambda>ps. Inr ((i, x) # ps))))"

definition rebuild_from_sled :: "lstore \<Rightarrow> lstore \<times> (store_error + nat)" where
  "rebuild_from_sled s =
     (case rebuild_scan (ls_tomb s) (ls_vec s) of
        Inl e \<Rightarrow> (s, Inl e)
      | Inr ps \<Rightarrow> (s\<lparr> ls_hnsw := ps \<rparr>, Inr (length ps)))"

definition open_store :: "tree \<Rightarrow> tree \<Rightarrow> tree \<Rightarrow> nat \<Rightarrow> store_error option list \<Rightarrow> store_error + lstore" where
  "open_store vecs tombs kvs dm fs =
     (if dm = 0 then Inl (SDimension 1 0)
      else case rebuild_from_sled
             \<lparr> ls_dim = dm, ls_vec = vecs, ls_tomb = tombs, ls_kv = kvs, ls_hnsw = [], ls_faults = fs \<rparr> of
             (s, Inl e) \<Rightarrow> Inl e
           | (s, Inr n) \<Rightarrow> Inr s)"

definition compact_store :: "lstore \<Rightarrow> lstore \<times> (memory_error + nat)" where
  "compact_store = st_op (\<lambda>s.
     let tomb_keys = List.map_filter (\<lambda>e. parse_id_key (fst e)) (ls_tomb s);
         s1 = s\<lparr> ls_vec := fold (\<lambda>i. tree_remove (id_key i)) tomb_keys (ls_vec s) \<rparr>
     in case rebuild_from_sled s1 of
          (s2, Inl e) \<Rightarrow> (s2, Inl e)
        | (s2, Inr n) \<Rightarrow> (s2, Inr (length tomb_keys)))"

definition put_kv :: "string \<Rightarrow> string \<Rightarrow> lstore \<Rightarrow> lstore \<times> (memory_error + unit)" where
  "put_kv k v = st_op (\<lambda>s. (s\<lparr> ls_kv := tree_insert k v (ls_kv s) \<rparr>, Inr ()))"

definition get_kv :: "string \<Rightarrow> lstore \<Rightarrow> lstore \<times> (memory_error + string option)" where
  "get_kv k = st_op (\<lambda>s. (s, Inr (map_of (ls_kv s) k)))"

definition insert_vec :: "vid \<Rightarrow> vec \<Rightarrow> lstore \<Rightarrow> lstore" where
  "insert_vec i v s =
     (if tree_has (id_key i) (ls_vec s) \<and> \<not> is_tombstoned s i then s
      else let s1 = (if is_tombstoned s i
                     then s\<lparr> ls_tomb := tree_remove (id_key i) (ls_tomb s) \<rparr> else s)
           in s1\<lparr> ls_vec := tree_insert (id_key i) (serialize_vec v) (ls_vec s1),
                  ls_hnsw := ls_hnsw s1 @ [(i, v)] \<rparr>)"

definition insert_vector :: "vid \<Rightarrow> vec \<Rightarrow> lstore \<Rightarrow> lstore \<times> (memory_error + unit)" where
  "insert_vector i v = st_op (\<lambda>s.
     if length v \<noteq> ls_dim s then (s, Inl (SDimension (ls_dim s) (length v)))
     else (insert_vec i v s, Inr ()))"

definition delete_vec :: "vid \<Rightarrow> lstore \<Rightarrow> lstore" where
  "delete_vec i s = s\<lparr> ls_tomb := tree_insert (id_key i) [char_of (1 :: nat)] (ls_tomb s) \<rparr>"

definition delete_vector :: "vid \<Rightarrow> lstore \<Rightarrow> lstore \<times> (memory_error + unit)" where
  "delete_vector i = st_op (\<lambda>s. (delete_vec i s, Inr ()))"

definition find_vec :: "vid \<Rightarrow> lstore \<Rightarrow> store_error + vec option" where
  "find_vec i s =
     (if is_tombstoned s i then Inr None
      else case map_of (ls_vec s) (id_key i) of
             None \<Rightarrow> Inr None
           | Some bs \<Rightarrow> bind_res (deserialize_vec bs) (\<lambda>v. Inr (Some v)))"

definition get_vector :: "vid \<Rightarrow> lstore \<Rightarrow> lstore \<times> (memory_error + vec option)" where
  "get_vector i = st_op (\<lambda>s. (s, find_vec i s))"

definition list_vector_ids :: "lstore \<Rightarrow> lstore \<times> (memory_error + vid list)" where
  "list_vector_ids = st_op (\<lambda>s. (s, Inr (vector_ids s)))"

section \<open>Search\<close>

definition cosine_sim :: "vec \<Rightarrow> vec \<Rightarrow> real" where
  "cosine_sim a b =
     (case dot3 (map f32_real a) (map f32_real b) of
        (dot, na, nb) \<Rightarrow>
          let denom = sqrt na * sqrt nb in if denom = 0 then 0 else dot / denom)"

definition order_sim :: "(vid \<times> real) list \<Rightarrow> (vid \<times> real) list" where
  "order_sim = sort_key (\<lambda>p. - snd p)"

text \<open>The linear scan over the stored vectors that completes a short answer of the index.\<close>

fun scan_candidates :: "vec \<Rightarrow> vid set \<Rightarrow> tree \<Rightarrow> store_error + (vid \<times> real) list" where
  "scan_candidates q skip [] = Inr []"
| "scan_candidates q skip ((k, v) # t) =
     (case parse_id_key k of
        None \<Rightarrow> scan_candidates q skip t
      | Some i \<Rightarrow>
          if i \<in> skip then scan_candidates q skip t
          else bind_res (deserialize_vec v) (\<lambda>x.
               bind_res (scan_candidates q skip t) (\<lambda>cs. Inr ((i, cosine_sim q x) # cs))))"

text \<open>\<open>knn points query k\<close> answers ids with distances; a similarity is one minus the distance.\<close>

type_synonym knn = "(vid \<times> vec) list \<Rightarrow> vec \<Rightarrow> nat \<Rightarrow> (vid \<times> real) list"

definition knn_hits :: "knn \<Rightarrow> vec \<Rightarrow> nat \<Rightarrow> lstore \<Rightarrow> (vid \<times> real) list" where
  "knn_hits knn q k s =
     map (\<lambda>(i, dist). (i, 1 - dist))
       (filter (\<lambda>h. fst h \<notin> tombstone_set s) (knn (ls_hnsw s) q k))"

definition search_vec :: "knn \<Rightarrow> vec \<Rightarrow> nat \<Rightarrow> lstore \<Rightarrow> store_error + (vid \<times> real) list" where
  "search_vec knn q k s =
     (if length q \<noteq> ls_dim s then Inl (SDimension (ls_dim s) (length q))
      else let out = knn_hits knn q k s
           in if length out < k
              then bind_res (scan_candidates q (fst ` set out \<union> tombstone_set s) (ls_vec s))
                     (\<lambda>cs. Inr (order_sim (out @ take (k - length out) (order_sim cs))))
              else Inr out)"

definition search_knn :: "knn \<Rightarrow> vec \<Rightarrow> nat \<Rightarrow> lstore \<Rightarrow> lstore \<times> (memory_error + (vid \<times> real) list)" where
  "search_knn knn q k = st_op (\<lambda>s. (s, search_vec knn q k s))"

section \<open>The store as a map from ids to vectors\<close>

definition store_map :: "lstore \<Rightarrow> vid \<Rightarrow> vec option" where
  "store_map s i = (case find_vec i s of Inr v \<Rightarrow> v | Inl e \<Rightarrow> None)"

definition store_wf :: "lstore \<Rightarrow> bool" where
  "store_wf s =
     (tree_ok (ls_vec s) \<and> tree_ok (ls_tomb s)
      \<and> (\<forall>e \<in> set (ls_vec s). \<exists>i v. e = (id_key i, serialize_vec v) \<and> length v = ls_dim s)
      \<and> (\<forall>e \<in> set (ls_tomb s). \<exists>i. fst e = id_key i)
      \<and> (\<forall>p \<in> set (ls_hnsw s). is_tombstoned s (fst p) \<or> tree_has (id_key (fst p)) (ls_vec s)))"

lemma store_wf_faults [simp]: "store_wf (s\<lparr> ls_faults := fs \<rparr>) = store_wf s"
  by (simp add: store_wf_def is_tombstoned_def)

lemma store_map_faults [simp]: "store_map (s\<lparr> ls_faults := fs \<rparr>) = store_map s"
  by (simp add: store_map_def find_vec_def is_tombstoned_def fun_eq_iff)

lemma store_map_hnsw [simp]: "store_map (s\<lparr> ls_hnsw := ps \<rparr>) = store_map s"
  by (simp add: store_map_def find_vec_def is_tombstoned_def fun_eq_iff)

lemma tree_has_insert [simp]: "tree_has k (tree_insert k' v t) = (k = k' \<or> tree_has k t)"
  by (auto simp: tree_has_def)

lemma tree_has_remove [simp]: "tree_has k (tree_remove k' t) = (k \<noteq> k' \<and> tree_has k t)"
  by (auto simp: tree_has_def)

lemma set_tree_insert: "set (tree_insert k v t) \<subseteq> insert (k, v) (set t)"
  by (induction k v t rule: tree_insert.induct) auto

lemma set_tree_remove: "set (tree_remove k t) = {e \<in> set t. fst e \<noteq> k}"
  by (simp add: tree_remove_def)

lemma find_vec_wf:
  assumes "store_wf s"
  shows "find_vec i s = Inr (store_map s i)"
proof -
  have "\<exists>v. bs = serialize_vec v" if "map_of (ls_vec s) (id_key i) = Some bs" for bs
    using assms map_of_SomeD [OF that] by (fastforce simp: store_wf_def)
  then show ?thesis
    by (auto simp: store_map_def find_vec_def split: option.splits)
qed

lemma store_map_Some:
  assumes "store_wf s"
  shows "store_map s i = Some v
    \<longleftrightarrow> \<not> is_tombstoned s i \<and> map_of (ls_vec s) (id_key i) = Some (serialize_vec v)"
proof -
  have "\<exists>v. bs = serialize_vec v" if "map_of (ls_vec s) (id_key i) = Some bs" for bs
    using assms map_of_SomeD [OF that] by (fastforce simp: store_wf_def)
  moreover have "serialize_vec v = serialize_vec w \<longleftrightarrow> v = w" for v w
    by (metis chunks4_serialize)
  ultimately show ?thesis
    by (auto simp: store_map_def find_vec_def split: option.splits)
qed

lemma store_map_None:
  "store_wf s \<Longrightarrow> store_map s i = None \<longleftrightarrow> is_tombstoned s i \<or> \<not> tree_has (id_key i) (ls_vec s)"
proof -
  assume s: "store_wf s"
  have "\<exists>v. bs = serialize_vec v" if "map_of (ls_vec s) (id_key i) = Some bs" for bs
    using s map_of_SomeD [OF that] by (fastforce simp: store_wf_def)
  then show ?thesis
    by (auto simp: store_map_def find_vec_def tree_has_def split: option.splits)
qed

lemma tombstone_set_iff: "store_wf s \<Longrightarrow> i \<in> tombstone_set s \<longleftrightarrow> is_tombstoned s i"
proof -
  have "i \<in> tombstone_set s \<longleftrightarrow> id_key i \<in> fst ` set (ls_tomb s)"
    by (force simp: tombstone_set_def set_map_filter parse_id_key_Some)
  then show ?thesis
    by (simp add: is_tombstoned_def tree_has_def map_of_eq_None_iff)
qed

lemma vector_ids_iff:
  assumes "store_wf s"
  shows "i \<in> set (vector_ids s) \<longleftrightarrow> store_map s i \<noteq> None"
proof -
  have "i \<in> set (vector_ids s) \<longleftrightarrow> id_key i \<in> fst ` set (ls_vec s) \<and> \<not> is_tombstoned s i"
    by (force simp: vector_ids_def set_map_filter is_tombstoned_def parse_id_key_Some
        split: option.splits if_splits)
  then show ?thesis
    using store_map_None [OF assms, of i] by (auto simp: tree_has_def map_of_eq_None_iff)
qed

lemma insert_vec_wf: "store_wf s \<Longrightarrow> length v = ls_dim s \<Longrightarrow> store_wf (insert_vec i v s)"
proof -
  assume s: "store_wf s" and v: "length v = ls_dim s"
  let ?t = "if is_tombstoned s i then tree_remove (id_key i) (ls_tomb s) else ls_tomb s"
  have t: "tree_ok ?t" "\<forall>e \<in> set ?t. \<exists>i. fst e = id_key i"
    using s by (auto simp: store_wf_def tree_ok_remove set_tree_remove)
  have vec: "\<forall>e \<in> set (tree_insert (id_key i) (serialize_vec v) (ls_vec s)).
      \<exists>i v. e = (id_key i, serialize_vec v) \<and> length v = ls_dim s"
    using s v set_tree_insert [of "id_key i" "serialize_vec v" "ls_vec s"]
    by (auto simp: store_wf_def)
  have "tree_has (id_key j) ?t \<or> j = i \<longleftrightarrow> is_tombstoned s j \<or> j = i" for j
    by (auto simp: is_tombstoned_def)
  with s t vec show ?thesis
    by (auto simp: insert_vec_def Let_def store_wf_def tree_ok_insert is_tombstoned_def)
qed

lemma store_map_insert:
  assumes s: "store_wf s" and v: "length v = ls_dim s"
  shows "store_map (insert_vec i v s) j =
     (if j = i then (case store_map s i of None \<Rightarrow> Some v | Some w \<Rightarrow> Some w) else store_map s j)"
proof (cases "store_map s i")
  case None
  then have "is_tombstoned s i \<or> \<not> tree_has (id_key i) (ls_vec s)"
    using store_map_None [OF s] by simp
  with None show ?thesis
    by (auto simp: insert_vec_def store_map_def find_vec_def is_tombstoned_def Let_def)
next
  case (Some w)
  then have "insert_vec i v s = s"
    using store_map_Some [OF s, of i w] by (auto simp: insert_vec_def tree_has_def)
  with Some show ?thesis by simp
qed

lemma delete_vec_wf: "store_wf s \<Longrightarrow> store_wf (delete_vec i s)"
  using set_tree_insert [of "id_key i" "[char_of (1 :: nat)]" "ls_tomb s"]
  by (auto simp: store_wf_def delete_vec_def tree_ok_insert is_tombstoned_def)

lemma store_map_delete: "store_map (delete_vec i s) j = (if j = i then None else store_map s j)"
  by (auto simp: store_map_def find_vec_def delete_vec_def is_tombstoned_def)

text \<open>
  The interface the engine programs against: a partial map with insertion that keeps an
  existing vector, deletion, and enumeration.
\<close>

locale vector_store =
  fixes ok :: "'s \<Rightarrow> bool" and fits :: "'s \<Rightarrow> vec \<Rightarrow> bool"
    and look :: "'s \<Rightarrow> vid \<Rightarrow> vec option"
    and ins :: "vid \<Rightarrow> vec \<Rightarrow> 's \<Rightarrow> 's" and del :: "vid \<Rightarrow> 's \<Rightarrow> 's" and ids :: "'s \<Rightarrow> vid list"
  assumes ok_ins: "\<lbrakk> ok s; fits s v \<rbrakk> \<Longrightarrow> ok (ins i v s)"
    and ok_del: "ok s \<Longrightarrow> ok (del i s)"
    and look_ins: "\<lbrakk> ok s; fits s v \<rbrakk> \<Longrightarrow>
        look (ins i v s) j =
          (if j = i then (case look s i of None \<Rightarrow> Some v | Some w \<Rightarrow> Some w) else look s j)"
    and look_del: "ok s \<Longrightarrow> look (del i s) j = (if j = i then None else look s j)"
    and ids_look: "ok s \<Longrightarrow> i \<in> set (ids s) \<longleftrightarrow> look s i \<noteq> None"
begin

lemma ins_present: "\<lbrakk> ok s; fits s v \<rbrakk> \<Longrightarrow> i \<in> set (ids (ins i v s))"
  by (auto simp: ids_look ok_ins look_ins split: option.splits)

lemma ins_idem:
  "\<lbrakk> ok s; fits s v; fits (ins i v s) w \<rbrakk> \<Longrightarrow> look (ins i w (ins i v s)) = look (ins i v s)"
  by (auto simp: fun_eq_iff look_ins ok_ins split: option.splits)

lemma del_absent: "ok s \<Longrightarrow> i \<notin> set (ids (del i s))"
  by (simp add: ids_look ok_del look_del)

lemma del_ins: "\<lbrakk> ok s; fits (del i s) v \<rbrakk> \<Longrightarrow> look (ins i v (del i s)) i = Some v"
  by (simp add: look_ins ok_del look_del)

lemma ids_ins: "\<lbrakk> ok s; fits s v \<rbrakk> \<Longrightarrow> set (ids (ins i v s)) = insert i (set (ids s))"
  by (auto simp: ids_look ok_ins look_ins split: option.splits if_splits)

lemma ids_del: "ok s \<Longrightarrow> set (ids (del i s)) = set (ids s) - {i}"
  by (auto simp: ids_look ok_del look_del split: if_splits)

lemma ok_dels: "ok s \<Longrightarrow> ok (fold del is s)"
  by (induction "is" arbitrary: s) (simp_all add: ok_del)

lemma ids_dels: "ok s \<Longrightarrow> set (ids (fold del is s)) = set (ids s) - set is"
  by (induction "is" arbitrary: s) (auto simp: ok_del ids_del)

end

interpretation ls: vector_store store_wf "\<lambda>s v. length v = ls_dim s" store_map insert_vec delete_vec vector_ids
  by unfold_locales
    (simp_all add: insert_vec_wf delete_vec_wf store_map_insert store_map_delete vector_ids_iff)

end
