(* ===== verification/Replay.thy ===== *)
theory Replay
  imports ClusterBase LocalStore
begin

text \<open>
  Replay of the write log on a follower (\<open>fm-cluster/replay.rs\<close>): the commit payload, the
  trait \<open>ReplaySink\<close> as a record of operations on a state \<open>'s\<close>, the dispatch of one entry, and
  the replay of a batch. The laws a sink keeps are the locale \<open>replica\<close>, whose main result is
  that a follower which retries from its cursor ends with the effects of the log in order.
\<close>

section \<open>Payloads\<close>

text \<open>The JSON text functions of \<open>serde_json\<close> at the two types of payload, and the text of the error
  of an integer that does not parse.\<close>

record payload_codec =
  pc_enc :: "memory_item \<times> vec option \<Rightarrow> string + string"
  pc_env :: "string \<Rightarrow> string + (memory_item \<times> vec option)"
  pc_item :: "string \<Rightarrow> string + memory_item"
  pc_item_enc :: "memory_item \<Rightarrow> string + string"
  pc_int_error :: "string \<Rightarrow> string"

definition encode_commit_payload ::
  "payload_codec \<Rightarrow> memory_item \<Rightarrow> vec option \<Rightarrow> cluster_error + string" where
  "encode_commit_payload c m v = map_err KSerde (pc_enc c (m, v))"

definition decode_commit_payload ::
  "payload_codec \<Rightarrow> string \<Rightarrow> cluster_error + (memory_item \<times> vec option)" where
  "decode_commit_payload c raw =
     (case pc_env c raw of
        Inr env \<Rightarrow> Inr env
      | Inl _ \<Rightarrow>
          (case pc_item c raw of
             Inl e \<Rightarrow> Inl (KReplay (''commit payload decode: '' @ e))
           | Inr m \<Rightarrow> Inr (m, None)))"

section \<open>One entry\<close>

record 's sink =
  sk_embed :: "string \<Rightarrow> 's \<Rightarrow> 's \<times> (cluster_error + vec)"
  sk_put_item :: "memory_item \<Rightarrow> 's \<Rightarrow> 's \<times> (cluster_error + unit)"
  sk_insert_vector :: "vid \<Rightarrow> vec \<Rightarrow> 's \<Rightarrow> 's \<times> (cluster_error + unit)"
  sk_tombstone :: "string \<Rightarrow> 's \<Rightarrow> 's \<times> (cluster_error + unit)"
  sk_promote_tier :: "string \<Rightarrow> string \<Rightarrow> 's \<Rightarrow> 's \<times> (cluster_error + unit)"
  sk_record_merge :: "string \<Rightarrow> string \<Rightarrow> string \<Rightarrow> nat \<Rightarrow> 's \<Rightarrow> 's \<times> (cluster_error + unit)"

definition permanent_decode :: "cluster_error \<Rightarrow> cluster_error" where
  "permanent_decode e =
     (if is_permanent e then e
      else KPermanentReplay (''commit payload decode: '' @ cluster_display e))"

definition replay_commit ::
  "payload_codec \<Rightarrow> 's sink \<Rightarrow> string \<Rightarrow> 's \<Rightarrow> 's \<times> (cluster_error + bool)" where
  "replay_commit c k payload s =
     (case decode_commit_payload c payload of
        Inl e \<Rightarrow> (s, Inl (permanent_decode e))
      | Inr (m, maybe) \<Rightarrow>
          (case parse_u64 (mi_vector_ref m) of
             None \<Rightarrow> (s, Inl (KPermanentReplay (''vector_ref parse: '' @ pc_int_error c (mi_vector_ref m))))
           | Some i \<Rightarrow>
               then_do (case maybe of Some v \<Rightarrow> return_ok v | None \<Rightarrow> sk_embed k (mi_content m))
                 (\<lambda>v. then_do (sk_insert_vector k (of_nat i) v)
                   (\<lambda>_. then_do (sk_put_item k m) (\<lambda>_. return_ok True))) s))"

definition replay_one ::
  "payload_codec \<Rightarrow> 's sink \<Rightarrow> wop_entry \<Rightarrow> 's \<Rightarrow> 's \<times> (cluster_error + bool)" where
  "replay_one c k w s =
     (if we_op w = ''commit'' then replay_commit c k (we_payload w) s
      else if we_op w = ''delete'' \<or> we_op w = ''recycle''
      then then_do (sk_tombstone k (we_payload w)) (\<lambda>_. return_ok True) s
      else if we_op w = ''promote''
      then (case split_on (char_of (9 :: nat)) (we_payload w) of
              [i, t] \<Rightarrow> then_do (sk_promote_tier k i t) (\<lambda>_. return_ok True) s
            | _ \<Rightarrow> (s, Inr False))
      else if we_op w = ''merge''
      then (case split_on (char_of (9 :: nat)) (we_payload w) of
              [src, tgt, reason, ts] \<Rightarrow>
                then_do (sk_tombstone k src)
                  (\<lambda>_. then_do (sk_record_merge k src tgt reason
                                  (case parse_u64 ts of Some n \<Rightarrow> n | None \<Rightarrow> 0))
                    (\<lambda>_. return_ok True)) s
            | _ \<Rightarrow> (s, Inr False))
      else if we_op w = ''reextract''
      then (case pc_item c (we_payload w) of
              Inl e \<Rightarrow> (s, Inl (KPermanentReplay (''reextract payload decode: '' @ e)))
            | Inr m \<Rightarrow> then_do (sk_put_item k m) (\<lambda>_. return_ok True) s)
      else (s, Inr False))"

section \<open>A batch\<close>

record replay_outcome =
  ro_applied :: nat
  ro_skipped :: nat
  ro_last_seq :: int
  ro_failed :: bool
  ro_permanent :: bool

definition no_outcome :: replay_outcome where
  "no_outcome = \<lparr> ro_applied = 0, ro_skipped = 0, ro_last_seq = 0, ro_failed = False,
                  ro_permanent = False \<rparr>"

fun replay_loop ::
  "payload_codec \<Rightarrow> 's sink \<Rightarrow> wop_entry list \<Rightarrow> replay_outcome \<Rightarrow> 's \<Rightarrow> 's \<times> replay_outcome" where
  "replay_loop c k [] r s = (s, r)"
| "replay_loop c k (w # ws) r s =
     (case replay_one c k w s of
        (s1, Inr True) \<Rightarrow>
          replay_loop c k ws (r\<lparr> ro_applied := ro_applied r + 1,
                                 ro_last_seq := max (ro_last_seq r) (we_seq w) \<rparr>) s1
      | (s1, Inr False) \<Rightarrow>
          replay_loop c k ws (r\<lparr> ro_skipped := ro_skipped r + 1,
                                 ro_last_seq := max (ro_last_seq r) (we_seq w) \<rparr>) s1
      | (s1, Inl e) \<Rightarrow> (s1, r\<lparr> ro_permanent := is_permanent e, ro_failed := True \<rparr>))"

definition replay_wops ::
  "payload_codec \<Rightarrow> 's sink \<Rightarrow> wop_entry list \<Rightarrow> 's \<Rightarrow> 's \<times> replay_outcome" where
  "replay_wops c k ws s = replay_loop c k ws no_outcome s"

section \<open>What a batch does\<close>

text \<open>The state after a run of entries that all succeed.\<close>

fun all_ok :: "payload_codec \<Rightarrow> 's sink \<Rightarrow> wop_entry list \<Rightarrow> 's \<Rightarrow> 's option" where
  "all_ok c k [] s = Some s"
| "all_ok c k (w # ws) s =
     (case replay_one c k w s of (s1, Inr _) \<Rightarrow> all_ok c k ws s1 | (_, Inl _) \<Rightarrow> None)"

definition top_seq :: "int \<Rightarrow> wop_entry list \<Rightarrow> int" where
  "top_seq a ws = fold (\<lambda>w a. max a (we_seq w)) ws a"

definition batch_result ::
  "payload_codec \<Rightarrow> 's sink \<Rightarrow> wop_entry list \<Rightarrow> wop_entry list \<Rightarrow> 's \<Rightarrow> 's \<Rightarrow> replay_outcome \<Rightarrow> bool" where
  "batch_result c k pre post s s' r =
     (\<exists>s1. all_ok c k pre s = Some s1 \<and>
        (case post of
           [] \<Rightarrow> s' = s1 \<and> \<not> ro_failed r \<and> \<not> ro_permanent r
         | w # _ \<Rightarrow> ro_failed r \<and> (\<exists>e. replay_one c k w s1 = (s', Inl e) \<and> ro_permanent r = is_permanent e)))"

lemma top_seq_simps [simp]:
  "top_seq a [] = a" "top_seq a (w # ws) = top_seq (max a (we_seq w)) ws"
  by (simp_all add: top_seq_def)

lemma top_seq_sorted:
  "sorted_wrt (<) (map we_seq ws) \<Longrightarrow> \<forall>w \<in> set ws. a < we_seq w
     \<Longrightarrow> top_seq a ws = (if ws = [] then a else we_seq (last ws))"
  by (induction ws arbitrary: a) (auto simp: max_def less_imp_le)

lemma replay_loop_split:
  assumes "replay_loop c k ws r s = (s', r')" and "\<not> ro_failed r" and "\<not> ro_permanent r"
  shows "\<exists>pre post. ws = pre @ post \<and> batch_result c k pre post s s' r'
     \<and> ro_applied r' + ro_skipped r' = ro_applied r + ro_skipped r + length pre
     \<and> ro_last_seq r' = top_seq (ro_last_seq r) pre"
  using assms
proof (induction ws arbitrary: r s)
  case Nil
  then show ?case by (intro exI [of _ "[]"]) (simp add: batch_result_def)
next
  case (Cons w ws)
  obtain s1 res where one: "replay_one c k w s = (s1, res)" by fastforce
  show ?case
  proof (cases res)
    case (Inl e)
    then show ?thesis using one Cons.prems
      by (intro exI [of _ "[]"] exI [of _ "w # ws"]) (auto simp: batch_result_def)
  next
    case (Inr b)
    define r1 where "r1 = r\<lparr> ro_applied := ro_applied r + (if b then 1 else 0),
      ro_skipped := ro_skipped r + (if b then 0 else 1),
      ro_last_seq := max (ro_last_seq r) (we_seq w) \<rparr>"
    have "replay_loop c k ws r1 s1 = (s', r')"
      using Cons.prems(1) one Inr by (cases b) (simp_all add: r1_def)
    from Cons.IH [OF this] Cons.prems(2,3) obtain pre post where
      "ws = pre @ post" "batch_result c k pre post s1 s' r'"
      "ro_applied r' + ro_skipped r' = ro_applied r1 + ro_skipped r1 + length pre"
      "ro_last_seq r' = top_seq (ro_last_seq r1) pre"
      by (auto simp: r1_def)
    then show ?thesis using one Inr
      by (intro exI [of _ "w # pre"] exI [of _ post]) (simp add: batch_result_def r1_def)
  qed
qed

text \<open>
  C14: a batch is replayed in the order of the log and stops at the first failure. The batch
  splits into a prefix, every entry of which succeeded, and the rest; the outcome counts
  exactly the prefix, its sequence number is the largest of the prefix (0 when it is empty),
  it reports a failure exactly when a rest is left, and the failure is permanent exactly when
  the error of the first entry of the rest is.
\<close>

theorem replay_wops_prefix:
  assumes "replay_wops c k ws s = (s', r)"
  shows "\<exists>pre post. ws = pre @ post \<and> batch_result c k pre post s s' r
     \<and> ro_applied r + ro_skipped r = length pre \<and> ro_last_seq r = top_seq 0 pre
     \<and> (ro_failed r \<longleftrightarrow> post \<noteq> [])"
proof -
  obtain pre post where "ws = pre @ post" "batch_result c k pre post s s' r"
    "ro_applied r + ro_skipped r = length pre" "ro_last_seq r = top_seq 0 pre"
    using replay_loop_split [OF assms [unfolded replay_wops_def]] by (auto simp: no_outcome_def)
  moreover from this(2) have "ro_failed r \<longleftrightarrow> post \<noteq> []"
    by (cases post) (auto simp: batch_result_def)
  ultimately show ?thesis by blast
qed

definition list_sink :: "string list sink" where
  "list_sink =
     \<lparr> sk_embed = (\<lambda>x s. (s, Inr [])), sk_put_item = (\<lambda>m s. (s, Inr ())),
       sk_insert_vector = (\<lambda>i v s. (s, Inr ())),
       sk_tombstone = (\<lambda>i s. if i = ''bad'' then (s, Inl (KIo ''disk'')) else (i # s, Inr ())),
       sk_promote_tier = (\<lambda>i t s. (s, Inr ())), sk_record_merge = (\<lambda>a b r n s. (s, Inr ())) \<rparr>"

definition no_codec :: payload_codec where
  "no_codec = \<lparr> pc_enc = (\<lambda>_. Inl ''no''), pc_env = (\<lambda>_. Inl ''no''), pc_item = (\<lambda>_. Inl ''no''),
                pc_item_enc = (\<lambda>_. Inl ''no''), pc_int_error = (\<lambda>_. ''no'') \<rparr>"

lemma replay_wops_prefix_witness:
  "\<exists>pre post.
     [\<lparr> we_seq = 4, we_op = ''delete'', we_payload = ''a'', we_at = 0 \<rparr>,
      \<lparr> we_seq = 5, we_op = ''summarize'', we_payload = ''b'', we_at = 0 \<rparr>,
      \<lparr> we_seq = 6, we_op = ''delete'', we_payload = ''bad'', we_at = 0 \<rparr>] = pre @ post
     \<and> length pre = 2 \<and> top_seq 0 pre = 5 \<and> post \<noteq> []"
proof -
  let ?ws = "[\<lparr> we_seq = 4, we_op = ''delete'', we_payload = ''a'', we_at = 0 \<rparr>,
      \<lparr> we_seq = 5, we_op = ''summarize'', we_payload = ''b'', we_at = 0 \<rparr>,
      \<lparr> we_seq = 6, we_op = ''delete'', we_payload = ''bad'', we_at = 0 \<rparr>]"
  have "replay_wops no_codec list_sink ?ws []
    = ([''a''], \<lparr> ro_applied = 1, ro_skipped = 1, ro_last_seq = 5, ro_failed = True, ro_permanent = False \<rparr>)"
    by (simp add: replay_wops_def no_outcome_def replay_one_def list_sink_def then_do_def return_ok_def)
  from replay_wops_prefix [OF this] obtain pre post where "?ws = pre @ post" "length pre = 2"
    "top_seq 0 pre = 5" "post \<noteq> []" by auto
  then show ?thesis by metis
qed

section \<open>The effect of the log\<close>

datatype action = APut memory_item | AHide string | ATier string memory_tier | ANone

type_synonym item_map = "string \<Rightarrow> memory_item option"

fun apply_action :: "action \<Rightarrow> item_map \<Rightarrow> item_map" where
  "apply_action (APut m) f = f(mi_id m \<mapsto> m)"
| "apply_action (AHide i) f = f(i := map_option (mi_tombstone_update (\<lambda>_. True)) (f i))"
| "apply_action (ATier i t) f = f(i := map_option (mi_tier_update (\<lambda>_. t)) (f i))"
| "apply_action ANone f = f"

text \<open>The tier names a promotion accepts are those of \<open>MemoryEngine::promote_tier\<close>.\<close>

definition promoted_tier :: "string \<Rightarrow> memory_tier option" where
  "promoted_tier t =
     (if t = ''Long'' then Some Long else if t = ''Short'' then Some Short
      else if t = ''Working'' then Some Working else None)"

definition action_of :: "payload_codec \<Rightarrow> wop_entry \<Rightarrow> action" where
  "action_of c w =
     (if we_op w = ''commit''
      then (case decode_commit_payload c (we_payload w) of Inl _ \<Rightarrow> ANone | Inr (m, _) \<Rightarrow> APut m)
      else if we_op w = ''delete'' \<or> we_op w = ''recycle'' then AHide (we_payload w)
      else if we_op w = ''promote''
      then (case split_on (char_of (9 :: nat)) (we_payload w) of
              [i, t] \<Rightarrow> (case promoted_tier t of Some x \<Rightarrow> ATier i x | None \<Rightarrow> ANone)
            | _ \<Rightarrow> ANone)
      else if we_op w = ''merge''
      then (case split_on (char_of (9 :: nat)) (we_payload w) of
              [src, _, _, _] \<Rightarrow> AHide src | _ \<Rightarrow> ANone)
      else if we_op w = ''reextract''
      then (case pc_item c (we_payload w) of Inl _ \<Rightarrow> ANone | Inr m \<Rightarrow> APut m)
      else ANone)"

lemma apply_action_idem: "apply_action a (apply_action a f) = apply_action a f"
  by (cases a) (auto simp: option.map_comp comp_def)

definition effects :: "payload_codec \<Rightarrow> wop_entry list \<Rightarrow> item_map \<Rightarrow> item_map" where
  "effects c ws f = fold (\<lambda>w. apply_action (action_of c w)) ws f"

lemma effects_simps [simp]:
  "effects c [] f = f" "effects c (w # ws) f = effects c ws (apply_action (action_of c w) f)"
  "effects c (ws @ vs) f = effects c vs (effects c ws f)"
  by (simp_all add: effects_def)

section \<open>The laws of a sink\<close>

text \<open>
  What a follower's store promises of the operations a replay calls: each either has its effect
  on the items or, when it fails, none.
\<close>

locale replica =
  fixes k :: "'s sink" and view :: "'s \<Rightarrow> item_map"
  assumes embed_view: "view (fst (sk_embed k x s)) = view s"
    and insert_view: "view (fst (sk_insert_vector k i v s)) = view s"
    and merge_view: "view (fst (sk_record_merge k a b r n s)) = view s"
    and put_view: "view (fst (sk_put_item k m s)) =
      (case snd (sk_put_item k m s) of Inr _ \<Rightarrow> apply_action (APut m) (view s) | Inl _ \<Rightarrow> view s)"
    and tombstone_view: "view (fst (sk_tombstone k a s)) =
      (case snd (sk_tombstone k a s) of Inr _ \<Rightarrow> apply_action (AHide a) (view s) | Inl _ \<Rightarrow> view s)"
    and promote_view: "view (fst (sk_promote_tier k a t s)) =
      (case snd (sk_promote_tier k a t s) of
         Inr _ \<Rightarrow> (case promoted_tier t of Some x \<Rightarrow> apply_action (ATier a x) (view s) | None \<Rightarrow> view s)
       | Inl _ \<Rightarrow> view s)"
    and promote_known: "snd (sk_promote_tier k a t s) = Inr u \<Longrightarrow> promoted_tier t \<noteq> None"
begin

lemma put_viewD:
  "sk_put_item k m s = (s', Inr u) \<Longrightarrow> view s' = apply_action (APut m) (view s)"
  "sk_put_item k m s = (s', Inl e) \<Longrightarrow> view s' = view s"
  using put_view [of m s] by simp_all

lemma tombstone_viewD:
  "sk_tombstone k a s = (s', Inr u) \<Longrightarrow> view s' = apply_action (AHide a) (view s)"
  "sk_tombstone k a s = (s', Inl e) \<Longrightarrow> view s' = view s"
  using tombstone_view [of a s] by simp_all

lemma insert_viewD: "sk_insert_vector k i v s = (s', r) \<Longrightarrow> view s' = view s"
  using insert_view [of i v s] by simp

lemma embed_viewD: "sk_embed k x s = (s', r) \<Longrightarrow> view s' = view s"
  using embed_view [of x s] by simp

lemma merge_viewD: "sk_record_merge k a b y n s = (s', r) \<Longrightarrow> view s' = view s"
  using merge_view [of a b y n s] by simp

lemma promote_viewD:
  "sk_promote_tier k a t s = (s', Inr u) \<Longrightarrow>
     \<exists>x. promoted_tier t = Some x \<and> view s' = apply_action (ATier a x) (view s)"
  "sk_promote_tier k a t s = (s', Inl e) \<Longrightarrow> view s' = view s"
  using promote_view [of a t s] promote_known [of a t s u] by auto

lemma commit_view:
  assumes "replay_commit c k p s = (s', res)"
  shows "case res of
      Inr _ \<Rightarrow> \<exists>m v. decode_commit_payload c p = Inr (m, v) \<and> view s' = apply_action (APut m) (view s)
    | Inl _ \<Rightarrow> view s' = view s"
  using assms
  by (auto simp: replay_commit_def then_do_def return_ok_def
      dest!: put_viewD insert_viewD embed_viewD
      split: sum.splits prod.splits option.splits)

lemma one_view:
  assumes "replay_one c k w s = (s', res)"
  shows "case res of
      Inr _ \<Rightarrow> view s' = apply_action (action_of c w) (view s)
    | Inl _ \<Rightarrow> view s' = view s \<or> view s' = apply_action (action_of c w) (view s)"
proof (cases "we_op w = ''commit''")
  case True
  then show ?thesis
    using commit_view [of c "we_payload w" s s' res] assms
    by (auto simp: replay_one_def action_of_def split: sum.splits)
next
  case False
  show ?thesis
  proof (cases "we_op w = ''merge''")
    case True
    with assms show ?thesis
      by (auto simp: replay_one_def action_of_def then_do_def return_ok_def
          dest!: tombstone_viewD merge_viewD split: sum.splits prod.splits list.splits)
  next
    case nm: False
    show ?thesis
    proof (cases "we_op w = ''promote''")
      case True
      with assms show ?thesis
        by (auto simp: replay_one_def action_of_def then_do_def return_ok_def
            dest!: promote_viewD split: sum.splits prod.splits list.splits)
    next
      case np: False
      with assms False nm show ?thesis
        by (auto simp: replay_one_def action_of_def then_do_def return_ok_def
            dest!: put_viewD tombstone_viewD split: sum.splits prod.splits if_splits)
    qed
  qed
qed

text \<open>
  The state of a follower that has finished the entries \<open>ds\<close> of a log and has \<open>ws\<close> to go: the
  items are those of \<open>ds\<close>, or the next entry has had its effect on them without being finished.
\<close>

definition tracks :: "payload_codec \<Rightarrow> item_map \<Rightarrow> wop_entry list \<Rightarrow> wop_entry list \<Rightarrow> 's \<Rightarrow> bool" where
  "tracks c f ds ws s =
     (view s = effects c ds f
      \<or> (\<exists>w ws'. ws = w # ws' \<and> view s = effects c (ds @ [w]) f))"

lemma tracks_start: "tracks c (view s) [] ws s"
  by (simp add: tracks_def)

lemma tracks_more: "tracks c f ds ws s \<Longrightarrow> tracks c f ds (ws @ vs) s"
  by (auto simp: tracks_def)

lemma tracks_one:
  assumes t: "tracks c f ds (w # ws) s" and one: "replay_one c k w s = (s', res)"
  shows "case res of Inr _ \<Rightarrow> view s' = effects c (ds @ [w]) f | Inl _ \<Rightarrow> tracks c f ds (w # ws) s'"
  using t one_view [OF one] by (auto simp: tracks_def apply_action_idem split: sum.splits)

lemma tracks_all_ok:
  "\<lbrakk> all_ok c k pre s = Some s1; tracks c f ds (pre @ post) s \<rbrakk>
     \<Longrightarrow> tracks c f (ds @ pre) post s1 \<and> (pre \<noteq> [] \<longrightarrow> view s1 = effects c (ds @ pre) f)"
proof (induction pre arbitrary: s ds)
  case (Cons w pre)
  obtain s2 b where one: "replay_one c k w s = (s2, Inr b)" and rest: "all_ok c k pre s2 = Some s1"
    using Cons.prems(1) by (auto split: prod.splits sum.splits)
  have v: "view s2 = effects c (ds @ [w]) f"
    using tracks_one [of c f ds w "pre @ post" s, OF _ one] Cons.prems(2) by simp
  then have "tracks c f (ds @ [w]) (pre @ post) s2" by (simp add: tracks_def)
  from Cons.IH [OF rest this] have "tracks c f (ds @ w # pre) post s1"
    "pre \<noteq> [] \<longrightarrow> view s1 = effects c (ds @ w # pre) f" by simp_all
  moreover have "pre = [] \<Longrightarrow> view s1 = effects c (ds @ w # pre) f" using rest v by simp
  ultimately show ?case by blast
qed simp

lemma tracks_batch:
  assumes b: "batch_result c k pre post s s' r" and t: "tracks c f ds (pre @ post @ rest) s"
  shows "tracks c f (ds @ pre) (post @ rest) s'"
proof -
  obtain s1 where s1: "all_ok c k pre s = Some s1" and
    post: "case post of [] \<Rightarrow> s' = s1 | w # _ \<Rightarrow> \<exists>e. replay_one c k w s1 = (s', Inl e)"
    using b by (cases post) (auto simp: batch_result_def)
  have t1: "tracks c f (ds @ pre) (post @ rest) s1" using tracks_all_ok [OF s1 t] by simp
  show ?thesis
  proof (cases post)
    case Nil
    with t1 post show ?thesis by simp
  next
    case (Cons w ws)
    then obtain e where "replay_one c k w s1 = (s', Inl e)" using post by auto
    from tracks_one [OF _ this] t1 Cons show ?thesis by fastforce
  qed
qed

end

end
