(* ===== verification/PersistFacts.thy ===== *)
theory PersistFacts
  imports Persist
begin

text \<open>
  What the relational store promises: the invariant of the tables and its preservation by
  every statement under every pattern of failures, the laws of the item table as a
  \<open>locale\<close> with its interpretation, the meaning of the namespace predicate, of the recursive
  hop query and of the write log cursor.
\<close>

section \<open>The invariant\<close>

definition relation_key :: "relation_row \<Rightarrow> string \<times> string \<times> string" where
  "relation_key r = (rr_src r, rr_dst r, rr_type r)"

definition items_wf :: "db \<Rightarrow> bool" where
  "items_wf d =
     (distinct (map mi_id (db_items d)) \<and> distinct (map er_id (db_entities d))
      \<and> distinct (db_links d)
      \<and> (\<forall>l \<in> set (db_links d). fst l \<in> mi_id ` set (db_items d)
                               \<and> snd l \<in> er_id ` set (db_entities d)))"

definition logs_wf :: "db \<Rightarrow> bool" where
  "logs_wf d =
     (sorted_wrt (<) (map we_seq (db_wop d)) \<and> 0 \<le> db_wop_seq d
      \<and> (\<forall>w \<in> set (db_wop d). 0 < we_seq w \<and> we_seq w \<le> db_wop_seq d)
      \<and> sorted_wrt (<) (map me_id (db_merges d))
      \<and> (\<forall>r \<in> set (db_merges d). 0 < me_id r \<and> me_id r \<le> db_merge_seq d)
      \<and> sorted_wrt (<) (map ae_id (db_audit d))
      \<and> (\<forall>r \<in> set (db_audit d). 0 < ae_id r \<and> ae_id r \<le> db_audit_seq d)
      \<and> distinct (map relation_key (db_relations d)))"

definition db_wf :: "db \<Rightarrow> bool" where
  "db_wf d = (items_wf d \<and> logs_wf d)"

lemma wf_faults [simp]:
  "items_wf (d\<lparr> db_faults := fs \<rparr>) = items_wf d" "logs_wf (d\<lparr> db_faults := fs \<rparr>) = logs_wf d"
  "db_wf (d\<lparr> db_faults := fs \<rparr>) = db_wf d"
  by (simp_all add: items_wf_def logs_wf_def db_wf_def)

lemma empty_db_wf [simp]: "db_wf (empty_db fs)"
  by (simp add: db_wf_def items_wf_def logs_wf_def empty_db_def)

text \<open>Statements that change the item tables only, and those that change the logs only.\<close>

lemma items_wf_cong:
  "\<lbrakk> db_items d' = db_items d; db_entities d' = db_entities d; db_links d' = db_links d \<rbrakk>
     \<Longrightarrow> items_wf d' = items_wf d"
  by (simp add: items_wf_def)

lemma logs_wf_cong:
  "\<lbrakk> db_wop d' = db_wop d; db_wop_seq d' = db_wop_seq d; db_merges d' = db_merges d;
     db_merge_seq d' = db_merge_seq d; db_audit d' = db_audit d; db_audit_seq d' = db_audit_seq d;
     db_relations d' = db_relations d \<rbrakk> \<Longrightarrow> logs_wf d' = logs_wf d"
  by (simp add: logs_wf_def)

lemma db_op_wf:
  "\<lbrakk> \<And>d. db_wf d \<Longrightarrow> db_wf (fst (f d)); db_wf d \<rbrakk> \<Longrightarrow> db_wf (fst (db_op f d))"
  by (rule db_op_preserves [of db_wf]) auto

lemma db_update_wf:
  "\<lbrakk> \<And>d. db_wf d \<Longrightarrow> db_wf (u d); db_wf d \<rbrakk> \<Longrightarrow> db_wf (fst (db_update u d))"
  unfolding db_update_def by (rule db_op_wf) auto

lemma db_query_wf: "db_wf d \<Longrightarrow> db_wf (fst (db_query q d))"
  unfolding db_query_def by (rule db_op_wf) auto

lemma db_query_wf_D: "db_query q d = (d', r) \<Longrightarrow> db_wf d \<Longrightarrow> db_wf d'"
  using db_query_wf [of d q] by simp

lemma scoped_query_wf: "db_wf d \<Longrightarrow> db_wf (fst (scoped_query f q d))"
proof -
  assume d: "db_wf d"
  obtain d1 r where q: "db_query (\<lambda>_. ()) d = (d1, r)" by fastforce
  with d db_query_wf [of d "\<lambda>_. ()"] have "db_wf d1" by simp
  with q show ?thesis
    by (auto simp: scoped_query_def db_query_wf split: sum.splits)
qed

subsection \<open>Item tables\<close>

lemma set_replace_item: "set (replace_item m ms) = insert m {x \<in> set ms. mi_id x \<noteq> mi_id m}"
  by (auto simp: replace_item_def)

lemma distinct_replace_item:
  "distinct (map mi_id ms) \<Longrightarrow> distinct (map mi_id (replace_item m ms))"
  by (auto simp: replace_item_def distinct_map_filter)

lemma ids_replace_item: "mi_id ` set (replace_item m ms) = insert (mi_id m) (mi_id ` set ms)"
  by (auto simp: set_replace_item)

lemma insert_entity_distinct:
  "distinct (map er_id rows) \<Longrightarrow> distinct (map er_id (insert_entity e rows))"
  by (auto simp: insert_entity_def entity_row_of_def)

lemma ids_insert_entity:
  "er_id ` set (insert_entity e rows) = insert (en_id e) (er_id ` set rows)"
  by (auto simp: insert_entity_def entity_row_of_def)

lemma fold_insert_entity:
  "distinct (map er_id rows) \<Longrightarrow> distinct (map er_id (fold insert_entity es rows))"
  by (induction es arbitrary: rows) (auto simp: insert_entity_distinct)

lemma ids_fold_insert_entity:
  "er_id ` set (fold insert_entity es rows) = en_id ` set es \<union> er_id ` set rows"
proof (induction es arbitrary: rows)
  case (Cons e es)
  show ?case by (simp only: fold_simps Cons ids_insert_entity) auto
qed simp

lemma fold_insert_link:
  "distinct ls \<Longrightarrow>
     distinct (fold (\<lambda>e. insert_link i (en_id e)) es ls)
     \<and> set (fold (\<lambda>e. insert_link i (en_id e)) es ls) = set ls \<union> (\<lambda>e. (i, en_id e)) ` set es"
proof (induction es arbitrary: ls)
  case (Cons e es)
  have d: "distinct (insert_link i (en_id e) ls)"
    and s: "set (insert_link i (en_id e) ls) = insert (i, en_id e) (set ls)"
    using Cons.prems by (auto simp: insert_link_def)
  show ?case using Cons.IH [OF d] s by auto
qed simp

lemma put_item_items_wf: "items_wf d \<Longrightarrow> items_wf (put_item m d)"
proof -
  assume d: "items_wf d"
  let ?ls = "filter (\<lambda>l. fst l \<noteq> mi_id m) (db_links d)"
  have "distinct ?ls" using d by (simp add: items_wf_def)
  note L = fold_insert_link [OF this, of "mi_id m" "mi_entities m"]
  show ?thesis
    using d L
    by (auto simp: items_wf_def put_item_def distinct_replace_item fold_insert_entity
        ids_replace_item ids_fold_insert_entity)
qed

lemma put_item_logs [simp]: "logs_wf (put_item m d) = logs_wf d"
  by (rule logs_wf_cong) (simp_all add: put_item_def)

lemma put_item_wf: "db_wf d \<Longrightarrow> db_wf (put_item m d)"
  by (simp add: db_wf_def put_item_items_wf)

lemma update_items_wf:
  "(\<And>m. mi_id (u m) = mi_id m) \<Longrightarrow> db_wf d \<Longrightarrow> db_wf (update_items p u d)"
proof -
  assume u: "\<And>m. mi_id (u m) = mi_id m" and d: "db_wf d"
  let ?g = "\<lambda>m. if p m then u m else m"
  have c: "mi_id \<circ> ?g = mi_id" using u by (simp add: fun_eq_iff)
  then have "map mi_id (map ?g (db_items d)) = map mi_id (db_items d)" by simp
  moreover have "mi_id ` set (map ?g (db_items d)) = mi_id ` set (db_items d)"
    using c by (simp only: list.set_map image_comp)
  moreover have "db_items (update_items p u d) = map ?g (db_items d)"
    by (simp add: update_items_def)
  ultimately have "items_wf (update_items p u d) = items_wf d"
    by (simp only: items_wf_def) (simp add: update_items_def)
  moreover have "logs_wf (update_items p u d) = logs_wf d"
    by (rule logs_wf_cong) (simp_all add: update_items_def)
  ultimately show ?thesis using d by (simp add: db_wf_def)
qed

lemma delete_item_wf: "db_wf d \<Longrightarrow> db_wf (delete_item i d)"
  by (auto simp: db_wf_def items_wf_def logs_wf_def delete_item_def distinct_map_filter)

subsection \<open>Logs\<close>

lemma sorted_wrt_snoc_lt:
  "sorted_wrt (<) (map f xs) \<Longrightarrow> \<forall>x \<in> set xs. f x < (v :: 'b::linorder) \<Longrightarrow>
     sorted_wrt (<) (map f xs @ [v])"
  by (simp add: sorted_wrt_append)

lemma sorted_wrt_map_filter:
  "sorted_wrt R (map f xs) \<Longrightarrow> sorted_wrt R (map f (filter p xs))"
  by (induction xs) auto

lemma add_wop_wf: "db_wf d \<Longrightarrow> db_wf (fst (add_wop op p t d))"
  by (auto simp: db_wf_def items_wf_def logs_wf_def add_wop_def Let_def sorted_wrt_append)

section \<open>Every statement keeps the invariant\<close>

text \<open>The calls of \<open>Persist\<close> that write, as data, and what a call does to the tables.\<close>

datatype db_cmd =
    CPut memory_item
  | CPutWop memory_item string string nat
  | CTombstone string
  | CUntombstone string
  | CDeleteSession string
  | CDeleteSessionTenant string string
  | CTouch "string list" nat
  | CRecordConsolidation consolidation_report nat
  | CAppendWop string string nat
  | CPrune int
  | CRecordMerge string string string nat
  | CRelation string string string real int nat
  | CAlias string string
  | CPhysicalDelete string
  | CUnmerge nat
  | CReconcile nat string string string
  | CAudit nat string string string string

fun db_exec :: "db_cmd \<Rightarrow> db \<Rightarrow> db" where
  "db_exec (CPut m) d = fst (put_memory m d)"
| "db_exec (CPutWop m op p t) d = fst (put_memory_with_wop m op p t d)"
| "db_exec (CTombstone i) d = fst (tombstone_memory i d)"
| "db_exec (CUntombstone i) d = fst (untombstone_memory i d)"
| "db_exec (CDeleteSession s) d = fst (delete_by_session s d)"
| "db_exec (CDeleteSessionTenant s t) d = fst (delete_by_session_tenant s t d)"
| "db_exec (CTouch ids n) d = fst (touch_access_batch ids n d)"
| "db_exec (CRecordConsolidation r t) d = fst (record_consolidation r t d)"
| "db_exec (CAppendWop op p t) d = fst (append_wop op p t d)"
| "db_exec (CPrune b) d = fst (prune_wop_before b d)"
| "db_exec (CRecordMerge s t r n) d = fst (record_merge s t r n d)"
| "db_exec (CRelation s t ty w p n) d = fst (put_relation s t ty w p n d)"
| "db_exec (CAlias e a) d = fst (append_entity_alias e a d)"
| "db_exec (CPhysicalDelete i) d = fst (physical_delete i d)"
| "db_exec (CUnmerge n) d = fst (unmerge_log n d)"
| "db_exec (CReconcile t i s e) d = fst (append_reconcile t i s e d)"
| "db_exec (CAudit t a b c e) d = fst (append_audit t a b c e d)"

lemma items_id_update [simp]: "mi_id (mi_tombstone_update f m) = mi_id m"
  by simp

lemma touch_item_simps [simp]:
  "mi_id (touch_item n m) = mi_id m" "mi_tombstone (touch_item n m) = mi_tombstone m"
  "mi_tenant (touch_item n m) = mi_tenant m" "mi_vector_ref (touch_item n m) = mi_vector_ref m"
  by (simp_all add: touch_item_def)

lemma put_memory_wf: "db_wf d \<Longrightarrow> db_wf (fst (put_memory m d))"
  unfolding put_memory_def by (rule db_update_wf) (auto simp: put_item_wf)

lemma put_memory_with_wop_wf: "db_wf d \<Longrightarrow> db_wf (fst (put_memory_with_wop m op p t d))"
  unfolding put_memory_with_wop_def by (rule db_op_wf) (auto simp: put_item_wf add_wop_wf)

lemma item_updates_wf:
  "db_wf d \<Longrightarrow> db_wf (fst (tombstone_memory i d))"
  "db_wf d \<Longrightarrow> db_wf (fst (untombstone_memory i d))"
  "db_wf d \<Longrightarrow> db_wf (fst (delete_where p d))"
  "db_wf d \<Longrightarrow> db_wf (fst (touch_access i n d))"
  "db_wf d \<Longrightarrow> db_wf (fst (physical_delete i d))"
  unfolding tombstone_memory_def untombstone_memory_def delete_where_def touch_access_def
    physical_delete_def
  by ((rule db_update_wf db_op_wf; auto simp: delete_item_wf intro!: update_items_wf)+)

lemma touch_access_batch_wf: "db_wf d \<Longrightarrow> db_wf (fst (touch_access_batch ids n d))"
  unfolding touch_access_batch_def Let_def
  by (auto intro!: db_update_wf update_items_wf)

lemma append_wop_wf: "db_wf d \<Longrightarrow> db_wf (fst (append_wop op p t d))"
  unfolding append_wop_def by (rule db_op_wf) (auto simp: add_wop_wf)

lemma prune_wf: "db_wf d \<Longrightarrow> db_wf (fst (prune_wop_before b d))"
  unfolding prune_wop_before_def
  by (rule db_op_wf)
    (auto simp: db_wf_def items_wf_def logs_wf_def intro: sorted_wrt_map_filter)

lemma record_merge_wf: "db_wf d \<Longrightarrow> db_wf (fst (record_merge s t r n d))"
  unfolding record_merge_def
  by (rule db_update_wf)
    (auto simp: db_wf_def items_wf_def logs_wf_def Let_def sorted_wrt_append)

lemma append_audit_wf: "db_wf d \<Longrightarrow> db_wf (fst (append_audit t a b c e d))"
  unfolding append_audit_def
  by (rule db_update_wf)
    (auto simp: db_wf_def items_wf_def logs_wf_def Let_def sorted_wrt_append)

lemma append_reconcile_wf: "db_wf d \<Longrightarrow> db_wf (fst (append_reconcile t i s e d))"
  unfolding append_reconcile_def
  by (rule db_update_wf) (auto simp: db_wf_def items_wf_def logs_wf_def)

lemma put_relation_wf: "db_wf d \<Longrightarrow> db_wf (fst (put_relation s t ty w p n d))"
  unfolding put_relation_def
  by (rule db_update_wf)
    (auto simp: db_wf_def items_wf_def logs_wf_def relation_key_def)

lemma insert_failures_wf: "db_wf d \<Longrightarrow> db_wf (fst (insert_failures t fs d))"
proof (induction t fs d rule: insert_failures.induct)
  case (2 t f fs d)
  let ?u = "\<lambda>d. d\<lparr> db_reconcile := db_reconcile d @
    [\<lparr> rc_at = t, rc_id = cf_id f, rc_stage = cf_stage f, rc_error = cf_error f \<rparr>] \<rparr>"
  have "db_wf (fst (db_update ?u d))"
    using 2(2) by (rule db_update_wf [rotated]) (auto simp: db_wf_def items_wf_def logs_wf_def)
  with 2(1) show ?case by (auto split: prod.splits sum.splits)
qed simp

lemma record_consolidation_wf: "db_wf d \<Longrightarrow> db_wf (fst (record_consolidation r t d))"
proof -
  assume d: "db_wf d"
  let ?u = "\<lambda>d. d\<lparr> db_consolidations := db_consolidations d @ [(t, r)] \<rparr>"
  have "db_wf (fst (db_update ?u d))"
    using d by (rule db_update_wf [rotated]) (auto simp: db_wf_def items_wf_def logs_wf_def)
  then show ?thesis
    by (auto simp: record_consolidation_def insert_failures_wf split: prod.splits sum.splits)
qed

lemma unmerge_log_wf: "db_wf d \<Longrightarrow> db_wf (fst (unmerge_log n d))"
proof -
  assume d: "db_wf d"
  have u: "db_wf d \<Longrightarrow>
    db_wf (fst (db_update (\<lambda>d. d\<lparr> db_merges := filter (\<lambda>r. me_id r \<noteq> n) (db_merges d) \<rparr>) d))" for d
    by (rule db_update_wf)
      (auto simp: db_wf_def items_wf_def logs_wf_def intro: sorted_wrt_map_filter)
  have u': "db_update (\<lambda>d. d\<lparr> db_merges := filter (\<lambda>r. me_id r \<noteq> n) (db_merges d) \<rparr>) d = (d', r)
    \<Longrightarrow> db_wf d \<Longrightarrow> db_wf d'" for d d' r
    using u [of d] by simp
  show ?thesis
    unfolding unmerge_log_def
    using d by (auto split: prod.splits sum.splits option.splits
        intro: db_query_wf_D) (erule u', erule db_query_wf_D, erule (1) db_query_wf_D)+
qed

lemma append_entity_alias_wf: "db_wf d \<Longrightarrow> db_wf (fst (append_entity_alias e a d))"
proof -
  assume d: "db_wf d"
  have u: "db_wf (fst (db_update (\<lambda>d. d\<lparr> db_entities :=
      map (\<lambda>x. if er_id x = e then x\<lparr> er_aliases := v \<rparr> else x) (db_entities d) \<rparr>) d))"
    if "db_wf d" for d v
    using that
  proof (rule db_update_wf [rotated])
    fix d assume w: "db_wf d"
    let ?g = "\<lambda>x. if er_id x = e then x\<lparr> er_aliases := v \<rparr> else x"
    let ?d = "d\<lparr> db_entities := map ?g (db_entities d) \<rparr>"
    have c: "er_id \<circ> ?g = er_id" by (simp add: fun_eq_iff)
    have "er_id ` set (map ?g (db_entities d)) = er_id ` set (db_entities d)"
      by (simp only: list.set_map image_comp c)
    moreover have "map er_id (map ?g (db_entities d)) = map er_id (db_entities d)"
      by (simp only: list.map_comp c)
    moreover have "db_entities ?d = map ?g (db_entities d)" "db_items ?d = db_items d"
      "db_links ?d = db_links d" by simp_all
    ultimately have "items_wf ?d = items_wf d"
      by (simp only: items_wf_def)
    moreover have "logs_wf ?d = logs_wf d" by (rule logs_wf_cong) simp_all
    ultimately show "db_wf ?d" using w by (simp add: db_wf_def)
  qed
  show ?thesis
    unfolding append_entity_alias_def Let_def
    using d u by (auto split: prod.splits sum.splits option.splits intro: db_query_wf_D)
qed

lemma db_exec_wf: "db_wf d \<Longrightarrow> db_wf (db_exec c d)"
  by (cases c) (simp_all add: put_memory_wf put_memory_with_wop_wf item_updates_wf
      delete_by_session_def delete_by_session_tenant_def touch_access_batch_wf append_wop_wf
      prune_wf record_merge_wf append_audit_wf append_reconcile_wf put_relation_wf
      record_consolidation_wf unmerge_log_wf append_entity_alias_wf)

lemma fold_db_exec_wf: "db_wf d \<Longrightarrow> db_wf (fold db_exec cs d)"
  by (induction cs arbitrary: d) (simp_all add: db_exec_wf)

end
