(* ===== verification/PersistProps.thy ===== *)
theory PersistProps
  imports PersistFacts
begin

text \<open>
  Properties of the relational store: the hop query, the write log cursor, the scoped
  listings, the atomic write, and the contract of the item table.
\<close>

section \<open>The hop query finds shortest paths\<close>

inductive walk :: "relation_row list \<Rightarrow> string \<Rightarrow> nat \<Rightarrow> string \<Rightarrow> bool" for rs where
  walk_0: "walk rs s 0 s"
| walk_Suc: "\<lbrakk> r \<in> set rs; rr_src r = s; walk rs (rr_dst r) n b \<rbrakk> \<Longrightarrow> walk rs s (Suc n) b"

inductive_simps walk_0_iff [simp]: "walk rs s 0 b"
inductive_simps walk_Suc_iff: "walk rs s (Suc n) b"

lemma set_dsts: "set (dsts rs n) = {rr_dst r | r. r \<in> set rs \<and> rr_src r = n}"
  by (auto simp: dsts_def)

lemma hop_rows_walk:
  "(l, b) \<in> set (hop_rows rs lvl k ns) \<longleftrightarrow>
     (\<exists>s \<in> set ns. \<exists>j \<le> k. l = lvl + j \<and> walk rs s j b)"
proof (induction rs lvl k ns rule: hop_rows.induct)
  case (1 rs lvl ns)
  then show ?case by auto
next
  case (2 rs lvl k ns)
  have "(\<exists>s \<in> set (concat (map (dsts rs) ns)). \<exists>j \<le> k. l = Suc lvl + j \<and> walk rs s j b)
     \<longleftrightarrow> (\<exists>s \<in> set ns. \<exists>j. Suc j \<le> Suc k \<and> l = lvl + Suc j \<and> walk rs s (Suc j) b)"
    unfolding walk_Suc_iff by (fastforce simp: set_dsts)
  moreover have "(\<exists>j \<le> Suc k. l = lvl + j \<and> walk rs s j b) \<longleftrightarrow>
      (l = lvl \<and> s = b) \<or> (\<exists>j. Suc j \<le> Suc k \<and> l = lvl + Suc j \<and> walk rs s (Suc j) b)" for s
    by (metis Suc_le_eq add_0_right not0_implies_Suc walk_0_iff zero_le)
  ultimately show ?case using 2 by auto
qed

definition shortest :: "relation_row list \<Rightarrow> string \<Rightarrow> string \<Rightarrow> nat \<Rightarrow> bool" where
  "shortest rs s b h = (walk rs s h b \<and> (\<forall>j < h. \<not> walk rs s j b))"

lemma first_hops_iff:
  "(b, h) \<in> set (first_hops rows) \<longleftrightarrow>
     (h, b) \<in> set rows \<and> (\<forall>j. (j, b) \<in> set rows \<longrightarrow> h \<le> j)"
proof -
  let ?F = "fst ` set (filter (\<lambda>r. snd r = b) rows)"
  have F: "j \<in> ?F \<longleftrightarrow> (j, b) \<in> set rows" for j by force
  have fin: "finite ?F" by simp
  have "(b, h) \<in> set (first_hops rows) \<longleftrightarrow> b \<in> snd ` set rows \<and> h = Min ?F"
    by (auto simp: first_hops_def)
  also have "\<dots> \<longleftrightarrow> ?F \<noteq> {} \<and> h = Min ?F"
    by (auto simp: image_iff filter_empty_conv) force
  also have "\<dots> \<longleftrightarrow> h \<in> ?F \<and> (\<forall>j \<in> ?F. h \<le> j)"
    using fin Min_in Min_le Min_eqI by (metis empty_iff)
  finally show ?thesis using F by blast
qed

lemma first_hops_sorted: "sorted (map snd (first_hops rows))"
  by (simp add: first_hops_def)

lemma shortest_rows:
  "(b, h) \<in> set (first_hops (filter (\<lambda>r. snd r \<noteq> s) (hop_rows rs 0 k [s])))
     \<longleftrightarrow> b \<noteq> s \<and> h \<le> k \<and> shortest rs s b h"
proof -
  have rows: "(j, b) \<in> set (filter (\<lambda>r. snd r \<noteq> s) (hop_rows rs 0 k [s]))
      \<longleftrightarrow> b \<noteq> s \<and> j \<le> k \<and> walk rs s j b" for j
    by (auto simp: hop_rows_walk)
  show ?thesis
    unfolding first_hops_iff rows shortest_def by (meson le_trans linorder_not_le order.asym)
qed

lemma distinct_first_hops: "distinct (map fst (first_hops rows))"
  by (auto simp: first_hops_def distinct_map inj_on_def)

section \<open>The item table as a map\<close>

definition hide_item :: "string \<Rightarrow> db \<Rightarrow> db" where
  "hide_item i = update_items (\<lambda>m. mi_id m = i) (mi_tombstone_update (\<lambda>_. True))"

definition unhide_item :: "string \<Rightarrow> db \<Rightarrow> db" where
  "unhide_item i = update_items (\<lambda>m. mi_id m = i) (mi_tombstone_update (\<lambda>_. False))"

text \<open>
  The contract the engine and the follower rely on: four writers and what a lookup returns
  after each. Whatever satisfies it is determined, write by write, by what its lookups
  returned before.
\<close>

locale item_store =
  fixes look :: "string \<Rightarrow> 's \<Rightarrow> memory_item option"
    and ins :: "memory_item \<Rightarrow> 's \<Rightarrow> 's"
    and hide :: "string \<Rightarrow> 's \<Rightarrow> 's"
    and unhide :: "string \<Rightarrow> 's \<Rightarrow> 's"
    and rm :: "string \<Rightarrow> 's \<Rightarrow> 's"
  assumes look_ins: "look i (ins m s) = (if i = mi_id m then Some m else look i s)"
    and look_hide:
      "look i (hide j s) =
         (if i = j then map_option (mi_tombstone_update (\<lambda>_. True)) (look i s) else look i s)"
    and look_unhide:
      "look i (unhide j s) =
         (if i = j then map_option (mi_tombstone_update (\<lambda>_. False)) (look i s) else look i s)"
    and look_rm: "look i (rm j s) = (if i = j then None else look i s)"
    and look_id: "look i s = Some m \<Longrightarrow> mi_id m = i"
begin

definition same :: "'s \<Rightarrow> 's \<Rightarrow> bool" where
  "same s t = (\<forall>i. look i s = look i t)"

lemma same_refl [simp]: "same s s"
  by (simp add: same_def)

lemma same_ins: "same s t \<Longrightarrow> same (ins m s) (ins m t)"
  by (simp add: same_def look_ins)

lemma same_hide: "same s t \<Longrightarrow> same (hide i s) (hide i t)"
  by (simp add: same_def look_hide)

lemma ins_ins: "same (ins m (ins m s)) (ins m s)"
  by (simp add: same_def look_ins)

lemma hide_hide: "same (hide i (hide i s)) (hide i s)"
  by (auto simp: same_def look_hide option.map_comp comp_def)

lemma hide_unhide:
  "\<lbrakk> look i s = Some m; \<not> mi_tombstone m \<rbrakk> \<Longrightarrow> same (unhide i (hide i s)) s"
  by (auto simp: same_def look_hide look_unhide)

lemma hidden: "look i (hide i s) = Some m \<Longrightarrow> mi_tombstone m"
  by (auto simp: look_hide)

lemma hide_other_ins: "i \<noteq> mi_id m \<Longrightarrow> same (hide i (ins m s)) (ins m (hide i s))"
  by (auto simp: same_def look_hide look_ins)

end

lemma find_map_id:
  "(\<And>m. mi_id (u m) = mi_id m) \<Longrightarrow>
     find (\<lambda>m. mi_id m = i) (map u ms) = map_option u (find (\<lambda>m. mi_id m = i) ms)"
  by (induction ms) auto

lemma find_replace_item:
  "find (\<lambda>x. mi_id x = i) (replace_item m ms) =
     (if i = mi_id m then Some m else find (\<lambda>x. mi_id x = i) ms)"
proof -
  have "find (\<lambda>x. mi_id x = i) (filter (\<lambda>x. mi_id x \<noteq> mi_id m) ms @ [m]) =
      (if i = mi_id m then Some m else find (\<lambda>x. mi_id x = i) ms)"
    by (induction ms) auto
  then show ?thesis by (simp add: replace_item_def)
qed

lemma find_item_put [simp]:
  "find_item i (put_item m d) = (if i = mi_id m then Some m else find_item i d)"
  by (simp add: find_item_def put_item_def find_replace_item)

lemma find_item_update:
  assumes "\<And>m. mi_id (u m) = mi_id m"
  shows "find_item i (update_items p u d) = map_option (\<lambda>m. if p m then u m else m) (find_item i d)"
  unfolding find_item_def update_items_def
  by (simp add: assms find_map_id [of "\<lambda>m. if p m then u m else m"])

lemma find_item_delete:
  "find_item i (delete_item j d) = (if i = j then None else find_item i d)"
proof -
  have "find (\<lambda>x. mi_id x = i) (filter (\<lambda>m. mi_id m \<noteq> j) ms) =
      (if i = j then None else find (\<lambda>x. mi_id x = i) ms)" for ms
    by (induction ms) auto
  from this [of "db_items d"] show ?thesis
    by (auto simp: find_item_def delete_item_def split: if_splits)
qed

lemma find_item_id: "find_item i d = Some m \<Longrightarrow> mi_id m = i"
  unfolding find_item_def by (drule find_SomeD) simp

lemma find_item_faults [simp]: "find_item i (d\<lparr> db_faults := fs \<rparr>) = find_item i d"
  by (simp add: find_item_def)

lemma find_item_in: "find_item i d = Some m \<Longrightarrow> m \<in> set (db_items d)"
  unfolding find_item_def by (drule find_SomeD) simp

lemma find_item_mem:
  "\<lbrakk> distinct (map mi_id (db_items d)); m \<in> set (db_items d) \<rbrakk> \<Longrightarrow> find_item (mi_id m) d = Some m"
proof -
  have "distinct (map mi_id ms) \<Longrightarrow> m \<in> set ms \<Longrightarrow> find (\<lambda>x. mi_id x = mi_id m) ms = Some m" for ms
    by (induction ms) force+
  then show "\<lbrakk> distinct (map mi_id (db_items d)); m \<in> set (db_items d) \<rbrakk> \<Longrightarrow> ?thesis"
    by (simp add: find_item_def)
qed

interpretation items: item_store find_item put_item hide_item unhide_item delete_item
proof unfold_locales
  fix i j d m
  show "find_item i (put_item m d) = (if i = mi_id m then Some m else find_item i d)" by simp
  show "find_item i (hide_item j d) =
     (if i = j then map_option (mi_tombstone_update (\<lambda>_. True)) (find_item i d) else find_item i d)"
    by (auto simp: hide_item_def find_item_update find_item_id intro!: option.map_cong0 option.map_ident_strong)
  show "find_item i (unhide_item j d) =
     (if i = j then map_option (mi_tombstone_update (\<lambda>_. False)) (find_item i d) else find_item i d)"
    by (auto simp: unhide_item_def find_item_update find_item_id intro!: option.map_cong0 option.map_ident_strong)
  show "find_item i (delete_item j d) = (if i = j then None else find_item i d)"
    by (rule find_item_delete)
  show "find_item i d = Some m \<Longrightarrow> mi_id m = i" by (rule find_item_id)
qed

section \<open>The write log as a cursor\<close>

lemma sort_key_sorted_wrt:
  fixes f :: "'a \<Rightarrow> 'k::linorder"
  shows "sorted_wrt (<) (map f xs) \<Longrightarrow> sort_key f xs = xs"
  by (metis (no_types, lifting) sorted_sort_id sort_key_id_if_sorted strict_sorted_imp_sorted)

lemma wop_since_sorted:
  "sorted_wrt (<) (map we_seq ws) \<Longrightarrow>
     wop_since c n ws = sql_limit n (filter (\<lambda>w. we_seq w > c) ws)"
  unfolding wop_since_def
  by (subst sort_key_sorted_wrt) (auto intro: sorted_wrt_map_filter)

lemma sql_limit_small: "n < 2 ^ 63 \<Longrightarrow> sql_limit n xs = take n xs"
  by (simp add: sql_limit_def u64_as_i64_def Let_def)

text \<open>Reading a batch and continuing after its last entry leaves no gap and repeats nothing.\<close>

lemma filter_after_take:
  fixes f :: "'a \<Rightarrow> int"
  assumes "sorted_wrt (<) (map f xs)" and "0 < n" and "n \<le> length xs"
  shows "filter (\<lambda>x. f x > f (xs ! (n - 1))) xs = drop n xs"
proof -
  have "filter (\<lambda>x. f x > f (xs ! (n - 1))) (take n xs @ drop n xs) = drop n xs"
  proof -
    have "filter (\<lambda>x. f x > f (xs ! (n - 1))) (take n xs) = []"
    proof -
      have "\<not> f x > f (xs ! (n - 1))" if "x \<in> set (take n xs)" for x
      proof -
        from that obtain i where i: "i < n" "x = xs ! i"
          using assms(3) by (auto simp: in_set_conv_nth)
        then have "i = n - 1 \<or> f (xs ! i) < f (xs ! (n - 1))"
          using sorted_wrt_nth_less [OF assms(1), of i "n - 1"] assms(2,3) by fastforce
        with i show ?thesis by auto
      qed
      then show ?thesis by (simp add: filter_empty_conv)
    qed
    moreover have "filter (\<lambda>x. f x > f (xs ! (n - 1))) (drop n xs) = drop n xs"
    proof (rule filter_True, rule ballI)
      fix x assume "x \<in> set (drop n xs)"
      then obtain i where j: "i < length (drop n xs)" "x = drop n xs ! i"
        by (metis in_set_conv_nth)
      then have i: "n + i < length xs" "x = xs ! (n + i)" by simp_all
      then show "f (xs ! (n - 1)) < f x"
        using sorted_wrt_nth_less [OF assms(1), of "n - 1" "n + i"] assms(2,3) by simp
    qed
    ultimately show ?thesis by (simp only: filter_append append_Nil)
  qed
  then show ?thesis by (simp only: append_take_drop_id)
qed

lemma batch_continues:
  assumes s: "sorted_wrt (<) (map we_seq ws)" and n: "n < 2 ^ 63" and m: "m < 2 ^ 63"
    and nm: "n + m < 2 ^ 63" and ne: "wop_since c n ws \<noteq> []"
  shows "wop_since c n ws @ wop_since (we_seq (last (wop_since c n ws))) m ws
           = wop_since c (n + m) ws"
proof -
  let ?xs = "filter (\<lambda>w. we_seq w > c) ws"
  let ?b = "take n ?xs"
  have b: "wop_since c n ws = ?b" using s n by (simp add: wop_since_sorted sql_limit_small)
  let ?k = "length ?b"
  have sx: "sorted_wrt (<) (map we_seq ?xs)" using s by (rule sorted_wrt_map_filter)
  have k: "0 < ?k" "?k \<le> length ?xs" using ne b by auto
  have l: "last ?b = ?xs ! (?k - 1)"
    using ne b by (subst last_conv_nth) (auto simp: nth_take)
  have c: "c < we_seq (last ?b)"
    using ne b in_set_takeD [OF last_in_set [of ?b]] by auto
  have "filter (\<lambda>w. we_seq w > we_seq (last ?b)) ws
      = filter (\<lambda>w. we_seq w > we_seq (last ?b)) ?xs"
    using c by (auto simp: filter_filter intro!: filter_cong)
  also have "\<dots> = drop ?k ?xs"
    using filter_after_take [OF sx k] l by simp
  also have "\<dots> = drop n ?xs" by (simp add: min_def)
  finally show ?thesis
    using s m nm b by (simp add: wop_since_sorted sql_limit_small take_add)
qed

section \<open>Properties\<close>

text \<open>
  C15: a listing scoped to a namespace succeeds only for a known namespace (or none) and then
  returns exactly the live items of the tenant that \<open>NamespaceFilter::visible\<close> shows: the SQL
  predicate and the in-memory rule agree, and an unknown namespace is refused.
\<close>

theorem scoped_listing_visible:
  assumes "list_all_by_tenant_scoped ten f d = (d', Inr ms)"
  shows "is_valid_namespace (nf_ns f)
    \<and> set ms = {m \<in> set (db_items d). \<not> mi_tombstone m \<and> mi_tenant m = ten \<and> item_visible f m}"
proof -
  obtain d1 p where q: "db_query (\<lambda>_. ()) d = (d1, Inr ())" and p: "ns_predicate f = Inr p"
    and r: "db_query (\<lambda>d. order_created (filter (\<lambda>m. \<not> mi_tombstone m \<and> mi_tenant m = ten
              \<and> sql_eval p m) (db_items d))) d1 = (d', Inr ms)"
    using assms
    by (auto simp: list_all_by_tenant_scoped_def scoped_query_def split: prod.splits sum.splits)
  obtain fs where "d1 = d\<lparr> db_faults := fs \<rparr>"
    using db_query_state [of "\<lambda>_. ()" d] q by auto
  moreover have "ms = order_created (filter (\<lambda>m. \<not> mi_tombstone m \<and> mi_tenant m = ten
              \<and> sql_eval p m) (db_items d1))"
    using r by (rule db_query_Inr) simp
  moreover have "is_valid_namespace (nf_ns f)"
    using ns_predicate_Inl p by (metis sum.distinct(1))
  ultimately show ?thesis
    by (auto simp: order_created_def ns_predicate_Inr [OF p])
qed

definition item_a :: memory_item where
  "item_a = with_namespace (new_turn_skeleton ''a'' ''ix'' 0 ''s'' ''t1'' Episodic ''hi'' 5)
     ''project'' ''p1''"

definition item_b :: memory_item where
  "item_b = with_namespace (new_turn_skeleton ''b'' ''ix'' 1 ''s'' ''t1'' Semantic ''yo'' 3)
     ''user'' ''u1''"

definition db_ab :: db where
  "db_ab = put_item item_b (put_item item_a (empty_db []))"

lemma scoped_listing_witness:
  "set (case snd (list_all_by_tenant_scoped ''t1'' (ns_filter_new ''project'' ''p1'') db_ab) of
          Inr ms \<Rightarrow> ms | Inl _ \<Rightarrow> []) =
   {m \<in> set (db_items db_ab). \<not> mi_tombstone m \<and> mi_tenant m = ''t1''
      \<and> item_visible (ns_filter_new ''project'' ''p1'') m}"
proof -
  have "db_faults db_ab = []"
    by (simp add: db_ab_def put_item_def empty_db_def)
  then have "\<exists>d' ms. list_all_by_tenant_scoped ''t1'' (ns_filter_new ''project'' ''p1'') db_ab = (d', Inr ms)"
    by (simp add: list_all_by_tenant_scoped_def scoped_query_def ns_predicate_def ns_active_def
        ns_filter_new_def is_valid_namespace_def ns_names)
  then obtain d' ms where
    r: "list_all_by_tenant_scoped ''t1'' (ns_filter_new ''project'' ''p1'') db_ab = (d', Inr ms)"
    by blast
  from scoped_listing_visible [OF r] r show ?thesis by simp
qed

text \<open>
  C1: \<open>put_memory_with_wop\<close> is atomic under every pattern of failures. Either it reports an
  error and no table has changed, or the item is stored with links to exactly its entities,
  no other item has changed, and the write log has one new last entry, with a sequence number
  above all earlier ones, which is the number returned.
\<close>

theorem put_memory_with_wop_atomic:
  assumes wf: "db_wf d" and run: "put_memory_with_wop m op p t d = (d', r)"
  shows "case r of
      Inl e \<Rightarrow> \<exists>fs. d' = d\<lparr> db_faults := fs \<rparr>
    | Inr s \<Rightarrow>
        find_item (mi_id m) d' = Some m
        \<and> (\<forall>i. i \<noteq> mi_id m \<longrightarrow> find_item i d' = find_item i d)
        \<and> {e. (mi_id m, e) \<in> set (db_links d')} = en_id ` set (mi_entities m)
        \<and> db_wop d' = db_wop d @ [\<lparr> we_seq = s, we_op = op, we_payload = p, we_at = u64_as_i64 t \<rparr>]
        \<and> (\<forall>w \<in> set (db_wop d). we_seq w < s)"
  using run unfolding put_memory_with_wop_def
proof (cases rule: db_op_cases)
  case (fault e fs)
  then show ?thesis by auto
next
  case (success s fs)
  let ?d = "put_item m (d\<lparr> db_faults := fs \<rparr>)"
  let ?w = "\<lparr> we_seq = s, we_op = op, we_payload = p, we_at = u64_as_i64 t \<rparr>"
  have s: "s = db_wop_seq d + 1"
    and d': "d' = ?d\<lparr> db_wop := db_wop d @ [?w], db_wop_seq := s \<rparr>"
    using success by (auto simp: add_wop_def Let_def put_item_def)
  have find: "find_item i d' = (if i = mi_id m then Some m else find_item i d)" for i
  proof -
    have "find_item i d' = find_item i ?d" by (simp add: d' find_item_def)
    then show ?thesis by simp
  qed
  have "distinct (filter (\<lambda>l. fst l \<noteq> mi_id m) (db_links d))"
    using wf by (simp add: db_wf_def items_wf_def)
  from fold_insert_link [OF this, of "mi_id m" "mi_entities m"]
  have links: "{e. (mi_id m, e) \<in> set (db_links d')} = en_id ` set (mi_entities m)"
    by (auto simp: d' put_item_def)
  have "\<forall>w \<in> set (db_wop d). we_seq w < s"
    using wf s by (auto simp: db_wf_def logs_wf_def)
  with find links show ?thesis using success(1) by (simp add: d')
qed

lemma put_memory_with_wop_witness:
  "find_item ''a'' (fst (put_memory_with_wop item_a ''commit'' ''{}'' 7 (empty_db []))) = Some item_a"
proof -
  have "put_memory_with_wop item_a ''commit'' ''{}'' 7 (empty_db [])
     = (fst (put_memory_with_wop item_a ''commit'' ''{}'' 7 (empty_db [])), Inr 1)"
    by (simp add: put_memory_with_wop_def db_op_def add_wop_def empty_db_def put_item_def Let_def)
  from put_memory_with_wop_atomic [OF empty_db_wf this] show ?thesis
    by (simp add: item_a_def with_namespace_def)
qed

text \<open>
  C31: the recursive hop query returns shortest paths. Every row it returns is a node other
  than the start with the length of a shortest path to it within the limit, once per node,
  nearest first and at most 256 of them; and a node it leaves out is left out because 256
  nodes at most as far were returned.
\<close>

theorem n_hop_reachable_shortest:
  assumes run: "n_hop_reachable s k d = (d', Inr hs)" and k: "k < 2 ^ 63"
  shows "(\<forall>(b, h) \<in> set hs. b \<noteq> s \<and> h \<le> k \<and> shortest (db_relations d) s b h)
    \<and> distinct (map fst hs) \<and> sorted (map snd hs) \<and> length hs \<le> 256
    \<and> (\<forall>b h. b \<noteq> s \<and> h \<le> k \<and> shortest (db_relations d) s b h \<and> (b, h) \<notin> set hs
         \<longrightarrow> length hs = 256 \<and> (\<forall>j \<in> snd ` set hs. j \<le> h))"
proof -
  let ?rs = "db_relations d"
  let ?all = "first_hops (filter (\<lambda>r. snd r \<noteq> s) (hop_rows ?rs 0 k [s]))"
  have "nat (u64_as_i64 k) = k" using k by (simp add: u64_as_i64_def Let_def)
  then have hs: "hs = take 256 ?all"
    using db_query_Inr [OF run [unfolded n_hop_reachable_def]]
    by (simp add: n_hops_def N_HOP_RESULT_LIMIT_def)
  have sorted: "sorted (map snd ?all)" by (rule first_hops_sorted)
  have omitted: "length hs = 256 \<and> (\<forall>j \<in> snd ` set hs. j \<le> h)"
    if out: "(b, h) \<notin> set hs" and full: "(b, h) \<in> set ?all" for b h
  proof -
    have split: "?all = hs @ drop 256 ?all" using hs by simp
    then have "(b, h) \<in> set (drop 256 ?all)" using out full by (metis Un_iff set_append)
    then have "256 < length ?all"
      by (metis drop_all empty_iff leI list.set(1))
    moreover have "h \<in> set (map snd (drop 256 ?all))"
      using \<open>(b, h) \<in> set (drop 256 ?all)\<close> by force
    moreover have "sorted (map snd hs @ map snd (drop 256 ?all))"
      using sorted split by (metis map_append)
    ultimately show ?thesis using hs by (auto simp: sorted_append)
  qed
  have "\<forall>(b, h) \<in> set hs. (b, h) \<in> set ?all"
    using hs by (auto dest: in_set_takeD)
  moreover have "distinct (map fst hs)" "sorted (map snd hs)"
    using hs distinct_first_hops [of "filter (\<lambda>r. snd r \<noteq> s) (hop_rows ?rs 0 k [s])"] sorted
    by (simp_all add: take_map [symmetric] sorted_wrt_take)
  ultimately show ?thesis
    using hs omitted shortest_rows by (auto simp: case_prod_beta)
qed

definition edge :: "string \<Rightarrow> string \<Rightarrow> relation_row" where
  "edge a b = \<lparr> rr_src = a, rr_dst = b, rr_type = ''REL'', rr_weight = 1, rr_priority = 0,
     rr_first_seen = 0 \<rparr>"

definition db_edges :: db where
  "db_edges = (empty_db [])\<lparr> db_relations := [edge ''a'' ''b'', edge ''b'' ''c'', edge ''a'' ''c''] \<rparr>"

lemma n_hop_reachable_witness:
  "shortest (db_relations db_edges) ''a'' ''c'' 1
   \<and> distinct (map fst (n_hops (db_relations db_edges) ''a'' 2))"
proof -
  have "n_hop_reachable ''a'' 2 db_edges = (db_edges, Inr (n_hops (db_relations db_edges) ''a'' 2))"
    by (simp add: n_hop_reachable_def db_edges_def empty_db_def u64_as_i64_def Let_def)
  from n_hop_reachable_shortest [OF this]
  have all: "\<forall>(b, h) \<in> set (n_hops (db_relations db_edges) ''a'' 2).
      b \<noteq> ''a'' \<and> h \<le> 2 \<and> shortest (db_relations db_edges) ''a'' b h"
    "distinct (map fst (n_hops (db_relations db_edges) ''a'' 2))" by auto
  have "(''c'', 1) \<in> set (n_hops (db_relations db_edges) ''a'' 2)"
    by code_simp
  with all show ?thesis by auto
qed

text \<open>
  C24: the tables stay well formed. Whatever sequence of calls is made, and whichever of
  them fail, item and entity ids stay unique, every link joins a stored item and a stored
  entity, and the sequence numbers of the write log, of the merges and of the audit log stay
  strictly ascending, so a number is never used twice, not even after pruning.
\<close>

theorem reachable_db_wf: "db_wf (fold db_exec cs (empty_db fs))"
  by (rule fold_db_exec_wf) simp

text \<open>
  the write log is a cursor. On a well-formed database, two batches read one after the
  other, the second from the last entry of the first, are together the batch that a single
  larger read returns: following the log in batches neither skips nor repeats an entry.
\<close>

lemma wop_batches_compose:
  assumes wf: "db_wf d"
    and b1: "list_wop_since c n d = (d1, Inr ws1)" and ne: "ws1 \<noteq> []"
    and b2: "list_wop_since (we_seq (last ws1)) m d1 = (d2, Inr ws2)"
    and small: "n < 2 ^ 62" "m < 2 ^ 62"
  shows "ws1 @ ws2 = wop_since c (n + m) (db_wop d)"
proof -
  have s: "sorted_wrt (<) (map we_seq (db_wop d))"
    using wf by (simp add: db_wf_def logs_wf_def)
  have w1: "ws1 = wop_since c n (db_wop d)"
    using b1 unfolding list_wop_since_def by (rule db_query_Inr) simp
  have "ws2 = wop_since (we_seq (last ws1)) m (db_wop d1)"
    using b2 unfolding list_wop_since_def by (rule db_query_Inr) simp
  moreover have "db_wop d1 = db_wop d"
    using db_query_state [of "\<lambda>d. wop_since c n (db_wop d)" d] b1
    by (auto simp: list_wop_since_def)
  ultimately show ?thesis
    using batch_continues [OF s, of n m c] w1 ne small by simp
qed

definition db_wop3 :: db where
  "db_wop3 = fst (append_wop ''delete'' ''3'' 9 (fst (append_wop ''delete'' ''2'' 8
     (fst (append_wop ''delete'' ''1'' 7 (empty_db []))))))"

lemma wop_batches_compose_witness:
  "wop_since 0 2 (db_wop db_wop3) @ wop_since 2 5 (db_wop db_wop3)
     = wop_since 0 (2 + 5) (db_wop db_wop3)"
proof -
  have wf: "db_wf db_wop3"
    unfolding db_wop3_def by (intro append_wop_wf) simp
  have f: "db_faults db_wop3 = []"
    by (simp add: db_wop3_def append_wop_def add_wop_def empty_db_def Let_def)
  have l: "wop_since 0 2 (db_wop db_wop3) \<noteq> [] \<and> we_seq (last (wop_since 0 2 (db_wop db_wop3))) = 2"
    by (simp add: db_wop3_def append_wop_def add_wop_def empty_db_def Let_def wop_since_def
        sql_limit_def u64_as_i64_def)
  have b1: "list_wop_since 0 2 db_wop3 = (db_wop3, Inr (wop_since 0 2 (db_wop db_wop3)))"
    and b2: "list_wop_since 2 5 db_wop3 = (db_wop3, Inr (wop_since 2 5 (db_wop db_wop3)))"
    using f by (simp_all add: list_wop_since_def)
  show ?thesis
    using wop_batches_compose [OF wf b1, of 5 db_wop3] b2 l by simp
qed

end
