(* ===== verification/StoreProps.thy ===== *)
theory StoreProps
  imports LocalStore
begin

text \<open>
  Properties of the vector store: recovery and compaction rebuild the index from the live
  vectors, search returns live ids and enough of them, and the laws of the interface carried
  to the operations of \<open>FusionStoreEngine\<close>.
\<close>

section \<open>Rebuilding the index\<close>

definition tree_points :: "tree \<Rightarrow> tree \<Rightarrow> (vid \<times> vec) list" where
  "tree_points tomb t =
     List.map_filter (\<lambda>e. case parse_id_key (fst e) of
        None \<Rightarrow> None
      | Some i \<Rightarrow> if tree_has (fst e) tomb then None else Some (i, chunks4 (snd e))) t"

definition good_tree :: "tree \<Rightarrow> bool" where
  "good_tree t = (\<forall>e \<in> set t. \<exists>i v. e = (id_key i, serialize_vec v))"

lemma store_wf_good: "store_wf s \<Longrightarrow> good_tree (ls_vec s)"
  by (fastforce simp: store_wf_def good_tree_def)

lemma rebuild_scan_good: "good_tree t \<Longrightarrow> rebuild_scan tomb t = Inr (tree_points tomb t)"
  by (induction tomb t rule: rebuild_scan.induct)
    (auto simp: good_tree_def tree_points_def map_filter_simps chunks4_serialize)

lemma tree_points_ids: "map fst (tree_points (ls_tomb s) (ls_vec s)) = vector_ids s"
  unfolding tree_points_def vector_ids_def
  by (induction "ls_vec s" rule: rev_induct) 
    (auto simp: map_filter_def split: option.splits)

lemma distinct_vector_ids: "store_wf s \<Longrightarrow> distinct (vector_ids s)"
proof -
  assume s: "store_wf s"
  have "distinct (map fst t) \<Longrightarrow> distinct (List.map_filter (\<lambda>e. case parse_id_key (fst e) of
        None \<Rightarrow> None | Some i \<Rightarrow> if tree_has (fst e) u then None else Some i) t)" for t u :: tree
    by (induction t)
      (force simp: map_filter_simps set_map_filter parse_id_key_Some split: option.splits if_splits)+
  then show ?thesis
    using s tree_ok_distinct unfolding vector_ids_def store_wf_def by blast
qed

lemma tree_points_live:
  assumes "store_wf s" and "(i, v) \<in> set (tree_points (ls_tomb s) (ls_vec s))"
  shows "store_map s i = Some v"
proof -
  obtain e where e: "e \<in> set (ls_vec s)" "parse_id_key (fst e) = Some i"
    "\<not> tree_has (fst e) (ls_tomb s)" "v = chunks4 (snd e)"
    using assms(2)
    by (auto simp: tree_points_def set_map_filter split: option.splits if_splits)
  then have k: "fst e = id_key i" by (simp add: parse_id_key_Some)
  obtain j w where "e = (id_key j, serialize_vec w)"
    using assms(1) e(1) by (fastforce simp: store_wf_def)
  with k e(4) have ew: "e = (id_key i, serialize_vec v)" by (simp add: chunks4_serialize)
  have "distinct (map fst (ls_vec s))" using assms(1) by (simp add: store_wf_def tree_ok_distinct)
  with e(1) ew have "map_of (ls_vec s) (id_key i) = Some (serialize_vec v)" by simp
  then show ?thesis
    using store_map_Some [OF assms(1)] e(3) k by (simp add: is_tombstoned_def)
qed

lemma rebuild_wf:
  assumes s: "store_wf s"
  shows "\<exists>ps. rebuild_from_sled s = (s\<lparr> ls_hnsw := ps \<rparr>, Inr (length ps))
    \<and> map fst ps = vector_ids s \<and> (\<forall>(i, v) \<in> set ps. store_map s i = Some v)
    \<and> store_wf (s\<lparr> ls_hnsw := ps \<rparr>)"
proof -
  let ?ps = "tree_points (ls_tomb s) (ls_vec s)"
  have r: "rebuild_from_sled s = (s\<lparr> ls_hnsw := ?ps \<rparr>, Inr (length ?ps))"
    by (simp add: rebuild_from_sled_def rebuild_scan_good [OF store_wf_good [OF s]])
  have live: "\<forall>(i, v) \<in> set ?ps. store_map s i = Some v"
    using tree_points_live [OF s] by blast
  have "tree_has (id_key (fst p)) (ls_vec s)" if "p \<in> set ?ps" for p
    using live that store_map_Some [OF s] by (auto simp: tree_has_def)
  then have "store_wf (s\<lparr> ls_hnsw := ?ps \<rparr>)"
    using s by (auto simp: store_wf_def is_tombstoned_def)
  with r live tree_points_ids show ?thesis by blast
qed

section \<open>Compaction\<close>

lemma fold_tree_remove:
  "set (fold (\<lambda>i. tree_remove (id_key i)) is t) = {e \<in> set t. fst e \<notin> id_key ` set is}"
  "tree_ok t \<Longrightarrow> tree_ok (fold (\<lambda>i. tree_remove (id_key i)) is t)"
  "map_of (fold (\<lambda>i. tree_remove (id_key i)) is t) k
     = (if k \<in> id_key ` set is then None else map_of t k)"
  by (induction "is" arbitrary: t) (auto simp: set_tree_remove tree_ok_remove)

definition tomb_ids :: "lstore \<Rightarrow> vid list" where
  "tomb_ids s = List.map_filter (\<lambda>e. parse_id_key (fst e)) (ls_tomb s)"

definition purge :: "lstore \<Rightarrow> lstore" where
  "purge s = s\<lparr> ls_vec := fold (\<lambda>i. tree_remove (id_key i)) (tomb_ids s) (ls_vec s) \<rparr>"

lemma purge_wf:
  assumes s: "store_wf s"
  shows "store_wf (purge s)" and "store_map (purge s) = store_map s"
    and "tree_has (id_key i) (ls_vec (purge s)) \<Longrightarrow> \<not> is_tombstoned s i"
    and "tree_has k (ls_vec (purge s)) \<Longrightarrow> tree_has k (ls_vec s)"
proof -
  have tomb: "i \<in> set (tomb_ids s) \<longleftrightarrow> is_tombstoned s i" for i
    using tombstone_set_iff [OF s] by (simp add: tomb_ids_def tombstone_set_def)
  have "inj id_key" by (rule injI) simp
  then have keys: "id_key i \<in> id_key ` set (tomb_ids s) \<longleftrightarrow> is_tombstoned s i" for i
    unfolding tomb [symmetric] by (rule inj_image_mem_iff)
  have lv: "ls_vec (purge s) = fold (\<lambda>i. tree_remove (id_key i)) (tomb_ids s) (ls_vec s)"
    by (simp add: purge_def)
  have V: "set (ls_vec (purge s)) = {e \<in> set (ls_vec s). fst e \<notin> id_key ` set (tomb_ids s)}"
    unfolding lv by (rule fold_tree_remove)
  have M: "map_of (ls_vec (purge s)) k = (if k \<in> id_key ` set (tomb_ids s) then None else map_of (ls_vec s) k)" for k
    unfolding lv by (rule fold_tree_remove)
  have O: "tree_ok (ls_vec (purge s))"
    unfolding lv using s by (intro fold_tree_remove) (simp add: store_wf_def)
  have rest: "ls_tomb (purge s) = ls_tomb s" "ls_dim (purge s) = ls_dim s" "ls_hnsw (purge s) = ls_hnsw s"
    by (simp_all add: purge_def)
  have tombs: "is_tombstoned (purge s) j = is_tombstoned s j" for j
    by (simp add: is_tombstoned_def rest)
  have H: "\<forall>p \<in> set (ls_hnsw s). is_tombstoned s (fst p) \<or> tree_has (id_key (fst p)) (ls_vec (purge s))"
    using s keys M by (auto simp: store_wf_def tree_has_def)
  show "store_wf (purge s)"
    unfolding store_wf_def rest tombs
    using s O H V by (auto simp: store_wf_def)
  show "store_map (purge s) = store_map s"
    using keys by (auto simp: fun_eq_iff store_map_def find_vec_def tombs M)
  show "tree_has (id_key i) (ls_vec (purge s)) \<Longrightarrow> \<not> is_tombstoned s i"
    using keys by (auto simp: tree_has_def M split: if_splits)
  show "tree_has k (ls_vec (purge s)) \<Longrightarrow> tree_has k (ls_vec s)"
    by (auto simp: tree_has_def M split: if_splits)
qed

text \<open>
  compaction keeps every live vector and nothing else. On a well-formed store it succeeds,
  the map from ids to vectors is unchanged, the vectors of deleted ids are gone, and the index
  is rebuilt with one point per live id, its stored vector. The tombstones themselves stay, so
  the reported number counts every deletion so far, again at each run.
\<close>

lemma compact_keeps_live:
  assumes s: "store_wf s" and nf: "ls_faults s = []"
  shows "\<exists>s' n. compact_store s = (s', Inr n) \<and> store_wf s' \<and> store_map s' = store_map s
    \<and> (\<forall>i. tree_has (id_key i) (ls_vec s') \<longrightarrow> store_map s i \<noteq> None)
    \<and> map fst (ls_hnsw s') = vector_ids s' \<and> distinct (vector_ids s')
    \<and> (\<forall>(i, v) \<in> set (ls_hnsw s'). store_map s i = Some v)
    \<and> n = length (ls_tomb s) \<and> snd (compact_store s') = Inr n"
proof -
  note p = purge_wf [OF s]
  obtain ps where ps: "rebuild_from_sled (purge s) = ((purge s)\<lparr> ls_hnsw := ps \<rparr>, Inr (length ps))"
    "map fst ps = vector_ids (purge s)" "\<forall>(i, v) \<in> set ps. store_map (purge s) i = Some v"
    "store_wf ((purge s)\<lparr> ls_hnsw := ps \<rparr>)"
    using rebuild_wf [OF p(1)] by blast
  let ?s = "(purge s)\<lparr> ls_hnsw := ps \<rparr>"
  have compact: "compact_store u = ((case rebuild_from_sled (purge u) of (x, Inl e) \<Rightarrow> x | (x, Inr n) \<Rightarrow> x),
      case rebuild_from_sled (purge u) of (x, Inl e) \<Rightarrow> Inl (store_to_memory e)
        | (x, Inr n) \<Rightarrow> Inr (length (tomb_ids u)))" if "ls_faults u = []" for u
    using that by (simp add: compact_store_def st_op_def purge_def tomb_ids_def Let_def
        split: prod.splits sum.splits)
  have len: "length (tomb_ids s) = length (ls_tomb s)"
  proof -
    have "\<forall>e \<in> set (ls_tomb s). \<exists>i. fst e = id_key i" using s by (simp add: store_wf_def)
    moreover have "\<forall>e \<in> set t. \<exists>i. fst e = id_key i \<Longrightarrow>
        length (List.map_filter (\<lambda>e. parse_id_key (fst e)) t) = length t" for t :: tree
      by (induction t) (auto simp: map_filter_simps)
    ultimately show ?thesis unfolding tomb_ids_def by blast
  qed
  have "ls_vec ?s = ls_vec (purge s)" "ls_tomb ?s = ls_tomb (purge s)" by simp_all
  then have ids: "vector_ids ?s = vector_ids (purge s)" by (simp only: vector_ids_def)
  have live: "store_map s i \<noteq> None" if "tree_has (id_key i) (ls_vec ?s)" for i
    using that p(3) [of i] p(4) [of "id_key i"] store_map_None [OF s, of i] by auto
  have same: "store_map ?s = store_map s"
    using p(2) by simp
  have nf': "ls_faults ?s = []" using nf by (simp add: purge_def)
  have tomb: "ls_tomb ?s = ls_tomb s" by (simp add: purge_def)
  obtain ps' where "rebuild_from_sled (purge ?s) = ((purge ?s)\<lparr> ls_hnsw := ps' \<rparr>, Inr (length ps'))"
    using rebuild_wf [OF purge_wf(1) [OF ps(4)]] by blast
  then have "snd (compact_store ?s) = Inr (length (ls_tomb s))"
    using compact [OF nf'] len tomb by (simp add: tomb_ids_def)
  moreover have "compact_store s = (?s, Inr (length (ls_tomb s)))"
    using compact [OF nf] ps(1) len by simp
  moreover have "distinct (vector_ids ?s)" by (rule distinct_vector_ids [OF ps(4)])
  ultimately show ?thesis
    using ps p same live ids by (intro exI [of _ ?s] exI) auto
qed

definition vid_a :: vid where "vid_a = 7"
definition vid_b :: vid where "vid_b = 9"
definition vec_a :: vec where "vec_a = [0x3f800000, 0]"
definition vec_b :: vec where "vec_b = [0, 0x3f800000]"

definition empty_store :: lstore where
  "empty_store = \<lparr> ls_dim = 2, ls_vec = [], ls_tomb = [], ls_kv = [], ls_hnsw = [], ls_faults = [] \<rparr>"

definition store_ab :: lstore where
  "store_ab = delete_vec vid_b (insert_vec vid_b vec_b (insert_vec vid_a vec_a empty_store))"

lemma store_ab_wf: "store_wf store_ab" "ls_faults store_ab = []" "ls_dim store_ab = 2"
proof -
  have e: "store_wf empty_store" "ls_dim empty_store = 2" "ls_faults empty_store = []"
    by (simp_all add: empty_store_def store_wf_def tree_ok_def)
  have f: "ls_dim (insert_vec i v s) = ls_dim s" "ls_faults (insert_vec i v s) = ls_faults s"
    "ls_dim (delete_vec i s) = ls_dim s" "ls_faults (delete_vec i s) = ls_faults s" for i v s
    by (simp_all add: insert_vec_def delete_vec_def Let_def)
  have l: "length vec_a = 2" "length vec_b = 2" by (simp_all add: vec_a_def vec_b_def)
  show "store_wf store_ab" unfolding store_ab_def
    by (intro delete_vec_wf insert_vec_wf) (simp_all add: e f l)
  show "ls_faults store_ab = []" "ls_dim store_ab = 2" by (simp_all add: store_ab_def e f)
qed

lemma compact_keeps_live_witness:
  "\<exists>s' n. compact_store store_ab = (s', Inr n) \<and> store_map s' vid_a = Some vec_a \<and> store_map s' vid_b = None"
proof -
  have "store_map store_ab vid_a = Some vec_a" "store_map store_ab vid_b = None"
    by (simp_all add: store_ab_def store_map_delete)
       (simp add: insert_vec_def empty_store_def store_map_def find_vec_def is_tombstoned_def
        tree_has_def Let_def vid_a_def vid_b_def)
  with compact_keeps_live [OF store_ab_wf(1,2)] show ?thesis by metis
qed

section \<open>Search\<close>

text \<open>
  What the code relies on of the index library: a search answers points of the index, at most
  as many as asked, and no id twice unless the index holds it twice.
\<close>

definition knn_ok :: "knn \<Rightarrow> bool" where
  "knn_ok knn =
     (\<forall>ps q k. fst ` set (knn ps q k) \<subseteq> fst ` set ps \<and> length (knn ps q k) \<le> k
        \<and> (distinct (map fst ps) \<longrightarrow> distinct (map fst (knn ps q k))))"

lemma scan_candidates_good:
  assumes "good_tree t"
  shows "\<exists>cs. scan_candidates q skip t = Inr cs
    \<and> map fst cs = filter (\<lambda>i. i \<notin> skip) (List.map_filter (\<lambda>e. parse_id_key (fst e)) t)"
  using assms
proof (induction q skip t rule: scan_candidates.induct)
  case (2 q skip k v t)
  obtain i w where kv: "k = id_key i" "v = serialize_vec w" and t: "good_tree t"
    using "2.prems" by (auto simp: good_tree_def)
  with "2.IH" show ?case by (fastforce simp: map_filter_simps)
qed (simp add: map_filter_simps)

lemma order_sim_set [simp]: "set (order_sim xs) = set xs" "length (order_sim xs) = length xs"
  by (simp_all add: order_sim_def)

lemma distinct_map_sort: "distinct (map f (sort_key g xs)) = distinct (map f xs)"
  by (simp add: distinct_map)

lemma order_sim_distinct: "distinct (map fst (order_sim xs)) = distinct (map fst xs)"
  unfolding order_sim_def by (rule distinct_map_sort)

lemma knn_hits_fst:
  "fst ` set (knn_hits knn q k s) = fst ` set (knn (ls_hnsw s) q k) - tombstone_set s"
  by (force simp: knn_hits_def image_iff)

lemma length_knn_hits: "length (knn_hits knn q k s) \<le> length (knn (ls_hnsw s) q k)"
  by (simp add: knn_hits_def)

lemma distinct_knn_hits:
  "distinct (map fst (knn (ls_hnsw s) q k)) \<Longrightarrow> distinct (map fst (knn_hits knn q k s))"
proof -
  have "map fst (knn_hits knn q k s)
      = map fst (filter (\<lambda>h. fst h \<notin> tombstone_set s) (knn (ls_hnsw s) q k))"
    by (simp add: knn_hits_def case_prod_beta comp_def)
  then show "distinct (map fst (knn (ls_hnsw s) q k)) \<Longrightarrow> ?thesis"
    by (simp add: distinct_map_filter)
qed

lemma live_ids_filter:
  assumes "store_wf s"
  shows "set (List.map_filter (\<lambda>e. parse_id_key (fst e)) (ls_vec s)) - tombstone_set s
    = set (vector_ids s)"
proof -
  have "i \<in> set (List.map_filter (\<lambda>e. parse_id_key (fst e)) (ls_vec s)) \<longleftrightarrow> id_key i \<in> fst ` set (ls_vec s)" for i
    by (force simp: set_map_filter parse_id_key_Some)
  then have "i \<in> set (List.map_filter (\<lambda>e. parse_id_key (fst e)) (ls_vec s)) \<longleftrightarrow> tree_has (id_key i) (ls_vec s)" for i
    by (simp add: tree_has_def map_of_eq_None_iff)
  then show ?thesis
    using vector_ids_iff [OF assms] store_map_None [OF assms] tombstone_set_iff [OF assms] by auto
qed

lemma distinct_parsed_ids:
  "tree_ok t \<Longrightarrow> distinct (List.map_filter (\<lambda>e. parse_id_key (fst e)) t)"
proof -
  have "distinct (map fst t) \<Longrightarrow> distinct (List.map_filter (\<lambda>e. parse_id_key (fst e)) t)"
    by (induction t)
      (force simp: map_filter_simps set_map_filter parse_id_key_Some split: option.splits)+
  then show "tree_ok t \<Longrightarrow> ?thesis" using tree_ok_distinct by blast
qed

text \<open>
  C30: search returns live vectors, and enough of them. For a query of the right dimension it
  succeeds; every returned id has a live vector, at most \<open>k\<close> are returned and at least as many
  as there are live vectors up to \<open>k\<close>, however few the index finds; and when no id stands twice
  in the index, no id is returned twice, so exactly that many are.
\<close>

theorem search_knn_live:
  assumes s: "store_wf s" and nf: "ls_faults s = []" and q: "length q = ls_dim s" and knn: "knn_ok knn"
  shows "\<exists>out. search_knn knn q k s = (s, Inr out)
    \<and> (\<forall>i \<in> fst ` set out. store_map s i \<noteq> None)
    \<and> length out \<le> k \<and> min k (length (vector_ids s)) \<le> length out
    \<and> (distinct (map fst (ls_hnsw s)) \<longrightarrow>
         distinct (map fst out) \<and> length out = min k (length (vector_ids s)))"
proof -
  let ?hits = "knn_hits knn q k s" and ?ids = "set (vector_ids s)"
  let ?skip = "fst ` set ?hits \<union> tombstone_set s"
  let ?keys = "List.map_filter (\<lambda>e. parse_id_key (fst e)) (ls_vec s)"
  have card: "card ?ids = length (vector_ids s)"
    by (rule distinct_card [OF distinct_vector_ids [OF s]])
  have hits_len: "length ?hits \<le> k"
    using knn length_knn_hits [of knn q k s] le_trans unfolding knn_ok_def by blast
  have hits_live: "fst ` set ?hits \<subseteq> ?ids"
  proof
    fix i assume "i \<in> fst ` set ?hits"
    then have i: "i \<in> fst ` set (knn (ls_hnsw s) q k)" "i \<notin> tombstone_set s"
      using knn_hits_fst by blast+
    moreover have "fst ` set (knn (ls_hnsw s) q k) \<subseteq> fst ` set (ls_hnsw s)"
      using knn unfolding knn_ok_def by blast
    ultimately have "i \<in> fst ` set (ls_hnsw s)" by blast
    with i(2) s have "tree_has (id_key i) (ls_vec s)" "\<not> is_tombstoned s i"
      using tombstone_set_iff [OF s] by (auto simp: store_wf_def)
    then show "i \<in> ?ids"
      using vector_ids_iff [OF s] store_map_None [OF s] by simp
  qed
  obtain cs where cs: "scan_candidates q ?skip (ls_vec s) = Inr cs"
    "map fst cs = filter (\<lambda>i. i \<notin> ?skip) ?keys"
    using scan_candidates_good [OF store_wf_good [OF s]] by blast
  have cs_set: "fst ` set cs = ?ids - fst ` set ?hits"
  proof -
    have "fst ` set cs = set (map fst cs)" by simp
    also have "\<dots> = (set ?keys - tombstone_set s) - fst ` set ?hits" by (auto simp: cs(2))
    finally show ?thesis using live_ids_filter [OF s] by simp
  qed
  have cs_dist: "distinct (map fst cs)"
    using s distinct_parsed_ids unfolding cs(2) store_wf_def by simp
  have cs_len: "length cs = card (?ids - fst ` set ?hits)"
    using distinct_card [OF cs_dist] cs_set by simp
  have hits_card: "card (fst ` set ?hits) \<le> length ?hits"
    by (metis card_length length_map set_map)
  have cs_ge: "length (vector_ids s) \<le> length cs + length ?hits"
    using hits_card card_Diff_subset [OF finite_imageI [OF finite_set] hits_live] card cs_len by linarith
  have hits_dist: "distinct (map fst ?hits)" if "distinct (map fst (ls_hnsw s))"
    using that knn by (intro distinct_knn_hits) (simp add: knn_ok_def)
  have hits_le: "length ?hits + length cs = length (vector_ids s)" if "distinct (map fst (ls_hnsw s))"
    using distinct_card [OF hits_dist [OF that]] card_Diff_subset [OF finite_imageI [OF finite_set] hits_live]
      card cs_len card_mono [OF finite_set hits_live] by simp
  show ?thesis
  proof (cases "length ?hits < k")
    case False
    then have "search_knn knn q k s = (s, Inr ?hits)"
      using nf q by (simp add: search_knn_def st_op_def search_vec_def Let_def)
    moreover have "\<forall>i \<in> fst ` set ?hits. store_map s i \<noteq> None"
      using hits_live vector_ids_iff [OF s] by blast
    moreover have "min k (length (vector_ids s)) \<le> length ?hits" using False by linarith
    moreover have "length ?hits = min k (length (vector_ids s))" if "distinct (map fst (ls_hnsw s))"
      using False hits_len hits_le [OF that] by linarith
    ultimately show ?thesis using hits_len hits_dist by blast
  next
    case True
    let ?c = "take (k - length ?hits) (order_sim cs)"
    let ?out = "order_sim (?hits @ ?c)"
    have run: "search_knn knn q k s = (s, Inr ?out)"
      using True nf q cs(1) by (simp add: search_knn_def st_op_def search_vec_def Let_def)
    have c: "fst ` set ?c \<subseteq> ?ids - fst ` set ?hits"
    proof -
      have "set ?c \<subseteq> set cs"
        using set_take_subset [of "k - length ?hits" "order_sim cs"] by (simp only: order_sim_set)
      then have "fst ` set ?c \<subseteq> fst ` set cs" by (rule image_mono)
      then show ?thesis by (simp only: cs_set)
    qed
    have len: "length ?out = length ?hits + min (k - length ?hits) (length cs)" by simp
    have dist: "distinct (map fst ?out)" if "distinct (map fst (ls_hnsw s))"
    proof -
      have "distinct (map fst ?c)"
        using cs_dist order_sim_distinct [of cs] by (simp add: take_map [symmetric])
      then show ?thesis
        using hits_dist [OF that] c by (auto simp: order_sim_distinct)
    qed
    have "fst ` set ?out \<subseteq> set (vector_ids s)"
      using c hits_live by (simp only: order_sim_set set_append image_Un) blast
    then have "\<forall>i \<in> fst ` set ?out. store_map s i \<noteq> None"
      using vector_ids_iff [OF s] by blast
    moreover have "length ?out \<le> k" "min k (length (vector_ids s)) \<le> length ?out"
      using len cs_ge True by linarith+
    moreover have "length ?out = min k (length (vector_ids s))" if "distinct (map fst (ls_hnsw s))"
      using len hits_le [OF that] True by linarith
    ultimately show ?thesis using run dist by blast
  qed
qed

text \<open>A search that looks at every point, nearest first.\<close>

definition knn_all :: knn where
  "knn_all ps q k = take k (sort_key snd (map (\<lambda>(i, v). (i, 1 - cosine_sim q v)) ps))"

lemma knn_all_ok: "knn_ok knn_all"
proof -
  have "fst ` set (knn_all ps q k) \<subseteq> fst ` set ps" for ps q k
    unfolding knn_all_def by (force dest!: in_set_takeD)
  moreover have "length (knn_all ps q k) \<le> k" for ps q k by (simp add: knn_all_def)
  moreover have "distinct (map fst (knn_all ps q k))" if "distinct (map fst ps)" for ps q k
  proof -
    let ?xs = "map (\<lambda>(i, v). (i, 1 - cosine_sim q v)) ps"
    have "map fst ?xs = map fst ps" by (simp add: case_prod_beta comp_def)
    then have "distinct (map fst ?xs)" using that by (simp only:)
    then have "distinct (map fst (sort_key snd ?xs))" by (simp only: distinct_map_sort)
    then show ?thesis by (simp add: knn_all_def take_map [symmetric])
  qed
  ultimately show ?thesis by (simp add: knn_ok_def)
qed

lemma search_knn_live_witness:
  "\<exists>out. search_knn knn_all vec_b 5 store_ab = (store_ab, Inr out)
     \<and> (\<forall>i \<in> fst ` set out. store_map store_ab i \<noteq> None)"
proof -
  have "length vec_b = ls_dim store_ab" using store_ab_wf(3) by (simp add: vec_b_def)
  from search_knn_live [OF store_ab_wf(1,2) this knn_all_ok, of 5] show ?thesis by blast
qed

text \<open>
  The hypothesis on the index matters: deleting an id and inserting it again adds a second
  point for it, and a search then returns the id twice.
\<close>

definition knn_flat :: knn where
  "knn_flat ps q k = take k (map (\<lambda>p. (fst p, 0)) ps)"

lemma reinserted_id_returned_twice:
  "\<exists>out. search_knn knn_flat vec_a 2
      (insert_vec vid_a vec_b (delete_vec vid_a (insert_vec vid_a vec_a empty_store))) =
     (insert_vec vid_a vec_b (delete_vec vid_a (insert_vec vid_a vec_a empty_store)), Inr out)
     \<and> map fst out = [vid_a, vid_a]"
proof -
  let ?s = "insert_vec vid_a vec_b (delete_vec vid_a (insert_vec vid_a vec_a empty_store))"
  have s: "ls_hnsw ?s = [(vid_a, vec_a), (vid_a, vec_b)]" "tombstone_set ?s = {}" "ls_dim ?s = 2"
    "ls_faults ?s = []"
    by (simp_all add: insert_vec_def delete_vec_def empty_store_def is_tombstoned_def tree_has_def
        tombstone_set_def tree_remove_def Let_def map_filter_simps)
  then show ?thesis
    by (simp add: search_knn_def st_op_def search_vec_def knn_hits_def knn_flat_def vec_a_def Let_def)
qed

text \<open>
  C33: the operations are those of a map. An inserted vector is read back, unless the id was
  live: then the older vector stays; a deleted id reads as absent and can be inserted afresh;
  the enumeration grows by the inserted id and shrinks by the deleted one; a vector of the wrong
  dimension is refused and changes nothing.
\<close>

theorem vector_ops_map:
  assumes s: "store_wf s" and nf: "ls_faults s = []" and v: "length v = ls_dim s"
  shows "snd (get_vector i (fst (insert_vector i v s)))
      = Inr (Some (case store_map s i of None \<Rightarrow> v | Some w \<Rightarrow> w))
    \<and> snd (get_vector i (fst (delete_vector i s))) = Inr None
    \<and> snd (get_vector i (fst (insert_vector i v (fst (delete_vector i s))))) = Inr (Some v)
    \<and> set (vector_ids (fst (insert_vector i v s))) = insert i (set (vector_ids s))
    \<and> set (vector_ids (fst (delete_vector i s))) = set (vector_ids s) - {i}
    \<and> (\<forall>w. length w = ls_dim s \<or>
         insert_vector i w s = (s, Inl (store_to_memory (SDimension (ls_dim s) (length w)))))"
proof -
  have ins: "fst (insert_vector i v t) = insert_vec i v t"
    if "ls_faults t = []" "ls_dim t = ls_dim s" for t
    using that v by (simp add: insert_vector_def st_op_def)
  have del: "fst (delete_vector i s) = delete_vec i s"
    using nf by (simp add: delete_vector_def st_op_def)
  have f: "ls_faults (insert_vec i v t) = ls_faults t" "ls_faults (delete_vec i t) = ls_faults t"
    "ls_dim (delete_vec i t) = ls_dim t" "ls_dim (insert_vec i v t) = ls_dim t" for t
    by (simp_all add: insert_vec_def delete_vec_def Let_def)
  have get: "snd (get_vector i t) = Inr (store_map t i)" if "store_wf t" "ls_faults t = []" for t
    using that by (simp add: get_vector_def st_op_def find_vec_wf)
  have d: "store_wf (delete_vec i s)" by (rule ls.ok_del [OF s])
  have v': "length v = ls_dim (delete_vec i s)" using v f by simp
  have "store_wf (insert_vec i v s)" by (rule ls.ok_ins [OF s v])
  then have g1: "snd (get_vector i (fst (insert_vector i v s)))
      = Inr (Some (case store_map s i of None \<Rightarrow> v | Some w \<Rightarrow> w))"
    using ins [OF nf] get nf f ls.look_ins [OF s v, of i i] by (auto split: option.splits)
  have g2: "snd (get_vector i (fst (delete_vector i s))) = Inr None"
    using del get [OF d] nf f ls.look_del [OF s, of i i] by simp
  have "store_wf (insert_vec i v (delete_vec i s))" by (rule ls.ok_ins [OF d v'])
  then have g3: "snd (get_vector i (fst (insert_vector i v (fst (delete_vector i s))))) = Inr (Some v)"
    using del ins [of "delete_vec i s"] get nf f ls.del_ins [OF s v'] by simp
  have "insert_vector i w s = (s, Inl (store_to_memory (SDimension (ls_dim s) (length w))))"
    if "length w \<noteq> ls_dim s" for w
    using that nf by (simp add: insert_vector_def st_op_def)
  with g1 g2 g3 show ?thesis
    using ins [OF nf] del ls.ids_ins [OF s v] ls.ids_del [OF s] by auto
qed

lemma vector_ops_map_witness:
  "set (vector_ids (fst (insert_vector vid_b vec_b store_ab)))
     = insert vid_b (set (vector_ids store_ab))"
proof -
  have "length vec_b = ls_dim store_ab" using store_ab_wf(3) by (simp add: vec_b_def)
  from vector_ops_map [OF store_ab_wf(1,2) this, of vid_b] show ?thesis by blast
qed

text \<open>
  a restart loses no vector and revives none. Opening the trees a well-formed store left
  succeeds; the map from ids to vectors is the one before, and the rebuilt index has exactly
  one point per live id.
\<close>

lemma reopen_same_map:
  assumes s: "store_wf s" and d: "ls_dim s \<noteq> 0"
  shows "\<exists>s'. open_store (ls_vec s) (ls_tomb s) (ls_kv s) (ls_dim s) fs = Inr s'
    \<and> store_wf s' \<and> store_map s' = store_map s \<and> ls_kv s' = ls_kv s
    \<and> map fst (ls_hnsw s') = vector_ids s \<and> distinct (vector_ids s)"
proof -
  let ?s = "\<lparr> ls_dim = ls_dim s, ls_vec = ls_vec s, ls_tomb = ls_tomb s, ls_kv = ls_kv s,
    ls_hnsw = [], ls_faults = fs \<rparr>"
  have w: "store_wf ?s" using s by (auto simp: store_wf_def is_tombstoned_def)
  obtain ps where ps: "rebuild_from_sled ?s = (?s\<lparr> ls_hnsw := ps \<rparr>, Inr (length ps))"
    "map fst ps = vector_ids ?s" "store_wf (?s\<lparr> ls_hnsw := ps \<rparr>)"
    using rebuild_wf [OF w] by blast
  have "store_map ?s = store_map s"
    by (simp add: fun_eq_iff store_map_def find_vec_def is_tombstoned_def)
  moreover have "vector_ids ?s = vector_ids s" unfolding vector_ids_def lstore.simps ..
  moreover have "open_store (ls_vec s) (ls_tomb s) (ls_kv s) (ls_dim s) fs = Inr (?s\<lparr> ls_hnsw := ps \<rparr>)"
    using d ps(1) by (simp add: open_store_def)
  moreover have "store_map (?s\<lparr> ls_hnsw := ps \<rparr>) = store_map ?s" by (rule store_map_hnsw)
  moreover have "ls_kv (?s\<lparr> ls_hnsw := ps \<rparr>) = ls_kv s" "ls_hnsw (?s\<lparr> ls_hnsw := ps \<rparr>) = ps" by simp_all
  moreover note distinct_vector_ids [OF s]
  ultimately show ?thesis using ps(2,3) by metis
qed

lemma reopen_same_map_witness:
  "\<exists>s'. open_store (ls_vec store_ab) (ls_tomb store_ab) (ls_kv store_ab) (ls_dim store_ab) [] = Inr s'
     \<and> store_map s' = store_map store_ab"
proof -
  have "ls_dim store_ab \<noteq> 0" using store_ab_wf(3) by simp
  from reopen_same_map [OF store_ab_wf(1) this, of "[]"] show ?thesis by blast
qed

end
