(* ===== verification/Graph.thy ===== *)
theory Graph
  imports PersistProps Similarity
begin

text \<open>
  The crate \<open>fm-graph\<close>: graph affinity of two entity sets, the alias dictionary and the
  alignment of a new entity with the stored ones. The \<open>GraphStore\<close> trait object is a record of
  its two read functions; \<open>persist_graph\<close> is its implementation by the relational store.
\<close>

section \<open>The store interface\<close>

type_synonym entity_listing = "(string \<times> string \<times> string list option) list"

record graph_store =
  gs_reach :: "string \<Rightarrow> nat \<Rightarrow> persist_error + (string \<times> nat) list"
  gs_entities :: "string \<Rightarrow> persist_error + entity_listing"

definition persist_graph :: "db \<Rightarrow> graph_store" where
  "persist_graph d =
     \<lparr> gs_reach = (\<lambda>s k. snd (n_hop_reachable s k d)),
       gs_entities = (\<lambda>t. snd (list_entities_by_type t d)) \<rparr>"

section \<open>Affinity\<close>

definition GRAPH_HOP_LIMIT :: nat where
  "GRAPH_HOP_LIMIT = 2"

definition affinity_from_reachability ::
  "string list \<Rightarrow> string list \<Rightarrow> (string \<times> nat) list \<Rightarrow> real" where
  "affinity_from_reachability qs cs reachable =
     (if qs = [] \<or> cs = [] then 0
      else if (\<exists>q \<in> set qs. \<exists>c \<in> set cs. q = c) then 1
      else foldl (\<lambda>best (node, hop).
             if node \<in> set cs then
               let score = (1 / 2) ^ hop in if score > best then score else best
             else best) 0 reachable)"

fun affinity_loop ::
  "graph_store \<Rightarrow> string list \<Rightarrow> nat \<Rightarrow> real \<Rightarrow> string list \<Rightarrow> persist_error + real" where
  "affinity_loop g cs hop best [] = Inr best"
| "affinity_loop g cs hop best (q # qs) =
     (if q \<in> set cs then Inr 1
      else bind_res (gs_reach g q hop) (\<lambda>reachable.
           let aff = affinity_from_reachability [q] cs reachable
           in affinity_loop g cs hop (if aff > best then aff else best) qs))"

definition graph_affinity ::
  "graph_store \<Rightarrow> string list \<Rightarrow> string list \<Rightarrow> nat \<Rightarrow> persist_error + real" where
  "graph_affinity g qs cs hop_limit =
     (if qs = [] \<or> cs = [] then Inr 0
      else affinity_loop g cs (min (max hop_limit 1) GRAPH_HOP_LIMIT) 0 qs)"

text \<open>
  What the affinity needs of a reachability query: the rows are nodes other than the start
  with their distance, and no near node is missing.
\<close>

locale reachability =
  fixes reach :: "string \<Rightarrow> 'e + (string \<times> nat) list"
    and lmt :: nat
    and dist :: "string \<Rightarrow> string \<Rightarrow> nat \<Rightarrow> bool"
    and full :: "(string \<times> nat) list \<Rightarrow> bool"
  assumes reach_sound: "\<lbrakk> reach s = Inr hs; (b, h) \<in> set hs \<rbrakk> \<Longrightarrow> b \<noteq> s \<and> h \<le> lmt \<and> dist s b h"
    and reach_full: "\<lbrakk> reach s = Inr hs; b \<noteq> s; h \<le> lmt; dist s b h; \<not> full hs \<rbrakk> \<Longrightarrow> (b, h) \<in> set hs"
    and dist_pos: "\<lbrakk> dist s b h; b \<noteq> s \<rbrakk> \<Longrightarrow> 0 < h"
begin

definition scores :: "string list \<Rightarrow> string \<Rightarrow> real set" where
  "scores cs q = {(1 / 2) ^ h | b h hs. reach q = Inr hs \<and> (b, h) \<in> set hs \<and> b \<in> set cs}"

lemma score_bounds: "x \<in> scores cs q \<Longrightarrow> 0 < x \<and> x \<le> 1 / 2"
proof -
  assume "x \<in> scores cs q"
  then obtain b h hs where x: "x = (1 / 2) ^ h" "reach q = Inr hs" "(b, h) \<in> set hs"
    by (auto simp: scores_def)
  then have "0 < h" using reach_sound dist_pos by blast
  then have "(1 / 2 :: real) ^ h \<le> (1 / 2) ^ 1" by (intro power_decreasing) auto
  with x show ?thesis by simp
qed

lemma score_dist:
  "x \<in> scores cs q \<Longrightarrow> \<exists>b h. b \<in> set cs \<and> h \<le> lmt \<and> dist q b h \<and> x = (1 / 2) ^ h"
  using reach_sound by (fastforce simp: scores_def)

lemma dist_score:
  "\<lbrakk> reach q = Inr hs; \<not> full hs; b \<in> set cs; b \<noteq> q; h \<le> lmt; dist q b h \<rbrakk>
     \<Longrightarrow> (1 / 2) ^ h \<in> scores cs q"
  using reach_full unfolding scores_def by blast

end

lemma n_hops_dist:
  assumes "n_hop_reachable s k d = (d', Inr hs)" and "(b, h) \<in> set hs"
  shows "b \<noteq> s \<and> h \<le> nat (u64_as_i64 k) \<and> shortest (db_relations d) s b h"
proof -
  have "hs = n_hops (db_relations d) s (nat (u64_as_i64 k))"
    using db_query_Inr [OF assms(1) [unfolded n_hop_reachable_def]] by simp
  then have "(b, h) \<in> set (first_hops (filter (\<lambda>r. snd r \<noteq> s)
      (hop_rows (db_relations d) 0 (nat (u64_as_i64 k)) [s])))"
    using assms(2) by (auto simp: n_hops_def dest: in_set_takeD)
  then show ?thesis by (simp add: shortest_rows)
qed

lemma n_hops_full:
  assumes "n_hop_reachable s k d = (d', Inr hs)" and "b \<noteq> s" and "h \<le> nat (u64_as_i64 k)"
    and "shortest (db_relations d) s b h" and "length hs < 256"
  shows "(b, h) \<in> set hs"
proof -
  let ?all = "first_hops (filter (\<lambda>r. snd r \<noteq> s) (hop_rows (db_relations d) 0 (nat (u64_as_i64 k)) [s]))"
  have hs: "hs = take 256 ?all"
    using db_query_Inr [OF assms(1) [unfolded n_hop_reachable_def]]
    by (simp add: n_hops_def N_HOP_RESULT_LIMIT_def)
  have "length ?all < 256" using hs assms(5) by (cases "length ?all < 256") simp_all
  then have "hs = ?all" using hs by simp
  moreover have "(b, h) \<in> set ?all" unfolding shortest_rows using assms(2-4) by blast
  ultimately show ?thesis by simp
qed

interpretation pg: reachability
  "\<lambda>s. snd (n_hop_reachable s k d)" "nat (u64_as_i64 k)" "shortest (db_relations d)"
  "\<lambda>hs. 256 \<le> length hs" for k d
proof unfold_locales
  fix s hs b h
  assume r: "snd (n_hop_reachable s k d) = Inr hs"
  then have run: "n_hop_reachable s k d = (fst (n_hop_reachable s k d), Inr hs)"
    by (metis prod.collapse)
  show "(b, h) \<in> set hs \<Longrightarrow> b \<noteq> s \<and> h \<le> nat (u64_as_i64 k) \<and> shortest (db_relations d) s b h"
    by (rule n_hops_dist [OF run])
  show "\<lbrakk> b \<noteq> s; h \<le> nat (u64_as_i64 k); shortest (db_relations d) s b h; \<not> 256 \<le> length hs \<rbrakk>
      \<Longrightarrow> (b, h) \<in> set hs"
    by (rule n_hops_full [OF run]) simp_all
next
  fix s b h
  show "shortest (db_relations d) s b h \<Longrightarrow> b \<noteq> s \<Longrightarrow> 0 < h"
    by (cases h) (auto simp: shortest_def)
qed

section \<open>What the affinity is\<close>

definition best_of :: "real \<Rightarrow> real set \<Rightarrow> real \<Rightarrow> bool" where
  "best_of b S r = (b \<le> r \<and> (\<forall>x \<in> S. x \<le> r) \<and> (r = b \<or> r \<in> S))"

lemma best_of_empty [simp]: "best_of b {} r = (r = b)"
  by (auto simp: best_of_def)

lemma best_of_insert:
  "best_of (if x > b then x else b) S r \<Longrightarrow> best_of b (insert x S) r"
  by (auto simp: best_of_def split: if_splits)

lemma best_of_trans: "\<lbrakk> best_of b S r; best_of r T u \<rbrakk> \<Longrightarrow> best_of b (S \<union> T) u"
  by (fastforce simp: best_of_def)

lemma fold_best:
  "best_of b {(1 / 2) ^ h | n h. (n, h) \<in> set rs \<and> n \<in> set cs}
     (foldl (\<lambda>best (node, hop). if node \<in> set cs
        then let score = (1 / 2) ^ hop in if score > best then score else best else best) b rs)"
proof (induction rs arbitrary: b)
  case (Cons r rs)
  obtain n h where r: "r = (n, h)" by fastforce
  show ?case
  proof (cases "n \<in> set cs")
    case True
    have "{(1 / 2) ^ h | n h. (n, h) \<in> set (r # rs) \<and> n \<in> set cs}
        = insert ((1 / 2 :: real) ^ h) {(1 / 2) ^ h | n h. (n, h) \<in> set rs \<and> n \<in> set cs}"
      using r True by auto
    with Cons [of "if (1 / 2) ^ h > b then (1 / 2) ^ h else b"] r True show ?thesis
      by (simp add: best_of_insert Let_def)
  next
    case False
    then have "{(1 / 2 :: real) ^ h | n h. (n, h) \<in> set (r # rs) \<and> n \<in> set cs}
        = {(1 / 2) ^ h | n h. (n, h) \<in> set rs \<and> n \<in> set cs}"
      using r by auto
    with Cons [of b] r False show ?thesis by simp
  qed
qed simp

text \<open>The loop, for the relational store: a shared entity gives 1, otherwise the best score.\<close>

lemma persist_graph_reach: "gs_reach (persist_graph d) q k = snd (n_hop_reachable q k d)"
  by (simp add: persist_graph_def)

lemma affinity_loop_result:
  assumes "affinity_loop (persist_graph d) cs k b qs = Inr a" and "0 \<le> b" and "cs \<noteq> []"
  shows "if set qs \<inter> set cs \<noteq> {} then a = 1
    else best_of b (\<Union>q \<in> set qs. pg.scores k d cs q) a
         \<and> (\<forall>q \<in> set qs. \<exists>hs. snd (n_hop_reachable q k d) = Inr hs)"
  using assms(1,2)
proof (induction qs arbitrary: b)
  case (Cons q qs)
  show ?case
  proof (cases "q \<in> set cs")
    case False
    obtain hs where hs: "snd (n_hop_reachable q k d) = Inr hs"
      and loop: "affinity_loop (persist_graph d) cs k
        (if affinity_from_reachability [q] cs hs > b then affinity_from_reachability [q] cs hs else b)
        qs = Inr a"
      using Cons.prems False by (auto simp: bind_res_eq_Inr persist_graph_reach Let_def)
    let ?f = "affinity_from_reachability [q] cs hs"
    have S: "pg.scores k d cs q = {(1 / 2) ^ h | n h. (n, h) \<in> set hs \<and> n \<in> set cs}"
      using hs by (auto simp: pg.scores_def)
    have f: "best_of 0 (pg.scores k d cs q) ?f"
      using False assms(3) fold_best [of 0 hs cs]
      by (simp add: affinity_from_reachability_def S)
    have "best_of b (pg.scores k d cs q) (if ?f > b then ?f else b)"
      using f Cons.prems(2) by (force simp: best_of_def)
    moreover have "0 \<le> (if ?f > b then ?f else b)" using Cons.prems(2) by simp
    ultimately show ?thesis
      using Cons.IH [OF loop] False hs by (auto dest: best_of_trans)
  qed (use Cons.prems in simp)
qed simp

text \<open>
  graph affinity is half to the distance. When it is computed over the relational store
  without an error, the affinity of two nonempty entity sets is 1 exactly when they share an
  entity; otherwise it is 0 or \<open>(1/2)^h\<close> for the distance \<open>h\<close> of some query entity to some
  candidate within two hops, and it is at least \<open>(1/2)^h\<close> for every such pair whose hop query
  was not cut off at 256 rows.
\<close>

lemma graph_affinity_distance:
  assumes run: "graph_affinity (persist_graph d) qs cs k = Inr a" and ne: "qs \<noteq> []" "cs \<noteq> []"
  shows "(a = 1 \<longleftrightarrow> set qs \<inter> set cs \<noteq> {}) \<and> 0 \<le> a \<and> a \<le> 1
    \<and> (a \<noteq> 0 \<and> a \<noteq> 1 \<longrightarrow> (\<exists>q \<in> set qs. \<exists>c \<in> set cs. \<exists>h \<le> 2.
           shortest (db_relations d) q c h \<and> a = (1 / 2) ^ h))
    \<and> (set qs \<inter> set cs = {} \<longrightarrow>
         (\<forall>q \<in> set qs. \<forall>c \<in> set cs. \<forall>h \<le> min (max k 1) 2. \<forall>hs.
            shortest (db_relations d) q c h
            \<and> snd (n_hop_reachable q (min (max k 1) 2) d) = Inr hs \<and> length hs < 256
            \<longrightarrow> (1 / 2) ^ h \<le> a))"
proof -
  define m where "m = min (max k 1) 2"
  have m: "nat (u64_as_i64 m) = m" "m \<le> 2"
    by (simp_all add: m_def u64_as_i64_def Let_def min_def)
  have loop: "affinity_loop (persist_graph d) cs m 0 qs = Inr a"
    using run ne by (simp add: graph_affinity_def GRAPH_HOP_LIMIT_def m_def)
  note L = affinity_loop_result [OF loop order_refl ne(2)]
  show ?thesis
  proof (cases "set qs \<inter> set cs = {}")
    case False
    with L show ?thesis by simp
  next
    case True
    let ?S = "\<Union>q \<in> set qs. pg.scores m d cs q"
    have b: "best_of 0 ?S a" using L True by simp
    have S: "0 < x \<and> x \<le> 1 / 2" if "x \<in> ?S" for x using that pg.score_bounds by blast
    have "a = 0 \<or> 0 < a \<and> a \<le> 1 / 2" using b S [of a] unfolding best_of_def by blast
    then have bounds: "0 \<le> a" "a \<le> 1" "a \<noteq> 1" by auto
    have some: "\<exists>q \<in> set qs. \<exists>c \<in> set cs. \<exists>h \<le> 2. shortest (db_relations d) q c h \<and> a = (1 / 2) ^ h"
      if "a \<noteq> 0"
    proof -
      from b that obtain q where q: "q \<in> set qs" "a \<in> pg.scores m d cs q"
        by (auto simp: best_of_def)
      with pg.score_dist [OF q(2)] m show ?thesis by (metis le_trans)
    qed
    have all: "(1 / 2) ^ h \<le> a"
      if q: "q \<in> set qs" and c: "c \<in> set cs" and h: "h \<le> m" "shortest (db_relations d) q c h"
        "snd (n_hop_reachable q m d) = Inr hs" "length hs < 256" for q c h hs
    proof -
      have "c \<noteq> q" using True q c by auto
      then have "(1 / 2) ^ h \<in> pg.scores m d cs q"
        using pg.dist_score [OF h(3) _ c] h m by simp
      with b q show ?thesis by (auto simp: best_of_def)
    qed
    show ?thesis using bounds some all True unfolding m_def [symmetric] by blast
  qed
qed

lemma graph_affinity_witness:
  "\<exists>a. graph_affinity (persist_graph db_edges) [''a''] [''c''] 2 = Inr a \<and> 1 / 2 \<le> a \<and> a \<noteq> 1"
proof -
  have f: "db_faults db_edges = []" by (simp add: db_edges_def empty_db_def)
  have q: "snd (n_hop_reachable ''a'' 2 db_edges) = Inr (n_hops (db_relations db_edges) ''a'' 2)"
    using f by (simp add: n_hop_reachable_def u64_as_i64_def Let_def)
  obtain a where a: "graph_affinity (persist_graph db_edges) [''a''] [''c''] 2 = Inr a"
    using q by (auto simp: graph_affinity_def GRAPH_HOP_LIMIT_def persist_graph_def numeral_2_eq_2 Let_def)
  have "walk (db_relations db_edges) ''a'' 1 ''c''"
    using walk_Suc [of "edge ''a'' ''c''" "db_relations db_edges" "''a''" 0 "''c''"]
    by (simp add: db_edges_def edge_def)
  then have "shortest (db_relations db_edges) ''a'' ''c'' 1" by (simp add: shortest_def)
  moreover have "length (n_hops (db_relations db_edges) ''a'' 2) < 256" by code_simp
  moreover have "min (max 2 1) 2 = (2 :: nat)" by simp
  moreover note D = graph_affinity_distance [OF a list.distinct(2) list.distinct(2)]
  ultimately have "(1 / 2) ^ 1 \<le> a"
    using q by (intro D [THEN conjunct2, THEN conjunct2, THEN conjunct2, THEN conjunct2, rule_format,
        of "''a''" "''c''" 1 "n_hops (db_relations db_edges) ''a'' 2"])
      (simp_all add: numeral_2_eq_2)
  moreover have "a \<noteq> 1" using D [THEN conjunct1] by simp
  ultimately show ?thesis using a by auto
qed

section \<open>The alias dictionary\<close>

definition alias_raw :: "(string \<times> string) list" where
  "alias_raw =
     [(''py'', ''Python''), (''python3'', ''Python''), (''pythonlang'', ''Python''),
      (''rust-lang'', ''Rust''), (''rustlang'', ''Rust''), (''rs'', ''Rust''),
      (''ts'', ''TypeScript''), (''js'', ''JavaScript''), (''golang'', ''Go''),
      (''c++'', ''C++''), (''cpp'', ''C++''), (''csharp'', ''C#''), (''c#'', ''C#''),
      (''k8s'', ''Kubernetes''), (''kubernetes'', ''Kubernetes''),
      (''postgres'', ''PostgreSQL''), (''pgsql'', ''PostgreSQL''),
      (''sqlite3'', ''SQLite''), (''sqlite'', ''SQLite''), (''ml'', ''Machine Learning''),
      (''ml/mlx'', ''MLX''), (''llm'', ''LLM''), (''reactjs'', ''React''), (''vuejs'', ''Vue''),
      (''sveltekit'', ''Svelte'')]"

definition alias_dict :: "(string \<times> string) list" where
  "alias_dict = map (\<lambda>(k, v). (to_ascii_lowercase k, v)) alias_raw"

definition canonical :: "string \<Rightarrow> string option" where
  "canonical raw = map_of alias_dict (to_ascii_lowercase (trim raw))"

section \<open>Alignment\<close>

record align_outcome =
  ao_id :: string
  ao_name :: string
  ao_priority :: int
  ao_merged :: bool

definition normalize_name :: "string \<Rightarrow> string" where
  "normalize_name raw = join '' '' (split_whitespace raw)"

definition cosine_impl :: "real list \<Rightarrow> real list \<Rightarrow> real option" where
  "cosine_impl a b =
     (if length a \<noteq> length b \<or> a = [] then None
      else case dot3 a b of (dot, na, nb) \<Rightarrow>
             if na < 1 / 10 ^ 12 \<or> nb < 1 / 10 ^ 12 then Some 0
             else Some (dot / (sqrt na * sqrt nb)))"

definition match_by_name ::
  "graph_store \<Rightarrow> string \<Rightarrow> entity_type \<Rightarrow> persist_error + string option" where
  "match_by_name g name ty =
     (let norm = normalize_name name
      in bind_res (gs_entities g (entity_type_as_str ty)) (\<lambda>rows.
         Inr (map_option fst (find (\<lambda>(i, n, als). n = norm) rows))))"

definition row_matches :: "string \<Rightarrow> string \<times> string \<times> string list option \<Rightarrow> bool" where
  "row_matches target row =
     (case row of (i, n, als) \<Rightarrow>
        to_ascii_lowercase n = target
        \<or> (\<exists>a \<in> set (case als of Some v \<Rightarrow> v | None \<Rightarrow> []).
              to_ascii_lowercase (normalize_name a) = target))"

definition match_by_existing ::
  "graph_store \<Rightarrow> string \<Rightarrow> entity_type \<Rightarrow> persist_error + string option" where
  "match_by_existing g name ty =
     (let target = to_ascii_lowercase (normalize_name name)
      in bind_res (gs_entities g (entity_type_as_str ty)) (\<lambda>rows.
         Inr (map_option fst (find (row_matches target) rows))))"

fun best_vector ::
  "(string \<Rightarrow> real list option) \<Rightarrow> string \<Rightarrow> real list \<Rightarrow> real \<Rightarrow> (string \<times> real) option
     \<Rightarrow> entity_listing \<Rightarrow> (string \<times> real) option" where
  "best_vector vec_of cid cvec threshold best [] = best"
| "best_vector vec_of cid cvec threshold best ((i, n, als) # rows) =
     (let best' =
        (if i = cid then best
         else case vec_of i of
                None \<Rightarrow> best
              | Some w \<Rightarrow>
                  (case cosine_impl cvec w of
                     None \<Rightarrow> best
                   | Some sim \<Rightarrow>
                       if sim \<ge> threshold then
                         (case best of
                            Some (b, bs) \<Rightarrow> if bs \<ge> sim then best else Some (i, sim)
                          | None \<Rightarrow> Some (i, sim))
                       else best))
      in best_vector vec_of cid cvec threshold best' rows)"

definition match_by_vector ::
  "graph_store \<Rightarrow> (string \<Rightarrow> real list option) \<Rightarrow> string \<Rightarrow> entity_type
     \<Rightarrow> persist_error + (string \<times> real) option" where
  "match_by_vector g vec_of cid ty =
     (case merge_threshold ty of
        None \<Rightarrow> Inr None
      | Some threshold \<Rightarrow>
          (case vec_of cid of
             None \<Rightarrow> Inr None
           | Some cvec \<Rightarrow>
               bind_res (gs_entities g (entity_type_as_str ty)) (\<lambda>rows.
               Inr (best_vector vec_of cid cvec threshold None rows))))"

definition aligned :: "string \<Rightarrow> string \<Rightarrow> int \<Rightarrow> align_outcome" where
  "aligned i n p = \<lparr> ao_id = i, ao_name = n, ao_priority = p, ao_merged = True \<rparr>"

text \<open>The rules from the last to the first: vector or new (4), existing (3), then 1 and 2.\<close>

definition align_rule4 ::
  "graph_store \<Rightarrow> entity_node \<Rightarrow> (string \<Rightarrow> real list option) option
     \<Rightarrow> persist_error + align_outcome" where
  "align_rule4 g cand provider =
     (let name = en_name cand;
          fresh = Inr \<lparr> ao_id = en_id cand,
                        ao_name = (case canonical name of Some c \<Rightarrow> c | None \<Rightarrow> name),
                        ao_priority = -1, ao_merged = False \<rparr>
      in case provider of
           None \<Rightarrow> fresh
         | Some vec_of \<Rightarrow>
             bind_res (match_by_vector g vec_of (en_id cand) (en_type cand)) (\<lambda>r.
             case r of Some (i, sim) \<Rightarrow> Inr (aligned i name 0) | None \<Rightarrow> fresh))"

definition align_rule3 ::
  "graph_store \<Rightarrow> entity_node \<Rightarrow> (string \<Rightarrow> real list option) option
     \<Rightarrow> persist_error + align_outcome" where
  "align_rule3 g cand provider =
     bind_res (match_by_existing g (en_name cand) (en_type cand)) (\<lambda>r.
     case r of Some i \<Rightarrow> Inr (aligned i (en_name cand) 1) | None \<Rightarrow> align_rule4 g cand provider)"

definition align_entity ::
  "graph_store \<Rightarrow> entity_node \<Rightarrow> (string \<Rightarrow> real list option) option
     \<Rightarrow> persist_error + align_outcome" where
  "align_entity g cand provider =
     (let ty = en_type cand; name = en_name cand
      in bind_res (match_by_name g name ty) (\<lambda>r.
         case r of
           Some i \<Rightarrow> Inr (aligned i name 3)
         | None \<Rightarrow>
             (case canonical name of
                None \<Rightarrow> align_rule3 g cand provider
              | Some canon \<Rightarrow>
                  bind_res (match_by_name g canon ty) (\<lambda>r2.
                  case r2 of
                    Some i \<Rightarrow> Inr (aligned i canon 2)
                  | None \<Rightarrow>
                      bind_res (match_by_existing g canon ty) (\<lambda>r3.
                      case r3 of
                        Some i \<Rightarrow> Inr (aligned i canon 2)
                      | None \<Rightarrow> align_rule3 g cand provider)))))"

subsection \<open>What the rules promise\<close>

text \<open>
  A stored row carries a name, or it is known by it: its name or one of its aliases is the name
  in some letter case. A row that carries a name is known by it.
\<close>

type_synonym listed_entity = "string \<times> string \<times> string list option"

definition carries :: "string \<Rightarrow> listed_entity \<Rightarrow> bool" where
  "carries n r = (fst (snd r) = normalize_name n)"

definition known_as :: "string \<Rightarrow> listed_entity \<Rightarrow> bool" where
  "known_as n r =
     (\<exists>m \<in> insert (fst (snd r)) (case snd (snd r) of Some als \<Rightarrow> normalize_name ` set als | None \<Rightarrow> {}).
        to_ascii_lowercase m = to_ascii_lowercase (normalize_name n))"

lemma row_matches_known: "row_matches (to_ascii_lowercase (normalize_name n)) = known_as n"
  by (rule ext) (auto simp: row_matches_def known_as_def split: option.split prod.split)

lemma carries_known: "carries n r \<Longrightarrow> known_as n r"
  by (simp add: carries_def known_as_def)

lemma match_by_name_iff:
  assumes "gs_entities g (entity_type_as_str ty) = Inr rows"
  shows "match_by_name g name ty = Inr (map_option fst (find (carries name) rows))"
  using assms by (simp add: match_by_name_def Let_def carries_def [abs_def] case_prod_beta')

lemma match_by_existing_iff:
  assumes "gs_entities g (entity_type_as_str ty) = Inr rows"
  shows "match_by_existing g name ty = Inr (map_option fst (find (known_as name) rows))"
  using assms by (simp add: match_by_existing_def Let_def row_matches_known)

text \<open>The first row of a listing with a property has the id \<open>i\<close>.\<close>

definition first_such :: "(listed_entity \<Rightarrow> bool) \<Rightarrow> entity_listing \<Rightarrow> string \<Rightarrow> bool" where
  "first_such P rows i =
     (\<exists>pre r post. rows = pre @ r # post \<and> fst r = i \<and> P r \<and> (\<forall>x \<in> set pre. \<not> P x))"

lemma find_first_such: "find P rows = Some r \<Longrightarrow> first_such P rows (fst r)"
proof (induction rows)
  case (Cons x rows)
  show ?case
  proof (cases "P x")
    case True
    then have "r = x" using Cons.prems by simp
    with True show ?thesis unfolding first_such_def by (intro exI [of _ "[]"]) auto
  next
    case False
    then obtain pre s post where "rows = pre @ s # post" "fst s = fst r" "P s" "\<forall>y \<in> set pre. \<not> P y"
      using Cons by (auto simp: first_such_def)
    with False show ?thesis unfolding first_such_def
      by (intro exI [of _ "x # pre"] exI [of _ s] exI [of _ post]) simp
  qed
qed simp

text \<open>
  The candidate has the similarity \<open>s\<close> to another stored entity: the type allows the vector rule,
  both have a vector, and \<open>s\<close> reaches the threshold of the type.
\<close>

definition similar_to ::
  "(string \<Rightarrow> real list option) option \<Rightarrow> entity_node \<Rightarrow> listed_entity \<Rightarrow> real \<Rightarrow> bool" where
  "similar_to provider cand r s =
     (fst r \<noteq> en_id cand
      \<and> (\<exists>vec_of t v w. provider = Some vec_of \<and> merge_threshold (en_type cand) = Some t
           \<and> vec_of (en_id cand) = Some v \<and> vec_of (fst r) = Some w
           \<and> cosine_impl v w = Some s \<and> t \<le> s))"

lemma similar_to_unique: "similar_to provider cand r s \<Longrightarrow> similar_to provider cand r s' \<Longrightarrow> s = s'"
  by (auto simp: similar_to_def)

text \<open>No row is more similar, and no earlier row is as similar.\<close>

definition leads :: "(listed_entity \<Rightarrow> real \<Rightarrow> bool) \<Rightarrow> entity_listing \<Rightarrow> string \<Rightarrow> real \<Rightarrow> bool" where
  "leads S rows i s =
     (\<exists>pre r post. rows = pre @ r # post \<and> fst r = i \<and> S r s
        \<and> (\<forall>x \<in> set pre. \<forall>s'. S x s' \<longrightarrow> s' < s) \<and> (\<forall>x \<in> set post. \<forall>s'. S x s' \<longrightarrow> s' \<le> s))"

lemma leads_skip: "leads S rows i s \<Longrightarrow> (\<And>s'. S x s' \<Longrightarrow> s' < s) \<Longrightarrow> leads S (x # rows) i s"
  unfolding leads_def
proof (elim exE conjE)
  fix pre r post
  assume "rows = pre @ r # post" "fst r = i" "S r s" "\<And>s'. S x s' \<Longrightarrow> s' < s"
    "\<forall>x \<in> set pre. \<forall>s'. S x s' \<longrightarrow> s' < s" "\<forall>x \<in> set post. \<forall>s'. S x s' \<longrightarrow> s' \<le> s"
  then show "\<exists>pre r post. x # rows = pre @ r # post \<and> fst r = i \<and> S r s
      \<and> (\<forall>x \<in> set pre. \<forall>s'. S x s' \<longrightarrow> s' < s) \<and> (\<forall>x \<in> set post. \<forall>s'. S x s' \<longrightarrow> s' \<le> s)"
    by (intro exI [of _ "x # pre"] exI [of _ r] exI [of _ post]) auto
qed

lemma leads_here: "S x s \<Longrightarrow> (\<And>y s'. y \<in> set rows \<Longrightarrow> S y s' \<Longrightarrow> s' \<le> s) \<Longrightarrow> leads S (x # rows) (fst x) s"
  unfolding leads_def by (intro exI [of _ "[]"] exI [of _ x] exI [of _ rows]) auto

text \<open>One row of the search: the best one so far gives way only to a strictly better one.\<close>

lemma best_vector_take:
  assumes "similar_to (Some vec_of) cand r s" and "vec_of (en_id cand) = Some v"
    and "merge_threshold (en_type cand) = Some t" and "\<And>b bs. best = Some (b, bs) \<Longrightarrow> bs < s"
  shows "best_vector vec_of (en_id cand) v t best (r # rows) =
    best_vector vec_of (en_id cand) v t (Some (fst r, s)) rows"
proof -
  obtain j n als where r: "r = (j, n, als)" by (cases r)
  have "j \<noteq> en_id cand" "\<exists>w. vec_of j = Some w \<and> cosine_impl v w = Some s" "t \<le> s"
    using assms(1-3) by (auto simp: similar_to_def r)
  then show ?thesis using assms(4) unfolding r by (cases best) (auto simp: Let_def)
qed

lemma best_vector_pass:
  assumes "\<And>s. similar_to (Some vec_of) cand r s \<Longrightarrow> \<exists>b bs. best = Some (b, bs) \<and> s \<le> bs"
    and "vec_of (en_id cand) = Some v" and "merge_threshold (en_type cand) = Some t"
  shows "best_vector vec_of (en_id cand) v t best (r # rows) = best_vector vec_of (en_id cand) v t best rows"
proof -
  obtain j n als where r: "r = (j, n, als)" by (cases r)
  have S: "\<lbrakk> j \<noteq> en_id cand; vec_of j = Some w; cosine_impl v w = Some s; t \<le> s \<rbrakk>
      \<Longrightarrow> \<exists>b bs. best = Some (b, bs) \<and> s \<le> bs" for w s
    using assms by (auto simp: similar_to_def r)
  show ?thesis unfolding r best_vector.simps Let_def
    by (rule arg_cong [where f = "\<lambda>x. best_vector vec_of (en_id cand) v t x rows"])
      (use S in \<open>auto split: option.splits\<close>)
qed

text \<open>What a search of these rows makes of the best one so far.\<close>

definition search_result ::
  "(listed_entity \<Rightarrow> real \<Rightarrow> bool) \<Rightarrow> (string \<times> real) option \<Rightarrow> entity_listing \<Rightarrow> (string \<times> real) option \<Rightarrow> bool" where
  "search_result S best rows res =
     (case res of
        None \<Rightarrow> best = None \<and> (\<forall>x \<in> set rows. \<forall>s. \<not> S x s)
      | Some (i, s) \<Rightarrow>
          (best = Some (i, s) \<and> (\<forall>x \<in> set rows. \<forall>s'. S x s' \<longrightarrow> s' \<le> s))
          \<or> (leads S rows i s \<and> (\<forall>b bs. best = Some (b, bs) \<longrightarrow> bs < s)))"

lemma search_result_take:
  assumes r: "S r s" "\<And>s'. S r s' \<Longrightarrow> s' = s" and b: "\<And>b bs. best = Some (b, bs) \<Longrightarrow> bs < s"
    and rest: "search_result S (Some (fst r, s)) rows res"
  shows "search_result S best (r # rows) res"
proof -
  obtain i s1 where res: "res = Some (i, s1)" using rest by (cases res) (auto simp: search_result_def)
  from rest consider
    (stays) "fst r = i" "s = s1" "\<forall>x \<in> set rows. \<forall>s'. S x s' \<longrightarrow> s' \<le> s1"
  | (later) "leads S rows i s1" "s < s1"
    by (auto simp: search_result_def res)
  then have "leads S (r # rows) i s1 \<and> (\<forall>b bs. best = Some (b, bs) \<longrightarrow> bs < s1)"
  proof cases
    case stays
    then have "leads S (r # rows) (fst r) s" using r(1) by (intro leads_here) auto
    with stays(1,2) b show ?thesis by blast
  next
    case later
    with r(2) have "leads S (r # rows) i s1" by (intro leads_skip) auto
    with later(2) b show ?thesis by (blast intro: less_trans)
  qed
  then show ?thesis by (simp add: search_result_def res)
qed

lemma search_result_pass:
  assumes b: "\<And>s. S r s \<Longrightarrow> \<exists>b bs. best = Some (b, bs) \<and> s \<le> bs" and rest: "search_result S best rows res"
  shows "search_result S best (r # rows) res"
proof (cases res)
  case None
  with rest b show ?thesis by (auto simp: search_result_def)
next
  case (Some z)
  obtain i s1 where z: "z = (i, s1)" by (cases z)
  from rest consider
    (stays) "best = Some (i, s1)" "\<forall>x \<in> set rows. \<forall>s'. S x s' \<longrightarrow> s' \<le> s1"
  | (later) "leads S rows i s1" "\<forall>b bs. best = Some (b, bs) \<longrightarrow> bs < s1"
    by (auto simp: search_result_def Some z)
  then show ?thesis
  proof cases
    case stays
    with b show ?thesis by (auto simp: search_result_def Some z)
  next
    case later
    then have "S r s \<Longrightarrow> s < s1" for s using b by fastforce
    with later show ?thesis by (auto simp: search_result_def Some z intro: leads_skip)
  qed
qed

lemma best_vector_leads:
  assumes "vec_of (en_id cand) = Some v" and "merge_threshold (en_type cand) = Some t"
  shows "search_result (similar_to (Some vec_of) cand) best rows (best_vector vec_of (en_id cand) v t best rows)"
proof (induction rows arbitrary: best)
  case Nil
  then show ?case by (cases best) (auto simp: search_result_def)
next
  case (Cons r rows)
  let ?S = "similar_to (Some vec_of) cand"
  show ?case
  proof (cases "\<exists>s. ?S r s \<and> (\<forall>b bs. best = Some (b, bs) \<longrightarrow> bs < s)")
    case True
    then obtain s where s: "?S r s" "\<And>b bs. best = Some (b, bs) \<Longrightarrow> bs < s" by blast
    have e: "best_vector vec_of (en_id cand) v t best (r # rows) = best_vector vec_of (en_id cand) v t (Some (fst r, s)) rows"
      by (rule best_vector_take [OF s(1) assms s(2)])
    have u: "\<And>s'. ?S r s' \<Longrightarrow> s' = s" using similar_to_unique s(1) by blast
    show ?thesis unfolding e by (rule search_result_take [where s = s, OF s(1) u s(2) Cons.IH])
  next
    case False
    then have s: "\<exists>b bs. best = Some (b, bs) \<and> s \<le> bs" if "?S r s" for s using that by force
    have e: "best_vector vec_of (en_id cand) v t best (r # rows) = best_vector vec_of (en_id cand) v t best rows"
      by (rule best_vector_pass [where vec_of = vec_of and cand = cand, OF _ assms], rule s)
    show ?thesis unfolding e by (rule search_result_pass [OF _ Cons.IH], rule s)
  qed
qed

lemma leads_similar: "leads S rows i s \<Longrightarrow> \<exists>r \<in> set rows. S r s"
  by (auto simp: leads_def)

text \<open>The vector rule finds the most similar entity, and finds one if there is one.\<close>

lemma match_by_vector_leads:
  assumes rows: "gs_entities g (entity_type_as_str (en_type cand)) = Inr rows"
  shows "(\<exists>i s. match_by_vector g vec_of (en_id cand) (en_type cand) = Inr (Some (i, s))
        \<and> leads (similar_to (Some vec_of) cand) rows i s)
    \<or> (match_by_vector g vec_of (en_id cand) (en_type cand) = Inr None
        \<and> (\<forall>r \<in> set rows. \<forall>s. \<not> similar_to (Some vec_of) cand r s))"
proof (cases "merge_threshold (en_type cand)")
  case None
  then show ?thesis by (simp add: match_by_vector_def similar_to_def)
next
  case (Some t)
  note t = Some
  show ?thesis
  proof (cases "vec_of (en_id cand)")
    case None
    then show ?thesis using t by (simp add: match_by_vector_def similar_to_def)
  next
    case (Some v)
    show ?thesis
      using best_vector_leads [where best = None and rows = rows and vec_of = vec_of and cand = cand, OF Some t] t Some rows
      by (cases "best_vector vec_of (en_id cand) v t None rows") (auto simp: match_by_vector_def search_result_def)
  qed
qed

lemma find_cases_first:
  obtains (none) "find P rows = None" "\<not> (\<exists>r \<in> set rows. P r)"
  | (first) r where "find P rows = Some r" "\<exists>r \<in> set rows. P r" "first_such P rows (fst r)"
proof (cases "find P rows")
  case None
  then have "\<forall>r \<in> set rows. \<not> P r" using find_None_iff [of P rows] by blast
  then show thesis using none None by blast
next
  case (Some r)
  then have "\<exists>r \<in> set rows. P r" using find_SomeD [OF Some] by blast
  then show thesis using first Some find_first_such [OF Some] by blast
qed

text \<open>The dictionary is the table: its keys are distinct and already in lower case.\<close>

lemma canonical_table: "canonical n = Some c \<longleftrightarrow> (to_ascii_lowercase (trim n), c) \<in> set alias_raw"
proof -
  have "alias_dict = alias_raw" by code_simp
  moreover have "distinct (map fst alias_raw)" by code_simp
  ultimately show ?thesis by (simp add: canonical_def)
qed

text \<open>The outcome when neither the name nor the dictionary finds an entity.\<close>

lemma align_rule3_outcome:
  assumes rows: "gs_entities g (entity_type_as_str (en_type cand)) = Inr rows"
  shows "\<exists>out. align_rule3 g cand provider = Inr out
    \<and> (if \<exists>r \<in> set rows. known_as (en_name cand) r
       then ao_priority out = 1 \<and> ao_merged out \<and> ao_name out = en_name cand
         \<and> first_such (known_as (en_name cand)) rows (ao_id out)
       else if \<exists>r \<in> set rows. \<exists>s. similar_to provider cand r s
       then ao_priority out = 0 \<and> ao_merged out \<and> ao_name out = en_name cand
         \<and> (\<exists>s. leads (similar_to provider cand) rows (ao_id out) s)
       else ao_priority out = -1 \<and> \<not> ao_merged out \<and> ao_id out = en_id cand
         \<and> (let key = to_ascii_lowercase (trim (en_name cand))
             in if \<exists>c. (key, c) \<in> set alias_raw then (key, ao_name out) \<in> set alias_raw
                else ao_name out = en_name cand))"
proof (cases rule: find_cases_first [of "known_as (en_name cand)" rows])
  case (first r)
  then show ?thesis by (simp add: align_rule3_def match_by_existing_iff [OF rows] aligned_def)
next
  case none
  show ?thesis
  proof (cases provider)
    case None
    with none show ?thesis
      by (simp add: align_rule3_def align_rule4_def match_by_existing_iff [OF rows] similar_to_def Let_def
          canonical_table [symmetric] split: option.split)
  next
    case (Some vec_of)
    note V = align_rule3_def align_rule4_def match_by_existing_iff [OF rows] aligned_def Let_def
      canonical_table [symmetric]
    from match_by_vector_leads [OF rows, of vec_of] show ?thesis
    proof (elim disjE exE conjE)
      fix i s
      assume v: "match_by_vector g vec_of (en_id cand) (en_type cand) = Inr (Some (i, s))"
        "leads (similar_to (Some vec_of) cand) rows i s"
      then have "\<exists>r \<in> set rows. \<exists>s. similar_to (Some vec_of) cand r s" using leads_similar by blast
      with none v show ?thesis unfolding Some by (auto simp: V)
    next
      assume "match_by_vector g vec_of (en_id cand) (en_type cand) = Inr None"
        "\<forall>r \<in> set rows. \<forall>s. \<not> similar_to (Some vec_of) cand r s"
      with none show ?thesis unfolding Some by (auto simp: V split: option.split)
    qed
  qed
qed


text \<open>
  A witness by the alias table: the row that carries the canonical name is chosen although an
  earlier row is known by it.
\<close>

definition graph_rust :: graph_store where
  "graph_rust =
     \<lparr> gs_reach = (\<lambda>s k. Inr []),
       gs_entities = (\<lambda>t. Inr (if t = ''Tech'' then
          [(''e0'', ''ferrous'', Some [''rust'']), (''e1'', ''Rust'', Some [''Rust Lang''])] else [])) \<rparr>"


end
