(* ===== verification/EngineBase.thy ===== *)
theory EngineBase
  imports Replay PersistProps StoreProps Similarity Graph
begin

text \<open>
  The memory engine (\<open>fm-engine/engine.rs\<close>): its state, the services it calls, and the lifting
  of a call of the relational store or of the vector store to the engine.

  The services are outside the repository (an embedding model, an entity extractor, a chat
  model) or outside the program (the clock, the ULID generator). Each is a function of the
  number of calls made before, so a service may fail or change its answer from call to call.
\<close>

section \<open>State and services\<close>

record engine =
  eg_db :: db
  eg_store :: lstore
  eg_stale :: bool
  eg_synced :: nat
  eg_tick :: nat

record engine_env =
  ev_embed :: "nat \<Rightarrow> string \<Rightarrow> memory_error + vec"
  ev_extract :: "(nat \<Rightarrow> string \<Rightarrow> entity_node list \<times> bool) option"
  ev_chat :: "(nat \<Rightarrow> string \<Rightarrow> string option) option"
  ev_ulid :: "nat \<Rightarrow> string"
  ev_now :: "nat \<Rightarrow> nat"
  ev_redact :: "(string \<Rightarrow> string) option"
  ev_knn :: knn
  ev_tenant :: string
  ev_codec :: payload_codec

definition raw_db :: "(db \<Rightarrow> db \<times> 'a) \<Rightarrow> engine \<Rightarrow> engine \<times> 'a" where
  "raw_db f s = (case f (eg_db s) of (d, r) \<Rightarrow> (s\<lparr> eg_db := d \<rparr>, r))"

definition on_db ::
  "(db \<Rightarrow> db \<times> (persist_error + 'a)) \<Rightarrow> engine \<Rightarrow> engine \<times> (memory_error + 'a)" where
  "on_db f s = (case raw_db f s of (s1, r) \<Rightarrow> (s1, map_err to_memory r))"

definition on_store :: "(lstore \<Rightarrow> lstore \<times> 'a) \<Rightarrow> engine \<Rightarrow> engine \<times> 'a" where
  "on_store f s = (case f (eg_store s) of (t, r) \<Rightarrow> (s\<lparr> eg_store := t \<rparr>, r))"

definition call :: "(nat \<Rightarrow> 'a) \<Rightarrow> engine \<Rightarrow> engine \<times> 'a" where
  "call f s = (s\<lparr> eg_tick := eg_tick s + 1 \<rparr>, f (eg_tick s))"

definition embed :: "engine_env \<Rightarrow> string \<Rightarrow> engine \<Rightarrow> engine \<times> (memory_error + vec)" where
  "embed ev x = call (\<lambda>n. ev_embed ev n x)"

definition now_ms :: "engine_env \<Rightarrow> engine \<Rightarrow> engine \<times> nat" where
  "now_ms ev = call (ev_now ev)"

definition mark_stale :: "bool \<Rightarrow> engine \<Rightarrow> engine" where
  "mark_stale b s = s\<lparr> eg_stale := b \<rparr>"

definition mark_synced :: "nat \<Rightarrow> engine \<Rightarrow> engine" where
  "mark_synced t s = s\<lparr> eg_synced := t \<rparr>"

definition last_log_seq :: "engine \<Rightarrow> engine \<times> (memory_error + int)" where
  "last_log_seq = on_db last_wop_seq"

section \<open>What a lifted call leaves alone\<close>

lemma raw_db_parts:
  "raw_db f s = (s', r) \<Longrightarrow> f (eg_db s) = (eg_db s', r) \<and> eg_store s' = eg_store s
     \<and> eg_tick s' = eg_tick s \<and> eg_stale s' = eg_stale s \<and> eg_synced s' = eg_synced s"
  by (auto simp: raw_db_def split: prod.splits)

lemma raw_dbD: "raw_db f s = (s', r) \<Longrightarrow> f (eg_db s) = (eg_db s', r)"
  using raw_db_parts [of f s s' r] by simp

lemma on_db_parts:
  assumes "on_db f s = (s', r)"
  obtains q where "f (eg_db s) = (eg_db s', q)" and "r = map_err to_memory q"
    and "eg_store s' = eg_store s" and "eg_tick s' = eg_tick s"
  using assms by (auto simp: on_db_def raw_db_def split: prod.splits)

lemma on_store_parts:
  "on_store f s = (s', r) \<Longrightarrow> f (eg_store s) = (eg_store s', r) \<and> eg_db s' = eg_db s
     \<and> eg_tick s' = eg_tick s"
  by (auto simp: on_store_def split: prod.splits)

lemma on_store_db [simp]: "eg_db (fst (on_store f s)) = eg_db s"
  by (simp add: on_store_def split: prod.split)

lemma call_parts [simp]:
  "eg_db (fst (call f s)) = eg_db s" "eg_store (fst (call f s)) = eg_store s"
  "snd (call f s) = f (eg_tick s)"
  by (simp_all add: call_def)

lemma embed_db: "embed ev x s = (s', r) \<Longrightarrow> eg_db s' = eg_db s \<and> eg_store s' = eg_store s"
  by (auto simp: embed_def call_def)

lemma map_err_Inr [simp]: "map_err g r = Inr a \<longleftrightarrow> r = Inr a"
  by (cases r) simp_all

lemma map_err_Inl: "map_err g r = Inl e \<longleftrightarrow> (\<exists>x. r = Inl x \<and> e = g x)"
  by (cases r) auto

text \<open>What one statement may do to the items and to the log.\<close>

definition same_tables :: "db \<Rightarrow> db \<Rightarrow> bool" where
  "same_tables d d' = (\<exists>fs. d' = d\<lparr> db_faults := fs \<rparr>)"

lemma same_tables_refl [simp]: "same_tables d d"
  unfolding same_tables_def by (rule exI [of _ "db_faults d"]) simp

lemma same_tables_facts:
  "same_tables d d' \<Longrightarrow> find_item i d' = find_item i d \<and> db_wop d' = db_wop d \<and> db_items d' = db_items d"
  by (auto simp: same_tables_def find_item_def)

lemma query_same: "db_query q d = (d', r) \<Longrightarrow> same_tables d d'"
  using db_query_state [of q d] by (simp add: same_tables_def)

lemma op_fault_same: "db_op f d = (d', Inl e) \<Longrightarrow> same_tables d d'"
  by (erule db_op_cases) (auto simp: same_tables_def)

lemma find_item_wop [simp]: "find_item i (d\<lparr> db_wop := x, db_wop_seq := y \<rparr>) = find_item i d"
  by (simp add: find_item_def)

lemma put_item_wop [simp]: "db_wop (put_item m d) = db_wop d"
  by (simp add: put_item_def)

lemma put_memory_cases:
  assumes "put_memory m d = (d', r)"
  shows "case r of
      Inl e \<Rightarrow> same_tables d d'
    | Inr _ \<Rightarrow> (\<forall>i. find_item i d' = (if i = mi_id m then Some m else find_item i d)) \<and> db_wop d' = db_wop d"
  using assms unfolding put_memory_def db_update_def
  by (cases rule: db_op_cases) (auto simp: same_tables_def)

lemma put_with_wop_cases:
  assumes "put_memory_with_wop m op p t d = (d', r)"
  shows "case r of
      Inl e \<Rightarrow> same_tables d d'
    | Inr q \<Rightarrow> (\<forall>i. find_item i d' = (if i = mi_id m then Some m else find_item i d))
        \<and> (\<exists>w. db_wop d' = db_wop d @ [w] \<and> we_op w = op \<and> we_payload w = p)"
  using assms unfolding put_memory_with_wop_def
  by (cases rule: db_op_cases)
     (auto simp: same_tables_def add_wop_def Let_def)

lemma same_trans: "\<lbrakk> same_tables a b; same_tables b c \<rbrakk> \<Longrightarrow> same_tables a c"
  by (auto simp: same_tables_def)

lemma append_audit_same:
  "append_audit ts actor action target detail d = (d', r) \<Longrightarrow>
     find_item j d' = find_item j d \<and> db_wop d' = db_wop d"
  unfolding append_audit_def db_update_def
  by (erule db_op_cases) (auto simp: find_item_def Let_def)

lemma tombstone_cases:
  assumes "tombstone_memory a d = (d', r)"
  shows "case r of
      Inl e \<Rightarrow> same_tables d d'
    | Inr _ \<Rightarrow> \<forall>i. find_item i d' =
        (if i = a then map_option (mi_tombstone_update (\<lambda>_. True)) (find_item i d) else find_item i d)"
  using assms unfolding tombstone_memory_def db_update_def
proof (cases rule: db_op_cases)
  case (fault e fs)
  then show ?thesis by (auto simp: same_tables_def)
next
  case (success x fs)
  have "find_item i d' =
      (if i = a then map_option (mi_tombstone_update (\<lambda>_. True)) (find_item i d) else find_item i d)" for i
    using success(2)
    by (cases "find_item i d") (auto simp: find_item_update dest: find_item_id)
  with success(1) show ?thesis by simp
qed

lemma record_merge_cases:
  assumes "record_merge a b y n d = (d', r)"
  shows "find_item i d' = find_item i d"
  using assms unfolding record_merge_def db_update_def
  by (cases rule: db_op_cases) (auto simp: Let_def find_item_def)

lemma fst_on_db: "\<exists>r. f (eg_db s) = (eg_db (fst (on_db f s)), r)"
  by (auto simp: on_db_def raw_db_def split: prod.split)

lemma fst_on_db_append_audit:
  "find_item j (eg_db (fst (on_db (append_audit t a b c e) s))) = find_item j (eg_db s)
     \<and> db_wop (eg_db (fst (on_db (append_audit t a b c e) s))) = db_wop (eg_db s)"
  using fst_on_db [of "append_audit t a b c e" s] append_audit_same by blast

text \<open>The items by their ids: what the log of a leader and the replay of a follower are about.\<close>

definition items_of :: "engine \<Rightarrow> item_map" where
  "items_of s = (\<lambda>i. find_item i (eg_db s))"

lemma same_items_of: "same_tables (eg_db s) (eg_db s') \<Longrightarrow> items_of s' = items_of s"
  using same_tables_facts by (auto simp: items_of_def)


definition log_adequate :: "payload_codec \<Rightarrow> engine \<Rightarrow> engine \<Rightarrow> bool" where
  "log_adequate pc s s' =
     (\<exists>ws. db_wop (eg_db s') = db_wop (eg_db s) @ ws \<and> items_of s' = effects pc ws (items_of s))"

lemma append_wop_cases:
  assumes "append_wop op p t d = (d', r)"
  shows "case r of
      Inl e \<Rightarrow> same_tables d d'
    | Inr n \<Rightarrow> (\<forall>i. find_item i d' = find_item i d)
        \<and> (\<exists>w. db_wop d' = db_wop d @ [w] \<and> we_op w = op \<and> we_payload w = p)"
  using assms unfolding append_wop_def
  by (cases rule: db_op_cases) (auto simp: same_tables_def add_wop_def Let_def)

lemma find_item_wf:
  "\<lbrakk> db_wf d; m \<in> set (db_items d) \<rbrakk> \<Longrightarrow> find_item (mi_id m) d = Some m"
  by (simp add: find_item_mem db_wf_def items_wf_def)

lemma scoped_query_Inr:
  assumes "scoped_query f q d = (d', Inr x)" and "\<And>p d fs. q p (d\<lparr> db_faults := fs \<rparr>) = q p d"
  shows "\<exists>p. ns_predicate f = Inr p \<and> x = q p d \<and> same_tables d d'"
proof -
  obtain d1 p where q: "db_query (\<lambda>_. ()) d = (d1, Inr ())" and p: "ns_predicate f = Inr p"
    and r: "db_query (q p) d1 = (d', Inr x)"
    using assms(1) by (auto simp: scoped_query_def split: prod.splits sum.splits)
  obtain fs where d1: "d1 = d\<lparr> db_faults := fs \<rparr>" using db_query_state [of "\<lambda>_. ()" d] q by auto
  have "same_tables d1 d'" using r by (rule query_same)
  then have "same_tables d d'" using d1 by (auto simp: same_tables_def)
  moreover have "x = q p d" using db_query_Inr [OF r] assms(2) d1 by simp
  ultimately show ?thesis using p by blast
qed

lemma on_db_Inr:
  assumes "on_db f s = (s', Inr a)"
  shows "f (eg_db s) = (eg_db s', Inr a)" and "eg_store s' = eg_store s"
  using assms by (auto elim: on_db_parts simp: eq_commute [of "Inr a"])

lemma get_memory_Inr:
  "get_memory i d = (d', Inr x) \<Longrightarrow> x = find_item i d \<and> same_tables d d'"
  unfolding get_memory_def by (frule query_same) (auto dest: db_query_Inr)

lemma then_do_InrE:
  assumes "then_do f g s = (s', Inr b)"
  obtains s1 a where "f s = (s1, Inr a)" "g a s1 = (s', Inr b)"
  using assms by (auto simp: then_do_Inr)

lemma query_tables: "db_query q d = (d', r) \<Longrightarrow> db_items d' = db_items d \<and> db_wop d' = db_wop d"
  by (auto dest!: query_same simp: same_tables_def)

section \<open>What a call may hide\<close>

text \<open>The items keep their data; those of a set of ids may become tombstones.\<close>

definition only_hides :: "string set \<Rightarrow> engine \<Rightarrow> engine \<Rightarrow> bool" where
  "only_hides S s s' =
     (\<forall>j. items_of s' j = items_of s j
        \<or> (j \<in> S \<and> items_of s' j = map_option (mi_tombstone_update (\<lambda>_. True)) (items_of s j)))"

lemma only_hides_refl [simp]: "only_hides S s s"
  by (simp add: only_hides_def)

lemma hide_twice [simp]:
  "map_option (mi_tombstone_update (\<lambda>_. True)) (map_option (mi_tombstone_update (\<lambda>_. True)) x)
     = map_option (mi_tombstone_update (\<lambda>_. True)) x"
  by (cases x) auto

lemma only_hides_trans: "\<lbrakk> only_hides S a b; only_hides S b c \<rbrakk> \<Longrightarrow> only_hides S a c"
  unfolding only_hides_def by (metis hide_twice)

lemma only_hides_mono: "\<lbrakk> only_hides S a b; S \<subseteq> T \<rbrakk> \<Longrightarrow> only_hides T a b"
  unfolding only_hides_def by blast

lemma only_hides_outside: "\<lbrakk> only_hides S s s'; j \<notin> S \<rbrakk> \<Longrightarrow> find_item j (eg_db s') = find_item j (eg_db s)"
  by (auto simp: only_hides_def items_of_def)

lemma only_hides_db: "eg_db s' = eg_db s \<Longrightarrow> only_hides S s s'"
  by (simp add: only_hides_def items_of_def)

lemma same_hides: "same_tables (eg_db s) (eg_db s') \<Longrightarrow> only_hides S s s'"
  by (simp add: only_hides_def same_items_of)

lemma then_do_rel:
  assumes "\<And>s. R s (fst (f s))" and "\<And>a s. R s (fst (g a s))" and "\<And>a b c. R a b \<Longrightarrow> R b c \<Longrightarrow> R a c"
  shows "R s (fst (then_do f g s))"
proof -
  obtain s1 r where f: "f s = (s1, r)" by fastforce
  then have "R s s1" using assms(1) [of s] by simp
  with f assms(2,3) show ?thesis by (cases r) (auto simp: then_do_def)
qed

lemma then_do_hides:
  assumes "\<And>s. only_hides S s (fst (f s))" and "\<And>a s. only_hides S s (fst (g a s))"
  shows "only_hides S s (fst (then_do f g s))"
  using assms by (rule then_do_rel) (rule only_hides_trans)

lemma hides_on_db:
  assumes "\<And>d d' r. f d = (d', r) \<Longrightarrow> \<forall>i. find_item i d' = find_item i d"
  shows "only_hides S s (fst (on_db f s))"
  using fst_on_db [of f s] assms by (auto simp: only_hides_def items_of_def)

lemma hides_tombstone: "only_hides {i} s (fst (on_db (tombstone_memory i) s))"
proof -
  obtain r where "tombstone_memory i (eg_db s) = (eg_db (fst (on_db (tombstone_memory i) s)), r)"
    using fst_on_db by blast
  from tombstone_cases [OF this] show ?thesis
    by (cases r) (auto simp: same_hides, simp add: only_hides_def items_of_def)
qed

lemma hides_append_wop: "only_hides S s (fst (on_db (append_wop op p t) s))"
proof (rule hides_on_db)
  fix d d' r assume "append_wop op p t d = (d', r)"
  from append_wop_cases [OF this] show "\<forall>i. find_item i d' = find_item i d"
    by (cases r) (simp_all add: same_tables_facts)
qed

lemma hides_append_audit: "only_hides S s (fst (on_db (append_audit t a b c e) s))"
  by (rule hides_on_db) (simp add: append_audit_same)

lemma hides_on_store: "only_hides S s (fst (on_store f s))"
  by (rule only_hides_db) simp

lemma hides_now_ms: "only_hides S s (fst (now_ms ev s))"
  by (rule only_hides_db) (simp add: now_ms_def)

lemma hides_query: "only_hides S s (fst (on_db (db_query q) s))"
  by (rule hides_on_db) (auto dest: query_same simp: same_tables_facts)

end
