(* ===== verification/Commit.thy ===== *)
theory Commit
  imports EngineBase
begin

text \<open>
  Committing an interaction (\<open>commit_inner\<close> of \<open>fm-engine/engine.rs\<close>): one memory item per turn,
  its vector in the vector store and its row with a log entry in one transaction; a turn that
  fails is undone and reported, and the others go on.
\<close>

section \<open>One turn\<close>

definition turn_content :: "turn \<Rightarrow> string" where
  "turn_content t =
     tu_user t @ [char_of (10 :: nat)] @ tu_assistant t
     @ concat (map (\<lambda>c. [char_of (10 :: nat)] @ tc_name c @ '':'' @ tc_summary c) (tu_tools t))"

definition vector_id_from_ulid :: "string \<Rightarrow> vid" where
  "vector_id_from_ulid i = fnv1a_64 i"

definition extract_and_attach :: "engine_env \<Rightarrow> string \<Rightarrow> string \<Rightarrow> engine \<Rightarrow> engine" where
  "extract_and_attach ev i content s =
     (case ev_extract ev of
        None \<Rightarrow> s
      | Some ex \<Rightarrow>
          (case call (\<lambda>n. ex n content) s of
             (s1, (ents, success)) \<Rightarrow>
               (case on_db (get_memory i) s1 of
                  (s2, Inl _) \<Rightarrow> s2
                | (s2, Inr None) \<Rightarrow> s2
                | (s2, Inr (Some m)) \<Rightarrow>
                    fst (on_db (put_memory (m\<lparr> mi_entities := ents, mi_entities_pending := \<not> success \<rparr>)) s2))))"

definition commit_item :: "engine_env \<Rightarrow> string \<Rightarrow> interaction \<Rightarrow> nat \<Rightarrow> turn \<Rightarrow> string \<Rightarrow> memory_item" where
  "commit_item ev sess ix now t i =
     with_namespace
       (new_turn_skeleton i (ix_id ix) (tu_idx t) sess (ix_tenant ix) Episodic
          (case ev_redact ev of Some r \<Rightarrow> r (turn_content t) | None \<Rightarrow> turn_content t) now)
       (ix_ns ix) (ix_ns_key ix)"

definition turn_failed :: "turn \<Rightarrow> string \<Rightarrow> memory_error \<Rightarrow> turn_failure" where
  "turn_failed t stage e = \<lparr> tf_idx = tu_idx t, tf_stage = stage, tf_error = err_display e \<rparr>"

text \<open>The result is an error that ends the commit, a failed turn, or the id of a stored turn.\<close>

definition commit_turn ::
  "engine_env \<Rightarrow> string \<Rightarrow> interaction \<Rightarrow> nat \<Rightarrow> turn \<Rightarrow> engine
     \<Rightarrow> engine \<times> (memory_error + turn_failure + string)" where
  "commit_turn ev sess ix now t s =
     (case call (ev_ulid ev) s of
        (s0, i) \<Rightarrow>
          let item0 = commit_item ev sess ix now t i;
              content = mi_content item0;
              vec_id = vector_id_from_ulid i
          in case embed ev content s0 of
               (s1, Inl e) \<Rightarrow> (s1, Inr (Inl (turn_failed t ''embed'' e)))
             | (s1, Inr v) \<Rightarrow>
                 (case on_store (insert_vector vec_id v) s1 of
                    (s2, Inl e) \<Rightarrow> (s2, Inr (Inl (turn_failed t ''insert_vector'' e)))
                  | (s2, Inr _) \<Rightarrow>
                      let item = item0\<lparr> mi_vector_ref := show_nat (unat vec_id), mi_entities_pending := True \<rparr>
                      in case pc_enc (ev_codec ev) (item, Some v) of
                           Inl e \<Rightarrow> (s2, Inl (ESerde e))
                         | Inr payload \<Rightarrow>
                             (case on_db (put_memory_with_wop item ''commit'' payload now) s2 of
                                (s3, Inl e) \<Rightarrow>
                                  (fst (on_store (delete_vector vec_id) s3),
                                   Inr (Inl (turn_failed t ''persist'' e)))
                              | (s3, Inr _) \<Rightarrow> (extract_and_attach ev i content s3, Inr (Inr i)))))"

section \<open>All turns\<close>

fun commit_loop ::
  "engine_env \<Rightarrow> string \<Rightarrow> interaction \<Rightarrow> nat \<Rightarrow> turn list \<Rightarrow> commit_outcome \<Rightarrow> engine
     \<Rightarrow> engine \<times> (memory_error + commit_outcome)" where
  "commit_loop ev sess ix now [] out s = (s, Inr out)"
| "commit_loop ev sess ix now (t # ts) out s =
     (case commit_turn ev sess ix now t s of
        (s1, Inl e) \<Rightarrow> (s1, Inl e)
      | (s1, Inr (Inl f)) \<Rightarrow>
          commit_loop ev sess ix now ts (out\<lparr> co_failed := co_failed out @ [f] \<rparr>) s1
      | (s1, Inr (Inr i)) \<Rightarrow>
          commit_loop ev sess ix now ts (out\<lparr> co_ids := co_ids out @ [i] \<rparr>) s1)"

definition commit_inner ::
  "engine_env \<Rightarrow> string \<Rightarrow> interaction \<Rightarrow> engine \<Rightarrow> engine \<times> (memory_error + commit_outcome)" where
  "commit_inner ev sess ix s =
     (case now_ms ev s of
        (s0, now) \<Rightarrow>
          (case commit_loop ev sess ix now (ix_turns ix) \<lparr> co_ids = [], co_failed = [] \<rparr> s0 of
             (s1, Inl e) \<Rightarrow> (s1, Inl e)
           | (s1, Inr out) \<Rightarrow>
               let detail = ''turns='' @ show_nat (length (ix_turns ix))
                     @ '' committed='' @ show_nat (length (co_ids out))
                     @ '' failed='' @ show_nat (length (co_failed out))
               in (fst (on_db (append_audit now sess ''commit'' (ix_id ix) detail) s1), Inr out)))"

definition commit_episodic_memory ::
  "engine_env \<Rightarrow> string \<Rightarrow> interaction \<Rightarrow> engine \<Rightarrow> engine \<times> (memory_error + string list)" where
  "commit_episodic_memory ev sess ix s =
     (case commit_inner ev sess ix s of
        (s1, Inl e) \<Rightarrow> (s1, Inl e) | (s1, Inr out) \<Rightarrow> (s1, Inr (co_ids out)))"

section \<open>What a turn does\<close>

text \<open>An item of the interaction, whatever its extracted entities.\<close>

definition committed_as :: "string \<Rightarrow> interaction \<Rightarrow> memory_item \<Rightarrow> bool" where
  "committed_as sess ix m =
     (mi_session m = sess \<and> mi_interaction m = ix_id ix \<and> mi_tenant m = ix_tenant ix
      \<and> mi_ns m = ix_ns ix \<and> mi_ns_key m = ix_ns_key ix \<and> mi_type m = Episodic
      \<and> \<not> mi_tombstone m \<and> mi_vector_ref m = show_nat (unat (vector_id_from_ulid (mi_id m))))"

text \<open>The same item but for its extracted entities.\<close>

definition entity_variant :: "memory_item \<Rightarrow> memory_item \<Rightarrow> bool" where
  "entity_variant m m' =
     (m' = m\<lparr> mi_entities := mi_entities m', mi_entities_pending := mi_entities_pending m' \<rparr>)"

lemma entity_variant_refl [simp]: "entity_variant m m"
  by (simp add: entity_variant_def)

lemma entity_variant_upd [simp]:
  "entity_variant m (m\<lparr> mi_entities := es, mi_entities_pending := p \<rparr>)"
  by (simp add: entity_variant_def)

lemma entity_variant_committed:
  assumes "entity_variant m m'" and "committed_as sess ix m"
  shows "committed_as sess ix m'"
proof -
  have "m' = m\<lparr> mi_entities := mi_entities m', mi_entities_pending := mi_entities_pending m' \<rparr>"
    using assms(1) by (simp add: entity_variant_def)
  then obtain es p where "m' = m\<lparr> mi_entities := es, mi_entities_pending := p \<rparr>" by blast
  with assms(2) show ?thesis by (simp add: committed_as_def)
qed

definition item_touched :: "string \<Rightarrow> db \<Rightarrow> db \<Rightarrow> bool" where
  "item_touched i d d' =
     (db_wop d' = db_wop d \<and> (\<forall>j. j \<noteq> i \<longrightarrow> find_item j d' = find_item j d)
      \<and> rel_option entity_variant (find_item i d) (find_item i d'))"

lemma same_touched: "same_tables d d' \<Longrightarrow> item_touched i d d'"
  using same_tables_facts [of d d'] by (simp add: item_touched_def option.rel_refl)

lemma put_touched:
  assumes same: "same_tables d d1" and m: "find_item i d = Some m"
    and v: "put_memory (m\<lparr> mi_entities := es, mi_entities_pending := p \<rparr>) d1 = (d2, r)"
  shows "item_touched i d d2"
proof -
  have id: "mi_id m = i" using m by (rule find_item_id)
  show ?thesis
  proof (cases r)
    case (Inl e)
    then have "same_tables d1 d2" using put_memory_cases [OF v] by simp
    then show ?thesis
      using same same_tables_facts by (simp add: item_touched_def option.rel_refl)
  next
    case (Inr u)
    with put_memory_cases [OF v] same_tables_facts [OF same] m id show ?thesis
      by (simp add: item_touched_def)
  qed
qed

lemma extract_db: "item_touched i (eg_db s) (eg_db (extract_and_attach ev i content s))"
proof (cases "ev_extract ev")
  case None
  then show ?thesis by (simp add: extract_and_attach_def same_touched)
next
  case (Some ex)
  obtain s1 ents success where c: "call (\<lambda>n. ex n content) s = (s1, (ents, success))"
    by (metis prod.exhaust)
  then have s1: "eg_db s1 = eg_db s" using call_parts(1) [of "\<lambda>n. ex n content" s] by simp
  obtain s2 r where g: "on_db (get_memory i) s1 = (s2, r)" by fastforce
  then obtain q where q: "get_memory i (eg_db s1) = (eg_db s2, q)" "r = map_err to_memory q"
    by (rule on_db_parts)
  have same: "same_tables (eg_db s) (eg_db s2)"
    using query_same q(1) s1 unfolding get_memory_def by metis
  show ?thesis
  proof (cases "\<exists>m. q = Inr (Some m)")
    case False
    then have "extract_and_attach ev i content s = s2"
      using Some c g q(2) by (cases q) (auto simp: extract_and_attach_def split: option.splits)
    with same show ?thesis by (simp add: same_touched)
  next
    case True
    then obtain m where m: "q = Inr (Some m)" by blast
    have f: "find_item i (eg_db s) = Some m"
      using db_query_Inr [of "find_item i" "eg_db s1" "eg_db s2" "Some m"] q(1) s1 m
      by (simp add: get_memory_def)
    let ?m = "m\<lparr> mi_entities := ents, mi_entities_pending := \<not> success \<rparr>"
    obtain s3 w where p: "on_db (put_memory ?m) s2 = (s3, w)" by fastforce
    then obtain v where v: "put_memory ?m (eg_db s2) = (eg_db s3, v)" by (rule on_db_parts)
    have "extract_and_attach ev i content s = s3"
      using Some c g q(2) m p by (simp add: extract_and_attach_def)
    with put_touched [OF same f v] show ?thesis by simp
  qed
qed

text \<open>A failed turn leaves the items and the log alone; a stored turn adds its item and its entry.\<close>

definition turn_undone :: "db \<Rightarrow> db \<Rightarrow> bool" where
  "turn_undone d d' = (db_wop d' = db_wop d \<and> (\<forall>j. find_item j d' = find_item j d))"

definition logged :: "payload_codec \<Rightarrow> string \<Rightarrow> interaction \<Rightarrow> string \<Rightarrow> wop_entry \<Rightarrow> bool" where
  "logged c sess ix i w =
     (we_op w = ''commit''
      \<and> (\<exists>m v. pc_enc c (m, Some v) = Inr (we_payload w) \<and> mi_id m = i \<and> committed_as sess ix m))"

definition turn_stored :: "payload_codec \<Rightarrow> string \<Rightarrow> interaction \<Rightarrow> string \<Rightarrow> db \<Rightarrow> db \<Rightarrow> bool" where
  "turn_stored c sess ix i d d' =
     ((\<exists>w. db_wop d' = db_wop d @ [w] \<and> logged c sess ix i w)
      \<and> (\<forall>j. j \<noteq> i \<longrightarrow> find_item j d' = find_item j d)
      \<and> (\<exists>m. find_item i d' = Some m \<and> committed_as sess ix m))"

lemma same_undone: "same_tables d d' \<Longrightarrow> turn_undone d d'"
  using same_tables_facts by (simp add: turn_undone_def)

lemma stored_touched:
  assumes "turn_stored c sess ix i d d1" and "item_touched i d1 d2"
  shows "turn_stored c sess ix i d d2"
proof -
  obtain m where m: "find_item i d1 = Some m" "committed_as sess ix m"
    using assms(1) by (auto simp: turn_stored_def)
  then obtain m' where "find_item i d2 = Some m'" "entity_variant m m'"
    using assms(2) by (auto simp: item_touched_def option_rel_Some1)
  with m(2) entity_variant_committed assms show ?thesis
    unfolding turn_stored_def item_touched_def by metis
qed

lemma commit_turn_db:
  assumes run: "commit_turn ev sess ix now t s = (s', Inr r)"
  shows "case r of
      Inl f \<Rightarrow> turn_undone (eg_db s) (eg_db s') \<and> tf_idx f = tu_idx t
    | Inr i \<Rightarrow> turn_stored (ev_codec ev) sess ix i (eg_db s) (eg_db s')"
proof -
  obtain s0 i where c: "call (ev_ulid ev) s = (s0, i)" by fastforce
  then have s0: "eg_db s0 = eg_db s" using call_parts(1) [of "ev_ulid ev" s] by simp
  let ?m = "commit_item ev sess ix now t i" and ?vid = "vector_id_from_ulid i"
  let ?item = "?m\<lparr> mi_vector_ref := show_nat (unat ?vid), mi_entities_pending := True \<rparr>"
  have item: "committed_as sess ix ?item" "mi_id ?item = i" "mi_id ?m = i"
    by (simp_all add: committed_as_def commit_item_def with_namespace_def)
  obtain s1 r1 where e: "embed ev (mi_content ?m) s0 = (s1, r1)" by fastforce
  then have s1: "eg_db s1 = eg_db s" using embed_db s0 by metis
  show ?thesis
  proof (cases r1)
    case (Inl x)
    with run c e s1 show ?thesis
      by (auto simp: commit_turn_def Let_def turn_failed_def turn_undone_def)
  next
    case (Inr v)
    obtain s2 r2 where st: "on_store (insert_vector ?vid v) s1 = (s2, r2)" by fastforce
    then have s2: "eg_db s2 = eg_db s" using on_store_parts s1 by metis
    show ?thesis
    proof (cases r2)
      case (Inl x)
      with run c e Inr st s2 show ?thesis
        by (auto simp: commit_turn_def Let_def turn_failed_def turn_undone_def)
    next
      case ok: (Inr u)
      obtain payload where p: "pc_enc (ev_codec ev) (?item, Some v) = Inr payload"
        using run c e Inr st ok by (auto simp: commit_turn_def Let_def split: sum.splits)
      obtain s3 r3 where w: "on_db (put_memory_with_wop ?item ''commit'' payload now) s2 = (s3, r3)"
        by fastforce
      then obtain q where q: "put_memory_with_wop ?item ''commit'' payload now (eg_db s2) = (eg_db s3, q)"
        "r3 = map_err to_memory q" by (rule on_db_parts)
      show ?thesis
      proof (cases q)
        case (Inl x)
        then have "same_tables (eg_db s) (eg_db s3)" using put_with_wop_cases [OF q(1)] s2 by simp
        moreover have "eg_db s' = eg_db s3" and "\<exists>f. r = Inl f \<and> tf_idx f = tu_idx t"
          using run c e Inr st ok p w q(2) Inl
          by (auto simp: commit_turn_def Let_def turn_failed_def)
        ultimately show ?thesis by (auto simp: same_undone)
      next
        case stored: (Inr n)
        have s': "s' = extract_and_attach ev i (mi_content ?m) s3" "r = Inr i"
          using run c e Inr st ok p w q(2) stored by (simp_all add: commit_turn_def Let_def)
        have f: "\<forall>j. find_item j (eg_db s3) = (if j = i then Some ?item else find_item j (eg_db s))"
          and l: "\<exists>w. db_wop (eg_db s3) = db_wop (eg_db s) @ [w] \<and> we_op w = ''commit'' \<and> we_payload w = payload"
          using put_with_wop_cases [OF q(1)] stored s2 item(3) by simp_all
        have "turn_stored (ev_codec ev) sess ix i (eg_db s) (eg_db s3)"
          unfolding turn_stored_def
        proof (intro conjI)
          show "\<exists>w. db_wop (eg_db s3) = db_wop (eg_db s) @ [w] \<and> logged (ev_codec ev) sess ix i w"
            using l p item unfolding logged_def by metis
          show "\<exists>m. find_item i (eg_db s3) = Some m \<and> committed_as sess ix m"
            using f item(1) by simp
        qed (use f in simp)
        from stored_touched [OF this extract_db] s' show ?thesis by simp
      qed
    qed
  qed
qed

lemma commit_loop_db:
  assumes "commit_loop ev sess ix now ts out s = (s', Inr out')"
  shows "\<exists>ks fs ws. co_ids out' = co_ids out @ ks \<and> co_failed out' = co_failed out @ fs
    \<and> length ks + length fs = length ts \<and> set (map tf_idx fs) \<subseteq> tu_idx ` set ts
    \<and> db_wop (eg_db s') = db_wop (eg_db s) @ ws
    \<and> list_all2 (logged (ev_codec ev) sess ix) ks ws
    \<and> (\<forall>j. j \<notin> set ks \<longrightarrow> find_item j (eg_db s') = find_item j (eg_db s))
    \<and> (\<forall>i \<in> set ks. \<exists>m. find_item i (eg_db s') = Some m \<and> committed_as sess ix m)"
  using assms
proof (induction ts arbitrary: out s)
  case Nil
  then show ?case by (intro exI [of _ "[]"]) simp
next
  case (Cons t ts)
  obtain s1 r where one: "commit_turn ev sess ix now t s = (s1, Inr r)"
    using Cons.prems by (auto split: prod.splits sum.splits)
  show ?case
  proof (cases r)
    case (Inl f)
    have u: "turn_undone (eg_db s) (eg_db s1)" "tf_idx f = tu_idx t"
      using commit_turn_db [OF one] Inl by simp_all
    have "commit_loop ev sess ix now ts (out\<lparr> co_failed := co_failed out @ [f] \<rparr>) s1 = (s', Inr out')"
      using Cons.prems one Inl by simp
    from Cons.IH [OF this] obtain ks fs ws where
      "co_ids out' = co_ids out @ ks" "co_failed out' = co_failed out @ [f] @ fs"
      "length ks + length fs = length ts" "set (map tf_idx fs) \<subseteq> tu_idx ` set ts"
      "db_wop (eg_db s') = db_wop (eg_db s1) @ ws" "list_all2 (logged (ev_codec ev) sess ix) ks ws"
      "\<forall>j. j \<notin> set ks \<longrightarrow> find_item j (eg_db s') = find_item j (eg_db s1)"
      "\<forall>i \<in> set ks. \<exists>m. find_item i (eg_db s') = Some m \<and> committed_as sess ix m"
      by auto
    then show ?thesis using u
      by (intro exI [of _ ks] exI [of _ "f # fs"] exI [of _ ws]) (auto simp: turn_undone_def)
  next
    case (Inr i)
    have u: "turn_stored (ev_codec ev) sess ix i (eg_db s) (eg_db s1)"
      using commit_turn_db [OF one] Inr by simp
    then obtain w m where w: "db_wop (eg_db s1) = db_wop (eg_db s) @ [w]" "logged (ev_codec ev) sess ix i w"
      and other: "\<forall>j. j \<noteq> i \<longrightarrow> find_item j (eg_db s1) = find_item j (eg_db s)"
      and m: "find_item i (eg_db s1) = Some m" "committed_as sess ix m"
      unfolding turn_stored_def by blast
    have "commit_loop ev sess ix now ts (out\<lparr> co_ids := co_ids out @ [i] \<rparr>) s1 = (s', Inr out')"
      using Cons.prems one Inr by simp
    from Cons.IH [OF this] obtain ks fs ws where rest:
      "co_ids out' = co_ids out @ [i] @ ks" "co_failed out' = co_failed out @ fs"
      "length ks + length fs = length ts" "set (map tf_idx fs) \<subseteq> tu_idx ` set ts"
      "db_wop (eg_db s') = db_wop (eg_db s1) @ ws" "list_all2 (logged (ev_codec ev) sess ix) ks ws"
      "\<forall>j. j \<notin> set ks \<longrightarrow> find_item j (eg_db s') = find_item j (eg_db s1)"
      "\<forall>i \<in> set ks. \<exists>m. find_item i (eg_db s') = Some m \<and> committed_as sess ix m"
      by auto
    have "\<exists>m. find_item i (eg_db s') = Some m \<and> committed_as sess ix m"
      using rest(7,8) m by (cases "i \<in> set ks") auto
    then show ?thesis using rest w other
      by (intro exI [of _ "i # ks"] exI [of _ fs] exI [of _ "w # ws"]) auto
  qed
qed

section \<open>The outcome of a commit\<close>

text \<open>
  C2: a commit accounts for every turn. Under every pattern of failures of the two stores, the
  embedder and the extractor, each turn is either reported as failed, leaving no trace in the
  items and the log, or reported with an id: then its item is stored, live, with the session,
  interaction, tenant and namespace of the request, and the log has gained exactly one entry
  for each such id, in the order of the ids, with the item as its payload. No other item changes.
\<close>

theorem commit_accounts_for_turns:
  assumes run: "commit_inner ev sess ix s = (s', Inr out)"
  shows "length (co_ids out) + length (co_failed out) = length (ix_turns ix)
    \<and> set (map tf_idx (co_failed out)) \<subseteq> tu_idx ` set (ix_turns ix)
    \<and> (\<forall>i \<in> set (co_ids out). \<exists>m. find_item i (eg_db s') = Some m \<and> committed_as sess ix m)
    \<and> (\<forall>j. j \<notin> set (co_ids out) \<longrightarrow> find_item j (eg_db s') = find_item j (eg_db s))
    \<and> (\<exists>ws. db_wop (eg_db s') = db_wop (eg_db s) @ ws
            \<and> list_all2 (logged (ev_codec ev) sess ix) (co_ids out) ws)"
proof -
  obtain s0 now where n: "now_ms ev s = (s0, now)" by fastforce
  then have s0: "eg_db s0 = eg_db s" by (auto simp: now_ms_def call_def)
  obtain s1 where l: "commit_loop ev sess ix now (ix_turns ix) \<lparr> co_ids = [], co_failed = [] \<rparr> s0
      = (s1, Inr out)"
    and s': "\<exists>t a x g d r. on_db (append_audit t a x g d) s1 = (s', r)"
    using run n by (auto simp: commit_inner_def Let_def split: prod.splits sum.splits) (metis prod.collapse)
  have same: "find_item j (eg_db s') = find_item j (eg_db s1) \<and> db_wop (eg_db s') = db_wop (eg_db s1)" for j
    using s' append_audit_same by (metis on_db_parts)
  from commit_loop_db [OF l] same s0 show ?thesis by auto
qed

text \<open>Only an item that has no JSON text can abort a commit.\<close>

definition encodes_all :: "payload_codec \<Rightarrow> bool" where
  "encodes_all c = (\<forall>x. \<exists>p. pc_enc c x = Inr p)"

lemma commit_turn_total: "encodes_all (ev_codec ev) \<Longrightarrow> \<exists>r. snd (commit_turn ev sess ix now t s) = Inr r"
proof -
  assume "encodes_all (ev_codec ev)"
  then have "\<And>x e. pc_enc (ev_codec ev) x \<noteq> Inl e" by (metis encodes_all_def sum.distinct(1))
  then show ?thesis by (auto simp: commit_turn_def Let_def split: prod.split sum.split)
qed

lemma commit_loop_total:
  "encodes_all (ev_codec ev) \<Longrightarrow> \<exists>out'. snd (commit_loop ev sess ix now ts out s) = Inr out'"
proof (induction ts arbitrary: out s)
  case (Cons t ts)
  obtain s1 r where "commit_turn ev sess ix now t s = (s1, Inr r)"
    using commit_turn_total [OF Cons.prems] by (metis prod.collapse)
  with Cons.IH [OF Cons.prems] show ?case by (cases r) simp_all
qed simp

lemma commit_total: "encodes_all (ev_codec ev) \<Longrightarrow> \<exists>s' out. commit_inner ev sess ix s = (s', Inr out)"
proof -
  assume e: "encodes_all (ev_codec ev)"
  obtain s0 now where n: "now_ms ev s = (s0, now)" by fastforce
  obtain s1 out where "commit_loop ev sess ix now (ix_turns ix) \<lparr> co_ids = [], co_failed = [] \<rparr> s0 = (s1, Inr out)"
    using commit_loop_total [OF e] by (metis prod.collapse)
  with n show ?thesis by (simp add: commit_inner_def Let_def)
qed

definition id_codec :: payload_codec where
  "id_codec = no_codec\<lparr> pc_enc := (\<lambda>(m, v). Inr (mi_id m)) \<rparr>"

definition demo_env :: engine_env where
  "demo_env =
     \<lparr> ev_embed = (\<lambda>n x. if n = 4 then Inl (EEmbed ''429'') else Inr [0, 0]), ev_extract = None, ev_chat = None,
       ev_ulid = (\<lambda>n. show_nat n), ev_now = (\<lambda>n. 1000 + n), ev_redact = None,
       ev_knn = (\<lambda>ps q k. []), ev_tenant = [], ev_codec = id_codec \<rparr>"

definition demo_engine :: engine where
  "demo_engine = \<lparr> eg_db = empty_db [], eg_store = empty_store, eg_stale = False, eg_synced = 0, eg_tick = 0 \<rparr>"

definition demo_ix :: interaction where
  "demo_ix = \<lparr> ix_id = ''ix'', ix_session = ''s'', ix_tenant = ''t1'', ix_ns = [], ix_ns_key = [],
     ix_turns = [\<lparr> tu_idx = 0, tu_user = ''hi'', tu_assistant = ''yo'', tu_tools = [] \<rparr>,
                 \<lparr> tu_idx = 1, tu_user = ''a'', tu_assistant = ''b'', tu_tools = [] \<rparr>],
     ix_timestamp = 0, ix_metadata = JNull \<rparr>"

lemma demo_encodes: "encodes_all (ev_codec demo_env)"
  by (auto simp: encodes_all_def demo_env_def id_codec_def)

lemma commit_accounts_witness:
  "case commit_inner demo_env ''s'' demo_ix demo_engine of
     (s', Inr out) \<Rightarrow> length (co_ids out) + length (co_failed out) = 2
   | (s', Inl e) \<Rightarrow> False"
proof -
  obtain s' out where r: "commit_inner demo_env ''s'' demo_ix demo_engine = (s', Inr out)"
    using commit_total [OF demo_encodes] by blast
  from commit_accounts_for_turns [OF r] r show ?thesis by (simp add: demo_ix_def)
qed

end
