(* ===== verification/Extract.thy ===== *)
theory Extract
  imports Redact Commit
begin

text \<open>
  Entity extraction by a language model (\<open>fm-engine/entity_extract.rs\<close>): the prompt, the chat
  request, the tolerant reading of the reply and the entity nodes made from it.

  The HTTP client, the JSON reader of the entity list and Unicode's notion of a letter are
  parameters (\<open>extract_env\<close>), as are the two fixed Chinese texts of the prompt.
\<close>

section \<open>HTTP services\<close>

record http_request =
  hq_url :: string
  hq_bearer :: "string option"
  hq_body :: json

text \<open>A request may fail; otherwise it has a status and a body, which may not be JSON.\<close>

datatype http_reply = HttpFailed | HttpReply nat "json option"

definition is_success :: "nat \<Rightarrow> bool" where
  "is_success status = (200 \<le> status \<and> status < 300)"

text \<open>Indexing a JSON value gives null where there is nothing.\<close>

definition jindex :: "json \<Rightarrow> string \<Rightarrow> json" where
  "jindex j k = (case jget j k of Some x \<Rightarrow> x | None \<Rightarrow> JNull)"

definition jindex_nth :: "json \<Rightarrow> nat \<Rightarrow> json" where
  "jindex_nth j n = (case j of JArr xs \<Rightarrow> if n < length xs then xs ! n else JNull | _ \<Rightarrow> JNull)"

section \<open>Entity ids\<close>

definition hex_char :: "nat \<Rightarrow> char" where
  "hex_char n = char_of (if n < 10 then 48 + n else 87 + n)"

fun hex_digits :: "nat \<Rightarrow> nat \<Rightarrow> string" where
  "hex_digits 0 n = []"
| "hex_digits (Suc k) n = hex_digits k (n div 16) @ [hex_char (n mod 16)]"

definition hex16 :: "64 word \<Rightarrow> string" where
  "hex16 w = hex_digits 16 (unat w)"

definition ascii_alnum :: "char \<Rightarrow> bool" where
  "ascii_alnum c =
     (let n = (of_char c :: nat)
      in (48 \<le> n \<and> n \<le> 57) \<or> (65 \<le> n \<and> n \<le> 90) \<or> (97 \<le> n \<and> n \<le> 122))"

definition is_alphanumeric :: "(string \<Rightarrow> bool) \<Rightarrow> string \<Rightarrow> bool" where
  "is_alphanumeric uni ch =
     (case ch of [c] \<Rightarrow> if (of_char c :: nat) < 128 then ascii_alnum c else uni ch | _ \<Rightarrow> uni ch)"

definition slug :: "(string \<Rightarrow> bool) \<Rightarrow> string \<Rightarrow> string" where
  "slug uni s =
     trim_with (\<lambda>c. c = CHR ''-'')
       (concat (map (\<lambda>ch. if is_alphanumeric uni ch then to_ascii_lowercase ch else ''-'') (utf8_chars s)))"

definition entity_id :: "(string \<Rightarrow> bool) \<Rightarrow> string \<Rightarrow> string" where
  "entity_id uni name = ''ent-'' @ slug uni name @ ''-'' @ hex16 (fnv1a_64 name)"

section \<open>Reading the reply\<close>

record llm_entity =
  le_name :: string
  le_type :: string
  le_aliases :: "string list"

record extract_result =
  xr_entities :: "entity_node list"
  xr_success :: bool

record extract_env =
  xe_post :: "nat \<Rightarrow> http_request \<Rightarrow> http_reply"
  xe_rd_entities :: "string \<Rightarrow> llm_entity list option"
  xe_alphanumeric :: "string \<Rightarrow> bool"
  xe_system :: string
  xe_rules :: string

text \<open>The text from the first \<open>[\<close> to the last \<open>]\<close>, when there is one.\<close>

definition find_char :: "char \<Rightarrow> string \<Rightarrow> nat option" where
  "find_char c s = (if c \<in> set s then Some (length (takeWhile (\<lambda>x. x \<noteq> c) s)) else None)"

definition rfind_char :: "char \<Rightarrow> string \<Rightarrow> nat option" where
  "rfind_char c s = map_option (\<lambda>n. length s - 1 - n) (find_char c (rev s))"

definition strip_fence :: "string \<Rightarrow> string" where
  "strip_fence s =
     (case strip_prefix ''```json'' s of
        Some r \<Rightarrow> r
      | None \<Rightarrow> (case strip_prefix ''```'' s of Some r \<Rightarrow> r | None \<Rightarrow> s))"

definition parse_entities_json :: "(string \<Rightarrow> llm_entity list option) \<Rightarrow> string \<Rightarrow> llm_entity list option" where
  "parse_entities_json rd raw =
     (let cleaned = trim (strip_fence (trim raw))
      in case find_char (CHR ''['') cleaned of
           None \<Rightarrow> None
         | Some start \<Rightarrow>
             (case rfind_char (CHR '']'') cleaned of
                None \<Rightarrow> None
              | Some fin \<Rightarrow>
                  if fin \<le> start then None else rd (drop start (take (fin + 1) cleaned))))"

fun to_entity_nodes :: "(string \<Rightarrow> bool) \<Rightarrow> llm_entity list \<Rightarrow> entity_node list" where
  "to_entity_nodes uni [] = []"
| "to_entity_nodes uni (e # es) =
     (let name = trim (le_name e)
      in if name = [] then to_entity_nodes uni es
         else case entity_type_parse (le_type e) of
                None \<Rightarrow> to_entity_nodes uni es
              | Some ty \<Rightarrow>
                  \<lparr> en_id = entity_id uni name, en_name = name,
                    en_aliases = filter (\<lambda>a. a \<noteq> []) (map trim (le_aliases e)), en_type = ty \<rparr>
                  # to_entity_nodes uni es)"

definition parse_extraction :: "extract_env \<Rightarrow> string \<Rightarrow> extract_result" where
  "parse_extraction xe raw =
     (case parse_entities_json (xe_rd_entities xe) raw of
        Some es \<Rightarrow> \<lparr> xr_entities = to_entity_nodes (xe_alphanumeric xe) es, xr_success = True \<rparr>
      | None \<Rightarrow> \<lparr> xr_entities = [], xr_success = False \<rparr>)"

section \<open>The chat requests\<close>

record extract_config =
  xc_url :: string
  xc_api_key :: string
  xc_model :: string
  xc_timeout :: nat

definition extract_config_default :: extract_config where
  "extract_config_default =
     \<lparr> xc_url = ''http://127.0.0.1:11434/v1'', xc_api_key = [], xc_model = ''Qwen3-1.7B'', xc_timeout = 30 \<rparr>"

definition newline :: string where "newline = [char_of (10 :: nat)]"

definition escape_data :: "string \<Rightarrow> string" where
  "escape_data s =
     concat (map (\<lambda>c. if c = CHR ''>'' then ''&gt;'' else [c])
       (concat (map (\<lambda>c. if c = CHR ''<'' then ''&lt;'' else [c]) s)))"

definition build_prompt :: "string \<Rightarrow> string \<Rightarrow> string" where
  "build_prompt rules turn =
     rules @ ''<data>'' @ newline @ escape_data turn @ newline @ ''</data>''"

definition chat_url :: "extract_config \<Rightarrow> string" where
  "chat_url c = rev (dropWhile (\<lambda>x. x = CHR ''/'') (rev (xc_url c))) @ ''/chat/completions''"

definition chat_request :: "extract_config \<Rightarrow> string \<Rightarrow> string \<Rightarrow> http_request" where
  "chat_request c sys user =
     \<lparr> hq_url = chat_url c,
       hq_bearer = (if xc_api_key c = [] then None else Some (xc_api_key c)),
       hq_body = JObj
         [(''model'', JStr (xc_model c)),
          (''messages'', JArr
            [JObj [(''role'', JStr ''system''), (''content'', JStr sys)],
             JObj [(''role'', JStr ''user''), (''content'', JStr user)]]),
          (''temperature'', JFloat 0)] \<rparr>"

definition chat_content :: "json \<Rightarrow> string" where
  "chat_content v =
     (case jas_str (jindex (jindex (jindex_nth (jindex v ''choices'') 0) ''message'') ''content'') of
        Some s \<Rightarrow> s | None \<Rightarrow> [])"

definition chat_completion :: "extract_env \<Rightarrow> extract_config \<Rightarrow> nat \<Rightarrow> string \<Rightarrow> string \<Rightarrow> string option" where
  "chat_completion xe c n sys user =
     (case xe_post xe n (chat_request c sys user) of
        HttpFailed \<Rightarrow> None
      | HttpReply status body \<Rightarrow>
          if \<not> is_success status then None else map_option chat_content body)"

definition mlx_extract :: "extract_env \<Rightarrow> extract_config \<Rightarrow> nat \<Rightarrow> string \<Rightarrow> extract_result" where
  "mlx_extract xe c n turn =
     (case xe_post xe n (chat_request c (xe_system xe) (build_prompt (xe_rules xe) turn)) of
        HttpFailed \<Rightarrow> \<lparr> xr_entities = [], xr_success = False \<rparr>
      | HttpReply status body \<Rightarrow>
          if \<not> is_success status then \<lparr> xr_entities = [], xr_success = False \<rparr>
          else case body of
                 None \<Rightarrow> \<lparr> xr_entities = [], xr_success = False \<rparr>
               | Some v \<Rightarrow> parse_extraction xe (chat_content v))"

text \<open>The extractor as the engine calls it.\<close>

definition mlx_extractor :: "extract_env \<Rightarrow> extract_config \<Rightarrow> nat \<Rightarrow> string \<Rightarrow> entity_node list \<times> bool" where
  "mlx_extractor xe c n turn = (let r = mlx_extract xe c n turn in (xr_entities r, xr_success r))"

definition redact_for_log :: "redactor \<Rightarrow> string \<Rightarrow> string" where
  "redact_for_log r s = concat (take 128 (utf8_chars (redact_text r s)))"

section \<open>The reply is found in the text around it\<close>

lemma dropWhile_stops: "\<not> p x \<Longrightarrow> dropWhile p (a @ x # r) = dropWhile p a @ x # r"
  by (induction a) auto

lemma trim_with_core:
  assumes "\<not> p x" and "\<not> p y"
  shows "trim_with p (a @ x # b @ y # c) = dropWhile p a @ x # b @ y # rev (dropWhile p (rev c))"
proof -
  have "trim_with p (a @ x # b @ y # c)
          = rev (dropWhile p (rev c @ y # (rev b @ x # rev (dropWhile p a))))"
    using assms(1) by (simp add: trim_with_def dropWhile_stops)
  then show ?thesis using dropWhile_stops [of p y, OF assms(2)] by simp
qed

lemma strip_prefix_before:
  assumes "x \<notin> set p" and "strip_prefix p (a @ x # r) = Some q"
  obtains a' where "q = a' @ x # r" "set a' \<subseteq> set a"
proof -
  from assms(2) have eq: "a @ x # r = p @ q" by (simp add: strip_prefix_Some)
  have "\<exists>a'. q = a' @ x # r \<and> set a' \<subseteq> set a"
    using assms(1) eq by (auto simp: append_eq_append_conv2 Cons_eq_append_conv)
  then show thesis using that by blast
qed

lemma strip_fence_before:
  assumes "x \<notin> set ''```json''"
  shows "\<exists>a'. strip_fence (a @ x # r) = a' @ x # r \<and> set a' \<subseteq> set a"
proof -
  have p: "x \<notin> set ''```json''" "x \<notin> set ''```''" using assms by auto
  show ?thesis
    unfolding strip_fence_def
    by (auto split: option.splits elim: strip_prefix_before [OF p(1)] strip_prefix_before [OF p(2)])
qed

lemma takeWhile_stops: "c \<notin> set a \<Longrightarrow> takeWhile (\<lambda>x. x \<noteq> c) (a @ c # r) = a"
  by (induction a) auto

lemma find_char_first: "c \<notin> set a \<Longrightarrow> find_char c (a @ c # r) = Some (length a)"
  by (simp add: find_char_def takeWhile_stops)

lemma rfind_char_last: "c \<notin> set r \<Longrightarrow> rfind_char c (a @ c # r) = Some (length a)"
  using find_char_first [of c "rev r" "rev a"] by (simp add: rfind_char_def)

lemma parse_entities_in_context:
  assumes "CHR ''['' \<notin> set pre" and "CHR '']'' \<notin> set post"
  shows "parse_entities_json rd (pre @ ''['' @ body @ '']'' @ post) = rd (''['' @ body @ '']'')"
proof -
  let ?core = "\<lambda>a c. a @ CHR ''['' # body @ CHR '']'' # c"
  have nosp: "\<not> is_space (CHR ''['')" "\<not> is_space (CHR '']'')" by (simp_all add: is_space_def)
  note trimmed = trim_with_core [of is_space, OF nosp, folded trim_def]
  obtain a' where a': "strip_fence (?core (dropWhile is_space pre) (rev (dropWhile is_space (rev post))))
        = ?core a' (rev (dropWhile is_space (rev post)))" "set a' \<subseteq> set (dropWhile is_space pre)"
    using strip_fence_before [of "CHR ''[''" "dropWhile is_space pre"
        "body @ CHR '']'' # rev (dropWhile is_space (rev post))"] by auto
  define a2 c2 where "a2 = dropWhile is_space a'"
    and "c2 = rev (dropWhile is_space (dropWhile is_space (rev post)))"
  have a2: "CHR ''['' \<notin> set a2" and c2: "CHR '']'' \<notin> set c2"
    using assms a'(2) by (auto simp: a2_def c2_def dest!: set_dropWhileD)
  have cleaned: "trim (strip_fence (trim (pre @ ''['' @ body @ '']'' @ post))) = ?core a2 c2"
    using a'(1) by (simp add: trimmed a2_def c2_def)
  have fin: "rfind_char (CHR '']'') (?core a2 c2) = Some (length a2 + 1 + length body)"
    using rfind_char_last [OF c2, of "a2 @ CHR ''['' # body"] by simp
  show ?thesis
    unfolding parse_entities_json_def cleaned Let_def fin
    by (simp add: find_char_first [OF a2])
qed

text \<open>
  The reply of the language model is read tolerantly: whatever stands before the first
  bracket (spaces, a markdown fence, an explanation) and after the last one, the entity list
  handed to the JSON reader is the bracketed text.\<close>
lemma entity_reply_in_context:
  assumes "CHR ''['' \<notin> set pre" and "CHR '']'' \<notin> set post"
  shows "parse_entities_json rd (pre @ ''['' @ body @ '']'' @ post) = rd (''['' @ body @ '']'')"
  using assms by (rule parse_entities_in_context)

lemma entity_reply_witness:
  "parse_entities_json (\<lambda>s. Some [\<lparr> le_name = s, le_type = [], le_aliases = [] \<rparr>]) ''``` Here: [x, [y]] ok```''
     = Some [\<lparr> le_name = ''[x, [y]]'', le_type = [], le_aliases = [] \<rparr>]"
  using entity_reply_in_context [of "''``` Here: ''" "'' ok```''" _ "''x, [y]''"] by simp

section \<open>The prompt keeps the conversation inside its tags\<close>

lemma escape_data_clean: "CHR ''<'' \<notin> set (escape_data s)" "CHR ''>'' \<notin> set (escape_data s)"
  by (auto simp: escape_data_def split: if_splits)

lemma newline_clean: "CHR ''<'' \<notin> set newline"
  by code_simp

text \<open>
  A turn cannot close the data section of the extraction prompt: whatever the conversation
  says, the first closing tag after the opening one is the end of the prompt.\<close>
lemma prompt_data_not_closed_early:
  assumes "build_prompt rules turn = rules @ ''<data>'' @ newline @ x @ ''</data>'' @ y"
  shows "y = []"
proof -
  let ?is = "\<lambda>c. c = CHR ''<''"
  have eq: "escape_data turn @ newline @ ''</data>'' = x @ ''</data>'' @ y"
    using assms by (simp add: build_prompt_def)
  have none: "filter ?is (escape_data turn @ newline) = []"
    using escape_data_clean(1) newline_clean by (auto simp: filter_empty_conv)
  have "filter ?is (escape_data turn @ newline @ ''</data>'') = ''<''" using none by simp
  then have "filter ?is x @ ''<'' @ filter ?is y = ''<''" using eq by simp
  then have xy: "filter ?is x = []" by (cases "filter ?is x") auto
  have "takeWhile (\<lambda>c. \<not> ?is c) ((escape_data turn @ newline) @ ''</data>'') = escape_data turn @ newline"
    using none by (subst takeWhile_append2) (auto simp: filter_empty_conv)
  moreover have "takeWhile (\<lambda>c. \<not> ?is c) (x @ ''</data>'' @ y) = x"
    using xy by (subst takeWhile_append2) (auto simp: filter_empty_conv)
  ultimately have "x = escape_data turn @ newline" using eq by simp
  with eq show ?thesis by simp
qed

lemma prompt_data_witness:
  "build_prompt ''R'' ''a</data>b'' = ''R'' @ ''<data>'' @ newline @ (''a&lt;/data&gt;b'' @ newline) @ ''</data>'' @ []
   \<and> ([] :: string) = []"
proof
  show eq: "build_prompt ''R'' ''a</data>b''
      = ''R'' @ ''<data>'' @ newline @ (''a&lt;/data&gt;b'' @ newline) @ ''</data>'' @ []"
    by (simp add: build_prompt_def escape_data_def)
  from eq show "([] :: string) = []" by (rule prompt_data_not_closed_early)
qed

section \<open>Ids and types of extracted entities\<close>

lemma hex_arith:
  "(if m < 10 then 48 + m else 87 + m) = (if n < 10 then 48 + n else 87 + n) \<Longrightarrow> m < 16 \<Longrightarrow> n < 16 \<Longrightarrow> m = (n :: nat)"
  by (auto split: if_splits)

lemma hex_char_inj: "m < 16 \<Longrightarrow> n < 16 \<Longrightarrow> hex_char m = hex_char n \<Longrightarrow> m = n"
proof -
  assume "m < 16" "n < 16" "hex_char m = hex_char n"
  moreover have "of_char (hex_char k) = (if k < 10 then 48 + k else 87 + k)" if "k < 16" for k
    using that by (simp add: hex_char_def take_bit_eq_mod)
  ultimately show "m = n" by (metis hex_arith)
qed

lemma length_hex_digits [simp]: "length (hex_digits k n) = k"
  by (induction k n rule: hex_digits.induct) simp_all

lemma hex_digits_inj: "hex_digits k m = hex_digits k n \<Longrightarrow> m < 16 ^ k \<Longrightarrow> n < 16 ^ k \<Longrightarrow> m = n"
proof (induction k arbitrary: m n)
  case (Suc k)
  then have "m div 16 = n div 16" by (simp add: less_mult_imp_div_less mult.commute)
  moreover have "m mod 16 = n mod 16" using Suc(2) by (auto intro: hex_char_inj)
  ultimately show ?case by (metis div_mult_mod_eq)
qed simp

lemma hex16_inj: "hex16 a = hex16 b \<Longrightarrow> a = b"
proof -
  assume "hex16 a = hex16 b"
  moreover have "unat x < 16 ^ 16" for x :: "64 word" using unsigned_less [of x, where 'a = nat] by simp
  ultimately show "a = b" unfolding hex16_def using hex_digits_inj word_unat_eq_iff by blast
qed

lemma entity_id_hash: "entity_id uni a = entity_id uni b \<Longrightarrow> fnv1a_64 a = fnv1a_64 b"
  by (auto simp: entity_id_def hex16_def intro: hex16_inj)

lemma to_entity_nodes_sound:
  "nd \<in> set (to_entity_nodes uni es) \<Longrightarrow>
     \<exists>e \<in> set es. en_name nd = trim (le_name e) \<and> en_name nd \<noteq> [] \<and> en_id nd = entity_id uni (en_name nd)
       \<and> entity_type_parse (le_type e) = Some (en_type nd)"
  by (induction es) (auto simp: Let_def split: if_splits option.splits)

text \<open>
  Two extracted entities have the same id only if their names have the same 64-bit hash, in
  whatever replies they were found; the type of an entity has no part in its id.\<close>
lemma entity_ids_follow_names:
  assumes "a \<in> set (xr_entities (mlx_extract xe c m s))" and "b \<in> set (xr_entities (mlx_extract xe c n t))"
    and "en_id a = en_id b"
  shows "fnv1a_64 (en_name a) = fnv1a_64 (en_name b)"
proof -
  have id: "en_id nd = entity_id (xe_alphanumeric xe) (en_name nd)"
    if "nd \<in> set (xr_entities (mlx_extract xe c k u))" for nd k u
    using that
    by (auto simp: mlx_extract_def parse_extraction_def dest: to_entity_nodes_sound
        split: http_reply.splits if_splits option.splits)
  show ?thesis using id [OF assms(1)] id [OF assms(2)] assms(3) entity_id_hash by metis
qed

definition go_env :: extract_env where
  "go_env =
     \<lparr> xe_post = (\<lambda>n q. HttpReply 200 (Some (JObj [(''choices'', JArr
          [JObj [(''message'', JObj [(''content'', JStr (if n = 0 then ''[0]'' else ''[1]''))])]])]))),
       xe_rd_entities = (\<lambda>s. Some [\<lparr> le_name = ''Go'',
          le_type = (if s = ''[0]'' then ''Tech'' else ''Project''), le_aliases = [] \<rparr>]),
       xe_alphanumeric = (\<lambda>_. False), xe_system = [], xe_rules = [] \<rparr>"

definition go_node :: "entity_type \<Rightarrow> entity_node" where
  "go_node t = \<lparr> en_id = entity_id (\<lambda>_. False) ''Go'', en_name = ''Go'', en_aliases = [], en_type = t \<rparr>"

lemma trim_plain: "s = [] \<or> (\<not> is_space (hd s) \<and> \<not> is_space (last s)) \<Longrightarrow> trim s = s"
proof -
  assume "s = [] \<or> (\<not> is_space (hd s) \<and> \<not> is_space (last s))"
  then have "dropWhile is_space s = s" "dropWhile is_space (rev s) = rev s"
    by (auto simp: dropWhile_eq_self_iff hd_rev)
  then show "trim s = s" by (simp add: trim_def trim_with_def)
qed

lemma go_extract:
  "xr_entities (mlx_extract go_env extract_config_default n ''x'')
     = [go_node (if n = 0 then Tech else Project)]"
proof -
  have "parse_entities_json rd ([] @ ''['' @ b @ '']'' @ []) = rd (''['' @ b @ '']'')" for rd b
    by (rule parse_entities_in_context) simp_all
  from this [of _ "''0''"] this [of _ "''1''"] show ?thesis
    by (simp add: mlx_extract_def go_env_def go_node_def is_success_def chat_content_def jindex_def
        jindex_nth_def parse_extraction_def Let_def trim_plain is_space_def entity_type_parse_def)
qed

lemma entity_ids_witness:
  "en_id (go_node Tech) = en_id (go_node Project) \<and> go_node Tech \<noteq> go_node Project
   \<and> fnv1a_64 (en_name (go_node Tech)) = fnv1a_64 (en_name (go_node Project))"
  using entity_ids_follow_names [of "go_node Tech" go_env extract_config_default 0 "''x''" "go_node Project" 1 "''x''"]
  by (simp add: go_extract) (simp add: go_node_def)

end
