(* ===== verification/Embedding.thy ===== *)
theory Embedding
  imports Memo Extract
begin

text \<open>
  The embedders of \<open>fm-embed\<close>: the cache of query vectors (\<open>cache.rs\<close>), the deterministic
  embedder for tests (\<open>stub.rs\<close>), the configuration (\<open>config.rs\<close>) and the client of the
  embedding model (\<open>mlx.rs\<close>).

  The clock is a list of readings in milliseconds, one for each time the code reads it; the
  order in which a hash map is walked is a parameter \<open>ord\<close>. The semaphore that bounds the
  concurrent requests is not modelled: the model runs one request at a time.
\<close>

section \<open>The cache\<close>

record entry =
  ce_vec :: vec
  ce_born :: nat
  ce_used :: nat

record lru_cache =
  lc_map :: "(vid \<times> entry) list"
  lc_capacity :: nat
  lc_ttl :: nat

definition lru_new :: "nat \<Rightarrow> nat \<Rightarrow> lru_cache" where
  "lru_new capacity ttl_secs = \<lparr> lc_map = [], lc_capacity = max capacity 1, lc_ttl = 1000 * ttl_secs \<rparr>"

definition remove_key :: "vid \<Rightarrow> (vid \<times> entry) list \<Rightarrow> (vid \<times> entry) list" where
  "remove_key k m = filter (\<lambda>p. fst p \<noteq> k) m"

definition cache_get :: "nat \<Rightarrow> vid \<Rightarrow> lru_cache \<Rightarrow> lru_cache \<times> vec option" where
  "cache_get now key c =
     (case map_of (lc_map c) key of
        None \<Rightarrow> (c, None)
      | Some e \<Rightarrow>
          if now - ce_born e > lc_ttl c then (c\<lparr> lc_map := remove_key key (lc_map c) \<rparr>, None)
          else (c\<lparr> lc_map := map (\<lambda>(k, x). if k = key then (k, x\<lparr> ce_used := now \<rparr>) else (k, x)) (lc_map c) \<rparr>,
                Some (ce_vec e)))"

text \<open>The first of the entries with the smallest time of use.\<close>

fun least_used :: "(vid \<times> entry) list \<Rightarrow> vid option" where
  "least_used [] = None"
| "least_used ((k, e) # es) = Some (fst (foldl (\<lambda>b x. if ce_used (snd x) < ce_used (snd b) then x else b) (k, e) es))"

definition cache_put ::
  "((vid \<times> entry) list \<Rightarrow> (vid \<times> entry) list) \<Rightarrow> nat \<Rightarrow> vid \<Rightarrow> vec \<Rightarrow> lru_cache \<Rightarrow> lru_cache" where
  "cache_put ord now key v c =
     (let m = lc_map c;
          m1 = (if length m \<ge> lc_capacity c \<and> key \<notin> fst ` set m
                then (case least_used (ord m) of Some k \<Rightarrow> remove_key k m | None \<Rightarrow> m) else m)
      in c\<lparr> lc_map := remove_key key m1 @ [(key, \<lparr> ce_vec = v, ce_born = now, ce_used = now \<rparr>)] \<rparr>)"

section \<open>The stub embedder\<close>

text \<open>\<open>f32\<close> is \<open>real\<close> here. The text is cut into windows of four bytes.\<close>

function stub_buckets :: "nat \<Rightarrow> string \<Rightarrow> nat \<Rightarrow> real list \<Rightarrow> real list" where
  "stub_buckets n bytes i v =
     (if i < length bytes then
        let fin = min (i + 4) (length bytes);
            bucket = unat (fnv1a_64 (take (fin - i) (drop i bytes))) mod n;
            seed = fnv1a_64 [bytes ! i, char_of (fin mod 256), char_of (fin div 256 mod 256)];
            val = real (unat seed mod 1000) / 100 - 5
        in stub_buckets n bytes fin (v[bucket := v ! bucket + val])
      else v)"
  by pat_completeness auto
termination
  by (relation "measure (\<lambda>(n, bytes, i, v). length bytes - i)") auto

declare stub_buckets.simps [simp del]

definition norm2 :: "real list \<Rightarrow> real" where
  "norm2 v = sqrt (sum_list (map (\<lambda>x. x * x) v))"

definition stub_embed :: "string \<Rightarrow> nat \<Rightarrow> real list" where
  "stub_embed x n =
     (let v = stub_buckets n x 0 (replicate n 0); m = norm2 v
      in if m > 0 then map (\<lambda>y. y / m) v else v[0 := 1])"

lemma length_stub_buckets [simp]: "length (stub_buckets n bytes i v) = length v"
  by (induction n bytes i v rule: stub_buckets.induct) (subst stub_buckets.simps, simp add: Let_def)

lemma sum_squares_nonneg: "0 \<le> sum_list (map (\<lambda>x. x * x) (v :: real list))"
  by (rule sum_list_nonneg) auto

lemma sum_squares_zero: "sum_list (map (\<lambda>x. x * x) (v :: real list)) = 0 \<Longrightarrow> v = replicate (length v) 0"
proof (induction v)
  case (Cons x v)
  then have "x * x = 0 \<and> sum_list (map (\<lambda>x. x * x) v) = 0"
    using sum_squares_nonneg [of v] zero_le_square [of x] by (simp add: add_nonneg_eq_0_iff)
  with Cons show ?case by simp
qed simp

text \<open>Every text has a stub vector of the asked length and of norm one.\<close>

lemma stub_embed_unit:
  assumes "0 < n"
  shows "length (stub_embed x n) = n \<and> norm2 (stub_embed x n) = 1"
proof -
  define v where "v = stub_buckets n x 0 (replicate n 0)"
  have len: "length v = n" by (simp add: v_def)
  show ?thesis
  proof (cases "norm2 v > 0")
    case True
    have "sum_list (map (\<lambda>y. (y / m) * (y / m)) v) = sum_list (map (\<lambda>y. y * y) v) / (m * m)" for m
      by (induction v) (simp_all add: add_divide_distrib)
    from this [of "norm2 v"]
    have "sum_list (map (\<lambda>y. (y / norm2 v) * (y / norm2 v)) v) = (norm2 v * norm2 v) / (norm2 v * norm2 v)"
      using sum_squares_nonneg [of v] by (simp add: norm2_def)
    then have "sum_list (map (\<lambda>y. (y / norm2 v) * (y / norm2 v)) v) = 1"
      using True by (metis divide_self_if less_irrefl mult_eq_0_iff)
    then show ?thesis
      using True len by (simp add: stub_embed_def v_def [symmetric] Let_def norm2_def comp_def)
  next
    case False
    then have v: "v = replicate n 0"
      using sum_squares_zero [of v] sum_squares_nonneg [of v] len by (simp add: norm2_def)
    have "stub_embed x n = v[0 := 1]" using False by (simp add: stub_embed_def v_def [symmetric] Let_def)
    also have "\<dots> = 1 # replicate (n - 1) 0" using assms unfolding v by (cases n) simp_all
    finally show ?thesis using assms by (simp add: norm2_def sum_list_replicate)
  qed
qed

section \<open>Configuration\<close>

record embed_config =
  ec_url :: string
  ec_model :: string
  ec_api_key :: string
  ec_dimension :: nat
  ec_concurrency :: nat
  ec_capacity :: nat
  ec_ttl_secs :: nat
  ec_timeout :: nat

definition embed_config_default :: embed_config where
  "embed_config_default =
     \<lparr> ec_url = ''http://127.0.0.1:11434/v1'', ec_model = ''BAAI/bge-m3'', ec_api_key = [],
       ec_dimension = 1024, ec_concurrency = 2, ec_capacity = 1024, ec_ttl_secs = 3600, ec_timeout = 30 \<rparr>"

text \<open>The environment variables, as \<open>std::env::var\<close> reads them.\<close>

type_synonym os_env = "string \<Rightarrow> string option"

definition overlay_env :: "os_env \<Rightarrow> embed_config \<Rightarrow> embed_config" where
  "overlay_env env c =
     (let c1 = (case env ''FUSION_MLX_URL'' of Some v \<Rightarrow> c\<lparr> ec_url := v \<rparr> | None \<Rightarrow> c);
          c2 = (case env ''FUSION_MEMORY_EMBED_MODEL'' of Some v \<Rightarrow> c1\<lparr> ec_model := v \<rparr> | None \<Rightarrow> c1);
          c3 = (case env ''FUSION_MEMORY_MLX_API_KEY'' of Some v \<Rightarrow> c2\<lparr> ec_api_key := v \<rparr> | None \<Rightarrow> c2)
      in case env ''FUSION_MEMORY_MLX_CONCURRENCY'' of
           None \<Rightarrow> c3
         | Some v \<Rightarrow>
             (case parse_unsigned 64 v of
                Some n \<Rightarrow> if n > 0 then c3\<lparr> ec_concurrency := n \<rparr> else c3
              | None \<Rightarrow> c3))"

definition embed_from_env :: "os_env \<Rightarrow> embed_config" where
  "embed_from_env env = overlay_env env embed_config_default"

definition embeddings_url :: "embed_config \<Rightarrow> string" where
  "embeddings_url c = rev (dropWhile (\<lambda>x. x = CHR ''/'') (rev (ec_url c))) @ ''/embeddings''"

section \<open>The client of the model\<close>

datatype embed_error =
    MHttp string
  | MApi string
  | MParse string
  | MDimension nat nat
  | MUnavailable string
  | MSerde string

fun embed_error_display :: "embed_error \<Rightarrow> string" where
  "embed_error_display (MHttp s) = ''mlx http error: '' @ s"
| "embed_error_display (MApi s) = ''mlx api error: '' @ s"
| "embed_error_display (MParse s) = ''mlx response parse error: '' @ s"
| "embed_error_display (MDimension a b) =
     ''embedding dimension mismatch: expected '' @ show_nat a @ '', got '' @ show_nat b"
| "embed_error_display (MUnavailable s) = ''embedding unavailable: '' @ s"
| "embed_error_display (MSerde s) = ''serde error: '' @ s"

definition embed_to_memory :: "embed_error \<Rightarrow> memory_error" where
  "embed_to_memory e = EStore (embed_error_display e)"

text \<open>
  The reply of the model: none (with the error's text), or a status with its text, the body, and
  the body read as a list of vectors.\<close>

datatype embed_reply = NoReply string | Reply nat string string "string + vec list"

record mlx_env =
  mx_post :: "nat \<Rightarrow> http_request \<Rightarrow> embed_reply"
  mx_now :: "nat \<Rightarrow> nat"
  mx_ord :: "(vid \<times> entry) list \<Rightarrow> (vid \<times> entry) list"

record mlx_embedder =
  mb_cache :: lru_cache
  mb_tick :: nat

definition mlx_new :: "embed_config \<Rightarrow> mlx_embedder" where
  "mlx_new c = \<lparr> mb_cache = lru_new (ec_capacity c) (ec_ttl_secs c), mb_tick = 0 \<rparr>"

definition embed_request :: "embed_config \<Rightarrow> string \<Rightarrow> http_request" where
  "embed_request c x =
     \<lparr> hq_url = embeddings_url c,
       hq_bearer = (if ec_api_key c \<noteq> [] then Some (ec_api_key c) else None),
       hq_body = JObj [(''model'', JStr (ec_model c)), (''input'', JStr x)] \<rparr>"

definition call_mlx :: "mlx_env \<Rightarrow> embed_config \<Rightarrow> nat \<Rightarrow> string \<Rightarrow> embed_error + vec" where
  "call_mlx mx c n x =
     (case mx_post mx n (embed_request c x) of
        NoReply e \<Rightarrow> Inl (MHttp (''request: '' @ e))
      | Reply status shown body parsed \<Rightarrow>
          if \<not> is_success status then Inl (MApi (''status '' @ shown @ '': '' @ body))
          else case parsed of
                 Inl e \<Rightarrow> Inl (MParse (''response json: '' @ e))
               | Inr [] \<Rightarrow> Inl (MParse ''empty data array'')
               | Inr (v # _) \<Rightarrow>
                   if length v \<noteq> ec_dimension c then Inl (MDimension (ec_dimension c) (length v))
                   else Inr v)"

text \<open>The clock is read by the lookup, then the model is asked, then the clock is read again.\<close>

definition mlx_embed ::
  "mlx_env \<Rightarrow> embed_config \<Rightarrow> string \<Rightarrow> mlx_embedder \<Rightarrow> mlx_embedder \<times> (embed_error + vec)" where
  "mlx_embed mx c x b =
     (let key = fnv1a_64 x; n = mb_tick b
      in case cache_get (mx_now mx n) key (mb_cache b) of
           (m, Some v) \<Rightarrow> (\<lparr> mb_cache = m, mb_tick = n + 1 \<rparr>, Inr v)
         | (m, None) \<Rightarrow>
             (case call_mlx mx c (n + 1) x of
                Inl e \<Rightarrow> (\<lparr> mb_cache = m, mb_tick = n + 2 \<rparr>, Inl e)
              | Inr v \<Rightarrow>
                  (\<lparr> mb_cache = cache_put (mx_ord mx) (mx_now mx (n + 2)) key v m, mb_tick = n + 3 \<rparr>, Inr v)))"

section \<open>The cache keeps the contract of a memory of answers\<close>

lemma map_of_remove_key: "map_of (remove_key k m) j = (if j = k then None else map_of m j)"
  by (induction m) (auto simp: remove_key_def)

lemma map_of_touch:
  "map_of (map (\<lambda>(k, x). if k = key then (k, f x) else (k, x)) m) j
     = map_option (if j = key then f else id) (map_of m j)"
  by (induction m) auto

lemma length_remove_key: "length (remove_key k m) \<le> length m"
  by (simp add: remove_key_def)

definition cache_holds :: "lru_cache \<Rightarrow> vid \<Rightarrow> vec \<Rightarrow> nat \<Rightarrow> bool" where
  "cache_holds c k v t = (\<exists>e. map_of (lc_map c) k = Some e \<and> ce_vec e = v \<and> ce_born e = t)"

lemma cache_get_cases:
  assumes "cache_get now key c = (c', r)"
  shows "lc_ttl c' = lc_ttl c \<and> lc_capacity c' = lc_capacity c
     \<and> (cache_holds c' k v t \<longrightarrow> cache_holds c k v t) \<and> length (lc_map c') \<le> length (lc_map c)"
  using assms
  by (auto simp: cache_get_def cache_holds_def map_of_remove_key map_of_touch length_remove_key
      split: option.splits if_splits)

interpretation lru: memo cache_holds cache_get "cache_put ord" lc_ttl for ord
proof
  fix now k c c' v
  assume "cache_get now k c = (c', Some v)"
  then show "\<exists>t. cache_holds c k v t \<and> now \<le> t + lc_ttl c"
    by (auto simp: cache_get_def cache_holds_def split: option.splits if_splits)
next
  fix now k v c k' v' t
  assume "cache_holds (cache_put ord now k v c) k' v' t"
  then show "(k' = k \<and> v' = v \<and> t = now) \<or> cache_holds c k' v' t"
    by (auto simp: cache_holds_def cache_put_def Let_def map_add_def map_of_remove_key
        split: option.splits if_splits)
qed (auto simp: cache_put_def Let_def dest: cache_get_cases)

section \<open>The cache is bounded\<close>

lemma foldl_least_mem: "foldl (\<lambda>b x. if P x b then x else b) y xs \<in> set (y # xs)"
proof (induction xs arbitrary: y)
  case (Cons x xs)
  show ?case using Cons [of x] Cons [of y] by auto
qed simp

lemma least_used_mem: "least_used es = Some k \<Longrightarrow> k \<in> fst ` set es"
  using foldl_least_mem [of "\<lambda>x b. ce_used (snd x) < ce_used (snd b)"]
  by (cases es) (force simp: image_iff)+

lemma least_used_exists: "es \<noteq> [] \<Longrightarrow> \<exists>k. least_used es = Some k"
  by (cases es) auto

lemma length_remove_key_mem: "k \<in> fst ` set m \<Longrightarrow> length (remove_key k m) < length m"
  unfolding remove_key_def by (auto intro: length_filter_less)

definition walks_all :: "((vid \<times> entry) list \<Rightarrow> (vid \<times> entry) list) \<Rightarrow> bool" where
  "walks_all ord = (\<forall>m. set (ord m) = set m)"

lemma cache_put_bound:
  assumes "walks_all ord" and "length (lc_map c) \<le> lc_capacity c" and "1 \<le> lc_capacity c"
  shows "length (lc_map (cache_put ord now key v c)) \<le> lc_capacity c"
proof (cases "key \<in> fst ` set (lc_map c)")
  case True
  then show ?thesis using assms(2) length_remove_key_mem [OF True]
    by (simp add: cache_put_def Let_def)
next
  case new: False
  show ?thesis
  proof (cases "lc_capacity c \<le> length (lc_map c)")
    case True
    then have "ord (lc_map c) \<noteq> []" using assms by (metis walks_all_def le_zero_eq length_0_conv not_one_le_zero set_empty2)
    then obtain k where k: "least_used (ord (lc_map c)) = Some k" using least_used_exists by blast
    then have "k \<in> fst ` set (lc_map c)" using least_used_mem assms(1) unfolding walks_all_def by metis
    from length_remove_key_mem [OF this] length_remove_key [of key "remove_key k (lc_map c)"]
    show ?thesis using True new k assms(2) by (simp add: cache_put_def Let_def)
  next
    case False
    then show ?thesis using new length_remove_key [of key "lc_map c"]
      by (auto simp: cache_put_def Let_def)
  qed
qed

section \<open>What the client answers\<close>

definition embed_all :: "mlx_env \<Rightarrow> embed_config \<Rightarrow> string list \<Rightarrow> mlx_embedder" where
  "embed_all mx c xs = fold (\<lambda>x b. fst (mlx_embed mx c x b)) xs (mlx_new c)"

text \<open>A vector of the model for some text with this hash, at call \<open>n\<close>, kept at time \<open>t\<close>.\<close>

definition from_model :: "mlx_env \<Rightarrow> embed_config \<Rightarrow> nat \<Rightarrow> vid \<Rightarrow> vec \<Rightarrow> nat \<Rightarrow> bool" where
  "from_model mx c m k v t =
     (\<exists>n x. n < m \<and> fnv1a_64 x = k \<and> call_mlx mx c n x = Inr v \<and> t = mx_now mx (n + 1))"

definition embedder_ok :: "mlx_env \<Rightarrow> embed_config \<Rightarrow> mlx_embedder \<Rightarrow> bool" where
  "embedder_ok mx c b =
     (lru.genuine (from_model mx c (mb_tick b)) (mb_cache b)
      \<and> length (lc_map (mb_cache b)) \<le> lc_capacity (mb_cache b)
      \<and> lc_capacity (mb_cache b) = max (ec_capacity c) 1 \<and> lc_ttl (mb_cache b) = 1000 * ec_ttl_secs c)"

lemma from_model_mono: "\<lbrakk> from_model mx c m k v t; m \<le> n \<rbrakk> \<Longrightarrow> from_model mx c n k v t"
  unfolding from_model_def using order_less_le_trans by blast

lemma genuine_from_model_mono:
  "\<lbrakk> lru.genuine (from_model mx c m) k; m \<le> n \<rbrakk> \<Longrightarrow> lru.genuine (from_model mx c n) k"
  by (erule lru.genuine_mono) (rule from_model_mono)

lemma mlx_embed_ok:
  assumes ok: "embedder_ok mx c b" and w: "walks_all (mx_ord mx)" and run: "mlx_embed mx c x b = (b', r)"
  shows "embedder_ok mx c b' \<and> mb_tick b \<le> mb_tick b'"
proof -
  obtain m ro where g: "cache_get (mx_now mx (mb_tick b)) (fnv1a_64 x) (mb_cache b) = (m, ro)" by fastforce
  have gm: "lru.genuine (from_model mx c (mb_tick b)) m"
    using ok lru.genuine_ask g unfolding embedder_ok_def by blast
  have gm': "lru.genuine (from_model mx c n) m" if "mb_tick b \<le> n" for n
    using gm that by (rule genuine_from_model_mono)
  have sz: "length (lc_map m) \<le> lc_capacity m" "lc_capacity m = max (ec_capacity c) 1"
    "lc_ttl m = 1000 * ec_ttl_secs c"
    using ok cache_get_cases [OF g] unfolding embedder_ok_def by fastforce+
  show ?thesis
  proof (cases ro)
    case (Some v)
    then show ?thesis using run g gm' sz by (auto simp: mlx_embed_def Let_def embedder_ok_def)
  next
    case None
    show ?thesis
    proof (cases "call_mlx mx c (mb_tick b + 1) x")
      case (Inl e)
      then show ?thesis using run g gm' sz None by (auto simp: mlx_embed_def Let_def embedder_ok_def)
    next
      case (Inr v)
      let ?m' = "cache_put (mx_ord mx) (mx_now mx (mb_tick b + 2)) (fnv1a_64 x) v m"
      have b': "b' = \<lparr> mb_cache = ?m', mb_tick = mb_tick b + 3 \<rparr>"
        using run g None Inr by (auto simp: mlx_embed_def Let_def)
      have "from_model mx c (mb_tick b + 3) (fnv1a_64 x) v (mx_now mx (mb_tick b + 2))"
        unfolding from_model_def using Inr by (intro exI [of _ "mb_tick b + 1"] exI [of _ x]) simp
      then have "lru.genuine (from_model mx c (mb_tick b + 3)) ?m'"
        using gm' [of "mb_tick b + 3"] by (intro lru.genuine_keep) auto
      moreover have "length (lc_map ?m') \<le> lc_capacity m" using sz w by (intro cache_put_bound) auto
      moreover have "lc_capacity ?m' = lc_capacity m" by (simp add: cache_put_def Let_def)
      ultimately show ?thesis using b' sz by (simp add: embedder_ok_def lru.keep_life)
    qed
  qed
qed

lemma mlx_new_ok: "embedder_ok mx c (mlx_new c)"
  by (auto simp: embedder_ok_def mlx_new_def lru_new_def cache_holds_def intro: lru.genuine_empty)

lemma embed_all_ok: "walks_all (mx_ord mx) \<Longrightarrow> embedder_ok mx c (embed_all mx c xs)"
proof (induction xs rule: rev_induct)
  case Nil
  show ?case by (simp add: embed_all_def mlx_new_ok)
next
  case (snoc x xs)
  then show ?case using mlx_embed_ok [of mx c "embed_all mx c xs" x] by (simp add: embed_all_def prod_eq_iff)
qed

text \<open>
  C39: After any calls of the embedding client, whatever the model answered and however the clock
  moved, a vector that it returns has the configured dimension and is the model's answer to this
  very text, or an answer the model gave earlier to a text with the same 64-bit hash, at most the
  configured time ago; and the cache never holds more than its capacity.\<close>
theorem embedder_answers_fresh:
  assumes "walks_all (mx_ord mx)" and "mlx_embed mx c x (embed_all mx c xs) = (b', Inr v)"
  shows "length v = ec_dimension c \<and> length (lc_map (mb_cache b')) \<le> max (ec_capacity c) 1
    \<and> (\<exists>n y t. fnv1a_64 y = fnv1a_64 x \<and> call_mlx mx c n y = Inr v
         \<and> (y = x \<or> mx_now mx (mb_tick (embed_all mx c xs)) \<le> mx_now mx (n + 1) + 1000 * ec_ttl_secs c))"
proof -
  let ?b = "embed_all mx c xs"
  have ok: "embedder_ok mx c ?b" using assms(1) by (rule embed_all_ok)
  have size: "length (lc_map (mb_cache b')) \<le> max (ec_capacity c) 1"
    using mlx_embed_ok [OF ok assms(1,2)] unfolding embedder_ok_def by auto
  obtain m ro where g: "cache_get (mx_now mx (mb_tick ?b)) (fnv1a_64 x) (mb_cache ?b) = (m, ro)" by fastforce
  have src: "\<exists>n y. fnv1a_64 y = fnv1a_64 x \<and> call_mlx mx c n y = Inr v
      \<and> (y = x \<or> mx_now mx (mb_tick ?b) \<le> mx_now mx (n + 1) + 1000 * ec_ttl_secs c)"
  proof (cases ro)
    case None
    then have "call_mlx mx c (mb_tick ?b + 1) x = Inr v"
      using assms(2) g by (auto simp: mlx_embed_def Let_def split: sum.splits)
    then show ?thesis by blast
  next
    case (Some w)
    then have "w = v" using assms(2) g by (auto simp: mlx_embed_def Let_def)
    with Some g ok obtain t where "from_model mx c (mb_tick ?b) (fnv1a_64 x) v t"
      "mx_now mx (mb_tick ?b) \<le> t + lc_ttl (mb_cache ?b)"
      unfolding embedder_ok_def using lru.genuine_answer by blast
    then show ?thesis using ok unfolding from_model_def embedder_ok_def by metis
  qed
  moreover have "length v = ec_dimension c" if "call_mlx mx c n y = Inr v" for n y
    using that by (auto simp: call_mlx_def split: embed_reply.splits if_splits sum.splits list.splits)
  ultimately show ?thesis using size by blast
qed

definition demo_mlx :: mlx_env where
  "demo_mlx =
     \<lparr> mx_post = (\<lambda>n q. Reply 200 ''200 OK'' [] (Inr [[of_nat n, 7]])), mx_now = (\<lambda>n. 10 * n), mx_ord = (\<lambda>m. m) \<rparr>"

definition demo_embed :: embed_config where
  "demo_embed = embed_config_default\<lparr> ec_dimension := 2 \<rparr>"

lemma embedder_witness:
  "\<exists>n y. fnv1a_64 y = fnv1a_64 ''hi'' \<and> call_mlx demo_mlx demo_embed n y = Inr [1, 7]"
proof -
  have one: "embed_all demo_mlx demo_embed [''hi''] = fst (mlx_embed demo_mlx demo_embed ''hi'' (mlx_new demo_embed))"
    by (simp add: embed_all_def)
  have "mlx_embed demo_mlx demo_embed ''hi'' (embed_all demo_mlx demo_embed [''hi'']) =
      (fst (mlx_embed demo_mlx demo_embed ''hi'' (embed_all demo_mlx demo_embed [''hi''])), Inr [1, 7])"
    unfolding one
    by (simp add: mlx_embed_def Let_def mlx_new_def lru_new_def cache_get_def call_mlx_def demo_mlx_def
        demo_embed_def embed_config_default_def is_success_def cache_put_def remove_key_def)
  from embedder_answers_fresh [OF _ this] show ?thesis by (auto simp: walks_all_def demo_mlx_def)
qed

end
