(* ===== verification/Election.thy ===== *)
theory Election
  imports ClusterBase
begin

text \<open>
  Leader election of the crate \<open>fm-cluster\<close> (\<open>election.rs\<close>): the configuration from the
  environment, the vote handler, the two halves of \<open>campaign\<close> around its vote requests, the
  lease, and a cluster of nodes whose campaigns, votes and heartbeats interleave freely.

  A node is an index into the static list of addresses, which are taken to be distinct. Times
  are milliseconds. \<open>campaign\<close> releases the lock while it asks its peers one by one, so each
  vote request is a step of its own; a request may fail and an answer may be lost. Terms are
  64-bit counters: \<open>campaign_start\<close> wraps as the release build does, and the steps of a cluster
  are those before any counter wraps.
\<close>

section \<open>Configuration\<close>

record election_config =
  ec_nodes :: "string list"
  ec_self :: nat
  ec_heartbeat_secs :: nat
  ec_heartbeat_fails :: nat
  ec_token :: "string option"

definition quorum :: "election_config \<Rightarrow> nat" where
  "quorum c = length (ec_nodes c) div 2 + 1"

definition lease :: "election_config \<Rightarrow> nat" where
  "lease c = 1000 * (ec_heartbeat_secs c * ec_heartbeat_fails c mod 2 ^ 64)"

definition env_number :: "nat \<Rightarrow> string option \<Rightarrow> nat \<Rightarrow> nat" where
  "env_number w v d = (case Option.bind v (parse_unsigned w) of Some n \<Rightarrow> n | None \<Rightarrow> d)"

definition DEFAULT_HEARTBEAT_SECS :: nat where
  "DEFAULT_HEARTBEAT_SECS = 5"

definition DEFAULT_HEARTBEAT_FAILS :: nat where
  "DEFAULT_HEARTBEAT_FAILS = 3"

definition election_from_env ::
  "(string \<Rightarrow> string option) \<Rightarrow> cluster_error + election_config option" where
  "election_from_env env =
     (case env ''FUSION_MEMORY_CLUSTER_NODES'' of
        None \<Rightarrow> Inr None
      | Some s \<Rightarrow>
          if trim s = [] then Inr None
          else
            let nodes = filter (\<lambda>x. x \<noteq> []) (map trim (split_on (CHR '','') s))
            in if length nodes < 2 then Inr None
               else case Option.bind (env ''FUSION_MEMORY_CLUSTER_NODE_ID'') parse_u64 of
                 None \<Rightarrow> Inl (KTransport ''FUSION_MEMORY_CLUSTER_NODE_ID missing/invalid'')
               | Some i \<Rightarrow>
                   if i \<ge> length nodes
                   then Inl (KTransport ''FUSION_MEMORY_CLUSTER_NODE_ID out of range'')
                   else Inr (Some
                     \<lparr> ec_nodes = nodes, ec_self = i,
                       ec_heartbeat_secs =
                         env_number 64 (env ''FUSION_MEMORY_HEARTBEAT_SECS'') DEFAULT_HEARTBEAT_SECS,
                       ec_heartbeat_fails =
                         env_number 32 (env ''FUSION_MEMORY_HEARTBEAT_FAILS'') DEFAULT_HEARTBEAT_FAILS,
                       ec_token =
                         (case env ''FUSION_MEMORY_CLUSTER_TOKEN'' of
                            Some t \<Rightarrow> if t = [] then None else Some t
                          | None \<Rightarrow> None) \<rparr>))"

lemma election_from_env_ok:
  "election_from_env env = Inr (Some c) \<Longrightarrow> 2 \<le> length (ec_nodes c) \<and> ec_self c < length (ec_nodes c)"
  by (auto simp: election_from_env_def Let_def split: option.splits if_splits)

section \<open>One node\<close>

datatype election_state = EFollower | ECandidate | ELeader

record runtime =
  rt_state :: election_state
  rt_term :: nat
  rt_voted :: "nat option"
  rt_heartbeat :: nat
  rt_last_seq :: int

definition runtime_default :: "nat \<Rightarrow> runtime" where
  "runtime_default now =
     \<lparr> rt_state = EFollower, rt_term = 0, rt_voted = None, rt_heartbeat = now, rt_last_seq = 0 \<rparr>"

record vote_request =
  vq_term :: nat
  vq_candidate :: nat
  vq_last_seq :: int
  vq_token :: string

record vote_response =
  vr_term :: nat
  vr_granted :: bool
  vr_last_seq :: int

definition vote_reply :: "runtime \<Rightarrow> bool \<Rightarrow> vote_response" where
  "vote_reply st g = \<lparr> vr_term = rt_term st, vr_granted = g, vr_last_seq = rt_last_seq st \<rparr>"

definition see_term :: "nat \<Rightarrow> runtime \<Rightarrow> runtime" where
  "see_term t st =
     (if t > rt_term st then st\<lparr> rt_term := t, rt_voted := None, rt_state := EFollower \<rparr> else st)"

definition handle_vote ::
  "string option \<Rightarrow> vote_request \<Rightarrow> int \<Rightarrow> nat \<Rightarrow> runtime \<Rightarrow> runtime \<times> vote_response" where
  "handle_vote token req local_seq now st0 =
     (if (case token of Some expected \<Rightarrow> \<not> constant_time_eq expected (vq_token req) | None \<Rightarrow> False)
      then (st0, vote_reply st0 False)
      else let st = see_term (vq_term req) st0
           in if vq_term req < rt_term st then (st, vote_reply st False)
              else if (case rt_voted st of Some v \<Rightarrow> v \<noteq> vq_candidate req | None \<Rightarrow> False)
              then (st, vote_reply st False)
              else if vq_last_seq req < rt_last_seq st then (st, vote_reply st False)
              else let st' = st\<lparr> rt_voted := Some (vq_candidate req), rt_heartbeat := now,
                                 rt_last_seq := max (rt_last_seq st) local_seq \<rparr>
                   in (st', vote_reply st' True))"

text \<open>\<open>campaign\<close> up to its first request, and from its last answer on.\<close>

definition campaign_start :: "election_config \<Rightarrow> int \<Rightarrow> runtime \<Rightarrow> runtime \<times> vote_request" where
  "campaign_start c my_last_seq st =
     (let st' = st\<lparr> rt_state := ECandidate, rt_term := (rt_term st + 1) mod 2 ^ 64, rt_voted := Some (ec_self c),
                    rt_last_seq := max (rt_last_seq st) my_last_seq \<rparr>
      in (st', \<lparr> vq_term = rt_term st', vq_candidate = ec_self c, vq_last_seq = my_last_seq,
                 vq_token = (case ec_token c of Some t \<Rightarrow> t | None \<Rightarrow> []) \<rparr>))"

definition campaign_finish :: "election_config \<Rightarrow> nat \<Rightarrow> nat \<Rightarrow> runtime \<Rightarrow> runtime \<times> bool" where
  "campaign_finish c granted now st =
     (if granted \<ge> quorum c
      then (st\<lparr> rt_state := ELeader, rt_heartbeat := now \<rparr>, True)
      else (st\<lparr> rt_state := EFollower \<rparr>, False))"

definition lease_expired :: "election_config \<Rightarrow> nat \<Rightarrow> runtime \<Rightarrow> bool" where
  "lease_expired c now st =
     (if rt_state st = ELeader then False else now - rt_heartbeat st > lease c)"

definition refresh_lease :: "int \<Rightarrow> nat \<Rightarrow> runtime \<Rightarrow> runtime" where
  "refresh_lease s now st = st\<lparr> rt_heartbeat := now, rt_last_seq := max (rt_last_seq st) s \<rparr>"

lemma handle_vote_term: "rt_term st \<le> rt_term (fst (handle_vote tok req s now st))"
  by (simp add: handle_vote_def see_term_def Let_def split: option.splits)

lemma handle_vote_voted:
  "rt_term (fst (handle_vote tok req s now st)) = rt_term st \<Longrightarrow> rt_voted st = Some v
     \<Longrightarrow> rt_voted (fst (handle_vote tok req s now st)) = Some v"
  by (auto simp: handle_vote_def see_term_def Let_def split: option.splits if_splits)

lemma handle_vote_granted:
  "vr_granted (snd (handle_vote tok req s now st)) \<Longrightarrow>
     rt_term (fst (handle_vote tok req s now st)) = vq_term req
     \<and> rt_voted (fst (handle_vote tok req s now st)) = Some (vq_candidate req)
     \<and> rt_term st \<le> vq_term req
     \<and> (rt_term st = vq_term req \<longrightarrow> rt_voted st = None \<or> rt_voted st = Some (vq_candidate req))"
  by (auto simp: handle_vote_def vote_reply_def see_term_def Let_def split: option.splits if_splits)

section \<open>Properties of the handler\<close>

text \<open>
  the vote handler grants exactly under its four conditions: the shared token (when one is
  configured) matches, the request's term is not older, no other candidate has the vote of that
  term, and the request's log is not behind the sequence number the voter has recorded. A grant
  records the vote in that term; a refusal at most adopts a newer term.
\<close>

lemma handle_vote_grants_iff:
  "vr_granted (snd (handle_vote tok req s now st)) =
     ((tok = None \<or> tok = Some (vq_token req)) \<and> rt_term st \<le> vq_term req
      \<and> (vq_term req = rt_term st \<and> rt_voted st \<noteq> None \<longrightarrow> rt_voted st = Some (vq_candidate req))
      \<and> rt_last_seq st \<le> vq_last_seq req)
   \<and> (vr_granted (snd (handle_vote tok req s now st)) \<longrightarrow>
        rt_voted (fst (handle_vote tok req s now st)) = Some (vq_candidate req)
        \<and> rt_term (fst (handle_vote tok req s now st)) = vq_term req)
   \<and> (\<not> vr_granted (snd (handle_vote tok req s now st)) \<longrightarrow>
        fst (handle_vote tok req s now st) \<in> {st, see_term (vq_term req) st})"
  by (auto simp: handle_vote_def vote_reply_def see_term_def constant_time_eq_iff Let_def
      split: option.splits)

lemma handle_vote_witness:
  "\<not> vr_granted (snd (handle_vote None \<lparr> vq_term = 3, vq_candidate = 1, vq_last_seq = 4, vq_token = [] \<rparr>
        9 50 ((runtime_default 0)\<lparr> rt_term := 3, rt_voted := Some 2 \<rparr>)))"
  using handle_vote_grants_iff [of None "\<lparr> vq_term = 3, vq_candidate = 1, vq_last_seq = 4, vq_token = [] \<rparr>"
      9 50 "(runtime_default 0)\<lparr> rt_term := 3, rt_voted := Some 2 \<rparr>"]
  by (simp add: runtime_default_def)

section \<open>A cluster\<close>

record campaign_run =
  ca_req :: vote_request
  ca_granted :: nat
  ca_todo :: "nat list"

record cluster =
  cl_nodes :: "nat \<Rightarrow> runtime"
  cl_campaigns :: "nat \<Rightarrow> campaign_run option"
  cl_votes :: "(nat \<times> nat \<times> nat) set"
  cl_wins :: "(nat \<times> nat) list"

text \<open>
  \<open>cl_votes\<close> and \<open>cl_wins\<close> are the history: who voted in which term for whom, and who ended a
  campaign of which term with a quorum.
\<close>

definition peers :: "election_config \<Rightarrow> nat list" where
  "peers c = filter (\<lambda>j. j \<noteq> ec_self c) [0..<length (ec_nodes c)]"

definition start_at :: "(nat \<Rightarrow> election_config) \<Rightarrow> nat \<Rightarrow> int \<Rightarrow> cluster \<Rightarrow> cluster" where
  "start_at cfg i s w =
     (case campaign_start (cfg i) s (cl_nodes w i) of (st, req) \<Rightarrow>
        w\<lparr> cl_nodes := (cl_nodes w)(i := st),
           cl_campaigns := (cl_campaigns w)(i := Some
             \<lparr> ca_req = req, ca_granted = 1, ca_todo = peers (cfg i) \<rparr>),
           cl_votes := insert (vq_term req, i, i) (cl_votes w) \<rparr>)"

definition ask_at ::
  "(nat \<Rightarrow> election_config) \<Rightarrow> nat \<Rightarrow> int \<Rightarrow> nat \<Rightarrow> bool \<Rightarrow> campaign_run \<Rightarrow> nat \<Rightarrow> nat list \<Rightarrow> cluster \<Rightarrow> cluster" where
  "ask_at cfg i s now answered ca j todo w =
     (case handle_vote (ec_token (cfg j)) (ca_req ca) s now (cl_nodes w j) of (st, resp) \<Rightarrow>
        w\<lparr> cl_nodes := (cl_nodes w)(j := st),
           cl_campaigns := (cl_campaigns w)(i := Some (ca\<lparr>
             ca_granted := (if answered \<and> vr_granted resp then ca_granted ca + 1 else ca_granted ca),
             ca_todo := todo \<rparr>)),
           cl_votes := (if vr_granted resp
                        then insert (vq_term (ca_req ca), j, vq_candidate (ca_req ca)) (cl_votes w)
                        else cl_votes w) \<rparr>)"

definition finish_at ::
  "(nat \<Rightarrow> election_config) \<Rightarrow> nat \<Rightarrow> nat \<Rightarrow> campaign_run \<Rightarrow> cluster \<Rightarrow> cluster" where
  "finish_at cfg i now ca w =
     (case campaign_finish (cfg i) (ca_granted ca) now (cl_nodes w i) of (st, won) \<Rightarrow>
        w\<lparr> cl_nodes := (cl_nodes w)(i := st), cl_campaigns := (cl_campaigns w)(i := None),
           cl_wins := (if won then (vq_term (ca_req ca), i) # cl_wins w else cl_wins w) \<rparr>)"

inductive cluster_step :: "(nat \<Rightarrow> election_config) \<Rightarrow> nat \<Rightarrow> cluster \<Rightarrow> cluster \<Rightarrow> bool"
  for cfg n where
  step_start:
    "\<lbrakk> i < n; cl_campaigns w i = None; rt_term (cl_nodes w i) + 1 < 2 ^ 64 \<rbrakk>
       \<Longrightarrow> cluster_step cfg n w (start_at cfg i s w)"
| step_ask:
    "\<lbrakk> i < n; cl_campaigns w i = Some ca; ca_todo ca = j # todo \<rbrakk>
       \<Longrightarrow> cluster_step cfg n w (ask_at cfg i s now answered ca j todo w)"
| step_unreachable:
    "\<lbrakk> i < n; cl_campaigns w i = Some ca; ca_todo ca = j # todo \<rbrakk>
       \<Longrightarrow> cluster_step cfg n w
             (w\<lparr> cl_campaigns := (cl_campaigns w)(i := Some (ca\<lparr> ca_todo := todo \<rparr>)) \<rparr>)"
| step_finish:
    "\<lbrakk> i < n; cl_campaigns w i = Some ca; ca_todo ca = [] \<rbrakk>
       \<Longrightarrow> cluster_step cfg n w (finish_at cfg i now ca w)"
| step_heartbeat:
    "i < n \<Longrightarrow> cluster_step cfg n w
       (w\<lparr> cl_nodes := (cl_nodes w)(i := refresh_lease s now (cl_nodes w i)) \<rparr>)"

definition cluster_init :: "cluster" where
  "cluster_init =
     \<lparr> cl_nodes = (\<lambda>i. runtime_default 0), cl_campaigns = (\<lambda>i. None), cl_votes = {}, cl_wins = [] \<rparr>"

inductive cluster_reach :: "(nat \<Rightarrow> election_config) \<Rightarrow> nat \<Rightarrow> cluster \<Rightarrow> bool" for cfg n where
  reach_init: "cluster_reach cfg n cluster_init"
| reach_step: "\<lbrakk> cluster_reach cfg n w; cluster_step cfg n w w' \<rbrakk> \<Longrightarrow> cluster_reach cfg n w'"

definition cluster_cfg :: "(nat \<Rightarrow> election_config) \<Rightarrow> nat \<Rightarrow> bool" where
  "cluster_cfg cfg n = (\<forall>i < n. ec_self (cfg i) = i \<and> length (ec_nodes (cfg i)) = n)"

section \<open>The invariant of a cluster\<close>

definition votes_current :: "nat \<Rightarrow> cluster \<Rightarrow> bool" where
  "votes_current n w =
     (\<forall>t v c. (t, v, c) \<in> cl_votes w \<longrightarrow>
        v < n \<and> t \<le> rt_term (cl_nodes w v)
        \<and> (t = rt_term (cl_nodes w v) \<longrightarrow> rt_voted (cl_nodes w v) = Some c))"

definition votes_unique :: "cluster \<Rightarrow> bool" where
  "votes_unique w = (\<forall>t v c c'. (t, v, c) \<in> cl_votes w \<and> (t, v, c') \<in> cl_votes w \<longrightarrow> c = c')"

definition backed :: "cluster \<Rightarrow> nat \<Rightarrow> nat \<Rightarrow> nat set \<Rightarrow> bool" where
  "backed w t c S = (\<forall>v \<in> S. (t, v, c) \<in> cl_votes w)"

definition campaign_ok :: "nat \<Rightarrow> cluster \<Rightarrow> nat \<Rightarrow> campaign_run \<Rightarrow> bool" where
  "campaign_ok n w i ca =
     (i < n \<and> vq_candidate (ca_req ca) = i \<and> distinct (ca_todo ca) \<and> set (ca_todo ca) \<subseteq> {..<n}
      \<and> (\<exists>S \<subseteq> {..<n} - set (ca_todo ca). card S = ca_granted ca \<and> backed w (vq_term (ca_req ca)) i S))"

definition campaigns_backed :: "nat \<Rightarrow> cluster \<Rightarrow> bool" where
  "campaigns_backed n w = (\<forall>i ca. cl_campaigns w i = Some ca \<longrightarrow> campaign_ok n w i ca)"

definition win_ok :: "nat \<Rightarrow> cluster \<Rightarrow> nat \<Rightarrow> nat \<Rightarrow> bool" where
  "win_ok n w t c = (\<exists>S \<subseteq> {..<n}. n div 2 + 1 \<le> card S \<and> backed w t c S)"

definition wins_backed :: "nat \<Rightarrow> cluster \<Rightarrow> bool" where
  "wins_backed n w = (\<forall>(t, c) \<in> set (cl_wins w). win_ok n w t c)"

definition cluster_inv :: "nat \<Rightarrow> cluster \<Rightarrow> bool" where
  "cluster_inv n w = (votes_current n w \<and> votes_unique w \<and> campaigns_backed n w \<and> wins_backed n w)"

lemma backed_mono: "\<lbrakk> backed w t c S; cl_votes w \<subseteq> cl_votes w' \<rbrakk> \<Longrightarrow> backed w' t c S"
  by (auto simp: backed_def)

lemma campaign_ok_mono:
  assumes "campaign_ok n w i ca" and "cl_votes w \<subseteq> cl_votes w'"
  shows "campaign_ok n w' i ca"
proof -
  obtain S where "S \<subseteq> {..<n} - set (ca_todo ca)" "card S = ca_granted ca"
    "backed w (vq_term (ca_req ca)) i S"
    using assms(1) unfolding campaign_ok_def by blast
  moreover from this(3) have "backed w' (vq_term (ca_req ca)) i S"
    using assms(2) by (rule backed_mono)
  ultimately show ?thesis using assms(1) unfolding campaign_ok_def by blast
qed

lemma win_okI: "\<lbrakk> S \<subseteq> {..<n}; n div 2 + 1 \<le> card S; backed w t c S \<rbrakk> \<Longrightarrow> win_ok n w t c"
  unfolding win_ok_def by blast

lemma win_okE:
  assumes "win_ok n w t c"
  obtains S where "S \<subseteq> {..<n}" and "n div 2 + 1 \<le> card S" and "backed w t c S"
  using assms unfolding win_ok_def by blast

lemma win_ok_mono:
  assumes "win_ok n w t c" and "cl_votes w \<subseteq> cl_votes w'"
  shows "win_ok n w' t c"
  using assms(1) by (rule win_okE) (rule win_okI, assumption+, rule backed_mono [OF _ assms(2)])

lemma wins_backed_mono:
  assumes "wins_backed n w" and "cl_votes w \<subseteq> cl_votes w'" and "cl_wins w' = cl_wins w"
  shows "wins_backed n w'"
  using assms(1) win_ok_mono [OF _ assms(2)] unfolding wins_backed_def assms(3)
  by (simp add: Ball_def split_paired_All)

lemma campaigns_backedD:
  "campaigns_backed n w \<Longrightarrow> cl_campaigns w i = Some ca \<Longrightarrow> campaign_ok n w i ca"
  by (simp add: campaigns_backed_def)

lemma campaigns_backed_mono:
  assumes "campaigns_backed n w" and "cl_votes w \<subseteq> cl_votes w'"
    and "cl_campaigns w' = cl_campaigns w"
  shows "campaigns_backed n w'"
  using campaign_ok_mono [OF campaigns_backedD [OF assms(1)] assms(2)]
  unfolding campaigns_backed_def assms(3) by blast

lemma campaigns_backed_upd:
  assumes "campaigns_backed n w" and "cl_votes w \<subseteq> cl_votes w'"
    and "cl_campaigns w' = (cl_campaigns w)(i := Some ca)" and "campaign_ok n w' i ca"
  shows "campaigns_backed n w'"
  unfolding campaigns_backed_def
proof (intro allI impI)
  fix k c assume "cl_campaigns w' k = Some c"
  then show "campaign_ok n w' k c"
    using assms(3,4) campaign_ok_mono [OF campaigns_backedD [OF assms(1)] assms(2), of k c]
    by (cases "k = i") simp_all
qed

text \<open>One vote cast by \<open>j\<close> keeps the votes consistent.\<close>

lemma vote_step:
  assumes inv: "votes_current n w" "votes_unique w" and j: "j < n"
    and res: "handle_vote tok req s now (cl_nodes w j) = (st, resp)"
    and w': "cl_nodes w' = (cl_nodes w)(j := st)"
      "cl_votes w' = (if vr_granted resp then insert (vq_term req, j, vq_candidate req) (cl_votes w)
                      else cl_votes w)"
  shows "votes_current n w' \<and> votes_unique w'"
proof
  let ?st = "cl_nodes w j"
  have mono: "rt_term ?st \<le> rt_term st"
    and keep: "\<And>v. rt_term st = rt_term ?st \<Longrightarrow> rt_voted ?st = Some v \<Longrightarrow> rt_voted st = Some v"
    using handle_vote_term [of ?st tok req s now] handle_vote_voted [of tok req s now ?st] res by auto
  have grant: "vr_granted resp \<Longrightarrow> rt_term st = vq_term req \<and> rt_voted st = Some (vq_candidate req)
      \<and> rt_term ?st \<le> vq_term req
      \<and> (rt_term ?st = vq_term req \<longrightarrow> rt_voted ?st = None \<or> rt_voted ?st = Some (vq_candidate req))"
    using handle_vote_granted [of tok req s now ?st] res by simp
  have old: "v < n \<and> t \<le> rt_term (cl_nodes w v)
      \<and> (t = rt_term (cl_nodes w v) \<longrightarrow> rt_voted (cl_nodes w v) = Some c)"
    if "(t, v, c) \<in> cl_votes w" for t v c
    using inv(1) that by (auto simp: votes_current_def)
  have keep_old: "t \<le> rt_term st \<and> (t = rt_term st \<longrightarrow> rt_voted st = Some c)"
    if "(t, j, c) \<in> cl_votes w" for t c
    using old [OF that] mono keep le_antisym by fastforce
  show "votes_current n w'"
    unfolding votes_current_def
  proof (intro allI impI)
    fix t v c assume "(t, v, c) \<in> cl_votes w'"
    then consider "(t, v, c) \<in> cl_votes w"
      | "vr_granted resp" "(t, v, c) = (vq_term req, j, vq_candidate req)"
      using w'(2) by (auto split: if_splits)
    then show "v < n \<and> t \<le> rt_term (cl_nodes w' v)
        \<and> (t = rt_term (cl_nodes w' v) \<longrightarrow> rt_voted (cl_nodes w' v) = Some c)"
    proof cases
      case 1
      with old [OF 1] keep_old w'(1) show ?thesis by (cases "v = j") auto
    next
      case 2
      with grant j w'(1) show ?thesis by auto
    qed
  qed
  have fresh: "c = vq_candidate req" if "vr_granted resp" "(vq_term req, j, c) \<in> cl_votes w" for c
    using grant [OF that(1)] old [OF that(2)] by auto
  show "votes_unique w'"
    using inv(2) fresh w'(2) unfolding votes_unique_def
    by (auto split: if_splits)
qed

lemma cluster_invD:
  assumes "cluster_inv n w"
  shows "votes_current n w" and "votes_unique w" and "campaigns_backed n w" and "wins_backed n w"
  using assms by (simp_all add: cluster_inv_def)

lemma votes_currentD:
  assumes "votes_current n w" and "(t, v, c) \<in> cl_votes w"
  shows "v < n" and "t \<le> rt_term (cl_nodes w v)"
    and "t = rt_term (cl_nodes w v) \<Longrightarrow> rt_voted (cl_nodes w v) = Some c"
  using assms unfolding votes_current_def by blast+

lemma start_inv:
  assumes inv: "cluster_inv n w" and i: "i < n" and cfg: "cluster_cfg cfg n"
    and small: "rt_term (cl_nodes w i) + 1 < 2 ^ 64"
  shows "cluster_inv n (start_at cfg i s w)"
proof -
  let ?w = "start_at cfg i s w"
  let ?t = "rt_term (cl_nodes w i) + 1"
  have self: "ec_self (cfg i) = i" "length (ec_nodes (cfg i)) = n"
    using cfg i by (auto simp: cluster_cfg_def)
  have mod: "?t mod 2 ^ 64 = ?t" using small by simp
  have votes: "cl_votes ?w = insert (?t, i, i) (cl_votes w)"
    and tm: "rt_term (cl_nodes ?w i) = ?t" "rt_voted (cl_nodes ?w i) = Some i"
    and other: "\<And>v. v \<noteq> i \<Longrightarrow> cl_nodes ?w v = cl_nodes w v"
    and wins: "cl_wins ?w = cl_wins w"
    unfolding start_at_def campaign_start_def Let_def mod using self by simp_all
  obtain ca where ca: "cl_campaigns ?w = (cl_campaigns w)(i := Some ca)" "vq_term (ca_req ca) = ?t"
    "vq_candidate (ca_req ca) = i" "ca_granted ca = 1" "ca_todo ca = peers (cfg i)"
    unfolding start_at_def campaign_start_def Let_def mod using self by simp
  note old = votes_currentD [OF cluster_invD(1) [OF inv]]
  have "votes_current n ?w"
    unfolding votes_current_def
  proof (intro allI impI)
    fix t v c assume "(t, v, c) \<in> cl_votes ?w"
    then consider "(t, v, c) \<in> cl_votes w" | "t = ?t" "v = i" "c = i" unfolding votes by blast
    then show "v < n \<and> t \<le> rt_term (cl_nodes ?w v)
        \<and> (t = rt_term (cl_nodes ?w v) \<longrightarrow> rt_voted (cl_nodes ?w v) = Some c)"
    proof cases
      case 1
      with old [OF 1] tm(1) other show ?thesis by (cases "v = i") simp_all
    next
      case 2
      with tm i show ?thesis by simp
    qed
  qed
  moreover have "votes_unique ?w"
  proof -
    have "c = i" if "(?t, i, c) \<in> cl_votes w" for c using old(2) [OF that] by simp
    with cluster_invD(2) [OF inv] show ?thesis unfolding votes_unique_def votes by blast
  qed
  moreover have "campaign_ok n ?w i ca"
    unfolding campaign_ok_def
  proof (intro conjI exI [of _ "{i}"])
    show "backed ?w (vq_term (ca_req ca)) i {i}" using votes ca by (simp add: backed_def)
  qed (use ca i self in \<open>auto simp: peers_def\<close>)
  then have "campaigns_backed n ?w"
    using campaigns_backed_upd [OF cluster_invD(3) [OF inv] _ ca(1)] votes by blast
  moreover have "wins_backed n ?w"
    using wins_backed_mono [OF cluster_invD(4) [OF inv] _ wins] votes by blast
  ultimately show ?thesis by (simp add: cluster_inv_def)
qed

lemma ask_inv:
  assumes inv: "cluster_inv n w" and i: "i < n"
    and ca: "cl_campaigns w i = Some ca" and todo: "ca_todo ca = j # js"
  shows "cluster_inv n (ask_at cfg i s now answered ca j js w)"
proof -
  let ?w = "ask_at cfg i s now answered ca j js w"
  obtain st resp where res: "handle_vote (ec_token (cfg j)) (ca_req ca) s now (cl_nodes w j) = (st, resp)"
    by fastforce
  define ca' where "ca' = ca\<lparr> ca_granted :=
    (if answered \<and> vr_granted resp then ca_granted ca + 1 else ca_granted ca), ca_todo := js \<rparr>"
  have parts: "cl_nodes ?w = (cl_nodes w)(j := st)"
    "cl_votes ?w = (if vr_granted resp then insert (vq_term (ca_req ca), j, vq_candidate (ca_req ca)) (cl_votes w)
                    else cl_votes w)"
    "cl_campaigns ?w = (cl_campaigns w)(i := Some ca')" "cl_wins ?w = cl_wins w"
    by (simp_all add: ask_at_def res ca'_def)
  have sub: "cl_votes w \<subseteq> cl_votes ?w" unfolding parts by auto
  have ok: "campaign_ok n w i ca" using campaigns_backedD [OF cluster_invD(3) [OF inv] ca] .
  then obtain S where S: "S \<subseteq> {..<n} - set (j # js)" "card S = ca_granted ca"
    "backed w (vq_term (ca_req ca)) i S"
    unfolding campaign_ok_def todo by blast
  have j: "j < n" "j \<notin> set js" "distinct js" "set js \<subseteq> {..<n}" "vq_candidate (ca_req ca) = i"
    using ok todo by (auto simp: campaign_ok_def)
  let ?S = "if answered \<and> vr_granted resp then insert j S else S"
  have fin: "finite S" "j \<notin> S" using S(1) finite_subset [of S "{..<n}"] by auto
  have "campaign_ok n ?w i ca'"
    unfolding campaign_ok_def
  proof (intro conjI exI [of _ ?S])
    show "?S \<subseteq> {..<n} - set (ca_todo ca')" using S(1) j by (auto simp: ca'_def)
    show "card ?S = ca_granted ca'" using S(2) fin by (simp add: ca'_def)
    show "backed ?w (vq_term (ca_req ca')) i ?S"
      using S(3) parts(2) j(5) by (auto simp: backed_def ca'_def)
  qed (use i j in \<open>auto simp: ca'_def\<close>)
  then have "campaigns_backed n ?w"
    using campaigns_backed_upd [OF cluster_invD(3) [OF inv] sub parts(3)] by blast
  moreover have "wins_backed n ?w"
    using wins_backed_mono [OF cluster_invD(4) [OF inv] sub parts(4)] .
  moreover have "votes_current n ?w \<and> votes_unique ?w"
    using vote_step [OF cluster_invD(1,2) [OF inv] j(1) res parts(1,2)] .
  ultimately show ?thesis by (simp add: cluster_inv_def)
qed

text \<open>The steps that cast no vote and leave every term and vote as it is.\<close>

lemma quiet_inv:
  assumes inv: "cluster_inv n w"
    and votes: "cl_votes w' = cl_votes w"
    and nodes: "\<And>v. rt_term (cl_nodes w' v) = rt_term (cl_nodes w v)
                   \<and> rt_voted (cl_nodes w' v) = rt_voted (cl_nodes w v)"
    and camp: "campaigns_backed n w'" and wins: "wins_backed n w'"
  shows "cluster_inv n w'"
  using cluster_invD(1,2) [OF inv] camp wins nodes
  unfolding cluster_inv_def votes_current_def votes_unique_def votes by simp

lemma finish_inv:
  assumes inv: "cluster_inv n w" and i: "i < n" and cfg: "cluster_cfg cfg n"
    and ca: "cl_campaigns w i = Some ca" and todo: "ca_todo ca = []"
  shows "cluster_inv n (finish_at cfg i now ca w)"
proof (rule quiet_inv [OF inv])
  let ?w = "finish_at cfg i now ca w"
  have n: "length (ec_nodes (cfg i)) = n" using cfg i by (simp add: cluster_cfg_def)
  show votes: "cl_votes ?w = cl_votes w" by (simp add: finish_at_def split: prod.split)
  show "rt_term (cl_nodes ?w v) = rt_term (cl_nodes w v)
      \<and> rt_voted (cl_nodes ?w v) = rt_voted (cl_nodes w v)" for v
    by (simp add: finish_at_def campaign_finish_def)
  have camp: "cl_campaigns ?w = (cl_campaigns w)(i := None)"
    by (simp add: finish_at_def split: prod.split)
  have sub: "cl_votes w \<subseteq> cl_votes ?w" by (simp add: votes)
  show "campaigns_backed n ?w"
    using campaign_ok_mono [OF campaigns_backedD [OF cluster_invD(3) [OF inv]] sub]
    unfolding campaigns_backed_def camp by simp
  obtain S where "S \<subseteq> {..<n}" "card S = ca_granted ca" "backed w (vq_term (ca_req ca)) i S"
    using campaigns_backedD [OF cluster_invD(3) [OF inv] ca] unfolding campaign_ok_def by blast
  then have "quorum (cfg i) \<le> ca_granted ca \<Longrightarrow> win_ok n ?w (vq_term (ca_req ca)) i"
    using backed_mono [OF _ sub] n unfolding win_ok_def quorum_def by metis
  then show "wins_backed n ?w"
    using win_ok_mono [OF _ sub] cluster_invD(4) [OF inv]
    unfolding wins_backed_def finish_at_def campaign_finish_def by (auto split: if_splits)
qed

lemma step_inv:
  "\<lbrakk> cluster_step cfg n w w'; cluster_inv n w; cluster_cfg cfg n \<rbrakk> \<Longrightarrow> cluster_inv n w'"
proof (induction rule: cluster_step.induct)
  case (step_start i w s)
  then show ?case by (intro start_inv)
next
  case (step_ask i w ca j todo s now answered)
  then show ?case by (intro ask_inv)
next
  case (step_unreachable i w ca j todo)
  let ?w = "w\<lparr> cl_campaigns := (cl_campaigns w)(i := Some (ca\<lparr> ca_todo := todo \<rparr>)) \<rparr>"
  note inv = step_unreachable.prems(1)
  have ok: "campaign_ok n w i ca"
    using campaigns_backedD [OF cluster_invD(3) [OF inv] step_unreachable.hyps(2)] .
  then obtain S where S: "S \<subseteq> {..<n} - set (j # todo)" "card S = ca_granted ca"
    "backed w (vq_term (ca_req ca)) i S"
    unfolding campaign_ok_def step_unreachable.hyps(3) by blast
  have "campaign_ok n ?w i (ca\<lparr> ca_todo := todo \<rparr>)"
    unfolding campaign_ok_def
  proof (intro conjI exI [of _ S])
    show "backed ?w (vq_term (ca_req (ca\<lparr>ca_todo := todo\<rparr>))) i S"
      using S(3) by (simp add: backed_def)
  qed (use S ok step_unreachable.hyps in \<open>auto simp: campaign_ok_def\<close>)
  then have "campaigns_backed n ?w"
    by (intro campaigns_backed_upd [OF cluster_invD(3) [OF inv]]) auto
  moreover have "wins_backed n ?w"
    by (rule wins_backed_mono [OF cluster_invD(4) [OF inv]]) simp_all
  ultimately show ?case by (intro quiet_inv [OF inv]) simp_all
next
  case (step_finish i w ca now)
  then show ?case by (intro finish_inv)
next
  case (step_heartbeat i w s now)
  let ?w = "w\<lparr> cl_nodes := (cl_nodes w)(i := refresh_lease s now (cl_nodes w i)) \<rparr>"
  note inv = step_heartbeat.prems(1)
  have "campaigns_backed n ?w"
    by (rule campaigns_backed_mono [OF cluster_invD(3) [OF inv]]) simp_all
  moreover have "wins_backed n ?w"
    by (rule wins_backed_mono [OF cluster_invD(4) [OF inv]]) simp_all
  ultimately show ?case by (intro quiet_inv [OF inv]) (simp_all add: refresh_lease_def)
qed

lemma reach_inv: "cluster_reach cfg n w \<Longrightarrow> cluster_cfg cfg n \<Longrightarrow> cluster_inv n w"
proof (induction rule: cluster_reach.induct)
  case reach_init
  show ?case
    by (simp add: cluster_inv_def cluster_init_def votes_current_def votes_unique_def
        campaigns_backed_def wins_backed_def)
next
  case (reach_step w w')
  then show ?case by (blast intro: step_inv)
qed

lemma quorums_meet:
  assumes "S \<subseteq> {..<n}" and "T \<subseteq> {..<n}"
    and "n div 2 + 1 \<le> card S" and "n div 2 + 1 \<le> card T"
  obtains v where "v \<in> S" and "v \<in> T"
proof -
  have fin: "finite S" "finite T" using assms(1,2) finite_subset by blast+
  have "card (S \<union> T) \<le> n" using assms(1,2) card_mono [of "{..<n}" "S \<union> T"] by simp
  moreover have "card (S \<union> T) + card (S \<inter> T) = card S + card T"
    using card_Un_Int [OF fin] by simp
  ultimately have "card (S \<inter> T) \<noteq> 0" using assms(3,4) by linarith
  then show thesis using that by (metis IntE card.empty ex_in_conv)
qed

section \<open>Election safety\<close>

text \<open>
  C8: at most one candidate wins a term: in every reachable cluster, however campaigns, votes,
  lost answers and heartbeats interleave, two campaigns of the same term that both reach their
  quorum are campaigns of the same node.
\<close>

theorem election_safety:
  assumes "cluster_reach cfg n w" and "cluster_cfg cfg n"
    and "(t, a) \<in> set (cl_wins w)" and "(t, b) \<in> set (cl_wins w)"
  shows "a = b"
proof -
  have inv: "cluster_inv n w" using reach_inv [OF assms(1,2)] .
  have "win_ok n w t a" "win_ok n w t b"
    using cluster_invD(4) [OF inv] assms(3,4) by (auto simp: wins_backed_def)
  then obtain S T where "S \<subseteq> {..<n}" "n div 2 + 1 \<le> card S" "backed w t a S"
    and "T \<subseteq> {..<n}" "n div 2 + 1 \<le> card T" "backed w t b T"
    by (elim win_okE)
  moreover from this obtain v where "v \<in> S" "v \<in> T" using quorums_meet [of S n T] by metis
  ultimately have "(t, v, a) \<in> cl_votes w" "(t, v, b) \<in> cl_votes w"
    by (auto simp: backed_def)
  then show ?thesis using cluster_invD(2) [OF inv] unfolding votes_unique_def by blast
qed

definition plain_config :: "nat \<Rightarrow> nat \<Rightarrow> election_config" where
  "plain_config n i = \<lparr> ec_nodes = replicate n ''node'', ec_self = i, ec_heartbeat_secs = 5,
                        ec_heartbeat_fails = 3, ec_token = None \<rparr>"

lemma plain_cluster: "cluster_cfg (plain_config n) n"
  by (simp add: cluster_cfg_def plain_config_def)

text \<open>A run as a list of scripted moves, to reach concrete clusters by evaluation.\<close>

datatype move = MStart nat | MAsk nat | MFinish nat

fun do_move :: "(nat \<Rightarrow> election_config) \<Rightarrow> move \<Rightarrow> cluster \<Rightarrow> cluster option" where
  "do_move cfg (MStart i) w =
     (if cl_campaigns w i = None \<and> rt_term (cl_nodes w i) + 1 < 2 ^ 64
      then Some (start_at cfg i 0 w) else None)"
| "do_move cfg (MAsk i) w =
     (case cl_campaigns w i of
        None \<Rightarrow> None
      | Some ca \<Rightarrow> (case ca_todo ca of [] \<Rightarrow> None
                   | j # js \<Rightarrow> Some (ask_at cfg i 0 0 True ca j js w)))"
| "do_move cfg (MFinish i) w =
     (case cl_campaigns w i of
        None \<Rightarrow> None
      | Some ca \<Rightarrow> (if ca_todo ca = [] then Some (finish_at cfg i 0 ca w) else None))"

fun mover :: "move \<Rightarrow> nat" where
  "mover (MStart i) = i"
| "mover (MAsk i) = i"
| "mover (MFinish i) = i"

fun do_moves :: "(nat \<Rightarrow> election_config) \<Rightarrow> move list \<Rightarrow> cluster \<Rightarrow> cluster option" where
  "do_moves cfg [] w = Some w"
| "do_moves cfg (m # ms) w = Option.bind (do_move cfg m w) (do_moves cfg ms)"

lemma do_move_step: "do_move cfg m w = Some w' \<Longrightarrow> mover m < n \<Longrightarrow> cluster_step cfg n w w'"
  by (cases m) (auto split: option.splits list.splits if_splits intro: cluster_step.intros)

lemma do_moves_reach:
  "\<lbrakk> do_moves cfg ms w = Some w'; \<forall>m \<in> set ms. mover m < n; cluster_reach cfg n w \<rbrakk>
     \<Longrightarrow> cluster_reach cfg n w'"
proof (induction ms arbitrary: w)
  case (Cons m ms)
  then obtain w1 where w1: "do_move cfg m w = Some w1" "do_moves cfg ms w1 = Some w'"
    by (auto split: bind_splits)
  moreover have "cluster_reach cfg n w1"
    using reach_step [OF Cons.prems(3) do_move_step [OF w1(1)]] Cons.prems(2) by simp
  ultimately show ?case using Cons.IH Cons.prems(2) by simp
qed simp

lemmas move_defs = start_at_def ask_at_def finish_at_def campaign_start_def campaign_finish_def
  handle_vote_def vote_reply_def see_term_def peers_def plain_config_def runtime_default_def
  cluster_init_def quorum_def Let_def upt_rec

lemma one_win:
  "\<exists>w. do_moves (plain_config 2) [MStart 0, MAsk 0, MFinish 0] cluster_init = Some w
       \<and> cl_wins w = [(1, 0)]"
  by (simp add: move_defs)

lemma election_safety_witness:
  "\<exists>w. cluster_reach (plain_config 2) 2 w \<and> cl_wins w = [(1, 0)]
       \<and> (\<forall>b. (1, b) \<in> set (cl_wins w) \<longrightarrow> 0 = b)"
proof -
  obtain w where w: "do_moves (plain_config 2) [MStart 0, MAsk 0, MFinish 0] cluster_init = Some w"
    "cl_wins w = [(1, 0)]" using one_win by blast
  have reach: "cluster_reach (plain_config 2) 2 w" using do_moves_reach [OF w(1)] reach_init by simp
  have "0 = b" if "(1, b) \<in> set (cl_wins w)" for b
    using election_safety [OF reach plain_cluster _ that, of 0] w(2) by simp
  with reach w(2) show ?thesis by blast
qed

text \<open>
  winning a term is not the same as leading in it. \<open>campaign\<close> drops the lock while it asks its
  peers and becomes leader afterwards without comparing terms again: in a cluster of three,
  node 0 collects its quorum of term 1, grants node 2 the vote of term 2, and then finishes its
  own campaign, so that two nodes are in the leader state with the same current term.
\<close>

lemma stale_campaign_makes_second_leader:
  "\<exists>w. cluster_reach (plain_config 3) 3 w \<and> cluster_cfg (plain_config 3) 3
       \<and> rt_state (cl_nodes w 0) = ELeader \<and> rt_state (cl_nodes w 2) = ELeader
       \<and> rt_term (cl_nodes w 0) = rt_term (cl_nodes w 2)"
proof -
  obtain w where w: "do_moves (plain_config 3)
      [MStart 0, MAsk 0, MAsk 0, MStart 2, MAsk 2, MAsk 2, MFinish 2, MFinish 0] cluster_init = Some w"
    "rt_state (cl_nodes w 0) = ELeader" "rt_state (cl_nodes w 2) = ELeader"
    "rt_term (cl_nodes w 0) = rt_term (cl_nodes w 2)"
    by (simp add: move_defs)
  have "cluster_reach (plain_config 3) 3 w" using do_moves_reach [OF w(1)] reach_init by simp
  with w(2-4) plain_cluster show ?thesis by blast
qed

end
