(* ===== verification/Wire.thy ===== *)
theory Wire
  imports ClusterBase Election
begin

text \<open>
  The wire protocol of the cluster (\<open>fm-cluster/protocol.rs\<close>): frames of a four-byte big-endian
  length and a JSON body on a byte stream, and the vote exchange that uses it
  (\<open>request_vote\<close>, \<open>handle_vote_conn\<close> of \<open>election.rs\<close>).

  A stream is the bytes still to be read; \<open>read_exact\<close> fails when it ends too early. The JSON
  text functions are parameters.
\<close>

section \<open>Messages\<close>

datatype frame_kind =
    FHello | FSyncRequest | FSyncResponse | FPing | FPong | FVoteRequest | FVoteResponse

record hello =
  hl_last_seq :: int
  hl_token :: string
  hl_epoch :: nat

record sync_request =
  sq_since :: int
  sq_limit :: nat

record sync_response =
  sr_entries :: "wop_entry list"
  sr_epoch :: nat

record frame =
  fr_kind :: frame_kind
  fr_payload :: string

record wire_codec =
  wr_frame :: "frame \<Rightarrow> string + string"
  rd_frame :: "string \<Rightarrow> string + frame"
  wr_text :: "string \<Rightarrow> string + string"
  wr_hello :: "hello \<Rightarrow> string + string"
  rd_hello :: "string \<Rightarrow> string + hello"
  wr_request :: "sync_request \<Rightarrow> string + string"
  rd_request :: "string \<Rightarrow> string + sync_request"
  wr_response :: "sync_response \<Rightarrow> string + string"
  rd_response :: "string \<Rightarrow> string + sync_response"
  wr_vote :: "vote_request \<Rightarrow> string + string"
  rd_vote :: "string \<Rightarrow> string + vote_request"
  wr_voted :: "vote_response \<Rightarrow> string + string"
  rd_voted :: "string \<Rightarrow> string + vote_response"

definition frame_new :: "frame_kind \<Rightarrow> string + string \<Rightarrow> cluster_error + frame" where
  "frame_new k payload =
     bind_res (map_err KSerde payload) (\<lambda>p. Inr \<lparr> fr_kind = k, fr_payload = p \<rparr>)"

definition decode_payload :: "(string \<Rightarrow> string + 'a) \<Rightarrow> frame \<Rightarrow> cluster_error + 'a" where
  "decode_payload rd f = map_err KSerde (rd (fr_payload f))"

section \<open>Frames on a stream\<close>

definition LEN_BYTES :: nat where
  "LEN_BYTES = 4"

definition MAX_FRAME_LEN :: nat where
  "MAX_FRAME_LEN = 16 * 1024 * 1024"

definition write_frame :: "wire_codec \<Rightarrow> frame \<Rightarrow> cluster_error + string" where
  "write_frame c f =
     bind_res (map_err KSerde (wr_frame c f)) (\<lambda>buf.
       Inr (be_bytes 4 (length buf mod 2 ^ 32) @ buf))"

definition read_exact :: "nat \<Rightarrow> string \<Rightarrow> string option \<times> string" where
  "read_exact n s = (if n \<le> length s then (Some (take n s), drop n s) else (None, []))"

definition read_frame :: "wire_codec \<Rightarrow> string \<Rightarrow> (cluster_error + frame option) \<times> string" where
  "read_frame c s =
     (case read_exact LEN_BYTES s of
        (None, s1) \<Rightarrow> (Inr None, s1)
      | (Some prefix, s1) \<Rightarrow>
          let len = of_be_bytes prefix in
          if len = 0 then (Inr None, s1)
          else if len > MAX_FRAME_LEN
          then (Inl (KTransport (''frame len '' @ show_nat len @ '' exceeds max ''
                  @ show_nat MAX_FRAME_LEN @ '' (possible DoS)'')), s1)
          else (case read_exact len s1 of
                  (None, s2) \<Rightarrow> (Inl (KIo ''early eof''), s2)
                | (Some buf, s2) \<Rightarrow> (bind_res (map_err KSerde (rd_frame c buf)) (\<lambda>f. Inr (Some f)), s2)))"

definition write_frames :: "wire_codec \<Rightarrow> frame list \<Rightarrow> cluster_error + string" where
  "write_frames c fs =
     foldr (\<lambda>f acc. bind_res (write_frame c f) (\<lambda>a. bind_res acc (\<lambda>b. Inr (a @ b)))) fs (Inr [])"

text \<open>What the model relies on: \<open>serde_json\<close> reads back what it wrote, and a frame is not empty.\<close>

definition frame_codec_ok :: "wire_codec \<Rightarrow> bool" where
  "frame_codec_ok c = (\<forall>f b. wr_frame c f = Inr b \<longrightarrow> b \<noteq> [] \<and> rd_frame c b = Inr f)"

lemma read_exact_append [simp]: "read_exact (length a) (a @ b) = (Some a, b)"
  by (simp add: read_exact_def)

lemma read_len_prefix:
  "read_exact LEN_BYTES (be_bytes 4 n @ b) = (Some (be_bytes 4 n), b)"
  using read_exact_append [of "be_bytes 4 n" b] by (simp add: LEN_BYTES_def)

lemma write_frame_Inr:
  "write_frame c f = Inr s \<longleftrightarrow>
     (\<exists>b. wr_frame c f = Inr b \<and> s = be_bytes 4 (length b mod 2 ^ 32) @ b)"
  by (auto simp: write_frame_def map_err_def bind_res_def split: sum.splits)

lemma read_written:
  assumes ok: "frame_codec_ok c" and w: "write_frame c f = Inr s"
    and len: "\<forall>b. wr_frame c f = Inr b \<longrightarrow> length b \<le> MAX_FRAME_LEN"
  shows "read_frame c (s @ rest) = (Inr (Some f), rest)"
proof -
  obtain b m where b: "wr_frame c f = Inr b" "s = be_bytes 4 m @ b" and m: "m = length b mod 2 ^ 32"
    using w by (auto simp: write_frame_Inr)
  have rd: "rd_frame c b = Inr f" "b \<noteq> []" using ok b(1) by (auto simp: frame_codec_ok_def)
  have l: "length b \<le> MAX_FRAME_LEN" using len b(1) by simp
  then have "length b < 256 ^ 4" "m = length b" by (simp_all add: MAX_FRAME_LEN_def m)
  then have n: "of_be_bytes (be_bytes 4 m) = length b" by (simp only: of_be_bytes_inverse)
  show ?thesis
    using rd l by (simp add: read_frame_def b(2) read_len_prefix n Let_def)
qed

fun read_frames :: "wire_codec \<Rightarrow> nat \<Rightarrow> string \<Rightarrow> (cluster_error + frame list) \<times> string" where
  "read_frames c 0 s = (Inr [], s)"
| "read_frames c (Suc n) s =
     (case read_frame c s of
        (Inl e, s1) \<Rightarrow> (Inl e, s1)
      | (Inr None, s1) \<Rightarrow> (Inr [], s1)
      | (Inr (Some f), s1) \<Rightarrow>
          (case read_frames c n s1 of
             (Inl e, s2) \<Rightarrow> (Inl e, s2)
           | (Inr fs, s2) \<Rightarrow> (Inr (f # fs), s2)))"

lemma write_frames_Cons:
  "write_frames c (f # fs) = Inr s \<longleftrightarrow>
     (\<exists>a b. write_frame c f = Inr a \<and> write_frames c fs = Inr b \<and> s = a @ b)"
  by (auto simp: write_frames_def bind_res_def split: sum.splits)

text \<open>
  C36: frames survive the wire. A sequence of frames whose bodies are within the 16 MB limit,
  written to a stream one after the other, is read back as exactly that sequence, whatever
  bytes follow, and the reader stops at the first byte that follows.
\<close>

theorem frames_roundtrip:
  assumes "frame_codec_ok c" and "write_frames c fs = Inr s"
    and "\<forall>f \<in> set fs. \<forall>b. wr_frame c f = Inr b \<longrightarrow> length b \<le> MAX_FRAME_LEN"
  shows "read_frames c (length fs) (s @ rest) = (Inr fs, rest)"
  using assms(2,3)
proof (induction fs arbitrary: s)
  case Nil
  then show ?case by (simp add: write_frames_def)
next
  case (Cons f fs)
  then obtain a b where ab: "write_frame c f = Inr a" "write_frames c fs = Inr b" "s = a @ b"
    by (auto simp: write_frames_Cons)
  have "read_frame c (a @ b @ rest) = (Inr (Some f), b @ rest)"
    using Cons.prems(2) by (intro read_written [OF assms(1) ab(1)]) simp
  moreover have "read_frames c (length fs) (b @ rest) = (Inr fs, rest)"
    using Cons.IH [OF ab(2)] Cons.prems(2) by simp
  ultimately show ?case using ab(3) by simp
qed

definition kind_char :: "frame_kind \<Rightarrow> char" where
  "kind_char k =
     (case k of FHello \<Rightarrow> CHR ''h'' | FSyncRequest \<Rightarrow> CHR ''q'' | FSyncResponse \<Rightarrow> CHR ''r''
              | FPing \<Rightarrow> CHR ''i'' | FPong \<Rightarrow> CHR ''o'' | FVoteRequest \<Rightarrow> CHR ''v'' | FVoteResponse \<Rightarrow> CHR ''w'')"

definition char_kind :: "char \<Rightarrow> frame_kind" where
  "char_kind x =
     (if x = CHR ''h'' then FHello else if x = CHR ''q'' then FSyncRequest
      else if x = CHR ''r'' then FSyncResponse else if x = CHR ''i'' then FPing
      else if x = CHR ''o'' then FPong else if x = CHR ''v'' then FVoteRequest else FVoteResponse)"

definition tiny_codec :: wire_codec where
  "tiny_codec =
     \<lparr> wr_frame = (\<lambda>f. Inr (kind_char (fr_kind f) # fr_payload f)),
       rd_frame = (\<lambda>s. case s of [] \<Rightarrow> Inl ''eof'' | x # p \<Rightarrow> Inr \<lparr> fr_kind = char_kind x, fr_payload = p \<rparr>),
       wr_text = Inr,
       wr_hello = (\<lambda>h. Inr (hl_token h)),
       rd_hello = (\<lambda>s. Inr \<lparr> hl_last_seq = 0, hl_token = s, hl_epoch = 0 \<rparr>),
       wr_request = (\<lambda>q. Inr (show_nat (sq_limit q))),
       rd_request = (\<lambda>s. case parse_u64 s of Some n \<Rightarrow> Inr \<lparr> sq_since = 0, sq_limit = n \<rparr> | None \<Rightarrow> Inl ''int''),
       wr_response = (\<lambda>r. Inr (show_nat (sr_epoch r))),
       rd_response = (\<lambda>s. case parse_u64 s of Some n \<Rightarrow> Inr \<lparr> sr_entries = [], sr_epoch = n \<rparr> | None \<Rightarrow> Inl ''int''),
       wr_vote = (\<lambda>q. Inr (show_nat (vq_term q))),
       rd_vote = (\<lambda>s. case parse_u64 s of
                        Some n \<Rightarrow> Inr \<lparr> vq_term = n, vq_candidate = 1, vq_last_seq = 0, vq_token = [] \<rparr>
                      | None \<Rightarrow> Inl ''int''),
       wr_voted = (\<lambda>r. Inr (show_nat (vr_term r) @ (if vr_granted r then ''y'' else ''n''))),
       rd_voted = (\<lambda>s. case parse_u64 (butlast s) of
                         Some n \<Rightarrow> Inr \<lparr> vr_term = n, vr_granted = (last s = CHR ''y''), vr_last_seq = 0 \<rparr>
                       | None \<Rightarrow> Inl ''int'') \<rparr>"

lemma tiny_codec_ok: "frame_codec_ok tiny_codec"
  by (auto simp: frame_codec_ok_def tiny_codec_def kind_char_def char_kind_def split: frame_kind.splits)

lemma frames_roundtrip_witness:
  "case write_frames tiny_codec [\<lparr> fr_kind = FPing, fr_payload = ''hb'' \<rparr>, \<lparr> fr_kind = FPong, fr_payload = ''ok'' \<rparr>] of
     Inr s \<Rightarrow> read_frames tiny_codec 2 (s @ ''zz'')
        = (Inr [\<lparr> fr_kind = FPing, fr_payload = ''hb'' \<rparr>, \<lparr> fr_kind = FPong, fr_payload = ''ok'' \<rparr>], ''zz'')
   | Inl _ \<Rightarrow> False"
proof -
  let ?fs = "[\<lparr> fr_kind = FPing, fr_payload = ''hb'' \<rparr>, \<lparr> fr_kind = FPong, fr_payload = ''ok'' \<rparr>]"
  obtain s where s: "write_frames tiny_codec ?fs = Inr s"
    by (simp add: write_frames_def write_frame_def tiny_codec_def)
  have "\<forall>f \<in> set ?fs. \<forall>b. wr_frame tiny_codec f = Inr b \<longrightarrow> length b \<le> MAX_FRAME_LEN"
    by (simp add: tiny_codec_def MAX_FRAME_LEN_def)
  from frames_roundtrip [OF tiny_codec_ok s this, of "''zz''"] s show ?thesis
    by (simp add: numeral_2_eq_2)
qed

text \<open>
  the reader is bounded. Whatever bytes a peer sends, one call of \<open>read_frame\<close> takes at
  most the length prefix and 16 MB from the stream, and a length above the limit is refused
  before any of the body is read.
\<close>

lemma read_frame_bounded:
  "case read_frame c s of (r, s') \<Rightarrow>
     length s' \<le> length s \<and> length s \<le> length s' + LEN_BYTES + MAX_FRAME_LEN
     \<and> (of_be_bytes (take 4 s) > MAX_FRAME_LEN \<and> 4 \<le> length s \<longrightarrow>
          s' = drop 4 s \<and> (\<exists>msg. r = Inl (KTransport msg)))"
  by (auto simp: read_frame_def read_exact_def LEN_BYTES_def Let_def split: if_splits prod.splits)

lemma read_frame_bounded_witness:
  "snd (read_frame tiny_codec
     [char_of (255 :: nat), char_of (255 :: nat), char_of (255 :: nat), char_of (255 :: nat), CHR ''x'']) = ''x''"
proof -
  let ?b = "char_of (255 :: nat)"
  have "of_be_bytes [?b, ?b, ?b, ?b] = 4294967295" by (simp add: of_be_bytes_def)
  with read_frame_bounded [where c = tiny_codec and s = "[?b, ?b, ?b, ?b, CHR ''x'']"] show ?thesis
    by (simp add: MAX_FRAME_LEN_def split: prod.splits)
qed

text \<open>
  The writer has no limit of its own. A frame whose body is above the limit and below 4 GB
  is written without an error, and every reader refuses it as a transport error: a batch of
  log entries that is too large is sent again and again and never arrives.
\<close>

lemma oversized_frame_refused:
  assumes "wr_frame c f = Inr b" and "MAX_FRAME_LEN < length b" and "length b < 2 ^ 32"
  shows "\<exists>s. write_frame c f = Inr s
    \<and> (\<forall>rest. \<exists>msg. read_frame c (s @ rest) = (Inl (KTransport msg), b @ rest))"
proof -
  define m where "m = length b mod 2 ^ 32"
  have "length b < 256 ^ 4" "m = length b" using assms(3) by (simp_all add: m_def)
  then have n: "of_be_bytes (be_bytes 4 m) = length b" by (simp only: of_be_bytes_inverse)
  have "\<exists>msg. read_frame c ((be_bytes 4 m @ b) @ rest) = (Inl (KTransport msg), b @ rest)" for rest
    using assms(2) by (auto simp: read_frame_def read_len_prefix n Let_def)
  moreover have "write_frame c f = Inr (be_bytes 4 m @ b)"
    using assms(1) by (simp add: write_frame_Inr m_def)
  ultimately show ?thesis by blast
qed

lemma oversized_frame_witness:
  "\<exists>s. write_frame tiny_codec \<lparr> fr_kind = FPing, fr_payload = replicate 16777216 CHR ''x'' \<rparr> = Inr s
    \<and> (\<forall>rest. \<exists>msg. fst (read_frame tiny_codec (s @ rest)) = Inl (KTransport msg))"
proof -
  let ?f = "\<lparr> fr_kind = FPing, fr_payload = replicate 16777216 CHR ''x'' \<rparr>"
  have "wr_frame tiny_codec ?f = Inr (CHR ''i'' # replicate 16777216 CHR ''x'')"
    by (simp add: tiny_codec_def kind_char_def)
  from oversized_frame_refused [OF this] obtain s where "write_frame tiny_codec ?f = Inr s"
    "\<forall>rest. \<exists>msg. read_frame tiny_codec (s @ rest)
       = (Inl (KTransport msg), (CHR ''i'' # replicate 16777216 CHR ''x'') @ rest)"
    by (auto simp: MAX_FRAME_LEN_def)
  then show ?thesis by (metis fst_conv)
qed

section \<open>Sending and expecting a message\<close>

fun kind_debug :: "frame_kind \<Rightarrow> string" where
  "kind_debug FHello = ''Hello''"
| "kind_debug FSyncRequest = ''SyncRequest''"
| "kind_debug FSyncResponse = ''SyncResponse''"
| "kind_debug FPing = ''Ping''"
| "kind_debug FPong = ''Pong''"
| "kind_debug FVoteRequest = ''VoteRequest''"
| "kind_debug FVoteResponse = ''VoteResponse''"

definition send :: "wire_codec \<Rightarrow> frame_kind \<Rightarrow> string + string \<Rightarrow> cluster_error + string" where
  "send c k payload = bind_res (frame_new k payload) (write_frame c)"

definition expect_frame ::
  "wire_codec \<Rightarrow> frame_kind \<Rightarrow> string \<Rightarrow> string \<Rightarrow> string \<Rightarrow> (cluster_error + frame) \<times> string" where
  "expect_frame c k missing label s =
     (case read_frame c s of
        (Inl e, s1) \<Rightarrow> (Inl e, s1)
      | (Inr None, s1) \<Rightarrow> (Inl (KTransport missing), s1)
      | (Inr (Some f), s1) \<Rightarrow>
          (if fr_kind f \<noteq> k
           then (Inl (KTransport (''expected '' @ label @ '', got '' @ kind_debug (fr_kind f))), s1)
           else (Inr f, s1)))"

definition delivered :: "wire_codec \<Rightarrow> frame_kind \<Rightarrow> string + string \<Rightarrow> bool" where
  "delivered c k payload =
     (\<exists>p b. payload = Inr p \<and> wr_frame c \<lparr> fr_kind = k, fr_payload = p \<rparr> = Inr b
            \<and> length b \<le> MAX_FRAME_LEN)"

lemma send_received:
  assumes "frame_codec_ok c" and "delivered c k payload"
  obtains s p where "send c k payload = Inr s" and "payload = Inr p"
    and "\<And>rest. read_frame c (s @ rest) = (Inr (Some \<lparr> fr_kind = k, fr_payload = p \<rparr>), rest)"
proof -
  obtain p b where p: "payload = Inr p" "wr_frame c \<lparr> fr_kind = k, fr_payload = p \<rparr> = Inr b"
    "length b \<le> MAX_FRAME_LEN" using assms(2) by (auto simp: delivered_def)
  then obtain s where s: "write_frame c \<lparr> fr_kind = k, fr_payload = p \<rparr> = Inr s"
    by (auto simp: write_frame_Inr)
  have "read_frame c (s @ rest) = (Inr (Some \<lparr> fr_kind = k, fr_payload = p \<rparr>), rest)" for rest
    using p by (intro read_written [OF assms(1) s]) simp
  moreover have "send c k payload = Inr s" using s p by (simp add: send_def frame_new_def)
  ultimately show thesis using that p(1) by blast
qed

lemma expect_received:
  "read_frame c s = (Inr (Some \<lparr> fr_kind = k, fr_payload = p \<rparr>), rest)
     \<Longrightarrow> expect_frame c k m l s = (Inr \<lparr> fr_kind = k, fr_payload = p \<rparr>, rest)"
  by (simp add: expect_frame_def)

section \<open>The vote exchange\<close>

text \<open>
  \<open>net\<close> is the connection to the peer: the bytes it answers to the bytes sent, or the error of
  connecting or of the stream.
\<close>

definition request_vote ::
  "wire_codec \<Rightarrow> (string \<Rightarrow> cluster_error + string) \<Rightarrow> vote_request \<Rightarrow> cluster_error + vote_response" where
  "request_vote c net req =
     bind_res (send c FHello (wr_hello c \<lparr> hl_last_seq = vq_last_seq req, hl_token = vq_token req, hl_epoch = 0 \<rparr>))
       (\<lambda>a. bind_res (send c FVoteRequest (wr_vote c req))
       (\<lambda>b. bind_res (net (a @ b))
       (\<lambda>reply. bind_res (fst (expect_frame c FVoteResponse ''vote response missing'' ''vote response'' reply))
       (decode_payload (rd_voted c)))))"

definition handle_vote_conn ::
  "wire_codec \<Rightarrow> string option \<Rightarrow> cluster_error + int \<Rightarrow> nat \<Rightarrow> string \<Rightarrow> runtime
     \<Rightarrow> runtime \<times> (cluster_error + string)" where
  "handle_vote_conn c token seq now s st =
     (case expect_frame c FHello ''vote hello missing'' ''hello'' s of
        (Inl e, _) \<Rightarrow> (st, Inl e)
      | (Inr h, s1) \<Rightarrow>
          (case decode_payload (rd_hello c) h of
             Inl e \<Rightarrow> (st, Inl e)
           | Inr _ \<Rightarrow>
               (case expect_frame c FVoteRequest ''vote request missing'' ''vote request'' s1 of
                  (Inl e, _) \<Rightarrow> (st, Inl e)
                | (Inr f, _) \<Rightarrow>
                    (case decode_payload (rd_vote c) f of
                       Inl e \<Rightarrow> (st, Inl e)
                     | Inr req \<Rightarrow>
                         (case seq of
                            Inl e \<Rightarrow> (st, Inl e)
                          | Inr local \<Rightarrow>
                              (case handle_vote token req local now st of
                                 (st', resp) \<Rightarrow> (st', send c FVoteResponse (wr_voted c resp))))))))"

definition reads :: "('a \<Rightarrow> string + string) \<Rightarrow> (string \<Rightarrow> string + 'a) \<Rightarrow> 'a \<Rightarrow> bool" where
  "reads wr rd x = (\<exists>p. wr x = Inr p \<and> rd p = Inr x)"

text \<open>
  A vote requested over the wire is the vote of the handler. When the messages are within
  the frame limit and \<open>serde_json\<close> reads them back, \<open>request_vote\<close> against a peer that runs
  \<open>handle_vote_conn\<close> returns exactly the response of \<open>handle_vote\<close> on the peer's state, and the
  peer is left in exactly the state of \<open>handle_vote\<close>.
\<close>

lemma vote_over_wire:
  fixes req :: vote_request
  defines "h \<equiv> \<lparr> hl_last_seq = vq_last_seq req, hl_token = vq_token req, hl_epoch = 0 \<rparr>"
  assumes c: "frame_codec_ok c"
    and hello: "reads (wr_hello c) (rd_hello c) h" "delivered c FHello (wr_hello c h)"
    and vote: "reads (wr_vote c) (rd_vote c) req" "delivered c FVoteRequest (wr_vote c req)"
    and run: "handle_vote tok req seq now st = (st', resp)"
    and voted: "reads (wr_voted c) (rd_voted c) resp" "delivered c FVoteResponse (wr_voted c resp)"
  shows "request_vote c (\<lambda>bytes. snd (handle_vote_conn c tok (Inr seq) now bytes st)) req = Inr resp
    \<and> (\<forall>a b. send c FHello (wr_hello c h) = Inr a \<and> send c FVoteRequest (wr_vote c req) = Inr b
          \<longrightarrow> fst (handle_vote_conn c tok (Inr seq) now (a @ b) st) = st')"
proof -
  obtain a pa where a: "send c FHello (wr_hello c h) = Inr a" "wr_hello c h = Inr pa"
    "\<And>r. read_frame c (a @ r) = (Inr (Some \<lparr> fr_kind = FHello, fr_payload = pa \<rparr>), r)"
    using send_received [OF c hello(2)] by metis
  obtain b pb where b: "send c FVoteRequest (wr_vote c req) = Inr b" "wr_vote c req = Inr pb"
    "\<And>r. read_frame c (b @ r) = (Inr (Some \<lparr> fr_kind = FVoteRequest, fr_payload = pb \<rparr>), r)"
    using send_received [OF c vote(2)] by metis
  obtain z pz where z: "send c FVoteResponse (wr_voted c resp) = Inr z" "wr_voted c resp = Inr pz"
    "\<And>r. read_frame c (z @ r) = (Inr (Some \<lparr> fr_kind = FVoteResponse, fr_payload = pz \<rparr>), r)"
    using send_received [OF c voted(2)] by metis
  have rd: "rd_hello c pa = Inr h" "rd_vote c pb = Inr req" "rd_voted c pz = Inr resp"
    using hello(1) vote(1) voted(1) a(2) b(2) z(2) by (auto simp: reads_def)
  have "handle_vote_conn c tok (Inr seq) now (a @ b) st = (st', Inr z)"
    using b(3) [of "[]"] rd run z(1)
    by (simp add: handle_vote_conn_def expect_frame_def a(3) decode_payload_def)
  moreover from this z(3) [of "[]"] rd(3) have
    "request_vote c (\<lambda>bytes. snd (handle_vote_conn c tok (Inr seq) now bytes st)) req = Inr resp"
    using a(1) b(1) by (simp add: request_vote_def h_def expect_frame_def decode_payload_def)
  ultimately show ?thesis using a(1) b(1) by simp
qed

lemma vote_over_wire_witness:
  "request_vote tiny_codec
     (\<lambda>bytes. snd (handle_vote_conn tiny_codec None (Inr 0) 9 bytes (runtime_default 0)))
     \<lparr> vq_term = 3, vq_candidate = 1, vq_last_seq = 0, vq_token = [] \<rparr>
   = Inr \<lparr> vr_term = 3, vr_granted = True, vr_last_seq = 0 \<rparr>"
proof -
  let ?req = "\<lparr> vq_term = 3, vq_candidate = 1, vq_last_seq = 0, vq_token = [] \<rparr>"
  have p: "parse_u64 (show_nat 3) = Some 3" by (rule parse_u64_show) simp
  have s: "show_nat 3 = ''3''" by code_simp
  have run: "handle_vote None ?req 0 9 (runtime_default 0)
    = (fst (handle_vote None ?req 0 9 (runtime_default 0)), \<lparr> vr_term = 3, vr_granted = True, vr_last_seq = 0 \<rparr>)"
    by (simp add: handle_vote_def runtime_default_def see_term_def vote_reply_def)
  from vote_over_wire [of tiny_codec ?req, OF tiny_codec_ok _ _ _ _ run] p show ?thesis
    by (simp add: reads_def delivered_def tiny_codec_def MAX_FRAME_LEN_def s)
qed

end
