(* ===== verification/Transport.thy ===== *)
theory Transport
  imports Wire Replay PersistProps
begin

text \<open>
  The two ends of the write-log stream (\<open>fm-cluster/config.rs\<close>, \<open>role.rs\<close>, \<open>transport.rs\<close>): the
  configuration, the role of a node, the leader's side of a connection, one synchronisation of
  a follower, and the follower's loop with its failure count and back-off.

  \<open>env\<close> is the environment, a file of the home directory is its content or \<open>None\<close>. A
  connection is the function from the bytes the follower sends to the bytes it gets back.
\<close>

section \<open>Configuration and role\<close>

definition DEFAULT_SYNC_PORT :: nat where
  "DEFAULT_SYNC_PORT = 11436"

definition DEFAULT_FETCH_LIMIT :: nat where
  "DEFAULT_FETCH_LIMIT = 256"

definition nonempty :: "string option \<Rightarrow> string option" where
  "nonempty x = (case x of Some s \<Rightarrow> if s = [] then None else Some s | None \<Rightarrow> None)"

record cluster_config =
  cc_port :: nat
  cc_bind :: string
  cc_token :: "string option"
  cc_allow_no_token :: bool
  cc_epoch :: nat

definition cluster_config_default :: "(string \<Rightarrow> string option) \<Rightarrow> cluster_config" where
  "cluster_config_default env =
     \<lparr> cc_port = env_number 16 (env ''FUSION_MEMORY_SYNC_PORT'') DEFAULT_SYNC_PORT,
       cc_bind = (case nonempty (env ''FUSION_MEMORY_CLUSTER_BIND_ADDR'') of
                    Some a \<Rightarrow> a | None \<Rightarrow> ''127.0.0.1''),
       cc_token = nonempty (env ''FUSION_MEMORY_CLUSTER_TOKEN''),
       cc_allow_no_token = (case env ''FUSION_MEMORY_CLUSTER_ALLOW_NO_TOKEN'' of
                              Some v \<Rightarrow> v = ''1'' \<or> eq_ignore_ascii_case v ''true'' | None \<Rightarrow> False),
       cc_epoch = env_number 64 (env ''FUSION_MEMORY_CLUSTER_EPOCH'') 0 \<rparr>"

record home =
  hm_role :: "string option"
  hm_epoch :: "string option"

definition read_epoch_file :: "home \<Rightarrow> nat" where
  "read_epoch_file h =
     (case hm_epoch h of
        Some s \<Rightarrow> (case parse_u64 (trim s) of Some n \<Rightarrow> n | None \<Rightarrow> 0)
      | None \<Rightarrow> 0)"

definition write_epoch_file :: "nat \<Rightarrow> home \<Rightarrow> home" where
  "write_epoch_file n h = h\<lparr> hm_epoch := Some (show_nat n) \<rparr>"

definition cluster_config_with_home :: "(string \<Rightarrow> string option) \<Rightarrow> home \<Rightarrow> cluster_config" where
  "cluster_config_with_home env h =
     (let c = cluster_config_default env
      in if cc_epoch c = 0 then c\<lparr> cc_epoch := read_epoch_file h \<rparr> else c)"

record sync_config =
  sc_leader :: string
  sc_heartbeat_secs :: nat
  sc_heartbeat_fails :: nat
  sc_fetch_limit :: nat
  sc_token :: "string option"
  sc_epoch :: nat

definition sync_config_from_env :: "(string \<Rightarrow> string option) \<Rightarrow> sync_config option" where
  "sync_config_from_env env =
     (case env ''FUSION_MEMORY_LEADER'' of
        None \<Rightarrow> None
      | Some l \<Rightarrow> Some
          \<lparr> sc_leader = l,
            sc_heartbeat_secs = env_number 64 (env ''FUSION_MEMORY_HEARTBEAT_SECS'') DEFAULT_HEARTBEAT_SECS,
            sc_heartbeat_fails = env_number 32 (env ''FUSION_MEMORY_HEARTBEAT_FAILS'') DEFAULT_HEARTBEAT_FAILS,
            sc_fetch_limit = env_number 64 (env ''FUSION_MEMORY_FETCH_LIMIT'') DEFAULT_FETCH_LIMIT,
            sc_token = nonempty (env ''FUSION_MEMORY_CLUSTER_TOKEN''),
            sc_epoch = env_number 64 (env ''FUSION_MEMORY_CLUSTER_EPOCH'') 0 \<rparr>)"

datatype node_role = RStandalone | RLeader | RFollower

fun role_as_str :: "node_role \<Rightarrow> string" where
  "role_as_str RStandalone = ''standalone''"
| "role_as_str RLeader = ''leader''"
| "role_as_str RFollower = ''follower''"

definition role_parse :: "string \<Rightarrow> node_role" where
  "role_parse s =
     (if to_ascii_lowercase s = ''leader'' then RLeader
      else if to_ascii_lowercase s = ''follower'' then RFollower
      else RStandalone)"

definition detect_role :: "(string \<Rightarrow> string option) \<Rightarrow> node_role" where
  "detect_role env =
     (case env ''FUSION_MEMORY_ROLE'' of Some v \<Rightarrow> role_parse v | None \<Rightarrow> RStandalone)"

definition detect_role_with_home :: "(string \<Rightarrow> string option) \<Rightarrow> home option \<Rightarrow> node_role" where
  "detect_role_with_home env h =
     (case env ''FUSION_MEMORY_ROLE'' of
        Some v \<Rightarrow> role_parse v
      | None \<Rightarrow>
          (case Option.bind h hm_role of Some s \<Rightarrow> role_parse (trim s) | None \<Rightarrow> RStandalone))"

definition write_role_file :: "node_role \<Rightarrow> home \<Rightarrow> home" where
  "write_role_file r h = h\<lparr> hm_role := Some (role_as_str r) \<rparr>"

section \<open>The leader\<close>

record leader =
  ld_bind :: string
  ld_token :: "string option"
  ld_allow_no_token :: bool
  ld_epoch :: nat

definition leader_of :: "cluster_config \<Rightarrow> leader" where
  "leader_of c = \<lparr> ld_bind = cc_bind c, ld_token = cc_token c,
                   ld_allow_no_token = cc_allow_no_token c, ld_epoch = cc_epoch c \<rparr>"

definition is_loopback :: "string \<Rightarrow> bool" where
  "is_loopback addr =
     (let a = trim addr in
        a = ''127.0.0.1'' \<or> a = ''::1'' \<or> eq_ignore_ascii_case a ''localhost'' \<or> a = ''[::1]''
        \<or> starts_with ''127.'' a)"

text \<open>\<open>bind\<close> up to the call of the operating system.\<close>

definition leader_bind :: "leader \<Rightarrow> cluster_error + unit" where
  "leader_bind l =
     (if \<not> is_loopback (ld_bind l) \<and> ld_token l = None then Inl (KBindRequiresToken (ld_bind l))
      else Inr ())"

definition leader_auth :: "leader \<Rightarrow> string \<Rightarrow> cluster_error + unit" where
  "leader_auth l tok =
     (case (ld_token l, ld_allow_no_token l) of
        (Some expected, _) \<Rightarrow>
          if \<not> constant_time_eq expected tok then Inl (KTransport ''auth: token mismatch'') else Inr ()
      | (None, False) \<Rightarrow> Inl KAuthNotConfigured
      | (None, True) \<Rightarrow> Inr ())"

lemma read_frame_shrinks: "read_frame c s = (Inr (Some f), s1) \<Longrightarrow> length s1 < length s"
  by (auto simp: read_frame_def read_exact_def LEN_BYTES_def Let_def split: if_splits)

text \<open>The answers to the frames that follow the handshake, with the bytes written so far.\<close>

function leader_loop ::
  "wire_codec \<Rightarrow> leader \<Rightarrow> string \<Rightarrow> string \<Rightarrow> db \<Rightarrow> db \<times> string \<times> (cluster_error + unit)" where
  "leader_loop c l out s d =
     (case read_frame c s of
        (Inl e, _) \<Rightarrow> (d, out, Inl e)
      | (Inr None, _) \<Rightarrow> (d, out, Inr ())
      | (Inr (Some f), s1) \<Rightarrow>
          (if fr_kind f = FSyncRequest
           then (case decode_payload (rd_request c) f of
                   Inl e \<Rightarrow> (d, out, Inl e)
                 | Inr req \<Rightarrow>
                     (case list_wop_since (sq_since req) (sq_limit req) d of
                        (d1, Inl e) \<Rightarrow> (d1, out, Inl (KPersist e))
                      | (d1, Inr entries) \<Rightarrow>
                          (case send c FSyncResponse
                                  (wr_response c \<lparr> sr_entries = entries, sr_epoch = ld_epoch l \<rparr>) of
                             Inl e \<Rightarrow> (d1, out, Inl e)
                           | Inr b \<Rightarrow> leader_loop c l (out @ b) s1 d1)))
           else if fr_kind f = FPing
           then (case send c FPong (wr_text c ''ok'') of
                   Inl e \<Rightarrow> (d, out, Inl e)
                 | Inr b \<Rightarrow> leader_loop c l (out @ b) s1 d)
           else (d, out, Inr ())))"
  by pat_completeness auto

termination
  by (relation "measure (\<lambda>(c, l, out, s, d). length s)") (auto dest!: read_frame_shrinks [OF sym])

declare leader_loop.simps [simp del]

definition leader_conn ::
  "wire_codec \<Rightarrow> leader \<Rightarrow> string \<Rightarrow> db \<Rightarrow> db \<times> string \<times> (cluster_error + unit)" where
  "leader_conn c l s d =
     (case expect_frame c FHello ''hello missing'' ''hello'' s of
        (Inl e, _) \<Rightarrow> (d, [], Inl e)
      | (Inr f, s1) \<Rightarrow>
          (case decode_payload (rd_hello c) f of
             Inl e \<Rightarrow> (d, [], Inl e)
           | Inr h \<Rightarrow>
               (let d1 = fst (last_wop_seq d)
                in case leader_auth l (hl_token h) of
                     Inl e \<Rightarrow> (d1, [], Inl e)
                   | Inr _ \<Rightarrow> leader_loop c l [] s1 d1)))"

section \<open>The follower\<close>

definition follower_hello :: "sync_config \<Rightarrow> int \<Rightarrow> hello" where
  "follower_hello cfg seq =
     \<lparr> hl_last_seq = seq, hl_token = (case sc_token cfg of Some t \<Rightarrow> t | None \<Rightarrow> []), hl_epoch = sc_epoch cfg \<rparr>"

text \<open>\<open>sync_once\<close> up to the decoded response.\<close>

definition fetch ::
  "wire_codec \<Rightarrow> sync_config \<Rightarrow> (string \<Rightarrow> cluster_error + string) \<Rightarrow> int \<Rightarrow> cluster_error + sync_response" where
  "fetch c cfg net seq =
     bind_res (send c FHello (wr_hello c (follower_hello cfg seq)))
       (\<lambda>a. bind_res (send c FSyncRequest (wr_request c \<lparr> sq_since = seq, sq_limit = sc_fetch_limit cfg \<rparr>))
       (\<lambda>b. bind_res (net (a @ b))
       (\<lambda>reply. bind_res (fst (expect_frame c FSyncResponse ''sync response missing'' ''sync response'' reply))
       (decode_payload (rd_response c)))))"

definition stale_leader :: "sync_config \<Rightarrow> sync_response \<Rightarrow> bool" where
  "stale_leader cfg resp = (sc_epoch cfg > 0 \<and> sr_epoch resp < sc_epoch cfg)"

definition sync_once ::
  "wire_codec \<Rightarrow> payload_codec \<Rightarrow> sync_config \<Rightarrow> 's sink \<Rightarrow> (string \<Rightarrow> cluster_error + string)
     \<Rightarrow> int \<times> 's \<Rightarrow> (int \<times> 's) \<times> (cluster_error + int \<times> nat \<times> bool \<times> bool)" where
  "sync_once c pc cfg k net = (\<lambda>(seq, s).
     (case fetch c cfg net seq of
        Inl e \<Rightarrow> ((seq, s), Inl e)
      | Inr resp \<Rightarrow>
          (if stale_leader cfg resp
           then ((seq, s), Inl (KStaleLeader (sr_epoch resp) (sc_epoch cfg)))
           else (case replay_wops pc k (sr_entries resp) s of
                   (s1, r) \<Rightarrow>
                     let seq1 = (if ro_last_seq r > seq then ro_last_seq r else seq)
                     in ((seq1, s1), Inr (seq1, ro_applied r, ro_failed r, ro_permanent r))))))"

definition heartbeat ::
  "wire_codec \<Rightarrow> sync_config \<Rightarrow> (string \<Rightarrow> cluster_error + string) \<Rightarrow> int \<Rightarrow> cluster_error + bool" where
  "heartbeat c cfg net seq =
     bind_res (send c FHello (wr_hello c (follower_hello cfg seq)))
       (\<lambda>a. bind_res (send c FPing (wr_text c ''hb''))
       (\<lambda>b. bind_res (net (a @ b))
       (\<lambda>reply. case fst (read_frame c reply) of
                  Inl e \<Rightarrow> Inl e
                | Inr None \<Rightarrow> Inl (KTransport ''heartbeat no pong'')
                | Inr (Some f) \<Rightarrow> Inr (fr_kind f = FPong))))"

section \<open>The follower's loop\<close>

definition backoff_jitter :: "nat \<Rightarrow> int \<Rightarrow> nat" where
  "backoff_jitter base seed =
     (if base \<le> 1 then 0
      else let span = base div 4;
               s = (of_int (abs seed) :: 64 word) + 1;
               h = s * 11400714819323198485
           in if span = 0 then 0 else unat h mod (span + 1))"

record run_state =
  rs_fails :: nat
  rs_backoff :: nat

definition run_init :: run_state where
  "run_init = \<lparr> rs_fails = 0, rs_backoff = 1 \<rparr>"

datatype notice = SyncOk | SyncStale | NoNotice

datatype run_act = Pause notice nat | GiveUp nat

text \<open>
  One turn of the loop of \<open>run\<close>, given the result of \<open>sync_once\<close> and the cursor after it: what
  the sink is told, how long the follower sleeps, or the error it returns with.
\<close>

definition run_step ::
  "sync_config \<Rightarrow> int \<times> (cluster_error + int \<times> nat \<times> bool \<times> bool) \<Rightarrow> run_state \<Rightarrow> run_state \<times> run_act" where
  "run_step cfg = (\<lambda>(seq, res) st.
     (case res of
        Inr (_, _, failed, permanent) \<Rightarrow>
          (let st1 = st\<lparr> rs_fails := 0 \<rparr>
           in if failed
              then if permanent then (st1, Pause SyncStale (sc_heartbeat_secs cfg))
                   else let b = min (rs_backoff st1 * 2) 60
                        in (st1\<lparr> rs_backoff := b \<rparr>, Pause NoNotice (b + backoff_jitter b seq))
              else (st1\<lparr> rs_backoff := 1 \<rparr>, Pause SyncOk (sc_heartbeat_secs cfg)))
      | Inl e \<Rightarrow>
          (if is_permanent e then (st, Pause SyncStale (sc_heartbeat_secs cfg))
           else let n = rs_fails st + 1
                in (st\<lparr> rs_fails := n \<rparr>,
                    if n \<ge> sc_heartbeat_fails cfg then GiveUp n
                    else Pause SyncStale (sc_heartbeat_secs cfg)))))"

section \<open>A follower and a leader\<close>

lemma read_frame_Nil [simp]: "read_frame c [] = (Inr None, [])"
  by (simp add: read_frame_def read_exact_def LEN_BYTES_def)

text \<open>The messages of a synchronisation arrive: they are within the limit and read back.\<close>

definition sync_delivered ::
  "wire_codec \<Rightarrow> sync_config \<Rightarrow> int \<Rightarrow> sync_response \<Rightarrow> bool" where
  "sync_delivered c cfg seq resp =
     (frame_codec_ok c
      \<and> reads (wr_hello c) (rd_hello c) (follower_hello cfg seq)
      \<and> delivered c FHello (wr_hello c (follower_hello cfg seq))
      \<and> reads (wr_request c) (rd_request c) \<lparr> sq_since = seq, sq_limit = sc_fetch_limit cfg \<rparr>
      \<and> delivered c FSyncRequest (wr_request c \<lparr> sq_since = seq, sq_limit = sc_fetch_limit cfg \<rparr>)
      \<and> reads (wr_response c) (rd_response c) resp
      \<and> delivered c FSyncResponse (wr_response c resp))"

definition leader_net :: "wire_codec \<Rightarrow> leader \<Rightarrow> db \<Rightarrow> string \<Rightarrow> cluster_error + string" where
  "leader_net c l d bytes = Inr (fst (snd (leader_conn c l bytes d)))"

lemma leader_conn_fetch:
  assumes del: "sync_delivered c cfg seq \<lparr> sr_entries = es, sr_epoch = ld_epoch l \<rparr>"
    and q: "list_wop_since seq (sc_fetch_limit cfg) (fst (last_wop_seq d)) = (d', Inr es)"
  shows "fetch c cfg (leader_net c l d) seq =
    (case leader_auth l (hl_token (follower_hello cfg seq)) of
       Inl _ \<Rightarrow> Inl (KTransport ''sync response missing'')
     | Inr _ \<Rightarrow> Inr \<lparr> sr_entries = es, sr_epoch = ld_epoch l \<rparr>)"
proof -
  let ?h = "follower_hello cfg seq" and ?r = "\<lparr> sr_entries = es, sr_epoch = ld_epoch l \<rparr>"
  let ?q = "\<lparr> sq_since = seq, sq_limit = sc_fetch_limit cfg \<rparr>"
  have c: "frame_codec_ok c" using del by (simp add: sync_delivered_def)
  obtain a pa where a: "send c FHello (wr_hello c ?h) = Inr a" "wr_hello c ?h = Inr pa"
    "\<And>r. read_frame c (a @ r) = (Inr (Some \<lparr> fr_kind = FHello, fr_payload = pa \<rparr>), r)"
    using send_received [OF c, of FHello "wr_hello c ?h"] del unfolding sync_delivered_def by metis
  obtain b pb where b: "send c FSyncRequest (wr_request c ?q) = Inr b" "wr_request c ?q = Inr pb"
    "\<And>r. read_frame c (b @ r) = (Inr (Some \<lparr> fr_kind = FSyncRequest, fr_payload = pb \<rparr>), r)"
    using send_received [OF c, of FSyncRequest "wr_request c ?q"] del unfolding sync_delivered_def by metis
  obtain z pz where z: "send c FSyncResponse (wr_response c ?r) = Inr z" "wr_response c ?r = Inr pz"
    "\<And>r. read_frame c (z @ r) = (Inr (Some \<lparr> fr_kind = FSyncResponse, fr_payload = pz \<rparr>), r)"
    using send_received [OF c, of FSyncResponse "wr_response c ?r"] del unfolding sync_delivered_def by metis
  have rd: "rd_hello c pa = Inr ?h" "rd_request c pb = Inr ?q" "rd_response c pz = Inr ?r"
    using del a(2) b(2) z(2) by (auto simp: sync_delivered_def reads_def)
  have loop: "leader_loop c l [] b (fst (last_wop_seq d)) = (d', z, Inr ())"
    using b(3) [of "[]"] q z(1) rd(2)
    by (subst leader_loop.simps) (simp add: decode_payload_def leader_loop.simps [of c l z "[]"])
  show ?thesis
    using a(1) b(1) loop rd z(3) [of "[]"]
    by (auto simp: fetch_def leader_net_def leader_conn_def expect_frame_def a(3) decode_payload_def Let_def
        split: sum.splits)
qed

text \<open>
  C34: a synchronisation with a leader that accepts the token delivers exactly the next batch of
  the leader's write log after the follower's cursor, with the leader's epoch. A leader that
  does not accept it sends nothing back, and the follower takes this for a transport error,
  which is not permanent and counts towards giving the leader up.
\<close>

theorem fetch_from_leader:
  assumes "sync_delivered c cfg seq
      \<lparr> sr_entries = wop_since seq (sc_fetch_limit cfg) (db_wop d), sr_epoch = ld_epoch l \<rparr>"
    and "db_faults d = []"
  shows "fetch c cfg (leader_net c l d) seq =
      (if (case ld_token l of
             Some t \<Rightarrow> t = (case sc_token cfg of Some x \<Rightarrow> x | None \<Rightarrow> [])
           | None \<Rightarrow> ld_allow_no_token l)
       then Inr \<lparr> sr_entries = wop_since seq (sc_fetch_limit cfg) (db_wop d), sr_epoch = ld_epoch l \<rparr>
       else Inl (KTransport ''sync response missing''))"
proof -
  have d: "fst (last_wop_seq d) = d"
    using assms(2) by (simp add: last_wop_seq_def db_query_def db_op_def)
  have "list_wop_since seq (sc_fetch_limit cfg) (fst (last_wop_seq d))
      = (d, Inr (wop_since seq (sc_fetch_limit cfg) (db_wop d)))"
    using assms(2) unfolding d by (simp add: list_wop_since_def db_query_def db_op_def)
  from leader_conn_fetch [OF assms(1) this] show ?thesis
    by (auto simp: leader_auth_def follower_hello_def constant_time_eq_iff split: option.splits bool.splits)
qed

definition demo_sync :: sync_config where
  "demo_sync = \<lparr> sc_leader = ''leader:1'', sc_heartbeat_secs = 5, sc_heartbeat_fails = 3, sc_fetch_limit = 8,
                 sc_token = Some ''t'', sc_epoch = 0 \<rparr>"

definition demo_leader :: leader where
  "demo_leader = \<lparr> ld_bind = ''127.0.0.1'', ld_token = Some ''t'', ld_allow_no_token = False, ld_epoch = 3 \<rparr>"

lemma demo_delivered:
  "sync_delivered tiny_codec demo_sync 0 \<lparr> sr_entries = [], sr_epoch = 3 \<rparr>"
proof -
  have "show_nat 8 = ''8''" "show_nat 3 = ''3''" by code_simp+
  moreover have "parse_u64 (show_nat 8) = Some 8" "parse_u64 (show_nat 3) = Some 3"
    by (simp_all add: parse_u64_show)
  ultimately show ?thesis
    using tiny_codec_ok
    by (simp add: sync_delivered_def reads_def delivered_def follower_hello_def demo_sync_def tiny_codec_def
        MAX_FRAME_LEN_def)
qed

lemma fetch_from_leader_witness:
  "fetch tiny_codec demo_sync (leader_net tiny_codec demo_leader (empty_db [])) 0
     = Inr \<lparr> sr_entries = [], sr_epoch = 3 \<rparr>"
proof -
  have "wop_since 0 (sc_fetch_limit demo_sync) (db_wop (empty_db [])) = []" "db_faults (empty_db []) = []"
    by (simp_all add: wop_since_def empty_db_def sql_limit_def Let_def)
  with fetch_from_leader [of tiny_codec demo_sync 0 "empty_db []" demo_leader] demo_delivered
  show ?thesis by (simp add: demo_leader_def demo_sync_def)
qed

text \<open>
  a stale leader is fenced off. A follower that expects an epoch and gets a response with a
  smaller one replays nothing, keeps its cursor, and reports a permanent error, on which its
  loop marks the node stale but never gives the leader up.
\<close>

lemma stale_leader_fenced:
  assumes "fetch c cfg net seq = Inr resp" and "sr_epoch resp < sc_epoch cfg"
  shows "\<exists>e. sync_once c pc cfg k net (seq, s) = ((seq, s), Inl e) \<and> is_permanent e
    \<and> (\<forall>st. run_step cfg (seq, Inl e) st = (st, Pause SyncStale (sc_heartbeat_secs cfg)))"
  using assms by (simp add: sync_once_def stale_leader_def run_step_def)

lemma stale_leader_fenced_witness:
  "\<exists>e. sync_once tiny_codec no_codec (demo_sync\<lparr> sc_epoch := 7 \<rparr>) list_sink
         (\<lambda>_. send tiny_codec FSyncResponse (Inr (show_nat 3))) (0, []) = ((0, []), Inl e)
     \<and> is_permanent e"
proof -
  let ?cfg = "demo_sync\<lparr> sc_epoch := 7 \<rparr>"
  have s: "show_nat 8 = ''8''" "show_nat 3 = ''3''" by code_simp+
  have "delivered tiny_codec FSyncResponse (Inr (show_nat 3))"
    by (simp add: delivered_def tiny_codec_def MAX_FRAME_LEN_def s)
  then obtain z p where z: "send tiny_codec FSyncResponse (Inr (show_nat 3)) = Inr z" "Inr (show_nat 3) = (Inr p :: string + string)"
    "\<And>r. read_frame tiny_codec (z @ r) = (Inr (Some \<lparr> fr_kind = FSyncResponse, fr_payload = p \<rparr>), r)"
    by (rule send_received [OF tiny_codec_ok]) blast
  have pp: "p = show_nat 3" using z(2) by simp
  have "rd_response tiny_codec (show_nat 3) = Inr \<lparr> sr_entries = [], sr_epoch = 3 \<rparr>"
    by (simp add: tiny_codec_def parse_u64_show)
  then have "fetch tiny_codec ?cfg (\<lambda>_. send tiny_codec FSyncResponse (Inr (show_nat 3))) 0
      = Inr \<lparr> sr_entries = [], sr_epoch = 3 \<rparr>"
    using z(3) [of "[]"] unfolding z(1)
    by (simp add: fetch_def expect_frame_def decode_payload_def pp)
       (simp add: send_def frame_new_def write_frame_def tiny_codec_def)
  from stale_leader_fenced [OF this, of no_codec list_sink "[]"] show ?thesis by (auto simp: demo_sync_def)
qed

section \<open>Giving the leader up\<close>

definition transport_error :: "cluster_error + 'a \<Rightarrow> bool" where
  "transport_error r = (case r of Inl e \<Rightarrow> \<not> is_permanent e | Inr _ \<Rightarrow> False)"

text \<open>The number of transport errors since the last successful synchronisation.\<close>

fun errors_since_ok :: "(int \<times> (cluster_error + 'a)) list \<Rightarrow> nat \<Rightarrow> nat" where
  "errors_since_ok [] n = n"
| "errors_since_ok ((q, Inr _) # rs) n = errors_since_ok rs 0"
| "errors_since_ok ((q, Inl e) # rs) n = errors_since_ok rs (if is_permanent e then n else n + 1)"

definition run_after ::
  "sync_config \<Rightarrow> (int \<times> (cluster_error + int \<times> nat \<times> bool \<times> bool)) list \<Rightarrow> run_state \<Rightarrow> run_state" where
  "run_after cfg rs st = foldl (\<lambda>st r. fst (run_step cfg r st)) st rs"

lemma run_after_simps [simp]:
  "run_after cfg [] st = st"
  "run_after cfg (r # rs) st = run_after cfg rs (fst (run_step cfg r st))"
  by (simp_all add: run_after_def)

lemma run_after_fails: "rs_fails (run_after cfg rs st) = errors_since_ok rs (rs_fails st)"
proof (induction rs arbitrary: st)
  case (Cons r rs)
  obtain q res where r: "r = (q, res)" by fastforce
  show ?case
    by (cases res) (auto simp: r Cons run_step_def Let_def split: prod.splits)
qed simp

lemma jitter_bound: "backoff_jitter b q \<le> b div 4"
proof -
  have "x mod (b div 4 + 1) \<le> b div 4" for x :: nat
    using mod_less_divisor [of "b div 4 + 1" x] by linarith
  then show ?thesis by (simp add: backoff_jitter_def Let_def)
qed

text \<open>
  after any history of synchronisations, the follower gives the leader up exactly on a
  transport error that makes at least \<open>heartbeat_fails\<close> of them since the last success, whatever
  permanent errors lie between; a batch that fails to replay never counts. Otherwise it sleeps
  the heartbeat interval, or backs off at most 75 seconds.
\<close>

lemma run_gives_up_iff:
  "((\<exists>n. snd (run_step cfg (q, res) (run_after cfg rs run_init)) = GiveUp n) \<longleftrightarrow>
      transport_error res \<and> sc_heartbeat_fails cfg \<le> errors_since_ok rs 0 + 1)
   \<and> (case snd (run_step cfg (q, res) (run_after cfg rs run_init)) of
        GiveUp n \<Rightarrow> n = errors_since_ok rs 0 + 1
      | Pause _ t \<Rightarrow> t = sc_heartbeat_secs cfg \<or> t \<le> 75)"
proof -
  define st where "st = run_after cfg rs run_init"
  have f: "rs_fails st = errors_since_ok rs 0" by (simp add: st_def run_after_fails run_init_def)
  have jit: "min (rs_backoff st * 2) 60 + backoff_jitter (min (rs_backoff st * 2) 60) q \<le> 75"
    using jitter_bound [of "min (rs_backoff st * 2) 60" q] by linarith
  show ?thesis unfolding st_def [symmetric]
  proof (cases res)
    case (Inl e)
    with f show "((\<exists>n. snd (run_step cfg (q, res) st) = GiveUp n) \<longleftrightarrow>
        transport_error res \<and> sc_heartbeat_fails cfg \<le> errors_since_ok rs 0 + 1)
      \<and> (case snd (run_step cfg (q, res) st) of
           GiveUp n \<Rightarrow> n = errors_since_ok rs 0 + 1
         | Pause _ t \<Rightarrow> t = sc_heartbeat_secs cfg \<or> t \<le> 75)"
      by (simp add: run_step_def transport_error_def Let_def)
  next
    case (Inr x)
    obtain a b failed permanent where x: "x = (a, b, failed, permanent)" by (cases x)
    from jit Inr show "((\<exists>n. snd (run_step cfg (q, res) st) = GiveUp n) \<longleftrightarrow>
        transport_error res \<and> sc_heartbeat_fails cfg \<le> errors_since_ok rs 0 + 1)
      \<and> (case snd (run_step cfg (q, res) st) of
           GiveUp n \<Rightarrow> n = errors_since_ok rs 0 + 1
         | Pause _ t \<Rightarrow> t = sc_heartbeat_secs cfg \<or> t \<le> 75)"
      by (simp add: x run_step_def transport_error_def Let_def)
  qed
qed

section \<open>Following a log\<close>

lemma top_seq_ge: "a \<le> top_seq a ws"
proof (induction ws arbitrary: a)
  case (Cons w ws)
  from Cons.IH [of "max a (we_seq w)"] show ?case by simp
qed simp

lemma sorted_cut:
  fixes f :: "'a \<Rightarrow> int"
  shows "sorted_wrt (<) (map f ws) \<Longrightarrow> filter (\<lambda>w. f w \<le> q) ws @ filter (\<lambda>w. f w > q) ws = ws"
proof (induction ws)
  case (Cons w ws)
  show ?case
  proof (cases "f w \<le> q")
    case False
    with Cons.prems have "\<forall>v \<in> set (w # ws). q < f v" by auto
    then have "filter (\<lambda>v. f v \<le> q) (w # ws) = []" "filter (\<lambda>v. f v > q) (w # ws) = w # ws"
      by (auto simp: filter_empty_conv filter_id_conv)
    then show ?thesis by simp
  qed (use Cons in simp)
qed simp

lemma sorted_cut_at:
  fixes f :: "'a \<Rightarrow> int"
  assumes s: "sorted_wrt (<) (map f (xs @ ys))" and ne: "xs \<noteq> []"
  shows "filter (\<lambda>w. f w \<le> f (last xs)) (xs @ ys) = xs"
    and "filter (\<lambda>w. f w > f (last xs)) (xs @ ys) = ys"
proof -
  have "\<forall>y \<in> set ys. f (last xs) < f y" using s ne by (simp add: sorted_wrt_append)
  moreover have "\<forall>x \<in> set xs. f x \<le> f (last xs)"
  proof -
    obtain zs z where xs: "xs = zs @ [z]" using ne by (cases xs rule: rev_cases) auto
    show ?thesis using s by (auto simp: xs sorted_wrt_append)
  qed
  ultimately have "filter (\<lambda>w. f w \<le> f (last xs)) xs = xs" "filter (\<lambda>w. f w \<le> f (last xs)) ys = []"
    "filter (\<lambda>w. f w > f (last xs)) xs = []" "filter (\<lambda>w. f w > f (last xs)) ys = ys"
    by (auto simp: filter_empty_conv filter_id_conv)
  then show "filter (\<lambda>w. f w \<le> f (last xs)) (xs @ ys) = xs"
    and "filter (\<lambda>w. f w > f (last xs)) (xs @ ys) = ys" by simp_all
qed

text \<open>
  An honest response is a batch of the log after the cursor, of the part of the log that the
  leader has written when it answers.
\<close>

definition honest :: "wop_entry list \<Rightarrow> int \<Rightarrow> sync_response \<Rightarrow> bool" where
  "honest ws seq resp =
     (\<exists>b rest. sr_entries resp = b \<and> filter (\<lambda>w. we_seq w > seq) ws = b @ rest)"

context replica
begin

text \<open>
  A follower at cursor \<open>seq\<close> of the log \<open>ws\<close>: it has done the entries up to its cursor, and may
  have the effect of the next one too.
\<close>

definition follows :: "payload_codec \<Rightarrow> item_map \<Rightarrow> wop_entry list \<Rightarrow> int \<Rightarrow> 's \<Rightarrow> bool" where
  "follows c f ws seq s =
     tracks c f (filter (\<lambda>w. we_seq w \<le> seq) ws) (filter (\<lambda>w. we_seq w > seq) ws) s"

lemma follows_batch:
  assumes log: "sorted_wrt (<) (map we_seq ws)" "\<forall>w \<in> set ws. 0 < we_seq w"
    and seq: "0 \<le> seq" and f: "follows c f ws seq s"
    and b: "filter (\<lambda>w. we_seq w > seq) ws = b @ rest"
    and run: "replay_wops c k b s = (s', r)"
  shows "follows c f ws (if ro_last_seq r > seq then ro_last_seq r else seq) s'"
proof -
  obtain pre post where p: "b = pre @ post" "batch_result c k pre post s s' r"
    and last: "ro_last_seq r = top_seq 0 pre"
    using replay_loop_split [OF run [unfolded replay_wops_def]] by (auto simp: no_outcome_def)
  let ?ds = "filter (\<lambda>w. we_seq w \<le> seq) ws"
  have t: "tracks c f (?ds @ pre) (post @ rest) s'"
    using tracks_batch [OF p(2)] f b p(1) by (simp add: follows_def)
  have split: "ws = (?ds @ pre) @ (post @ rest)"
    using sorted_cut [OF log(1), of seq] b p(1) by simp
  have "set pre \<subseteq> set (filter (\<lambda>w. we_seq w > seq) ws)" unfolding b p(1) by auto
  then have pos: "\<forall>w \<in> set pre. seq < we_seq w \<and> 0 < we_seq w" using seq by auto
  have swa: "sorted_wrt (<) (map we_seq ((?ds @ pre) @ (post @ rest)))"
    by (subst split [symmetric]) (rule log(1))
  then have sw: "sorted_wrt (<) (map we_seq pre)" by (simp add: sorted_wrt_append)
  have ls: "ro_last_seq r = (if pre = [] then 0 else we_seq (last pre))"
    using top_seq_sorted [OF sw, of 0] pos last by simp
  show ?thesis
  proof (cases "pre = []")
    case True
    then show ?thesis using ls seq t p(1) b by (simp add: follows_def)
  next
    case False
    then have q: "seq < ro_last_seq r" "ro_last_seq r = we_seq (last (?ds @ pre))"
      using pos ls by auto
    have "filter (\<lambda>w. we_seq w \<le> ro_last_seq r) ws = ?ds @ pre"
      "filter (\<lambda>w. we_seq w > ro_last_seq r) ws = post @ rest"
      using sorted_cut_at [OF swa] False unfolding split [symmetric] q(2) by simp_all
    then show ?thesis using t q(1) by (simp add: follows_def)
  qed
qed

lemma follows_sync:
  assumes log: "sorted_wrt (<) (map we_seq ws)" "\<forall>w \<in> set ws. 0 < we_seq w"
    and seq: "0 \<le> seq" and f: "follows pc f ws seq s"
    and h: "\<And>resp. fetch c cfg net seq = Inr resp \<Longrightarrow> honest ws seq resp"
    and run: "sync_once c pc cfg k net (seq, s) = ((seq', s'), res)"
  shows "follows pc f ws seq' s' \<and> seq \<le> seq'"
proof (cases "fetch c cfg net seq")
  case (Inl e)
  then show ?thesis using run f by (simp add: sync_once_def)
next
  case (Inr resp)
  show ?thesis
  proof (cases "stale_leader cfg resp")
    case True
    then show ?thesis using run f Inr by (simp add: sync_once_def)
  next
    case False
    obtain s1 r where r: "replay_wops pc k (sr_entries resp) s = (s1, r)" by fastforce
    then have "s' = s1" "seq' = (if ro_last_seq r > seq then ro_last_seq r else seq)"
      using run Inr False by (auto simp: sync_once_def Let_def)
    moreover obtain rest where "filter (\<lambda>w. we_seq w > seq) ws = sr_entries resp @ rest"
      using h [OF Inr] by (auto simp: honest_def)
    ultimately show ?thesis using follows_batch [OF log seq f _ r] by simp
  qed
qed

end

end
