(* ===== verification/Failover.thy ===== *)
theory Failover
  imports Transport
begin

text \<open>
  The assembly of the cluster tasks in the server (\<open>fm-server/cluster.rs\<close>): which tasks a role
  starts, and one turn of the follower's orbit, which campaigns when its leader is down and
  promotes the node by writing its epoch and role files.
\<close>

datatype cluster_task =
    TLeader nat leader
  | TVotes string election_config
  | TFollow sync_config int
  | TOrbit sync_config int election_config

definition vote_listener :: "election_config \<Rightarrow> cluster_task" where
  "vote_listener ec = TVotes (ec_nodes ec ! ec_self ec) ec"

definition spawn_cluster ::
  "(string \<Rightarrow> string option) \<Rightarrow> node_role \<Rightarrow> home \<Rightarrow> memory_error + int \<Rightarrow> cluster_task list" where
  "spawn_cluster env role h lastq =
     (let election_cfg = (case election_from_env env of Inr (Some c) \<Rightarrow> Some c | _ \<Rightarrow> None)
      in case role of
           RLeader \<Rightarrow>
             (let cfg = cluster_config_with_home env h
              in TLeader (cc_port cfg) (leader_of cfg)
                 # (case election_cfg of Some ec \<Rightarrow> [vote_listener ec] | None \<Rightarrow> []))
         | RFollower \<Rightarrow>
             (case sync_config_from_env env of
                None \<Rightarrow> []
              | Some cfg \<Rightarrow>
                  (let seq = (case lastq of Inr s \<Rightarrow> s | Inl _ \<Rightarrow> 0)
                   in case election_cfg of
                        Some ec \<Rightarrow> [vote_listener ec, TOrbit cfg seq ec]
                      | None \<Rightarrow> [TFollow cfg seq]))
         | RStandalone \<Rightarrow> [])"

datatype orbit = Stop "string + unit" | Again int

text \<open>
  One turn: the result of \<open>run\<close>, of the campaign that may follow, of the two file writes
  (\<open>Some\<close> an error text), and of \<open>last_log_seq\<close>.
\<close>

definition orbit_turn ::
  "cluster_error + unit \<Rightarrow> cluster_error + bool \<Rightarrow> string option \<Rightarrow> string option
     \<Rightarrow> cluster_error + int \<Rightarrow> int \<Rightarrow> home \<Rightarrow> home \<times> orbit" where
  "orbit_turn run campaign epoch_err role_err lastq seq h =
     (case run of
        Inr _ \<Rightarrow> (h, Stop (Inr ()))
      | Inl e \<Rightarrow>
          (if (case e of KLeaderDown _ \<Rightarrow> False | _ \<Rightarrow> True)
           then (h, Stop (Inl (''follower run permanent error: '' @ cluster_display e)))
           else case campaign of
             Inl e1 \<Rightarrow> (h, Stop (Inl (''campaign: '' @ cluster_display e1)))
           | Inr won \<Rightarrow>
               (if won
                then let n = (read_epoch_file h + 1) mod 2 ^ 64
                     in case epoch_err of
                          Some x \<Rightarrow> (h, Stop (Inl (''write epoch: '' @ x)))
                        | None \<Rightarrow>
                            (let h1 = write_epoch_file n h
                             in case role_err of
                                  Some x \<Rightarrow> (h1, Stop (Inl (''write role: '' @ x)))
                                | None \<Rightarrow> (write_role_file RLeader h1, Stop (Inr ())))
                else (h, Again (case lastq of Inr s \<Rightarrow> s | Inl _ \<Rightarrow> seq)))))"

section \<open>Promotion\<close>

lemma trim_id: "\<forall>c \<in> set s. \<not> is_space c \<Longrightarrow> trim s = s"
proof -
  have *: "\<forall>c \<in> set t. \<not> is_space c \<Longrightarrow> dropWhile is_space t = t" for t by (cases t) auto
  assume "\<forall>c \<in> set s. \<not> is_space c"
  then show ?thesis by (simp add: trim_def trim_with_def *)
qed

lemma digit_not_space: "d < 10 \<Longrightarrow> \<not> is_space (digit_char d)"
  by (simp add: is_space_def Let_def of_char_digit)

lemma trim_show_nat [simp]: "trim (show_nat n) = show_nat n"
  using show_nat_digits digit_not_space by (intro trim_id) blast

lemma read_write_epoch: "n < 2 ^ 64 \<Longrightarrow> read_epoch_file (write_epoch_file n h) = n"
  by (simp add: read_epoch_file_def write_epoch_file_def parse_u64_show)

lemma role_parse_as_str: "role_parse (trim (role_as_str r)) = r"
proof (cases r)
  case RStandalone
  moreover have "role_parse (trim (role_as_str RStandalone)) = RStandalone" by code_simp
  ultimately show ?thesis by simp
next
  case RLeader
  moreover have "role_parse (trim (role_as_str RLeader)) = RLeader" by code_simp
  ultimately show ?thesis by simp
next
  case RFollower
  moreover have "role_parse (trim (role_as_str RFollower)) = RFollower" by code_simp
  ultimately show ?thesis by simp
qed

text \<open>
  a node that wins its campaign comes back as the leader. After a winning turn whose files
  are written, and a restart whose environment sets neither role nor epoch, the node starts a
  leader with an epoch one above the one it had on disk; but a role in the environment wins
  over the file, so a node started with \<open>FUSION_MEMORY_ROLE=follower\<close> stays a follower.
\<close>

lemma promotion_survives_restart:
  assumes win: "orbit_turn (Inl (KLeaderDown n)) (Inr True) None None lastq seq h = (h', out)"
    and small: "read_epoch_file h + 1 < 2 ^ 64"
    and epoch: "env ''FUSION_MEMORY_CLUSTER_EPOCH'' = None"
  shows "detect_role_with_home env (Some h') =
      (case env ''FUSION_MEMORY_ROLE'' of None \<Rightarrow> RLeader | Some v \<Rightarrow> role_parse v)
    \<and> cc_epoch (cluster_config_with_home env h') = read_epoch_file h + 1
    \<and> (\<exists>port l ts. spawn_cluster env RLeader h' q = TLeader port l # ts
                 \<and> ld_epoch l = read_epoch_file h + 1)"
proof -
  have h': "h' = write_role_file RLeader (write_epoch_file (read_epoch_file h + 1) h)"
    using win small by (simp add: orbit_turn_def Let_def)
  have "read_epoch_file h' = read_epoch_file h + 1"
    using read_write_epoch [OF small, of h] by (simp add: h' write_role_file_def read_epoch_file_def)
  then have ep: "cc_epoch (cluster_config_with_home env h') = read_epoch_file h + 1"
    using epoch by (simp add: cluster_config_with_home_def cluster_config_default_def env_number_def Let_def)
  moreover have "detect_role_with_home env (Some h') =
      (case env ''FUSION_MEMORY_ROLE'' of None \<Rightarrow> RLeader | Some v \<Rightarrow> role_parse v)"
    using role_parse_as_str [of RLeader]
    by (simp add: detect_role_with_home_def h' write_role_file_def split: option.split)
  ultimately show ?thesis by (simp add: spawn_cluster_def Let_def leader_of_def)
qed

lemma promotion_witness:
  "detect_role_with_home (\<lambda>_. None)
     (Some (fst (orbit_turn (Inl (KLeaderDown 3)) (Inr True) None None (Inr 0) 0
        \<lparr> hm_role = Some ''follower'', hm_epoch = Some ''4'' \<rparr>))) = RLeader"
proof -
  let ?h = "\<lparr> hm_role = Some ''follower'', hm_epoch = Some ''4'' \<rparr>"
  have "trim ''4'' = ''4''" by code_simp
  moreover have "parse_u64 ''4'' = Some 4"
    by (simp add: parse_u64_def parse_unsigned_def digit_val_def Let_def)
  ultimately have "read_epoch_file ?h = 4" by (simp add: read_epoch_file_def)
  then have "read_epoch_file ?h + 1 < 2 ^ 64" by simp
  from promotion_survives_restart [OF prod.collapse [symmetric] this,
      where env = "\<lambda>_. None" and n = 3 and lastq = "Inr 0" and seq = 0]
  show ?thesis by simp
qed

end
