(* ===== verification/Config.thy ===== *)
theory Config
  imports Embedding Failover
begin

text \<open>
  The configuration of the server (\<open>fm-server/config.rs\<close>): defaults, the TOML file, the
  environment, the secret files and the check at the start; and the engine that is built from it
  (\<open>fm-server/engine_builder.rs\<close>).

  The operating system is a record: its variables and the contents of its files. Reading TOML is
  a parameter of it.
\<close>

section \<open>The configuration\<close>

record server_config =
  cg_data_dir :: string
  cg_sock :: string
  cg_port :: nat
  cg_api_key :: string
  cg_dim :: nat
  cg_uds :: bool
  cg_uds_token :: string
  cg_gateway :: bool
  cg_tenant :: string
  cg_multi :: bool
  cg_identity_url :: string
  cg_identity_token :: string
  cg_mlx_url :: string
  cg_model :: string
  cg_mlx_key :: string

record embed_file =
  ef_url :: "string option"
  ef_model :: "string option"
  ef_key :: "string option"
  ef_key_file :: "string option"

record config_file =
  cf_data_dir :: "string option"
  cf_sock :: "string option"
  cf_port :: "nat option"
  cf_dim :: "nat option"
  cf_uds :: "bool option"
  cf_api_key :: "string option"
  cf_api_key_file :: "string option"
  cf_uds_token :: "string option"
  cf_uds_token_file :: "string option"
  cf_gateway :: "bool option"
  cf_tenant :: "string option"
  cf_multi :: "bool option"
  cf_identity_url :: "string option"
  cf_identity_token :: "string option"
  cf_identity_token_file :: "string option"
  cf_embed :: "embed_file option"

text \<open>A file is missing, cannot be read, or has a text.\<close>

record os =
  os_var :: os_env
  os_file :: "string \<Rightarrow> (string + string) option"
  os_toml :: "string \<Rightarrow> string + config_file"

definition file_text :: "os \<Rightarrow> string \<Rightarrow> string option" where
  "file_text os p = (case os_file os p of Some (Inr x) \<Rightarrow> Some x | _ \<Rightarrow> None)"

text \<open>\<open>PathBuf::join\<close> with a relative path.\<close>

definition path_join :: "string \<Rightarrow> string \<Rightarrow> string" where
  "path_join d x = (if d = [] then x else if last d = CHR ''/'' then d @ x else d @ ''/'' @ x)"

definition SOCK_NAME :: string where "SOCK_NAME = ''fusion-memory.sock''"

definition default_data_dir :: "os \<Rightarrow> string" where
  "default_data_dir os =
     (case os_var os ''FM_HOME'' of
        Some d \<Rightarrow> d
      | None \<Rightarrow> (case os_var os ''HOME'' of Some h \<Rightarrow> path_join h ''.fusion-memory'' | None \<Rightarrow> ''.fusion-memory''))"

definition config_file_path :: "os \<Rightarrow> string option" where
  "config_file_path os =
     (case os_var os ''FM_CONFIG'' of
        Some p \<Rightarrow> Some p
      | None \<Rightarrow>
          (let p = path_join (default_data_dir os) ''fusion-memory.toml''
           in if os_file os p \<noteq> None then Some p else None))"

definition read_secret_file :: "os \<Rightarrow> string \<Rightarrow> string option" where
  "read_secret_file os p =
     (case file_text os p of
        Some s \<Rightarrow> (let t = trim s in if t = [] then None else Some t)
      | None \<Rightarrow> None)"

definition server_config_default :: "os \<Rightarrow> server_config" where
  "server_config_default os =
     \<lparr> cg_data_dir = default_data_dir os, cg_sock = path_join (default_data_dir os) SOCK_NAME, cg_port = 11435,
       cg_api_key = [], cg_dim = 1024, cg_uds = True, cg_uds_token = [], cg_gateway = False, cg_tenant = [],
       cg_multi = False, cg_identity_url = ''http://127.0.0.1:11470'', cg_identity_token = [],
       cg_mlx_url = ec_url embed_config_default, cg_model = ec_model embed_config_default, cg_mlx_key = [] \<rparr>"

section \<open>The file\<close>

text \<open>\<open>set\<close> overrides a field if there is a value; a secret file only fills an empty field.\<close>

definition set_opt :: "'a option \<Rightarrow> ('a \<Rightarrow> 'c \<Rightarrow> 'c) \<Rightarrow> 'c \<Rightarrow> 'c" where
  "set_opt x upd c = (case x of Some v \<Rightarrow> upd v c | None \<Rightarrow> c)"

definition fill_secret :: "os \<Rightarrow> string option \<Rightarrow> ('c \<Rightarrow> string) \<Rightarrow> (string \<Rightarrow> 'c \<Rightarrow> 'c) \<Rightarrow> 'c \<Rightarrow> 'c" where
  "fill_secret os path get upd c =
     (case path of
        None \<Rightarrow> c
      | Some p \<Rightarrow> if get c = [] then set_opt (read_secret_file os p) upd c else c)"

definition set_data_dir :: "string \<Rightarrow> server_config \<Rightarrow> server_config" where
  "set_data_dir d c = c\<lparr> cg_data_dir := d, cg_sock := path_join d SOCK_NAME \<rparr>"

definition apply_embed_file :: "os \<Rightarrow> embed_file \<Rightarrow> server_config \<Rightarrow> server_config" where
  "apply_embed_file os e c =
     fill_secret os (ef_key_file e) cg_mlx_key (\<lambda>v c. c\<lparr> cg_mlx_key := v \<rparr>)
       (set_opt (ef_key e) (\<lambda>v c. c\<lparr> cg_mlx_key := v \<rparr>)
         (set_opt (ef_model e) (\<lambda>v c. c\<lparr> cg_model := v \<rparr>)
           (set_opt (ef_url e) (\<lambda>v c. c\<lparr> cg_mlx_url := v \<rparr>) c)))"

definition apply_fields :: "config_file \<Rightarrow> server_config \<Rightarrow> server_config" where
  "apply_fields f c0 =
     (let c1 = set_opt (cf_data_dir f) set_data_dir c0;
          c2 = set_opt (cf_sock f) (\<lambda>v c. c\<lparr> cg_sock := v \<rparr>) c1;
          c3 = set_opt (cf_port f) (\<lambda>v c. c\<lparr> cg_port := v \<rparr>) c2;
          c4 = set_opt (cf_dim f) (\<lambda>v c. c\<lparr> cg_dim := v \<rparr>) c3;
          c5 = set_opt (cf_uds f) (\<lambda>v c. c\<lparr> cg_uds := v \<rparr>) c4;
          c6 = set_opt (cf_api_key f) (\<lambda>v c. c\<lparr> cg_api_key := v \<rparr>) c5;
          c7 = set_opt (cf_uds_token f) (\<lambda>v c. c\<lparr> cg_uds_token := v \<rparr>) c6;
          c8 = set_opt (cf_gateway f) (\<lambda>v c. c\<lparr> cg_gateway := v \<rparr>) c7;
          c9 = set_opt (cf_tenant f) (\<lambda>v c. c\<lparr> cg_tenant := v \<rparr>) c8;
          c10 = set_opt (cf_multi f) (\<lambda>v c. c\<lparr> cg_multi := v \<rparr>) c9;
          c11 = set_opt (cf_identity_url f) (\<lambda>v c. c\<lparr> cg_identity_url := v \<rparr>) c10
      in set_opt (cf_identity_token f) (\<lambda>v c. c\<lparr> cg_identity_token := v \<rparr>) c11)"

definition apply_file_secrets :: "os \<Rightarrow> config_file \<Rightarrow> server_config \<Rightarrow> server_config" where
  "apply_file_secrets os f c0 =
     (let c1 = fill_secret os (cf_api_key_file f) cg_api_key (\<lambda>v c. c\<lparr> cg_api_key := v \<rparr>) c0;
          c2 = fill_secret os (cf_uds_token_file f) cg_uds_token (\<lambda>v c. c\<lparr> cg_uds_token := v \<rparr>) c1
      in fill_secret os (cf_identity_token_file f) cg_identity_token (\<lambda>v c. c\<lparr> cg_identity_token := v \<rparr>) c2)"

definition apply_file :: "os \<Rightarrow> config_file \<Rightarrow> server_config \<Rightarrow> server_config" where
  "apply_file os f c = set_opt (cf_embed f) (apply_embed_file os) (apply_file_secrets os f (apply_fields f c))"

section \<open>The environment\<close>

definition parse_bool :: "string \<Rightarrow> bool option" where
  "parse_bool s = (if s = ''true'' then Some True else if s = ''false'' then Some False else None)"

definition apply_env :: "os_env \<Rightarrow> server_config \<Rightarrow> server_config" where
  "apply_env env c0 =
     (let c1 = set_opt (env ''FM_HOME'') set_data_dir c0;
          c2 = set_opt (env ''FUSION_MEMORY_SOCK'') (\<lambda>v c. c\<lparr> cg_sock := v \<rparr>) c1;
          c3 = set_opt (Option.bind (env ''FUSION_MEMORY_HTTP_PORT'') (parse_unsigned 16)) (\<lambda>v c. c\<lparr> cg_port := v \<rparr>) c2;
          c4 = set_opt (env ''FUSION_MEMORY_API_KEY'') (\<lambda>v c. c\<lparr> cg_api_key := v \<rparr>) c3;
          c5 = set_opt (env ''FUSION_MEMORY_UDS_TOKEN'') (\<lambda>v c. c\<lparr> cg_uds_token := v \<rparr>) c4;
          c6 = set_opt (Option.bind (env ''FUSION_MEMORY_GATEWAY_ORIGIN_REQUIRED'') parse_bool)
                 (\<lambda>v c. c\<lparr> cg_gateway := v \<rparr>) c5;
          c7 = set_opt (env ''FUSION_MEMORY_DEFAULT_TENANT'') (\<lambda>v c. c\<lparr> cg_tenant := v \<rparr>) c6;
          c8 = set_opt (Option.bind (env ''FUSION_MEMORY_MULTI_TENANT'') parse_bool) (\<lambda>v c. c\<lparr> cg_multi := v \<rparr>) c7;
          c9 = set_opt (env ''FUSION_MEMORY_IDENTITY_URL'') (\<lambda>v c. c\<lparr> cg_identity_url := v \<rparr>) c8;
          c10 = set_opt (env ''FUSION_MEMORY_IDENTITY_SERVICE_TOKEN'') (\<lambda>v c. c\<lparr> cg_identity_token := v \<rparr>) c9;
          c11 = set_opt (env ''FUSION_MLX_URL'') (\<lambda>v c. c\<lparr> cg_mlx_url := v \<rparr>) c10;
          c12 = set_opt (env ''FUSION_MEMORY_EMBED_MODEL'') (\<lambda>v c. c\<lparr> cg_model := v \<rparr>) c11;
          c13 = set_opt (env ''FUSION_MEMORY_MLX_API_KEY'') (\<lambda>v c. c\<lparr> cg_mlx_key := v \<rparr>) c12
      in set_opt (Option.bind (env ''FUSION_MEMORY_DIM'') (parse_unsigned 64))
           (\<lambda>d c. if d > 0 then c\<lparr> cg_dim := d \<rparr> else c) c13)"

definition server_from_env :: "os \<Rightarrow> server_config" where
  "server_from_env os = apply_env (os_var os) (server_config_default os)"

definition fill_secrets_from_files :: "os \<Rightarrow> server_config \<Rightarrow> server_config" where
  "fill_secrets_from_files os c0 =
     (let v = os_var os;
          c1 = fill_secret os (v ''FUSION_MEMORY_API_KEY_FILE'') cg_api_key (\<lambda>v c. c\<lparr> cg_api_key := v \<rparr>) c0;
          c2 = fill_secret os (v ''FUSION_MEMORY_UDS_TOKEN_FILE'') cg_uds_token (\<lambda>v c. c\<lparr> cg_uds_token := v \<rparr>) c1;
          c3 = fill_secret os (v ''FUSION_MEMORY_IDENTITY_SERVICE_TOKEN_FILE'') cg_identity_token
                 (\<lambda>v c. c\<lparr> cg_identity_token := v \<rparr>) c2
      in fill_secret os (v ''FUSION_MEMORY_MLX_API_KEY_FILE'') cg_mlx_key (\<lambda>v c. c\<lparr> cg_mlx_key := v \<rparr>) c3)"

definition loaded_file :: "os \<Rightarrow> config_file option" where
  "loaded_file os =
     Option.bind (config_file_path os) (\<lambda>p.
     Option.bind (file_text os p) (\<lambda>x. case os_toml os x of Inr f \<Rightarrow> Some f | Inl _ \<Rightarrow> None))"

definition from_file_or_env :: "os \<Rightarrow> server_config" where
  "from_file_or_env os =
     fill_secrets_from_files os
       (apply_env (os_var os) (set_opt (loaded_file os) (apply_file os) (server_config_default os)))"

section \<open>The check\<close>

definition http_ok :: "server_config \<Rightarrow> bool" where
  "http_ok c = (cg_port c > 0 \<and> cg_api_key c \<noteq> [])"

definition http_needs_token :: "server_config \<Rightarrow> bool" where
  "http_needs_token c = (cg_port c > 0 \<and> cg_api_key c = [])"

datatype config_error =
    BadDim
  | NoSock
  | NoApiKey nat
  | MultiNeedsHttp
  | MultiNeedsToken

definition validate :: "server_config \<Rightarrow> config_error + unit" where
  "validate c =
     (if cg_dim c = 0 then Inl BadDim
      else if cg_uds c \<and> cg_sock c = [] then Inl NoSock
      else if cg_port c > 0 \<and> cg_api_key c = [] then Inl (NoApiKey (cg_port c))
      else if cg_multi c \<and> \<not> http_ok c then Inl MultiNeedsHttp
      else if cg_multi c \<and> cg_identity_token c = [] then Inl MultiNeedsToken
      else Inr ())"

section \<open>The engine of the server\<close>

text \<open>Opening the parts of the engine may fail; what is opened is determined by the settings.\<close>

record opener =
  op_mkdir :: "string \<Rightarrow> string + unit"
  op_store :: "string \<Rightarrow> nat \<Rightarrow> string + unit"
  op_db :: "string \<Rightarrow> string + unit"
  op_client :: "embed_config \<Rightarrow> string + unit"
  op_extractor :: "extract_config \<Rightarrow> string + unit"

record engine_plan =
  pl_store_dim :: nat
  pl_embed :: "embed_config option"
  pl_redact :: bool
  pl_extract :: "extract_config option"

definition embed_settings :: "os_env \<Rightarrow> server_config \<Rightarrow> embed_config" where
  "embed_settings env c =
     overlay_env env (embed_config_default\<lparr> ec_url := cg_mlx_url c, ec_model := cg_model c, ec_api_key := cg_mlx_key c \<rparr>)"

definition extract_settings :: "os_env \<Rightarrow> embed_config \<Rightarrow> extract_config" where
  "extract_settings env e =
     \<lparr> xc_url = ec_url e, xc_api_key = ec_api_key e,
       xc_model = (case env ''FUSION_MEMORY_CHAT_MODEL'' of Some v \<Rightarrow> v | None \<Rightarrow> ''Qwen3.5-9B-4bit''),
       xc_timeout = 60 \<rparr>"

definition build_server_engine :: "os_env \<Rightarrow> opener \<Rightarrow> server_config \<Rightarrow> bool \<Rightarrow> string + engine_plan" where
  "build_server_engine env op c stub =
     bind_res (map_err (\<lambda>e. ''create data dir: '' @ e) (op_mkdir op (cg_data_dir c))) (\<lambda>_.
     let dm = (if stub then 64 else cg_dim c)
     in bind_res (map_err (\<lambda>e. ''store open: '' @ e) (op_store op (path_join (cg_data_dir c) ''store'') dm)) (\<lambda>_.
     bind_res (map_err (\<lambda>e. ''persist open: '' @ e) (op_db op (path_join (cg_data_dir c) ''memory.db''))) (\<lambda>_.
     let redact = redact_enabled_env (env ''FUSION_MEMORY_REDACT_PII'')
     in if stub
        then Inr \<lparr> pl_store_dim = dm, pl_embed = None, pl_redact = redact, pl_extract = None \<rparr>
        else
          let e = embed_settings env c; x = extract_settings env e
          in bind_res (map_err (\<lambda>r. ''mlx embedder: '' @ r) (op_client op e)) (\<lambda>_.
             bind_res (map_err (\<lambda>r. ''extractor: '' @ r) (op_extractor op x)) (\<lambda>_.
               Inr \<lparr> pl_store_dim = dm, pl_embed = Some e, pl_redact = redact, pl_extract = Some x \<rparr>)))))"

section \<open>Which setting wins\<close>

lemma set_opt_keep: "(\<And>v c. f (upd v c) = f c) \<Longrightarrow> f (set_opt x upd c) = f c"
  by (simp add: set_opt_def split: option.split)

lemma set_opt_set: "(\<And>v c. f (upd v c) = g v) \<Longrightarrow> f (set_opt x upd c) = (case x of Some v \<Rightarrow> g v | None \<Rightarrow> f c)"
  by (simp add: set_opt_def split: option.split)

lemma fill_secret_keep: "(\<And>v c. f (upd v c) = f c) \<Longrightarrow> f (fill_secret os path get upd c) = f c"
  by (simp add: fill_secret_def set_opt_keep split: option.split)

definition secret_at :: "os \<Rightarrow> string option \<Rightarrow> string" where
  "secret_at os path = (case Option.bind path (read_secret_file os) of Some v \<Rightarrow> v | None \<Rightarrow> [])"

lemma fill_secret_set:
  "(\<And>v c. get (upd v c) = v) \<Longrightarrow>
     get (fill_secret os path get upd c) = (if get c \<noteq> [] then get c else secret_at os path)"
  by (simp add: fill_secret_def set_opt_def secret_at_def split: option.split)

lemmas keep_sock = set_opt_keep [of cg_sock] fill_secret_keep [of cg_sock]
lemmas keep_key = set_opt_keep [of cg_api_key] fill_secret_keep [of cg_api_key]

lemma sock_data_dir [simp]:
  "cg_sock (set_opt x set_data_dir c) = (case x of Some d \<Rightarrow> path_join d SOCK_NAME | None \<Rightarrow> cg_sock c)"
  by (simp add: set_opt_def set_data_dir_def split: option.split)

lemma sock_field [simp]:
  "cg_sock (set_opt x (\<lambda>v c. c\<lparr> cg_sock := v \<rparr>) c) = (case x of Some v \<Rightarrow> v | None \<Rightarrow> cg_sock c)"
  by (rule set_opt_set) simp

lemma key_field [simp]:
  "cg_api_key (set_opt x (\<lambda>v c. c\<lparr> cg_api_key := v \<rparr>) c) = (case x of Some v \<Rightarrow> v | None \<Rightarrow> cg_api_key c)"
  by (rule set_opt_set) simp

lemma key_secret [simp]:
  "cg_api_key (fill_secret os path cg_api_key (\<lambda>v c. c\<lparr> cg_api_key := v \<rparr>) c)
     = (if cg_api_key c \<noteq> [] then cg_api_key c else secret_at os path)"
  by (rule fill_secret_set) simp

lemma key_data_dir [simp]: "cg_api_key (set_opt x set_data_dir c) = cg_api_key c"
  by (simp add: set_opt_def set_data_dir_def split: option.split)

lemma embed_file_keeps [simp]:
  "cg_sock (set_opt x (apply_embed_file os) c) = cg_sock c" "cg_api_key (set_opt x (apply_embed_file os) c) = cg_api_key c"
  by (rule set_opt_keep; simp add: apply_embed_file_def keep_sock keep_key)+

lemma file_sock:
  "cg_sock (apply_file os f c) =
     (case cf_sock f of Some v \<Rightarrow> v
      | None \<Rightarrow> (case cf_data_dir f of Some d \<Rightarrow> path_join d SOCK_NAME | None \<Rightarrow> cg_sock c))"
  by (simp add: apply_file_def apply_file_secrets_def apply_fields_def Let_def keep_sock split: option.split)

lemma file_key:
  "cg_api_key (apply_file os f c) =
     (let k = (case cf_api_key f of Some v \<Rightarrow> v | None \<Rightarrow> cg_api_key c)
      in if k \<noteq> [] then k else secret_at os (cf_api_key_file f))"
  by (simp add: apply_file_def apply_file_secrets_def apply_fields_def Let_def keep_key split: option.split)

lemma env_sock:
  "cg_sock (apply_env env c) =
     (case env ''FUSION_MEMORY_SOCK'' of Some v \<Rightarrow> v
      | None \<Rightarrow> (case env ''FM_HOME'' of Some d \<Rightarrow> path_join d SOCK_NAME | None \<Rightarrow> cg_sock c))"
  by (simp add: apply_env_def Let_def keep_sock split: option.split)

lemma env_key:
  "cg_api_key (apply_env env c) =
     (case env ''FUSION_MEMORY_API_KEY'' of Some v \<Rightarrow> v | None \<Rightarrow> cg_api_key c)"
  by (simp add: apply_env_def Let_def keep_key split: option.split)

lemma secrets_sock [simp]: "cg_sock (fill_secrets_from_files os c) = cg_sock c"
  by (simp add: fill_secrets_from_files_def Let_def keep_sock)

lemma secrets_key:
  "cg_api_key (fill_secrets_from_files os c)
     = (if cg_api_key c \<noteq> [] then cg_api_key c else secret_at os (os_var os ''FUSION_MEMORY_API_KEY_FILE''))"
  by (simp add: fill_secrets_from_files_def Let_def keep_key)

text \<open>
  Which source wins. The socket path is that of its variable, else the one below \<open>FM_HOME\<close>,
  else that of the file: a path that the file names is lost as soon as \<open>FM_HOME\<close> is set, since
  the data directory takes the socket with it. The key is the first that is not empty of its
  variable (or, if that is not set, the file's key, or the file's secret file), and the secret
  file of the environment.\<close>
lemma config_precedence:
  "cg_sock (from_file_or_env os) =
     (case os_var os ''FUSION_MEMORY_SOCK'' of Some v \<Rightarrow> v | None \<Rightarrow>
     (case os_var os ''FM_HOME'' of Some d \<Rightarrow> path_join d SOCK_NAME | None \<Rightarrow>
     (case Option.bind (loaded_file os) cf_sock of Some v \<Rightarrow> v | None \<Rightarrow>
     (case Option.bind (loaded_file os) cf_data_dir of Some d \<Rightarrow> path_join d SOCK_NAME | None \<Rightarrow>
       path_join (default_data_dir os) SOCK_NAME))))
   \<and> cg_api_key (from_file_or_env os) =
     (let file_key = (case loaded_file os of
                        None \<Rightarrow> []
                      | Some f \<Rightarrow>
                          (case cf_api_key f of
                             Some k \<Rightarrow> if k = [] then secret_at os (cf_api_key_file f) else k
                           | None \<Rightarrow> secret_at os (cf_api_key_file f)));
          key = (case os_var os ''FUSION_MEMORY_API_KEY'' of Some v \<Rightarrow> v | None \<Rightarrow> file_key)
      in if key = [] then secret_at os (os_var os ''FUSION_MEMORY_API_KEY_FILE'') else key)"
  by (cases "loaded_file os")
     (simp_all add: from_file_or_env_def secrets_key env_sock env_key set_opt_def file_sock file_key
       server_config_default_def Let_def split: option.split)

section \<open>The dimension\<close>

lemma overlay_dimension [simp]: "ec_dimension (overlay_env env c) = ec_dimension c"
  by (simp add: overlay_env_def Let_def split: option.split)

lemma plan_dimensions:
  assumes "build_server_engine env op c False = Inr p"
  shows "pl_store_dim p = cg_dim c \<and> (\<exists>e. pl_embed p = Some e \<and> ec_dimension e = 1024)"
  using assms
  by (auto simp: build_server_engine_def Let_def bind_res_eq_Inr embed_settings_def embed_config_default_def)

text \<open>The vectors of an embedder have a fixed dimension, as those of the client do.\<close>

definition embeds_dim :: "engine_env \<Rightarrow> nat \<Rightarrow> bool" where
  "embeds_dim ev d = (\<forall>n x v. ev_embed ev n x = Inr v \<longrightarrow> length v = d)"

lemma insert_wrong_dim:
  assumes "insert_vector i v t = (t', r)" and "length v \<noteq> ls_dim t"
  shows "ls_dim t' = ls_dim t \<and> (\<exists>e. r = Inl e)"
  using assms by (auto simp: insert_vector_def st_op_def split: list.splits option.splits)

lemma commit_turn_wrong_dim:
  assumes d: "embeds_dim ev d" "ls_dim (eg_store s) \<noteq> d" and run: "commit_turn ev sess ix now t s = (s', r)"
  shows "ls_dim (eg_store s') = ls_dim (eg_store s) \<and> (\<exists>f. r = Inr (Inl f))"
proof -
  obtain s0 i where c: "call (ev_ulid ev) s = (s0, i)" by fastforce
  have s0: "eg_store s0 = eg_store s" using c call_parts(2) [of "ev_ulid ev" s] by simp
  let ?x = "mi_content (commit_item ev sess ix now t i)"
  obtain s1 r1 where e: "embed ev ?x s0 = (s1, r1)" by fastforce
  have s1: "eg_store s1 = eg_store s" using embed_db [OF e] s0 by simp
  show ?thesis
  proof (cases r1)
    case (Inl a)
    then show ?thesis using run c e s1 by (auto simp: commit_turn_def Let_def)
  next
    case (Inr v)
    have "length v = d" using e Inr d(1) by (auto simp: embed_def call_def embeds_dim_def)
    obtain s2 r2 where i: "on_store (insert_vector (vector_id_from_ulid i) v) s1 = (s2, r2)" by fastforce
    then have "insert_vector (vector_id_from_ulid i) v (eg_store s1) = (eg_store s2, r2)"
      by (auto dest: on_store_parts)
    from insert_wrong_dim [OF this] s1 d(2) \<open>length v = d\<close>
    have "ls_dim (eg_store s2) = ls_dim (eg_store s)" "\<exists>e. r2 = Inl e" by auto
    then show ?thesis using run c e Inr i by (auto simp: commit_turn_def Let_def)
  qed
qed

lemma commit_loop_wrong_dim:
  assumes d: "embeds_dim ev d"
  shows "\<lbrakk> ls_dim (eg_store s) \<noteq> d; commit_loop ev sess ix now ts out s = (s', Inr out') \<rbrakk> \<Longrightarrow> co_ids out' = co_ids out"
proof (induction ts arbitrary: out s)
  case (Cons t ts)
  obtain s1 r where one: "commit_turn ev sess ix now t s = (s1, r)" by fastforce
  from commit_turn_wrong_dim [OF d Cons(2) one] obtain f where "r = Inr (Inl f)" "ls_dim (eg_store s1) \<noteq> d"
    using Cons(2) by auto
  then show ?case using Cons one by fastforce
qed simp

lemma commit_wrong_dim:
  assumes "embeds_dim ev d" and "ls_dim (eg_store s) \<noteq> d" and "commit_inner ev sess ix s = (s', Inr out)"
  shows "co_ids out = []"
proof -
  obtain s0 now where n: "now_ms ev s = (s0, now)" by fastforce
  then have "eg_store s0 = eg_store s" by (auto simp: now_ms_def call_def)
  with assms n show ?thesis
    using commit_loop_wrong_dim [OF assms(1), of s0 sess ix now "ix_turns ix" "\<lparr> co_ids = [], co_failed = [] \<rparr>"]
    by (auto simp: commit_inner_def Let_def split: prod.splits sum.splits)
qed

text \<open>
  The setting for the dimension reaches the vector store but not the embedding client, which
  keeps its default of 1024. With any other value the server starts, and no commit ever stores
  anything: every turn of every commit is reported as failed.\<close>
lemma dim_setting_breaks_commits:
  assumes "build_server_engine env op c False = Inr p" and "cg_dim c \<noteq> 1024"
    and "pl_embed p = Some e" and "embeds_dim ev (ec_dimension e)" and "ls_dim (eg_store s) = pl_store_dim p"
    and "commit_inner ev sess ix s = (s', Inr out)"
  shows "co_ids out = []"
  using commit_wrong_dim [OF assms(4) _ assms(6)] plan_dimensions [OF assms(1)] assms(2,3,5) by auto

definition demo_os :: os where
  "demo_os = \<lparr> os_var = (\<lambda>_. None), os_file = (\<lambda>_. None), os_toml = (\<lambda>_. Inl ''x'') \<rparr>"

definition demo_opener :: opener where
  "demo_opener = \<lparr> op_mkdir = (\<lambda>_. Inr ()), op_store = (\<lambda>_ _. Inr ()), op_db = (\<lambda>_. Inr ()),
     op_client = (\<lambda>_. Inr ()), op_extractor = (\<lambda>_. Inr ()) \<rparr>"

definition demo_config2 :: server_config where
  "demo_config2 = (server_config_default demo_os)\<lparr> cg_dim := 2 \<rparr>"

definition wide_env :: engine_env where
  "wide_env = demo_env\<lparr> ev_embed := (\<lambda>_ _. Inr (replicate 1024 0)) \<rparr>"

lemma wide_encodes: "encodes_all (ev_codec wide_env)"
  using demo_encodes by (simp add: wide_env_def)

lemma dim_setting_witness:
  "\<exists>s' out. commit_inner wide_env ''s'' demo_ix demo_engine = (s', Inr out) \<and> co_ids out = []"
proof -
  obtain s' out where run: "commit_inner wide_env ''s'' demo_ix demo_engine = (s', Inr out)"
    using commit_total [OF wide_encodes] by blast
  have "\<exists>p e. build_server_engine (\<lambda>_. None) demo_opener demo_config2 False = Inr p \<and> pl_embed p = Some e
      \<and> ec_dimension e = 1024 \<and> pl_store_dim p = 2"
    by (simp add: build_server_engine_def demo_opener_def Let_def demo_config2_def embed_settings_def
        embed_config_default_def)
  then obtain p e where p: "build_server_engine (\<lambda>_. None) demo_opener demo_config2 False = Inr p" "pl_embed p = Some e"
    "ec_dimension e = 1024" "pl_store_dim p = 2" by blast
  have "embeds_dim wide_env (ec_dimension e)" by (simp add: embeds_dim_def wide_env_def p(3))
  moreover have "ls_dim (eg_store demo_engine) = pl_store_dim p" by (simp add: demo_engine_def empty_store_def p(4))
  moreover have "cg_dim demo_config2 \<noteq> 1024" by (simp add: demo_config2_def)
  ultimately have "co_ids out = []" using dim_setting_breaks_commits [OF p(1) _ p(2) _ _ run] by blast
  with run show ?thesis by blast
qed

end
