(* ===== verification/Scoring.thy ===== *)
theory Scoring
  imports EngineBase ClusterBase
begin

text \<open>
  The fused score of a retrieved memory and the thresholds of recycling and promotion
  (\<open>fm-engine/scoring.rs\<close>).
\<close>

definition ALPHA :: real where "ALPHA = 0.5"
definition BETA :: real where "BETA = 0.3"
definition GAMMA :: real where "GAMMA = 0.2"
definition SCORE_HOP_LIMIT :: nat where "SCORE_HOP_LIMIT = 2"
definition THETA_DROP :: real where "THETA_DROP = 0.05"
definition THETA_PROMOTE :: real where "THETA_PROMOTE = 0.3"
definition EPISODIC_RECALL_PROMOTE :: nat where "EPISODIC_RECALL_PROMOTE = 2"
definition EPISODIC_RECALL_WINDOW_SECS :: nat where "EPISODIC_RECALL_WINDOW_SECS = 7 * 86400"

definition fuse_score :: "real \<Rightarrow> real \<Rightarrow> real \<Rightarrow> real" where
  "fuse_score sim w g = ALPHA * sim + BETA * w + GAMMA * g"

definition weight_of :: "memory_item \<Rightarrow> nat \<Rightarrow> real" where
  "weight_of m now = weight_at (mi_weight m) (mi_created m) now (mi_type m) (mi_access_count m)"

definition freshness_of :: "memory_item \<Rightarrow> nat \<Rightarrow> real" where
  "freshness_of m now = min (weight_at 1 (mi_created m) now (mi_type m) (mi_access_count m)) 1"

definition entity_ids :: "entity_node list \<Rightarrow> string list" where
  "entity_ids es = map en_id es"

definition score_candidate ::
  "graph_store \<Rightarrow> real \<Rightarrow> memory_item \<Rightarrow> string list \<Rightarrow> nat \<Rightarrow> persist_error + real" where
  "score_candidate g sim m qs now =
     (let w = freshness_of m now; cands = entity_ids (mi_entities m)
      in bind_res (if qs = [] \<or> cands = [] then Inr 0 else graph_affinity g qs cands SCORE_HOP_LIMIT)
           (\<lambda>aff. Inr (fuse_score sim w aff)))"

definition should_recycle :: "memory_item \<Rightarrow> nat \<Rightarrow> bool" where
  "should_recycle m now = (weight_of m now < THETA_DROP)"

fun should_promote_as :: "memory_type \<Rightarrow> memory_item \<Rightarrow> nat \<Rightarrow> bool" where
  "should_promote_as Episodic m now =
     (if weight_of m now > THETA_PROMOTE then True
      else let window_start = now - EPISODIC_RECALL_WINDOW_SECS
           in window_start \<le> mi_last_accessed m \<and> EPISODIC_RECALL_PROMOTE \<le> mi_access_count m)"
| "should_promote_as Semantic m now = True"
| "should_promote_as Procedural m now = True"

definition should_promote :: "memory_item \<Rightarrow> nat \<Rightarrow> bool" where
  "should_promote m now = should_promote_as (mi_type m) m now"

section \<open>Bounds\<close>

lemma freshness_bounds: "0 \<le> freshness_of m now \<and> freshness_of m now \<le> 1"
  by (simp add: freshness_of_def weight_nonneg)

lemma affinity_fold_le:
  assumes "0 \<le> b" and "b \<le> (1 :: real)"
  shows "let r = foldl (\<lambda>best (node, hop).
             if node \<in> set cs then
               let score = (1 / 2) ^ hop in if score > best then score else best
             else best) b rs in 0 \<le> r \<and> r \<le> 1"
  using assms
proof (induction rs arbitrary: b)
  case (Cons x rs)
  obtain node hop where x: "x = (node, hop)" by fastforce
  have p: "0 \<le> (1 / 2 :: real) ^ hop" "(1 / 2 :: real) ^ hop \<le> 1" by (simp_all add: power_le_one)
  have "0 \<le> (if node \<in> set cs then let score = (1 / 2) ^ hop in if score > b then score else b else b)"
    "(if node \<in> set cs then let score = (1 / 2) ^ hop in if score > b then score else b else b) \<le> 1"
    using p Cons.prems by (simp_all add: Let_def)
  from Cons.IH [OF this] show ?case by (simp add: x)
qed simp

lemma affinity_reach_bounds:
  "0 \<le> affinity_from_reachability qs cs rs \<and> affinity_from_reachability qs cs rs \<le> 1"
  using affinity_fold_le [of 0 cs rs] by (simp add: affinity_from_reachability_def Let_def)

lemma affinity_loop_bounds:
  "\<lbrakk> affinity_loop g cs h b qs = Inr x; 0 \<le> b; b \<le> 1 \<rbrakk> \<Longrightarrow> 0 \<le> x \<and> x \<le> 1"
proof (induction qs arbitrary: b)
  case (Cons q qs)
  show ?case
  proof (cases "q \<in> set cs")
    case False
    then obtain rs where r: "affinity_loop g cs h
        (if affinity_from_reachability [q] cs rs > b then affinity_from_reachability [q] cs rs else b) qs = Inr x"
      using Cons.prems(1) by (auto simp: bind_res_eq_Inr Let_def)
    show ?thesis
      by (rule Cons.IH [OF r]) (use affinity_reach_bounds [of "[q]" cs rs] Cons.prems in auto)
  qed (use Cons.prems in auto)
qed simp

lemma graph_affinity_bounds: "graph_affinity g qs cs h = Inr x \<Longrightarrow> 0 \<le> x \<and> x \<le> 1"
  using affinity_loop_bounds [of g cs _ 0 qs x] by (auto simp: graph_affinity_def split: if_splits)

text \<open>
  the fused score is bounded and monotone. For a cosine between -1 and 1 it lies between
  -0.5 and 1; with the same freshness and graph affinity, the candidate with the larger cosine
  has the larger score, by half of the difference; and it fails only when a graph query fails.
\<close>

lemma score_candidate_bounds:
  assumes "-1 \<le> sim" and "sim \<le> 1" and "score_candidate g sim m qs now = Inr x"
  shows "-0.5 \<le> x \<and> x \<le> 1 \<and> score_candidate g (sim + d) m qs now = Inr (x + d / 2)"
proof -
  obtain aff where a: "(if qs = [] \<or> entity_ids (mi_entities m) = [] then Inr 0
      else graph_affinity g qs (entity_ids (mi_entities m)) SCORE_HOP_LIMIT) = Inr aff"
    and x: "x = fuse_score sim (freshness_of m now) aff"
    using assms(3) by (auto simp: score_candidate_def bind_res_eq_Inr Let_def)
  have "0 \<le> aff \<and> aff \<le> 1" using a graph_affinity_bounds by (auto split: if_splits)
  with freshness_bounds [of m now] assms(1,2) have "-0.5 \<le> x \<and> x \<le> 1"
    by (auto simp: x fuse_score_def ALPHA_def BETA_def GAMMA_def)
  moreover have "score_candidate g (sim + d) m qs now = Inr (x + d / 2)"
    unfolding score_candidate_def Let_def a
    by (simp add: x fuse_score_def ALPHA_def distrib_left)
  ultimately show ?thesis by blast
qed

lemma score_candidate_witness:
  "\<exists>x. score_candidate (persist_graph (empty_db [])) 0.5 item_a [] 9 = Inr x \<and> -0.5 \<le> x \<and> x \<le> 1"
proof -
  obtain x where x: "score_candidate (persist_graph (empty_db [])) 0.5 item_a [] 9 = Inr x"
    by (simp add: score_candidate_def)
  from score_candidate_bounds [OF _ _ x] x show ?thesis by simp
qed

section \<open>Seconds and milliseconds\<close>

lemma exp_4_large: "16 \<le> exp (4 :: real)"
proof -
  have "exp (4 :: real) = exp 1 ^ 4" by (simp flip: exp_of_nat_mult)
  moreover have "(2 :: real) ^ 4 \<le> exp 1 ^ 4"
    using exp_ge_add_one_self [of 1] by (intro power_mono) auto
  ultimately show ?thesis by simp
qed

lemma old_episodic_recycled:
  assumes "mi_type m = Episodic" and "mi_weight m = initial_weight Episodic"
    and "mi_access_count m = 0" and "mi_created m + 400 * 1000 \<le> now"
  shows "should_recycle m now"
proof -
  have "exp (- (real (now - mi_created m)) / 86400) \<le> exp (- 4)"
    using assms(4) by (simp add: field_simps)
  also have "\<dots> \<le> 1 / 16"
    using exp_4_large by (simp add: exp_minus inverse_eq_divide divide_simps)
  finally have e: "exp (- (real (now - mi_created m)) / 86400) \<le> 1 / 16" .
  have "weight_of m now = initial_weight Episodic * exp (- (real (now - mi_created m)) / tau_seconds Episodic)
      * reinforce_factor 0"
    by (simp only: weight_of_def weight_at_def Let_def assms(1-3))
  moreover have "reinforce_factor 0 = 1" by (simp add: reinforce_factor_def REINFORCE_CAP_def)
  ultimately show ?thesis using e by (simp add: should_recycle_def THETA_DROP_def del: of_nat_diff)
qed

text \<open>
  the time constants are seconds and the clock is in milliseconds. An episodic memory that
  is stored and never recalled falls below the recycling threshold 400 seconds after its
  commit, not after days: the decay of one day takes 86.4 seconds.
\<close>

lemma episodic_recycled_within_minutes:
  assumes "mi_type m = Episodic" and "mi_weight m = initial_weight Episodic"
    and "mi_access_count m = 0" and "mi_created m + 400 * 1000 \<le> now"
  shows "should_recycle m now"
  using assms by (rule old_episodic_recycled)

lemma episodic_recycled_witness: "should_recycle item_a 400005"
  by (rule episodic_recycled_within_minutes)
     (simp_all add: item_a_def with_namespace_def new_turn_skeleton_def)

end
