(* ===== verification/Retrieve.thy ===== *)
theory Retrieve
  imports Scoring Commit
begin

text \<open>
  Retrieval (\<open>retrieve_context\<close> of \<open>fm-engine/engine.rs\<close>): nearest vectors, the items they
  belong to, a score per interaction, the blocks of text and the token budget.

  The scores read the graph through \<open>persist_graph\<close> of the current database, so a failing
  graph read is the failure at the head of the database's script. Scores are reals.
\<close>

section \<open>Hits\<close>

definition AGG_MAX_TURNS :: nat where "AGG_MAX_TURNS = 20"

definition query_entities :: "engine_env \<Rightarrow> string \<Rightarrow> engine \<Rightarrow> engine \<times> string list" where
  "query_entities ev x s =
     (case ev_extract ev of
        None \<Rightarrow> (s, [])
      | Some ex \<Rightarrow>
          (case call (\<lambda>n. ex n x) s of
             (s1, (ents, success)) \<Rightarrow> (s1, if success \<and> ents \<noteq> [] then entity_ids ents else [])))"

definition knn_request :: "ns_filter \<Rightarrow> nat \<Rightarrow> nat" where
  "knn_request f k = (if ns_active f then min (k * 4) (2 ^ 64 - 1) else k)"

text \<open>A later row with the same vector id overwrites an earlier one in the map.\<close>

definition by_vec_ref :: "memory_item list \<Rightarrow> nat \<Rightarrow> memory_item option" where
  "by_vec_ref ms v = find (\<lambda>m. parse_u64 (mi_vector_ref m) = Some v) (rev ms)"

definition wanted :: "retrieve_query \<Rightarrow> memory_item \<Rightarrow> bool" where
  "wanted q m =
     ((case rq_tiers q of None \<Rightarrow> True | Some ts \<Rightarrow> mi_tier m \<in> set ts)
      \<and> (case rq_session q of None \<Rightarrow> True | Some sess \<Rightarrow> mi_session m = sess))"

fun scored_hits ::
  "graph_store \<Rightarrow> retrieve_query \<Rightarrow> string list \<Rightarrow> nat \<Rightarrow> (nat \<Rightarrow> memory_item option)
     \<Rightarrow> (vid \<times> real) list \<Rightarrow> memory_error + (memory_item \<times> real) list" where
  "scored_hits g q qs now by [] = Inr []"
| "scored_hits g q qs now by ((v, sim) # knn) =
     (case by (unat v) of
        None \<Rightarrow> scored_hits g q qs now by knn
      | Some m \<Rightarrow>
          if \<not> wanted q m then scored_hits g q qs now by knn
          else bind_res (map_err (\<lambda>e. EStore (''persist error: '' @ persist_display e))
                           (score_candidate g sim m qs now))
                 (\<lambda>score. bind_res (scored_hits g q qs now by knn) (\<lambda>hs. Inr ((m, score) # hs))))"

section \<open>Groups and blocks\<close>

definition group_of :: "(memory_item \<times> real) list \<Rightarrow> string \<Rightarrow> (memory_item \<times> real) list" where
  "group_of hs ix = filter (\<lambda>h. mi_interaction (fst h) = ix) hs"

definition group_keys :: "(memory_item \<times> real) list \<Rightarrow> string list" where
  "group_keys hs = sort (remdups (map (mi_interaction \<circ> fst) hs))"

definition best_score :: "(memory_item \<times> real) list \<Rightarrow> string \<Rightarrow> real" where
  "best_score hs ix = foldl (\<lambda>b h. if snd h > b then snd h else b) 0 (group_of hs ix)"

definition item_turn :: "memory_item \<Rightarrow> turn" where
  "item_turn m = \<lparr> tu_idx = mi_turn_idx m, tu_user = mi_content m, tu_assistant = [], tu_tools = [] \<rparr>"

definition aggregated :: "memory_item list \<Rightarrow> memory_item list" where
  "aggregated ms = take AGG_MAX_TURNS (sort_key mi_turn_idx ms)"

definition block_of :: "string \<Rightarrow> real \<Rightarrow> memory_item list \<Rightarrow> context_block" where
  "block_of ix score ms =
     (let sorted = aggregated ms
      in \<lparr> cb_interaction = ix,
           cb_turns = map item_turn sorted,
           cb_type = (case sorted of [] \<Rightarrow> Episodic | m # _ \<Rightarrow> mi_type m),
           cb_text = join ([char_of (10 :: nat)] @ ''---'' @ [char_of (10 :: nat)]) (map mi_content sorted),
           cb_score = score,
           cb_entities = concat (map (\<lambda>m. entity_ids (mi_entities m)) sorted) \<rparr>)"

fun make_blocks ::
  "(string \<Rightarrow> real) \<Rightarrow> string list \<Rightarrow> engine \<Rightarrow> engine \<times> (memory_error + context_block list)" where
  "make_blocks best [] s = (s, Inr [])"
| "make_blocks best (ix # ixs) s =
     (case on_db (list_by_interaction ix) s of
        (s1, Inl e) \<Rightarrow> (s1, Inl e)
      | (s1, Inr ms) \<Rightarrow>
          (case make_blocks best ixs s1 of
             (s2, Inl e) \<Rightarrow> (s2, Inl e)
           | (s2, Inr bs) \<Rightarrow> (s2, Inr (block_of ix (best ix) ms # bs))))"

definition block_tokens :: "context_block \<Rightarrow> nat" where
  "block_tokens b = nat \<lfloor>real (length (cb_text b)) * 0.3\<rfloor>"

fun keep_blocks :: "nat \<Rightarrow> nat \<Rightarrow> context_block list \<Rightarrow> context_block list \<Rightarrow> context_block list \<times> nat" where
  "keep_blocks budget used kept [] = (kept, used)"
| "keep_blocks budget used kept (b # bs) =
     (if used + block_tokens b > budget \<and> kept \<noteq> [] then (kept, used)
      else keep_blocks budget (used + block_tokens b) (kept @ [b]) bs)"

definition sorted_groups_turn_ids :: "(memory_item \<times> real) list \<Rightarrow> context_block list \<Rightarrow> string list" where
  "sorted_groups_turn_ids hs kept =
     concat (map (\<lambda>b. map (mi_id \<circ> fst) (group_of hs (cb_interaction b))) kept)"

section \<open>The query\<close>

definition query_filter :: "retrieve_query \<Rightarrow> ns_filter" where
  "query_filter q = ns_filter_new (rq_ns q) (rq_ns_key q)"

text \<open>The hits of a query: everything up to the loop over the nearest vectors.\<close>

definition retrieve_hits ::
  "engine_env \<Rightarrow> retrieve_query \<Rightarrow> nat \<Rightarrow> engine \<Rightarrow> engine \<times> (memory_error + (memory_item \<times> real) list)" where
  "retrieve_hits ev q now s =
     (case query_entities ev (rq_text q) s of
        (s1, qs) \<Rightarrow>
          (case embed ev (rq_text q) s1 of
             (s2, Inl e) \<Rightarrow> (s2, Inl e)
           | (s2, Inr qvec) \<Rightarrow>
               (case on_store (search_knn (ev_knn ev) qvec (knn_request (query_filter q) (rq_top_k q))) s2 of
                  (s3, Inl e) \<Rightarrow> (s3, Inl e)
                | (s3, Inr knn) \<Rightarrow>
                    (case on_db (get_by_vector_refs_tenant_scoped (map (unat \<circ> fst) knn) (rq_tenant q)
                                   (query_filter q)) s3 of
                       (s4, Inl e) \<Rightarrow> (s4, Inl e)
                     | (s4, Inr ms) \<Rightarrow>
                         (s4, scored_hits (persist_graph (eg_db s4)) q qs now (by_vec_ref ms) knn)))))"

definition retrieve_context ::
  "engine_env \<Rightarrow> retrieve_query \<Rightarrow> engine \<Rightarrow> engine \<times> (memory_error + formatted_context)" where
  "retrieve_context ev q s =
     (case now_ms ev s of
        (s0, now) \<Rightarrow>
          (case retrieve_hits ev q now s0 of
             (s1, Inl e) \<Rightarrow> (s1, Inl e)
           | (s1, Inr hs) \<Rightarrow>
               (case make_blocks (best_score hs) (group_keys hs) s1 of
                  (s2, Inl e) \<Rightarrow> (s2, Inl e)
                | (s2, Inr blocks) \<Rightarrow>
                    (case keep_blocks (rq_budget q) 0 [] (sort_key (\<lambda>b. - cb_score b) blocks) of
                       (kept, tokens) \<Rightarrow>
                         let touched = sorted_groups_turn_ids hs kept;
                             s3 = (if touched = [] then s2
                                   else fst (on_db (touch_access_batch touched now) s2));
                             detail = ''blocks='' @ show_nat (length kept) @ '' tokens='' @ show_nat tokens;
                             s4 = fst (on_db (append_audit now ''retrieve'' ''retrieve''
                                                (concat (take 64 (utf8_chars (rq_text q)))) detail) s3)
                         in (s4, Inr \<lparr> fc_blocks = kept, fc_tokens = tokens,
                                       fc_stale = eg_stale s4, fc_last_sync = eg_synced s4 \<rparr>)))))"

section \<open>What the hits are\<close>

lemma vector_refs_scoped:
  assumes "get_by_vector_refs_tenant_scoped vs ten f d = (d', Inr ms)"
  shows "set ms = {m \<in> set (db_items d). \<not> mi_tombstone m \<and> mi_tenant m = ten \<and> item_visible f m
      \<and> mi_vector_ref m \<in> show_nat ` set vs} \<and> same_tables d d'"
proof (cases "vs = []")
  case True
  with assms show ?thesis by (simp add: get_by_vector_refs_tenant_scoped_def)
next
  case False
  then have "scoped_query f (\<lambda>p d. filter (\<lambda>m. \<not> mi_tombstone m \<and> mi_tenant m = ten \<and> sql_eval p m
        \<and> mi_vector_ref m \<in> set (map show_nat vs)) (db_items d)) d = (d', Inr ms)"
    using assms by (simp add: get_by_vector_refs_tenant_scoped_def)
  from scoped_query_Inr [OF this] obtain p where "ns_predicate f = Inr p" "same_tables d d'"
    "ms = filter (\<lambda>m. \<not> mi_tombstone m \<and> mi_tenant m = ten \<and> sql_eval p m
        \<and> mi_vector_ref m \<in> set (map show_nat vs)) (db_items d)" by auto
  then show ?thesis by (auto simp: ns_predicate_Inr)
qed

lemma by_vec_ref_mem: "by_vec_ref ms v = Some m \<Longrightarrow> m \<in> set ms"
  unfolding by_vec_ref_def by (drule find_SomeD) simp

lemma scored_hits_from:
  "\<lbrakk> scored_hits g q qs now by knn = Inr hs; h \<in> set hs \<rbrakk>
     \<Longrightarrow> wanted q (fst h) \<and> (\<exists>v. by v = Some (fst h))"
proof (induction knn arbitrary: hs)
  case (Cons x knn)
  obtain v sim where x: "x = (v, sim)" by fastforce
  show ?case
  proof (cases "by (unat v)")
    case None
    with Cons x show ?thesis by simp
  next
    case (Some m)
    show ?thesis
    proof (cases "wanted q m")
      case False
      with Cons x Some show ?thesis by simp
    next
      case True
      then obtain score hs' where "scored_hits g q qs now by knn = Inr hs'" "hs = (m, score) # hs'"
        using Cons.prems(1) x Some by (auto simp: bind_res_eq_Inr)
      with Cons True Some show ?thesis by auto
    qed
  qed
qed simp

text \<open>The items a query may return: live, of its tenant, visible, of the wanted tiers and session.\<close>

definition answers :: "retrieve_query \<Rightarrow> memory_item \<Rightarrow> bool" where
  "answers q m = (\<not> mi_tombstone m \<and> mi_tenant m = rq_tenant q \<and> item_visible (query_filter q) m \<and> wanted q m)"

lemma on_store_parts_same: "on_store f s = (s', r) \<Longrightarrow> same_tables (eg_db s) (eg_db s')"
  using on_store_parts [of f s s' r] by simp

lemma query_entities_db: "query_entities ev x s = (s', qs) \<Longrightarrow> eg_db s' = eg_db s"
  by (auto simp: query_entities_def call_def split: option.splits prod.splits)

lemma retrieve_hits_sound:
  assumes "retrieve_hits ev q now s = (s', Inr hs)"
  shows "same_tables (eg_db s) (eg_db s') \<and> (\<forall>h \<in> set hs. fst h \<in> set (db_items (eg_db s)) \<and> answers q (fst h))"
proof -
  obtain s1 qs where qe: "query_entities ev (rq_text q) s = (s1, qs)" by fastforce
  obtain s2 qvec where em: "embed ev (rq_text q) s1 = (s2, Inr qvec)"
    using assms qe by (auto simp: retrieve_hits_def split: prod.splits sum.splits)
  obtain s3 knn where sk:
    "on_store (search_knn (ev_knn ev) qvec (knn_request (query_filter q) (rq_top_k q))) s2 = (s3, Inr knn)"
    using assms qe em by (auto simp: retrieve_hits_def split: prod.splits sum.splits)
  obtain ms where ms: "on_db (get_by_vector_refs_tenant_scoped (map (unat \<circ> fst) knn) (rq_tenant q)
      (query_filter q)) s3 = (s', Inr ms)"
    and hs: "scored_hits (persist_graph (eg_db s')) q qs now (by_vec_ref ms) knn = Inr hs"
    using assms qe em sk by (auto simp: retrieve_hits_def split: prod.splits sum.splits)
  have db: "eg_db s3 = eg_db s"
    using query_entities_db [OF qe] embed_db [OF em] on_store_parts [OF sk] by simp
  have ref: "get_by_vector_refs_tenant_scoped (map (unat \<circ> fst) knn) (rq_tenant q) (query_filter q) (eg_db s)
      = (eg_db s', Inr ms)"
    using ms db by (elim on_db_parts) (simp add: eq_commute [of "Inr ms"])
  show ?thesis
    using vector_refs_scoped [OF ref] scored_hits_from [OF hs] by_vec_ref_mem
    by (fastforce simp: answers_def)
qed

section \<open>What the blocks are\<close>

definition live_turns :: "db \<Rightarrow> string \<Rightarrow> memory_item list" where
  "live_turns d ix = filter (\<lambda>m. mi_interaction m = ix \<and> \<not> mi_tombstone m) (db_items d)"

lemma make_blocks_result:
  assumes "make_blocks best ixs s = (s', Inr bs)"
  shows "same_tables (eg_db s) (eg_db s')
    \<and> bs = map (\<lambda>ix. block_of ix (best ix) (order_turn (live_turns (eg_db s) ix))) ixs"
  using assms
proof (induction ixs arbitrary: s bs)
  case (Cons ix ixs)
  obtain s1 ms bs1 where l: "on_db (list_by_interaction ix) s = (s1, Inr ms)"
    and r: "make_blocks best ixs s1 = (s', Inr bs1)" and bs: "bs = block_of ix (best ix) ms # bs1"
    using Cons.prems by (auto split: prod.splits sum.splits)
  have q: "db_query (\<lambda>d. order_turn (live_turns d ix)) (eg_db s) = (eg_db s1, Inr ms)"
    using l by (elim on_db_parts) (simp add: list_by_interaction_def live_turns_def eq_commute [of "Inr ms"])
  then have "ms = order_turn (live_turns (eg_db s) ix)"
    by (rule db_query_Inr) (simp add: live_turns_def)
  moreover have "same_tables (eg_db s) (eg_db s1)" using q by (rule query_same)
  ultimately show ?case
    using Cons.IH [OF r] bs same_trans [of "eg_db s" "eg_db s1" "eg_db s'"]
    by (simp add: live_turns_def same_tables_facts(1))
qed simp

lemma keep_blocks_prefix:
  "keep_blocks budget used kept bs = (kept', used') \<Longrightarrow>
     \<exists>n. kept' = kept @ take n bs \<and> used' = used + sum_list (map block_tokens (take n bs))
       \<and> (used \<le> budget \<or> length kept \<le> 1 \<longrightarrow> used' \<le> budget \<or> length kept' \<le> 1)"
proof (induction budget used kept bs rule: keep_blocks.induct)
  case (2 budget used kept b bs)
  show ?case
  proof (cases "used + block_tokens b > budget \<and> kept \<noteq> []")
    case True
    with 2 show ?thesis by (intro exI [of _ 0]) auto
  next
    case False
    from 2(1) [OF False] 2(2) False obtain n where
      "kept' = (kept @ [b]) @ take n bs"
      "used' = used + block_tokens b + sum_list (map block_tokens (take n bs))"
      "used + block_tokens b \<le> budget \<or> length (kept @ [b]) \<le> 1 \<longrightarrow> used' \<le> budget \<or> length kept' \<le> 1"
      by auto
    with False show ?thesis by (intro exI [of _ "Suc n"]) auto
  qed
qed (intro exI [of _ 0], simp)

lemma sort_remdups_set: "set (group_keys hs) = mi_interaction ` fst ` set hs"
  by (auto simp: group_keys_def)

lemma distinct_group_keys: "distinct (group_keys hs)"
  by (simp add: group_keys_def)

lemma order_turn_aggregated [simp]: "aggregated (order_turn ms) = aggregated ms"
  by (simp add: aggregated_def order_turn_def sort_key_id_if_sorted)

section \<open>The answer\<close>

text \<open>The stages of a successful query.\<close>

lemma retrieve_stages:
  assumes "retrieve_context ev q s = (s', Inr ctx)"
  obtains s0 now s1 hs s2 blocks where
    "now_ms ev s = (s0, now)" "retrieve_hits ev q now s0 = (s1, Inr hs)"
    "make_blocks (best_score hs) (group_keys hs) s1 = (s2, Inr blocks)"
    "keep_blocks (rq_budget q) 0 [] (sort_key (\<lambda>b. - cb_score b) blocks) = (fc_blocks ctx, fc_tokens ctx)"
    "s' = fst (on_db (append_audit now ''retrieve'' ''retrieve'' (concat (take 64 (utf8_chars (rq_text q))))
        (''blocks='' @ show_nat (length (fc_blocks ctx)) @ '' tokens='' @ show_nat (fc_tokens ctx)))
       (if sorted_groups_turn_ids hs (fc_blocks ctx) = [] then s2
        else fst (on_db (touch_access_batch (sorted_groups_turn_ids hs (fc_blocks ctx)) now) s2)))"
proof -
  obtain s0 now where n: "now_ms ev s = (s0, now)" by fastforce
  obtain s1 hs where h: "retrieve_hits ev q now s0 = (s1, Inr hs)"
    using assms n by (auto simp: retrieve_context_def split: prod.splits sum.splits)
  obtain s2 blocks where b: "make_blocks (best_score hs) (group_keys hs) s1 = (s2, Inr blocks)"
    using assms n h by (auto simp: retrieve_context_def split: prod.splits sum.splits)
  obtain kept tokens where k:
    "keep_blocks (rq_budget q) 0 [] (sort_key (\<lambda>b. - cb_score b) blocks) = (kept, tokens)" by fastforce
  have "fc_blocks ctx = kept" "fc_tokens ctx = tokens"
    using assms n h b k by (auto simp: retrieve_context_def Let_def)
  with assms n h b k that show ?thesis by (auto simp: retrieve_context_def Let_def)
qed

lemma sorted_desc: "sorted (map (\<lambda>b. - f b) xs) \<Longrightarrow> sorted_wrt (\<lambda>a b. f b \<le> (f a :: real)) xs"
  by (simp add: sorted_wrt_map)

text \<open>
  C12: what a query returns. The blocks stand for distinct interactions, in order of falling
  score. Each one has a live item of the query's tenant, namespace, tiers and session in the
  database; its turns are the first twenty live turns of the interaction in turn order. The
  reported tokens are those of the blocks, within the budget unless a single block exceeds it.
\<close>

theorem retrieve_context_sound:
  assumes "retrieve_context ev q s = (s', Inr ctx)"
  shows "distinct (map cb_interaction (fc_blocks ctx))
    \<and> sorted_wrt (\<lambda>a b. cb_score b \<le> cb_score a) (fc_blocks ctx)
    \<and> fc_tokens ctx = sum_list (map block_tokens (fc_blocks ctx))
    \<and> (fc_tokens ctx \<le> rq_budget q \<or> length (fc_blocks ctx) \<le> 1)
    \<and> (\<forall>b \<in> set (fc_blocks ctx).
         (\<exists>m \<in> set (db_items (eg_db s)). mi_interaction m = cb_interaction b \<and> answers q m)
         \<and> cb_turns b = map item_turn (aggregated (live_turns (eg_db s) (cb_interaction b))))"
proof -
  obtain s0 now s1 hs s2 blocks where st: "now_ms ev s = (s0, now)" "retrieve_hits ev q now s0 = (s1, Inr hs)"
    "make_blocks (best_score hs) (group_keys hs) s1 = (s2, Inr blocks)"
    "keep_blocks (rq_budget q) 0 [] (sort_key (\<lambda>b. - cb_score b) blocks) = (fc_blocks ctx, fc_tokens ctx)"
    by (rule retrieve_stages [OF assms])
  let ?sorted = "sort_key (\<lambda>b. - cb_score b) blocks"
  have s0: "eg_db s0 = eg_db s" using st(1) by (auto simp: now_ms_def call_def)
  have hits: "same_tables (eg_db s) (eg_db s1)"
    "\<forall>h \<in> set hs. fst h \<in> set (db_items (eg_db s)) \<and> answers q (fst h)"
    using retrieve_hits_sound [OF st(2)] s0 by simp_all
  have turns: "live_turns (eg_db s1) ix = live_turns (eg_db s) ix" for ix
    using hits(1) same_tables_facts by (simp add: live_turns_def)
  have blocks: "blocks = map (\<lambda>ix. block_of ix (best_score hs ix) (order_turn (live_turns (eg_db s) ix))) (group_keys hs)"
    using make_blocks_result [OF st(3)] turns by simp
  have keys: "map cb_interaction blocks = group_keys hs"
    by (simp add: blocks block_of_def Let_def comp_def)
  obtain n where n: "fc_blocks ctx = take n ?sorted" "fc_tokens ctx = sum_list (map block_tokens (take n ?sorted))"
    "fc_tokens ctx \<le> rq_budget q \<or> length (fc_blocks ctx) \<le> 1"
    using keep_blocks_prefix [OF st(4)] by auto
  have "distinct (map cb_interaction ?sorted)" using distinct_group_keys [of hs] keys by (simp add: distinct_map_sort)
  then have 1: "distinct (map cb_interaction (fc_blocks ctx))" by (simp add: n(1) take_map [symmetric])
  have "sorted_wrt (\<lambda>a b. cb_score b \<le> cb_score a) ?sorted" by (rule sorted_desc) simp
  then have 2: "sorted_wrt (\<lambda>a b. cb_score b \<le> cb_score a) (fc_blocks ctx)"
    unfolding n(1) by (rule sorted_wrt_take)
  have 3: "(\<exists>m \<in> set (db_items (eg_db s)). mi_interaction m = cb_interaction b \<and> answers q m)
      \<and> cb_turns b = map item_turn (aggregated (live_turns (eg_db s) (cb_interaction b)))"
    if "b \<in> set (fc_blocks ctx)" for b
  proof -
    have "b \<in> set blocks" using that in_set_takeD [of b n ?sorted] by (simp add: n(1))
    then obtain ix where ix: "ix \<in> set (group_keys hs)"
      "b = block_of ix (best_score hs ix) (order_turn (live_turns (eg_db s) ix))" by (auto simp: blocks)
    then obtain h where "h \<in> set hs" "mi_interaction (fst h) = ix" by (auto simp: sort_remdups_set)
    with hits(2) ix(2) show ?thesis by (auto simp: block_of_def Let_def)
  qed
  show ?thesis using 1 2 3 n by simp
qed

lemma touch_batch_cases:
  "\<exists>S. S \<subseteq> set ids \<and> (let d' = eg_db (if ids = [] then s else fst (on_db (touch_access_batch ids now) s)) in
     db_wop d' = db_wop (eg_db s)
     \<and> (\<forall>i. find_item i d' = (if i \<in> S
          then map_option (\<lambda>m. if mi_tombstone m then m else touch_item now m) (find_item i (eg_db s))
          else find_item i (eg_db s))))"
proof (cases "ids = []")
  case True
  then show ?thesis by (intro exI [of _ "{}"]) simp
next
  case False
  obtain d' r where d': "touch_access_batch ids now (eg_db s) = (d', r)"
    "eg_db (fst (on_db (touch_access_batch ids now) s)) = d'" using fst_on_db by metis
  have "set (dedup_seen [] ids) = set ids" by (simp add: set_dedup_seen)
  with d'(1) have "db_update (update_items (\<lambda>m. mi_id m \<in> set ids \<and> \<not> mi_tombstone m) (touch_item now)) (eg_db s) = (d', r)"
    using False by (auto simp: touch_access_batch_def Let_def split: if_splits)
  then show ?thesis unfolding db_update_def
  proof (cases rule: db_op_cases)
    case (fault e fs)
    then show ?thesis using False d'(2) by (intro exI [of _ "{}"]) simp
  next
    case (success x fs)
    have "find_item i d' = (if i \<in> set ids
          then map_option (\<lambda>m. if mi_tombstone m then m else touch_item now m) (find_item i (eg_db s))
          else find_item i (eg_db s))" for i
      using success(2)
      by (cases "find_item i (eg_db s)") (auto simp: find_item_update dest: find_item_id)
    moreover have "db_wop d' = db_wop (eg_db s)" using success(2) by (auto simp: update_items_def)
    ultimately show ?thesis using False d'(2) by (intro exI [of _ "set ids"]) simp
  qed
qed

lemma retrieve_touches_once_facts:
  assumes "retrieve_context ev q s = (s', Inr ctx)"
  shows "db_wop (eg_db s') = db_wop (eg_db s)
    \<and> (\<exists>now ids. (\<forall>i \<in> ids. \<exists>m. m \<in> set (db_items (eg_db s)) \<and> mi_id m = i \<and> answers q m
             \<and> mi_interaction m \<in> set (map cb_interaction (fc_blocks ctx)))
          \<and> (\<forall>i. find_item i (eg_db s') = (if i \<in> ids
               then map_option (\<lambda>m. if mi_tombstone m then m else touch_item now m) (find_item i (eg_db s))
               else find_item i (eg_db s))))"
proof -
  obtain s0 now s1 hs s2 blocks where st: "now_ms ev s = (s0, now)" "retrieve_hits ev q now s0 = (s1, Inr hs)"
    "make_blocks (best_score hs) (group_keys hs) s1 = (s2, Inr blocks)"
    and s': "s' = fst (on_db (append_audit now ''retrieve'' ''retrieve'' (concat (take 64 (utf8_chars (rq_text q))))
        (''blocks='' @ show_nat (length (fc_blocks ctx)) @ '' tokens='' @ show_nat (fc_tokens ctx)))
       (if sorted_groups_turn_ids hs (fc_blocks ctx) = [] then s2
        else fst (on_db (touch_access_batch (sorted_groups_turn_ids hs (fc_blocks ctx)) now) s2)))"
    by (rule retrieve_stages [OF assms])
  let ?ids = "sorted_groups_turn_ids hs (fc_blocks ctx)"
  let ?s3 = "if ?ids = [] then s2 else fst (on_db (touch_access_batch ?ids now) s2)"
  have s0: "eg_db s0 = eg_db s" using st(1) by (auto simp: now_ms_def call_def)
  have hits: "same_tables (eg_db s) (eg_db s1)"
    "\<forall>h \<in> set hs. fst h \<in> set (db_items (eg_db s)) \<and> answers q (fst h)"
    using retrieve_hits_sound [OF st(2)] s0 by simp_all
  have s2: "same_tables (eg_db s) (eg_db s2)"
    using hits(1) make_blocks_result [OF st(3)] same_trans by blast
  have ids: "\<exists>m. m \<in> set (db_items (eg_db s)) \<and> mi_id m = i \<and> answers q m
      \<and> mi_interaction m \<in> set (map cb_interaction (fc_blocks ctx))" if "i \<in> set ?ids" for i
    using that hits(2) by (force simp: sorted_groups_turn_ids_def group_of_def)
  have audit: "find_item j (eg_db s') = find_item j (eg_db ?s3) \<and> db_wop (eg_db s') = db_wop (eg_db ?s3)" for j
    unfolding s' by (rule fst_on_db_append_audit)
  obtain S where S: "S \<subseteq> set ?ids" "db_wop (eg_db ?s3) = db_wop (eg_db s2)"
    "\<forall>i. find_item i (eg_db ?s3) = (if i \<in> S
       then map_option (\<lambda>m. if mi_tombstone m then m else touch_item now m) (find_item i (eg_db s2))
       else find_item i (eg_db s2))"
    using touch_batch_cases [of ?ids s2 now] unfolding Let_def by blast
  have "\<forall>i \<in> S. \<exists>m. m \<in> set (db_items (eg_db s)) \<and> mi_id m = i \<and> answers q m
      \<and> mi_interaction m \<in> set (map cb_interaction (fc_blocks ctx))" using S(1) ids by blast
  moreover have "\<forall>i. find_item i (eg_db s') = (if i \<in> S
       then map_option (\<lambda>m. if mi_tombstone m then m else touch_item now m) (find_item i (eg_db s))
       else find_item i (eg_db s))"
    using S(3) audit same_tables_facts [OF s2] by (simp only:) simp
  moreover have "db_wop (eg_db s') = db_wop (eg_db s)" using S(2) audit same_tables_facts [OF s2] by simp
  ultimately show ?thesis by blast
qed

text \<open>
  a query only counts accesses. It writes nothing to the log; every item keeps its data but
  for the access counter, which grows by at most one, and only for a live item of a returned
  interaction that the query's filters admit.
\<close>

lemma retrieve_touches_once:
  assumes "retrieve_context ev q s = (s', Inr ctx)"
  shows "db_wop (eg_db s') = db_wop (eg_db s)
    \<and> (\<exists>now ids. (\<forall>i \<in> ids. \<exists>m. m \<in> set (db_items (eg_db s)) \<and> mi_id m = i \<and> answers q m
             \<and> mi_interaction m \<in> set (map cb_interaction (fc_blocks ctx)))
          \<and> (\<forall>i. find_item i (eg_db s') = (if i \<in> ids
               then map_option (\<lambda>m. if mi_tombstone m then m else touch_item now m) (find_item i (eg_db s))
               else find_item i (eg_db s))))"
  using assms by (rule retrieve_touches_once_facts)

section \<open>Two tenants with one interaction id\<close>

definition shared_mine :: memory_item where
  "shared_mine = (new_turn_skeleton ''m1'' ''chat'' 0 ''s1'' ''t1'' Episodic ''hello'' 5)\<lparr> mi_vector_ref := ''0'' \<rparr>"

definition shared_theirs :: memory_item where
  "shared_theirs = (new_turn_skeleton ''m2'' ''chat'' 1 ''s2'' ''t2'' Episodic ''secret'' 6)\<lparr> mi_vector_ref := ''1'' \<rparr>"

definition shared_engine :: engine where
  "shared_engine = demo_engine\<lparr> eg_db := put_item shared_theirs (put_item shared_mine (empty_db [])) \<rparr>"

definition shared_env :: engine_env where
  "shared_env = demo_env\<lparr> ev_knn := (\<lambda>ps v k. take k [(0, 0)]) \<rparr>"

definition shared_query :: retrieve_query where
  "shared_query = (retrieve_query_new ''hello'' 1 100)\<lparr> rq_tenant := ''t1'' \<rparr>"

lemma shared_hits:
  "\<exists>score s'. retrieve_hits shared_env shared_query now (shared_engine\<lparr> eg_tick := n \<rparr>)
     = (s', Inr [(shared_mine, score)]) \<and> eg_db s' = eg_db shared_engine" if "n \<noteq> 4"
proof -
  let ?s = "shared_engine\<lparr> eg_tick := Suc n \<rparr>"
  have e: "embed shared_env ''hello'' (shared_engine\<lparr> eg_tick := n \<rparr>) = (?s, Inr [0, 0])"
    using that by (simp add: embed_def call_def shared_env_def demo_env_def)
  have k: "on_store (search_knn (ev_knn shared_env) [0, 0] 1) ?s = (?s, Inr [(0, 1)])"
    by (simp add: on_store_def search_knn_def st_op_def search_vec_def knn_hits_def shared_engine_def
        demo_engine_def empty_store_def tombstone_set_def shared_env_def)
  have z: "show_nat 0 = ''0''" by code_simp
  have r: "on_db (get_by_vector_refs_tenant_scoped [0] ''t1'' (ns_filter_new [] [])) ?s = (?s, Inr [shared_mine])"
    by (simp add: on_db_def raw_db_def get_by_vector_refs_tenant_scoped_def scoped_query_def ns_predicate_def
        ns_active_def ns_filter_new_def shared_engine_def put_item_def replace_item_def empty_db_def
        shared_mine_def shared_theirs_def demo_engine_def z)
  have b: "by_vec_ref [shared_mine] 0 = Some shared_mine"
    by (simp add: by_vec_ref_def shared_mine_def parse_u64_def parse_unsigned_def digit_val_def)
  have w: "wanted shared_query shared_mine" by (simp add: wanted_def shared_query_def retrieve_query_new_def)
  obtain score where "score_candidate (persist_graph (eg_db ?s)) 1 shared_mine [] now = Inr score"
    by (simp add: score_candidate_def)
  with e k r b w show ?thesis
    by (simp add: retrieve_hits_def query_entities_def shared_query_def retrieve_query_new_def knn_request_def
        query_filter_def ns_active_def ns_filter_new_def shared_env_def demo_env_def)
qed

lemma shared_run:
  "\<exists>s' ctx b. retrieve_context shared_env shared_query shared_engine = (s', Inr ctx)
     \<and> fc_blocks ctx = [b] \<and> cb_interaction b = ''chat''
     \<and> cb_turns b = [item_turn shared_mine, item_turn shared_theirs]"
proof -
  obtain score s1 where h: "retrieve_hits shared_env shared_query 1000 (shared_engine\<lparr> eg_tick := 1 \<rparr>)
     = (s1, Inr [(shared_mine, score)])" and db: "eg_db s1 = eg_db shared_engine"
    using shared_hits [of 1 1000] by auto
  let ?hs = "[(shared_mine, score)]"
  have keys: "group_keys ?hs = [''chat'']" by (simp add: group_keys_def shared_mine_def)
  have l: "on_db (list_by_interaction ''chat'') s1 = (s1, Inr [shared_mine, shared_theirs])"
    by (simp add: on_db_def raw_db_def list_by_interaction_def db put_item_def replace_item_def empty_db_def
        shared_mine_def shared_theirs_def shared_engine_def order_turn_def)
  let ?b = "block_of ''chat'' (best_score ?hs ''chat'') [shared_mine, shared_theirs]"
  have b: "make_blocks (best_score ?hs) (group_keys ?hs) s1 = (s1, Inr [?b])" by (simp add: keys l)
  have n: "now_ms shared_env shared_engine = (shared_engine\<lparr> eg_tick := 1 \<rparr>, 1000)"
    by (simp add: now_ms_def call_def shared_env_def demo_env_def shared_engine_def demo_engine_def)
  have t: "cb_turns ?b = [item_turn shared_mine, item_turn shared_theirs]" "cb_interaction ?b = ''chat''"
    by (simp_all add: block_of_def Let_def aggregated_def AGG_MAX_TURNS_def shared_mine_def shared_theirs_def)
  have "\<exists>s' ctx. retrieve_context shared_env shared_query shared_engine = (s', Inr ctx) \<and> fc_blocks ctx = [?b]"
    by (simp add: retrieve_context_def n h b Let_def del: One_nat_def)
  with t show ?thesis by blast
qed

lemma retrieve_context_witness:
  "\<exists>s' ctx. retrieve_context shared_env shared_query shared_engine = (s', Inr ctx)
     \<and> (\<exists>m \<in> set (db_items (eg_db shared_engine)). mi_interaction m = ''chat'' \<and> answers shared_query m)"
proof -
  obtain s' ctx b where r: "retrieve_context shared_env shared_query shared_engine = (s', Inr ctx)"
    and b: "b \<in> set (fc_blocks ctx)" "cb_interaction b = ''chat''" using shared_run by force
  from retrieve_context_sound [OF r] b r show ?thesis by fastforce
qed

lemma retrieve_touches_witness:
  "\<exists>s' ctx. retrieve_context shared_env shared_query shared_engine = (s', Inr ctx)
     \<and> db_wop (eg_db s') = db_wop (eg_db shared_engine)"
proof -
  obtain s' ctx where r: "retrieve_context shared_env shared_query shared_engine = (s', Inr ctx)"
    using shared_run by force
  from retrieve_touches_once [OF r] r show ?thesis by blast
qed

text \<open>
  the tenant filter does not reach the text. The hits are filtered by tenant, but the turns
  of a hit's interaction are listed by its id alone: when two tenants use the same interaction
  id, a query of the one returns the stored text of the other.
\<close>

lemma retrieve_crosses_tenants:
  "\<exists>s' ctx b t. retrieve_context shared_env shared_query shared_engine = (s', Inr ctx)
     \<and> b \<in> set (fc_blocks ctx) \<and> t \<in> set (cb_turns b) \<and> tu_user t = mi_content shared_theirs
     \<and> mi_tenant shared_theirs \<noteq> rq_tenant shared_query"
proof -
  obtain s' ctx b where r: "retrieve_context shared_env shared_query shared_engine = (s', Inr ctx)"
    and b: "fc_blocks ctx = [b]" "cb_turns b = [item_turn shared_mine, item_turn shared_theirs]"
    using shared_run by metis
  moreover have "mi_tenant shared_theirs \<noteq> rq_tenant shared_query"
    by (simp add: shared_theirs_def shared_query_def)
  moreover have "tu_user (item_turn shared_theirs) = mi_content shared_theirs" by (simp add: item_turn_def)
  ultimately show ?thesis by (intro exI [of _ s'] exI [of _ ctx] exI [of _ b]) auto
qed

end
