(* ===== verification/Consolidate.thy ===== *)
theory Consolidate
  imports Retrieve
begin

text \<open>
  The consolidation saga of \<open>fm-engine/engine.rs\<close>: recycling and promotion, merging of semantic
  memories, summaries, late entity extraction, and the reconciliation of the two stores.

  The iteration order of the hash map of sessions is a parameter \<open>ord\<close>, a function on the list of
  its keys.
\<close>

definition MERGE_SIM_THRESHOLD :: real where "MERGE_SIM_THRESHOLD = 0.92"
definition MERGE_KNN :: nat where "MERGE_KNN = 5"
definition SUMMARIZE_MIN_EPISODIC :: nat where "SUMMARIZE_MIN_EPISODIC = 3"

definition failure :: "string \<Rightarrow> string \<Rightarrow> string \<Rightarrow> consolidation_failure" where
  "failure i stage e = \<lparr> cf_id = i, cf_stage = stage, cf_error = e \<rparr>"

definition tab :: string where "tab = [char_of (9 :: nat)]"

section \<open>Recycling and promotion\<close>

record phase1 =
  p1_eng :: engine
  p1_dropped :: nat
  p1_promoted :: nat
  p1_failures :: "consolidation_failure list"

definition p1_fail :: "string \<Rightarrow> string \<Rightarrow> string \<Rightarrow> phase1 \<Rightarrow> phase1" where
  "p1_fail i stage e p = p\<lparr> p1_failures := p1_failures p @ [failure i stage e] \<rparr>"

definition recycle_one :: "nat \<Rightarrow> memory_item \<Rightarrow> phase1 \<Rightarrow> phase1" where
  "recycle_one now m p =
     (let p1 = (case parse_u64 (mi_vector_ref m) of
                  None \<Rightarrow> p
                | Some v \<Rightarrow>
                    (case on_store (delete_vector (of_nat v)) (p1_eng p) of
                       (s, Inl e) \<Rightarrow> p1_fail (mi_id m) ''recycle'' (err_display e) (p\<lparr> p1_eng := s \<rparr>)
                     | (s, Inr _) \<Rightarrow> p\<lparr> p1_eng := s \<rparr>));
          p2 = (case raw_db (tombstone_memory (mi_id m)) (p1_eng p1) of
                  (s, Inl e) \<Rightarrow> p1_fail (mi_id m) ''recycle'' (persist_display e) (p1\<lparr> p1_eng := s \<rparr>)
                | (s, Inr _) \<Rightarrow> p1\<lparr> p1_eng := s \<rparr>)
      in p2\<lparr> p1_eng := fst (on_db (append_wop ''recycle'' (mi_id m) now) (p1_eng p2)),
             p1_dropped := p1_dropped p2 + 1 \<rparr>)"

definition promote_one :: "nat \<Rightarrow> memory_item \<Rightarrow> phase1 \<Rightarrow> phase1" where
  "promote_one now m p =
     (case raw_db (put_memory (m\<lparr> mi_tier := Long \<rparr>)) (p1_eng p) of
        (s, Inl e) \<Rightarrow> p1_fail (mi_id m) ''promote'' (persist_display e) (p\<lparr> p1_eng := s \<rparr>)
      | (s, Inr _) \<Rightarrow>
          p\<lparr> p1_eng := fst (on_db (append_wop ''promote'' (mi_id m @ tab @ ''Long'') now) s),
             p1_promoted := p1_promoted p + 1 \<rparr>)"

definition phase1_one :: "nat \<Rightarrow> memory_item \<Rightarrow> phase1 \<Rightarrow> phase1" where
  "phase1_one now m p =
     (if should_recycle m now then recycle_one now m p
      else if mi_tier m = Short \<and> should_promote m now then promote_one now m p
      else p)"

definition consolidate_phase1 :: "nat \<Rightarrow> memory_item list \<Rightarrow> engine \<Rightarrow> phase1" where
  "consolidate_phase1 now changed s =
     fold (phase1_one now) changed \<lparr> p1_eng = s, p1_dropped = 0, p1_promoted = 0, p1_failures = [] \<rparr>"

section \<open>Merging\<close>

definition shares_entity :: "memory_item \<Rightarrow> memory_item \<Rightarrow> bool" where
  "shares_entity a b = (\<exists>e \<in> set (mi_entities a). \<exists>t \<in> set (mi_entities b). en_id t = en_id e)"

definition merge_reason :: string where "merge_reason = ''ann-sim+shared-entity''"

text \<open>The walk over the neighbours of one source; the number is 1 when it was merged.\<close>

fun merge_with ::
  "(nat \<Rightarrow> memory_item option) \<Rightarrow> memory_item \<Rightarrow> nat \<Rightarrow> vec \<Rightarrow> nat \<Rightarrow> (vid \<times> real) list
     \<Rightarrow> consolidation_failure list \<Rightarrow> engine \<Rightarrow> engine \<times> nat \<times> consolidation_failure list" where
  "merge_with by src vr vec now [] fl s = (s, 0, fl)"
| "merge_with by src vr vec now ((vid, sim) # knn) fl s =
     (if sim < MERGE_SIM_THRESHOLD \<or> unat vid = vr then merge_with by src vr vec now knn fl s
      else case by (unat vid) of
        None \<Rightarrow> merge_with by src vr vec now knn fl s
      | Some tgt \<Rightarrow>
          if mi_tombstone tgt \<or> mi_id tgt = mi_id src \<or> \<not> shares_entity src tgt
          then merge_with by src vr vec now knn fl s
          else
            (case raw_db (tombstone_memory (mi_id src)) s of
               (s1, Inl e) \<Rightarrow>
                 merge_with by src vr vec now knn (fl @ [failure (mi_id src) ''merge'' (persist_display e)]) s1
             | (s1, Inr _) \<Rightarrow>
                 let s2 = fst (on_store (delete_vector (of_nat vr)) s1)
                 in case raw_db (record_merge (mi_id src) (mi_id tgt) merge_reason now) s2 of
                      (s3, Inl e) \<Rightarrow>
                        let s4 = fst (raw_db (untombstone_memory (mi_id src)) s3);
                            s5 = fst (on_store (insert_vector (of_nat vr) vec) s4)
                        in (s5, 0, fl @ [failure (mi_id src) ''merge-log'' (persist_display e)])
                    | (s3, Inr _) \<Rightarrow>
                        (fst (on_db (append_wop ''merge''
                                (mi_id src @ tab @ mi_id tgt @ tab @ merge_reason @ tab @ show_nat now) now) s3),
                         1, fl)))"

fun merge_all ::
  "engine_env \<Rightarrow> (nat \<Rightarrow> memory_item option) \<Rightarrow> nat \<Rightarrow> memory_item list \<Rightarrow> nat
     \<Rightarrow> consolidation_failure list \<Rightarrow> engine \<Rightarrow> (engine \<times> consolidation_failure list) \<times> (memory_error + nat)" where
  "merge_all ev by now [] n fl s = ((s, fl), Inr n)"
| "merge_all ev by now (src # rest) n fl s =
     (case parse_u64 (mi_vector_ref src) of
        None \<Rightarrow> merge_all ev by now rest n fl s
      | Some vr \<Rightarrow>
          (case on_store (get_vector (of_nat vr)) s of
             (s1, Inr (Some vec)) \<Rightarrow>
               (case on_store (search_knn (ev_knn ev) vec MERGE_KNN) s1 of
                  (s2, Inl e) \<Rightarrow> ((s2, fl), Inl e)
                | (s2, Inr knn) \<Rightarrow>
                    (case merge_with by src vr vec now knn fl s2 of
                       (s3, k, fl3) \<Rightarrow> merge_all ev by now rest (n + k) fl3 s3))
           | (s1, _) \<Rightarrow> merge_all ev by now rest n fl s1))"

definition consolidate_merge ::
  "engine_env \<Rightarrow> memory_item list \<Rightarrow> nat \<Rightarrow> ns_filter \<Rightarrow> consolidation_failure list \<Rightarrow> engine
     \<Rightarrow> (engine \<times> consolidation_failure list) \<times> (memory_error + nat)" where
  "consolidate_merge ev changed now f fl s =
     (case on_db (list_all_by_tenant_scoped (ev_tenant ev) f) s of
        (s1, Inl e) \<Rightarrow> ((s1, fl), Inl e)
      | (s1, Inr all) \<Rightarrow>
          merge_all ev (by_vec_ref all) now
            (filter (\<lambda>m. mi_type m = Semantic \<and> \<not> mi_tombstone m) changed) 0 fl s1)"

section \<open>Summaries\<close>

definition summary_join :: "memory_item list \<Rightarrow> string" where
  "summary_join ms = join ([char_of (10 :: nat)] @ ''---'' @ [char_of (10 :: nat)]) (map mi_content ms)"

definition summary_item ::
  "engine_env \<Rightarrow> string \<Rightarrow> string \<Rightarrow> string \<Rightarrow> nat \<Rightarrow> ns_filter \<Rightarrow> memory_item list \<Rightarrow> memory_item" where
  "summary_item ev i sess summary now f ms =
     (let (ns, k) = (if ns_active f then (nf_ns f, nf_key f)
                     else case ms of [] \<Rightarrow> ([], []) | m # _ \<Rightarrow> (mi_ns m, mi_ns_key m))
      in (with_namespace
            (new_turn_skeleton i (''summary-'' @ sess) 0 sess (ev_tenant ev) Semantic summary now) ns k)
         \<lparr> mi_vector_ref := show_nat (unat (vector_id_from_ulid i)), mi_tier := Long,
           mi_entities_pending := True \<rparr>)"

text \<open>Storing the summary of a session: an error that ends the saga, or whether it was stored.\<close>

definition store_summary ::
  "engine_env \<Rightarrow> string \<Rightarrow> string \<Rightarrow> nat \<Rightarrow> ns_filter \<Rightarrow> memory_item list \<Rightarrow> consolidation_failure list
     \<Rightarrow> engine \<Rightarrow> (engine \<times> consolidation_failure list) \<times> (memory_error + bool)" where
  "store_summary ev sess summary now f ms fl s =
     (case call (ev_ulid ev) s of
        (s1, i) \<Rightarrow>
          (case embed ev summary s1 of
             (s2, Inl e) \<Rightarrow> ((s2, fl), Inl e)
           | (s2, Inr vec) \<Rightarrow>
               (case on_store (insert_vector (vector_id_from_ulid i) vec) s2 of
                  (s3, Inl e) \<Rightarrow> ((s3, fl), Inl e)
                | (s3, Inr _) \<Rightarrow>
                    let item = summary_item ev i sess summary now f ms
                    in case pc_enc (ev_codec ev) (item, Some vec) of
                         Inl e \<Rightarrow> ((s3, fl), Inl (ESerde e))
                       | Inr payload \<Rightarrow>
                           (case raw_db (put_memory_with_wop item ''summarize'' payload now) s3 of
                              (s4, Inl e) \<Rightarrow>
                                ((fst (on_store (delete_vector (vector_id_from_ulid i)) s4),
                                  fl @ [failure i ''summarize'' (persist_display e)]), Inr False)
                            | (s4, Inr _) \<Rightarrow> ((s4, fl), Inr True)))))"

fun summarize_sessions ::
  "engine_env \<Rightarrow> (nat \<Rightarrow> string \<Rightarrow> string option) \<Rightarrow> memory_item list \<Rightarrow> nat \<Rightarrow> ns_filter \<Rightarrow> string list
     \<Rightarrow> nat \<Rightarrow> consolidation_failure list \<Rightarrow> engine
     \<Rightarrow> (engine \<times> consolidation_failure list) \<times> (memory_error + nat)" where
  "summarize_sessions ev chat eps now f [] n fl s = ((s, fl), Inr n)"
| "summarize_sessions ev chat eps now f (sess # rest) n fl s =
     (let ms = filter (\<lambda>m. mi_session m = sess) eps
      in if length ms < SUMMARIZE_MIN_EPISODIC then summarize_sessions ev chat eps now f rest n fl s
         else case call (\<lambda>k. chat k (summary_join ms)) s of
           (s1, None) \<Rightarrow>
             summarize_sessions ev chat eps now f rest n
               (fl @ [failure (''summary-'' @ sess) ''summarize''
                        ''mlx chat_completion failed (network/non-2xx/parse)'']) s1
         | (s1, Some summary) \<Rightarrow>
             if trim summary = [] then
               summarize_sessions ev chat eps now f rest n
                 (fl @ [failure (''summary-'' @ sess) ''summarize'' ''mlx returned empty summary content'']) s1
             else (case store_summary ev sess summary now f ms fl s1 of
                     ((s2, fl2), Inl e) \<Rightarrow> ((s2, fl2), Inl e)
                   | ((s2, fl2), Inr stored) \<Rightarrow>
                       summarize_sessions ev chat eps now f rest (if stored then n + 1 else n) fl2 s2))"

definition consolidate_summarize ::
  "(string list \<Rightarrow> string list) \<Rightarrow> engine_env \<Rightarrow> memory_item list \<Rightarrow> nat \<Rightarrow> ns_filter
     \<Rightarrow> consolidation_failure list \<Rightarrow> engine
     \<Rightarrow> (engine \<times> consolidation_failure list) \<times> (memory_error + nat)" where
  "consolidate_summarize ord ev changed now f fl s =
     (case ev_chat ev of
        None \<Rightarrow> ((s, fl), Inr 0)
      | Some chat \<Rightarrow>
          let eps = filter (\<lambda>m. mi_type m = Episodic \<and> \<not> mi_tombstone m) changed
          in summarize_sessions ev chat eps now f (ord (remdups (map mi_session eps))) 0 fl s)"

section \<open>Late extraction\<close>

definition reextract_one ::
  "engine_env \<Rightarrow> nat \<Rightarrow> memory_item \<Rightarrow> engine \<times> nat \<times> consolidation_failure list
     \<Rightarrow> engine \<times> nat \<times> consolidation_failure list" where
  "reextract_one ev now m = (\<lambda>(s, n, fl).
     if \<not> mi_entities_pending m then (s, n, fl)
     else case ev_extract ev of
       None \<Rightarrow> (s, n, fl)
     | Some ex \<Rightarrow>
         (case call (\<lambda>k. ex k (mi_content m)) s of
            (s1, (ents, success)) \<Rightarrow>
              if \<not> success then (s1, n, fl)
              else let item = m\<lparr> mi_entities := ents, mi_entities_pending := False \<rparr>
                   in case raw_db (put_memory item) s1 of
                        (s2, Inl e) \<Rightarrow> (s2, n, fl @ [failure (mi_id m) ''reextract'' (persist_display e)])
                      | (s2, Inr _) \<Rightarrow>
                          let payload = (case pc_item_enc (ev_codec ev) item of Inr p \<Rightarrow> p | Inl _ \<Rightarrow> [])
                          in (fst (on_db (append_wop ''reextract'' payload now) s2), n + 1, fl)))"

section \<open>Reconciliation\<close>

definition log_reconcile ::
  "nat \<Rightarrow> string \<Rightarrow> string \<Rightarrow> string \<Rightarrow> engine \<Rightarrow> engine" where
  "log_reconcile now i stage e s = fst (on_db (append_reconcile now i stage e) s)"

text \<open>A row that names a vector the store does not have, or names none.\<close>

definition reconcile_forward_one :: "nat \<Rightarrow> memory_item \<Rightarrow> engine \<Rightarrow> engine" where
  "reconcile_forward_one now m s =
     (case parse_u64 (mi_vector_ref m) of
        Some v \<Rightarrow>
          (case on_store (get_vector (of_nat v)) s of
             (s1, Inr (Some _)) \<Rightarrow> s1
           | (s1, _) \<Rightarrow> log_reconcile now (mi_id m) ''dangling-vector'' ''sqlite has ref, store missing'' s1)
      | None \<Rightarrow>
          log_reconcile now (mi_id m) ''bad-vector-ref'' ''vector_ref not u64, cannot check store'' s)"

definition known_refs :: "memory_item list \<Rightarrow> nat list" where
  "known_refs ms = List.map_filter (\<lambda>m. parse_u64 (mi_vector_ref m)) ms"

definition reconcile_orphan :: "nat \<Rightarrow> nat list \<Rightarrow> vid \<Rightarrow> engine \<Rightarrow> engine" where
  "reconcile_orphan now refs v s =
     (if unat v \<in> set refs then s
      else fst (on_store (delete_vector v)
             (log_reconcile now (''orphan-vec-'' @ show_nat (unat v)) ''orphan-vector''
                ''store has vector, sqlite missing metadata'' s)))"

definition reconcile_tombstone ::
  "nat \<Rightarrow> string set \<Rightarrow> memory_item \<Rightarrow> engine \<times> nat \<times> consolidation_failure list
     \<Rightarrow> engine \<times> nat \<times> consolidation_failure list" where
  "reconcile_tombstone now sources t = (\<lambda>(s, n, fl).
     if mi_id t \<in> sources then (s, n, fl)
     else case (case parse_u64 (mi_vector_ref t) of
                  Some v \<Rightarrow> (case on_store (delete_vector (of_nat v)) s of (s1, r) \<Rightarrow> (s1, is_ok r))
                | None \<Rightarrow> (log_reconcile now (mi_id t) ''bad-vector-ref''
                            ''tombstone vector_ref not u64, ghost vector may remain'' s, False)) of
       (s1, False) \<Rightarrow> (s1, n, fl)
     | (s1, True) \<Rightarrow>
         (case raw_db (physical_delete (mi_id t)) s1 of
            (s2, Inl e) \<Rightarrow> (s2, n, fl @ [failure (mi_id t) ''reconcile-physical-delete'' (persist_display e)])
          | (s2, Inr _) \<Rightarrow> (s2, n + 1, fl)))"

definition consolidate_reconcile ::
  "engine_env \<Rightarrow> nat \<Rightarrow> ns_filter \<Rightarrow> consolidation_failure list \<Rightarrow> engine
     \<Rightarrow> (engine \<times> consolidation_failure list) \<times> (memory_error + nat)" where
  "consolidate_reconcile ev now f fl s =
     (case on_db (list_all_by_tenant_scoped (ev_tenant ev) f) s of
        (s1, Inl e) \<Rightarrow> ((s1, fl), Inl e)
      | (s1, Inr all) \<Rightarrow>
          let s2 = fold (reconcile_forward_one now) all s1
          in case on_store list_vector_ids s2 of
               (s3, ids) \<Rightarrow>
                 let s4 = fold (reconcile_orphan now (known_refs all))
                            (case ids of Inr vs \<Rightarrow> vs | Inl _ \<Rightarrow> []) s3
                 in case on_db list_merge_log s4 of
                      (s5, logs) \<Rightarrow>
                        let sources = (case logs of Inr rows \<Rightarrow> me_source ` set rows | Inl _ \<Rightarrow> {})
                        in case on_db list_tombstoned s5 of
                             (s6, Inl e) \<Rightarrow> ((s6, fl), Inl e)
                           | (s6, Inr tombs) \<Rightarrow>
                               (case fold (reconcile_tombstone now sources) tombs (s6, 0, fl) of
                                  (s7, n, fl7) \<Rightarrow> ((s7, fl7), Inr n)))"

definition reconcile :: "engine_env \<Rightarrow> engine \<Rightarrow> engine \<times> (memory_error + nat)" where
  "reconcile ev s =
     (case now_ms ev s of
        (s1, now) \<Rightarrow>
          (case consolidate_reconcile ev now (ns_filter_new [] []) [] s1 of ((s2, _), r) \<Rightarrow> (s2, r)))"

section \<open>The saga\<close>

definition consolidate_detail :: "consolidation_report \<Rightarrow> string" where
  "consolidate_detail r =
     ''dropped='' @ show_nat (cr_dropped r) @ '' promoted='' @ show_nat (cr_promoted r)
     @ '' merged='' @ show_nat (cr_merged r) @ '' summarized='' @ show_nat (cr_summarized r)
     @ '' reextracted='' @ show_nat (cr_reextracted r) @ '' reconciled='' @ show_nat (cr_reconciled r)
     @ '' failures='' @ show_nat (length (cr_failures r))"

text \<open>The log of the run, its reconciliation rows, and the audit row.\<close>

definition consolidate_finish ::
  "ns_filter \<Rightarrow> nat \<Rightarrow> consolidation_report \<Rightarrow> engine \<Rightarrow> engine \<times> (memory_error + consolidation_report)" where
  "consolidate_finish f start report s =
     then_do
       (\<lambda>s. if ns_active f
            then (fold (\<lambda>x. log_reconcile start (cf_id x) (cf_stage x) (cf_error x)) (cr_failures report) s, Inr ())
            else on_db (record_consolidation report start) s)
       (\<lambda>_ s. (fst (on_db (append_audit start ''system'' ''consolidate'' ''saga'' (consolidate_detail report)) s),
               Inr report)) s"

definition consolidate_impl ::
  "(string list \<Rightarrow> string list) \<Rightarrow> engine_env \<Rightarrow> ns_filter \<Rightarrow> engine
     \<Rightarrow> engine \<times> (memory_error + consolidation_report)" where
  "consolidate_impl ord ev f s =
     (case now_ms ev s of
        (s0, start) \<Rightarrow>
          then_do (on_db last_consolidate_at) (\<lambda>since.
          then_do (on_db (list_changed_since_scoped since f)) (\<lambda>changed s1.
            let p = consolidate_phase1 start changed s1
            in case consolidate_merge ev changed start f (p1_failures p) (p1_eng p) of
                 ((s2, fl2), Inl e) \<Rightarrow> (s2, Inl e)
               | ((s2, fl2), Inr merged) \<Rightarrow>
                   (case consolidate_summarize ord ev changed start f fl2 s2 of
                      ((s3, fl3), Inl e) \<Rightarrow> (s3, Inl e)
                    | ((s3, fl3), Inr summarized) \<Rightarrow>
                        (case fold (reextract_one ev start) changed (s3, 0, fl3) of
                           (s4, reextracted, fl4) \<Rightarrow>
                             (case consolidate_reconcile ev start f fl4 s4 of
                                ((s5, fl5), Inl e) \<Rightarrow> (s5, Inl e)
                              | ((s5, fl5), Inr reconciled) \<Rightarrow>
                                  (case now_ms ev s5 of
                                     (s6, end_ms) \<Rightarrow>
                                       consolidate_finish f start
                                         \<lparr> cr_dropped = p1_dropped p, cr_promoted = p1_promoted p,
                                           cr_merged = merged, cr_summarized = summarized,
                                           cr_reextracted = reextracted, cr_reconciled = reconciled,
                                           cr_elapsed = end_ms - start, cr_failures = fl5 \<rparr> s6)))))) s0)"

definition consolidate_memories ::
  "(string list \<Rightarrow> string list) \<Rightarrow> engine_env \<Rightarrow> engine \<Rightarrow> engine \<times> (memory_error + consolidation_report)" where
  "consolidate_memories ord ev = consolidate_impl ord ev (ns_filter_new [] [])"

definition consolidate_memories_scoped ::
  "(string list \<Rightarrow> string list) \<Rightarrow> engine_env \<Rightarrow> string \<Rightarrow> string \<Rightarrow> engine
     \<Rightarrow> engine \<times> (memory_error + consolidation_report)" where
  "consolidate_memories_scoped ord ev ns k = consolidate_impl ord ev (ns_filter_new ns k)"

end
