(* ===== verification/Adapters.thy ===== *)
theory Adapters
  imports Config Retrieve Consolidate
begin

text \<open>
  Two adapters. The store over an external vector engine (\<open>fm-store/src/fusion.rs\<close>): the engine
  is a parameter, a record of the operations the adapter calls, over a state of any type. And
  the Python class (\<open>fm-py/src/lib.rs\<close>): how it builds an engine and forwards to it; Python's
  \<open>json\<close> module and serde are parameters.
\<close>

section \<open>The store over an external vector engine\<close>

record 'x fs_core =
  fs_open :: "string \<Rightarrow> nat \<Rightarrow> string + 'x"
  fs_put_kv :: "string \<Rightarrow> string \<Rightarrow> 'x \<Rightarrow> 'x \<times> (string + unit)"
  fs_get_kv :: "string \<Rightarrow> 'x \<Rightarrow> 'x \<times> (string + string option)"
  fs_insert :: "vid \<Rightarrow> vec \<Rightarrow> 'x \<Rightarrow> 'x \<times> (string + unit)"
  fs_search :: "vec \<Rightarrow> nat \<Rightarrow> 'x \<Rightarrow> 'x \<times> (string + (vid \<times> real) list)"
  fs_get_vector :: "vid \<Rightarrow> 'x \<Rightarrow> 'x \<times> (string + vec option)"
  fs_delete :: "vid \<Rightarrow> 'x \<Rightarrow> 'x \<times> (string + bool)"
  fs_ids :: "'x \<Rightarrow> 'x \<times> (string + vid list)"

record 'x fusion_store =
  fu_engine :: 'x
  fu_dim :: nat

definition fusion_open :: "'x fs_core \<Rightarrow> string \<Rightarrow> nat \<Rightarrow> store_error + 'x fusion_store" where
  "fusion_open fs path dm =
     (if dm = 0 then Inl (SDimension 1 0)
      else case fs_open fs path dm of
             Inl e \<Rightarrow> Inl (SSled (''fs-core open: '' @ e))
           | Inr x \<Rightarrow> Inr \<lparr> fu_engine = x, fu_dim = dm \<rparr>)"

definition fusion_dim_check :: "'x fusion_store \<Rightarrow> vec \<Rightarrow> store_error + unit" where
  "fusion_dim_check f v = (if length v \<noteq> fu_dim f then Inl (SDimension (fu_dim f) (length v)) else Inr ())"

text \<open>A call of the engine: its error becomes a store error with its text, its result is converted.\<close>

definition fusion_call ::
  "('x \<Rightarrow> 'x \<times> (string + 'a)) \<Rightarrow> ('a \<Rightarrow> 'b) \<Rightarrow> 'x fusion_store \<Rightarrow> 'x fusion_store \<times> (memory_error + 'b)" where
  "fusion_call g h f =
     (case g (fu_engine f) of
        (x, r) \<Rightarrow> (f\<lparr> fu_engine := x \<rparr>,
                  (case r of Inl e \<Rightarrow> Inl (store_to_memory (SSled e)) | Inr a \<Rightarrow> Inr (h a))))"

definition fusion_checked ::
  "vec \<Rightarrow> ('x fusion_store \<Rightarrow> 'x fusion_store \<times> (memory_error + 'b)) \<Rightarrow> 'x fusion_store
     \<Rightarrow> 'x fusion_store \<times> (memory_error + 'b)" where
  "fusion_checked v k f =
     (case fusion_dim_check f v of Inl e \<Rightarrow> (f, Inl (store_to_memory e)) | Inr _ \<Rightarrow> k f)"

definition fusion_put_kv ::
  "'x fs_core \<Rightarrow> string \<Rightarrow> string \<Rightarrow> 'x fusion_store \<Rightarrow> 'x fusion_store \<times> (memory_error + unit)" where
  "fusion_put_kv fs k v = fusion_call (fs_put_kv fs k v) (\<lambda>_. ())"

definition fusion_get_kv ::
  "'x fs_core \<Rightarrow> string \<Rightarrow> 'x fusion_store \<Rightarrow> 'x fusion_store \<times> (memory_error + string option)" where
  "fusion_get_kv fs k = fusion_call (fs_get_kv fs k) id"

definition fusion_insert_vector ::
  "'x fs_core \<Rightarrow> vid \<Rightarrow> vec \<Rightarrow> 'x fusion_store \<Rightarrow> 'x fusion_store \<times> (memory_error + unit)" where
  "fusion_insert_vector fs i v = fusion_checked v (fusion_call (fs_insert fs i v) (\<lambda>_. ()))"

definition fusion_search_knn ::
  "'x fs_core \<Rightarrow> vec \<Rightarrow> nat \<Rightarrow> 'x fusion_store \<Rightarrow> 'x fusion_store \<times> (memory_error + (vid \<times> real) list)" where
  "fusion_search_knn fs q k =
     fusion_checked q (fusion_call (fs_search fs q k) (map (\<lambda>(i, distance). (i, 1 - distance))))"

definition fusion_get_vector ::
  "'x fs_core \<Rightarrow> vid \<Rightarrow> 'x fusion_store \<Rightarrow> 'x fusion_store \<times> (memory_error + vec option)" where
  "fusion_get_vector fs i = fusion_call (fs_get_vector fs i) id"

definition fusion_delete_vector ::
  "'x fs_core \<Rightarrow> vid \<Rightarrow> 'x fusion_store \<Rightarrow> 'x fusion_store \<times> (memory_error + unit)" where
  "fusion_delete_vector fs i = fusion_call (fs_delete fs i) (\<lambda>_. ())"

definition fusion_list_vector_ids ::
  "'x fs_core \<Rightarrow> 'x fusion_store \<Rightarrow> 'x fusion_store \<times> (memory_error + vid list)" where
  "fusion_list_vector_ids fs = fusion_call (fs_ids fs) id"

definition fusion_dimension :: "'x fusion_store \<Rightarrow> nat" where
  "fusion_dimension f = fu_dim f"

text \<open>Every operation keeps the dimension, and every failure is a store error.\<close>

lemma fusion_call_cases:
  assumes "fusion_call g h f = (f', r)"
  shows "fusion_dimension f' = fusion_dimension f" and "r = Inl e \<Longrightarrow> \<exists>t. e = EStore t"
  using assms by (auto simp: fusion_call_def fusion_dimension_def split: prod.splits sum.splits)

lemmas fusion_defs = fusion_put_kv_def fusion_get_kv_def fusion_insert_vector_def fusion_search_knn_def
  fusion_get_vector_def fusion_delete_vector_def fusion_list_vector_ids_def

lemma fusion_open_dimension:
  "fusion_open fs path dm = Inr f \<Longrightarrow> fusion_dimension f = dm \<and> dm > 0"
  by (auto simp: fusion_open_def fusion_dimension_def split: if_splits sum.splits)

text \<open>A vector of another length never reaches the engine.\<close>

lemma fusion_wrong_length:
  assumes "length v \<noteq> fu_dim f"
  shows "fusion_insert_vector fs i v f
      = (f, Inl (EStore (store_error_display (SDimension (fu_dim f) (length v)))))"
    and "fusion_search_knn fs v k f
      = (f, Inl (EStore (store_error_display (SDimension (fu_dim f) (length v)))))"
  using assms by (simp_all add: fusion_defs fusion_checked_def fusion_dim_check_def)

text \<open>
  The engine's hits come by ascending distance; the adapter's have descending similarity, are
  the same ids in the same order, and no id that is left out is more similar.
\<close>

lemma fusion_search_order:
  assumes "fs_search fs q k (fu_engine f) = (x, Inr hits)" and "length q = fu_dim f"
    and "sorted (map snd hits)"
    and "\<And>j. j \<in> live \<Longrightarrow> j \<notin> fst ` set hits \<Longrightarrow> \<forall>h \<in> set hits. snd h \<le> 1 - sim j"
  obtains out where "fusion_search_knn fs q k f = (f\<lparr> fu_engine := x \<rparr>, Inr out)"
    and "map fst out = map fst hits" and "sorted_wrt (\<ge>) (map snd out)"
    and "\<And>j h. j \<in> live \<Longrightarrow> j \<notin> fst ` set out \<Longrightarrow> h \<in> set out \<Longrightarrow> sim j \<le> snd h"
proof
  let ?out = "map (\<lambda>(i, d). (i, 1 - d)) hits"
  show "fusion_search_knn fs q k f = (f\<lparr> fu_engine := x \<rparr>, Inr ?out)"
    using assms(1,2)
    by (simp add: fusion_search_knn_def fusion_checked_def fusion_dim_check_def fusion_call_def)
  show ids: "map fst ?out = map fst hits" by (simp add: case_prod_beta)
  show "sorted_wrt (\<ge>) (map snd ?out)"
    using assms(3) by (simp add: sorted_wrt_map case_prod_beta)
  fix j h assume j: "j \<in> live" "j \<notin> fst ` set ?out" and h: "h \<in> set ?out"
  have "j \<notin> fst ` set hits" using j(2) ids by (metis list.set_map)
  with assms(4) [OF j(1)] h show "sim j \<le> snd h" by (auto simp: case_prod_beta)
qed

section \<open>The Python class\<close>

definition py_default_dir :: "os_env \<Rightarrow> string" where
  "py_default_dir env =
     (case env ''FM_HOME'' of
        Some d \<Rightarrow> d
      | None \<Rightarrow> (case env ''HOME'' of Some h \<Rightarrow> path_join h ''.fusion-memory'' | None \<Rightarrow> ''.fusion-memory''))"

definition py_embed_settings :: "os_env \<Rightarrow> embed_config" where
  "py_embed_settings env =
     (embed_from_env env)\<lparr> ec_api_key := (case env ''FUSION_MEMORY_MLX_API_KEY'' of Some k \<Rightarrow> k | None \<Rightarrow> []) \<rparr>"

definition py_extract_settings :: "os_env \<Rightarrow> extract_config" where
  "py_extract_settings env =
     \<lparr> xc_url = (case env ''FUSION_MLX_URL'' of Some u \<Rightarrow> u | None \<Rightarrow> ''http://127.0.0.1:11434/v1''),
       xc_api_key = (case env ''FUSION_MEMORY_MLX_API_KEY'' of Some k \<Rightarrow> k | None \<Rightarrow> []),
       xc_model = (case env ''FUSION_MEMORY_CHAT_MODEL'' of Some v \<Rightarrow> v | None \<Rightarrow> ''Qwen3.5-9B-4bit''),
       xc_timeout = 60 \<rparr>"

definition py_engine_new :: "os_env \<Rightarrow> opener \<Rightarrow> string option \<Rightarrow> bool \<Rightarrow> string + engine_plan" where
  "py_engine_new env op data_dir stub =
     (let dir = (case data_dir of Some d \<Rightarrow> d | None \<Rightarrow> py_default_dir env)
      in bind_res (map_err (\<lambda>e. ''mkdir: '' @ e) (op_mkdir op dir)) (\<lambda>_.
     let dm = (if stub then 64 else 1024)
      in bind_res (op_store op (path_join dir ''store'') dm) (\<lambda>_.
         bind_res (op_db op (path_join dir ''memory.db'')) (\<lambda>_.
         bind_res (if stub then Inr None
                   else bind_res (op_client op (py_embed_settings env)) (\<lambda>_. Inr (Some (py_embed_settings env)))) (\<lambda>e.
         let redact = redact_enabled_env (env ''FUSION_MEMORY_REDACT_PII'')
          in if stub
             then Inr \<lparr> pl_store_dim = dm, pl_embed = e, pl_redact = redact, pl_extract = None \<rparr>
             else bind_res (op_extractor op (py_extract_settings env)) (\<lambda>_.
                    Inr \<lparr> pl_store_dim = dm, pl_embed = e, pl_redact = redact,
                          pl_extract = Some (py_extract_settings env) \<rparr>))))))"

text \<open>Objects cross the border as JSON text.\<close>

record 'o py_json =
  py_dumps :: "'o \<Rightarrow> string + string"
  py_loads :: "string \<Rightarrow> string + 'o"
  py_read_interaction :: "string \<Rightarrow> string + interaction"
  py_write_context :: "formatted_context \<Rightarrow> string + string"
  py_write_report :: "consolidation_report \<Rightarrow> string + string"

definition py_obj_to_rust :: "'o py_json \<Rightarrow> 'o \<Rightarrow> string + interaction" where
  "py_obj_to_rust pj x =
     bind_res (py_dumps pj x) (\<lambda>t. map_err (\<lambda>e. ''interaction decode: '' @ e) (py_read_interaction pj t))"

definition rust_to_py_obj :: "'o py_json \<Rightarrow> ('a \<Rightarrow> string + string) \<Rightarrow> 'a \<Rightarrow> string + 'o" where
  "rust_to_py_obj pj write a = bind_res (write a) (py_loads pj)"

text \<open>A call of the engine: its error is raised with its text.\<close>

definition py_call ::
  "(engine \<Rightarrow> engine \<times> (memory_error + 'a)) \<Rightarrow> ('a \<Rightarrow> string + 'b) \<Rightarrow> engine \<Rightarrow> engine \<times> (string + 'b)" where
  "py_call g k s =
     (case g s of (s1, Inl e) \<Rightarrow> (s1, Inl (err_display e)) | (s1, Inr a) \<Rightarrow> (s1, k a))"

definition py_commit ::
  "'o py_json \<Rightarrow> engine_env \<Rightarrow> string \<Rightarrow> 'o \<Rightarrow> engine \<Rightarrow> engine \<times> (string + string list)" where
  "py_commit pj ev session x s =
     (case py_obj_to_rust pj x of
        Inl e \<Rightarrow> (s, Inl e)
      | Inr ix \<Rightarrow> py_call (commit_episodic_memory ev session ix) Inr s)"

definition py_query :: "string \<Rightarrow> nat \<Rightarrow> nat \<Rightarrow> bool \<Rightarrow> string \<Rightarrow> string \<Rightarrow> retrieve_query" where
  "py_query t k budget aggregate ns key =
     \<lparr> rq_text = t, rq_top_k = k, rq_session = None, rq_tenant = [], rq_ns = ns, rq_ns_key = key,
       rq_tiers = None, rq_budget = budget, rq_aggregate = aggregate \<rparr>"

definition py_retrieve ::
  "'o py_json \<Rightarrow> engine_env \<Rightarrow> string \<Rightarrow> nat \<Rightarrow> nat \<Rightarrow> bool \<Rightarrow> string \<Rightarrow> string \<Rightarrow> engine
     \<Rightarrow> engine \<times> (string + 'o)" where
  "py_retrieve pj ev t k budget aggregate ns key s =
     (if \<not> is_valid_namespace ns
      then (s, Inl (''invalid namespace: '' @ ns @ '' (expect user|project|local|empty)''))
      else py_call (retrieve_context ev (py_query t k budget aggregate ns key))
             (rust_to_py_obj pj (py_write_context pj)) s)"

definition py_consolidate ::
  "'o py_json \<Rightarrow> (string list \<Rightarrow> string list) \<Rightarrow> engine_env \<Rightarrow> engine \<Rightarrow> engine \<times> (string + 'o)" where
  "py_consolidate pj ord ev =
     py_call (consolidate_memories ord ev) (rust_to_py_obj pj (py_write_report pj))"

text \<open>
  Unlike the server (\<open>plan_dimensions\<close>), the Python class gives its store the dimension its
  embedding client has: no setting comes between them.
\<close>

lemma py_engine_dimensions:
  assumes "py_engine_new env op data_dir stub = Inr p"
  shows "case pl_embed p of None \<Rightarrow> stub \<and> pl_store_dim p = 64 | Some e \<Rightarrow> pl_store_dim p = ec_dimension e"
proof -
  have "ec_dimension (embed_from_env env) = 1024"
    by (simp add: embed_from_env_def overlay_env_def embed_config_default_def Let_def split: option.split)
  then show ?thesis
    using assms
    by (auto simp: py_engine_new_def Let_def bind_res_eq_Inr py_embed_settings_def
        split: if_splits sum.splits)
qed

text \<open>With the server's default configuration both build the same engine, in the same directory.\<close>

lemma py_engine_as_server:
  assumes "py_engine_new (os_var os) op None stub = Inr p"
  shows "build_server_engine (os_var os) op (server_config_default os) stub = Inr p"
proof -
  let ?c = "server_config_default os" and ?env = "os_var os"
  have dir: "py_default_dir ?env = cg_data_dir ?c"
    by (simp add: py_default_dir_def server_config_default_def default_data_dir_def Let_def)
  have dm: "cg_dim ?c = 1024" by (simp add: server_config_default_def Let_def)
  have emb: "embed_settings ?env ?c = py_embed_settings ?env"
    by (simp add: embed_settings_def py_embed_settings_def embed_from_env_def overlay_env_def
        embed_config_default_def server_config_default_def Let_def split: option.split)
  have ext: "extract_settings ?env (py_embed_settings ?env) = py_extract_settings ?env"
    by (simp add: extract_settings_def py_extract_settings_def py_embed_settings_def embed_from_env_def
        overlay_env_def embed_config_default_def Let_def split: option.split)
  show ?thesis
    using assms
    by (auto simp: py_engine_new_def build_server_engine_def Let_def bind_res_eq_Inr dir dm emb ext
        split: if_splits sum.splits)
qed

text \<open>A call that Python's side refuses does not reach the engine.\<close>

lemma py_refused:
  "\<not> is_valid_namespace ns \<Longrightarrow> fst (py_retrieve pj ev t k budget aggregate ns key s) = s"
  "py_obj_to_rust pj x = Inl e \<Longrightarrow> py_commit pj ev session x s = (s, Inl e)"
  by (simp_all add: py_retrieve_def py_commit_def)

text \<open>
  A result that cannot be converted is an error for Python, but the call has had its effect: the
  engine after a query is the one that the engine's own operation leaves.
\<close>

lemma py_effect:
  "fst (py_call g k s) = fst (g s)"
  by (simp add: py_call_def split: prod.split sum.split)

end
