(* ===== verification/Follower.thy ===== *)
theory Follower
  imports EngineBase Transport
begin

text \<open>
  The engine as the sink of a follower's replay (\<open>impl ReplaySink for MemoryEngine\<close>), the
  interpretation of the laws of a sink on it, and what a follower's items are after any number
  of synchronisations.
\<close>

section \<open>The engine as a sink\<close>

definition engine_promote_tier :: "string \<Rightarrow> string \<Rightarrow> engine \<Rightarrow> engine \<times> (cluster_error + unit)" where
  "engine_promote_tier i t s =
     (case promoted_tier t of
        None \<Rightarrow> (s, Inl (KReplay (''promote_tier unknown tier: '' @ t)))
      | Some x \<Rightarrow>
          (case raw_db (get_memory i) s of
             (s1, Inl e) \<Rightarrow> (s1, Inl (KPersist e))
           | (s1, Inr None) \<Rightarrow> (s1, Inr ())
           | (s1, Inr (Some m)) \<Rightarrow>
               (case raw_db (put_memory (m\<lparr> mi_tier := x \<rparr>)) s1 of
                  (s2, r) \<Rightarrow> (s2, map_err KPersist r))))"

definition engine_sink :: "engine_env \<Rightarrow> engine sink" where
  "engine_sink ev =
     \<lparr> sk_embed = (\<lambda>x s. case embed ev x s of (s1, r) \<Rightarrow> (s1, map_err KMemory r)),
       sk_put_item = (\<lambda>m s. case raw_db (put_memory m) s of (s1, r) \<Rightarrow> (s1, map_err KPersist r)),
       sk_insert_vector = (\<lambda>i v s. case on_store (insert_vector i v) s of (s1, r) \<Rightarrow> (s1, map_err KMemory r)),
       sk_tombstone = (\<lambda>i s. case raw_db (tombstone_memory i) s of (s1, r) \<Rightarrow> (s1, map_err KPersist r)),
       sk_promote_tier = engine_promote_tier,
       sk_record_merge = (\<lambda>a b r n s. case raw_db (record_merge a b r n) s of (s1, x) \<Rightarrow> (s1, map_err KPersist x)) \<rparr>"

definition on_sync_ok :: "engine_env \<Rightarrow> engine \<Rightarrow> engine" where
  "on_sync_ok ev s =
     (let s1 = mark_stale False s in case now_ms ev s1 of (s2, n) \<Rightarrow> mark_synced n s2)"

definition on_sync_stale :: "engine \<Rightarrow> engine" where
  "on_sync_stale s = mark_stale True s"

section \<open>The laws of a sink\<close>

lemma engine_put_view:
  assumes "raw_db (put_memory m) s = (s', r)"
  shows "items_of s' = (case r of Inr _ \<Rightarrow> apply_action (APut m) (items_of s) | Inl _ \<Rightarrow> items_of s)"
  using put_memory_cases [of m "eg_db s" "eg_db s'" r] raw_db_parts [OF assms] same_items_of
  by (cases r) (auto simp: items_of_def fun_eq_iff)

lemma engine_promote_view:
  assumes "engine_promote_tier i t s = (s', r)"
  shows "(case r of
      Inr _ \<Rightarrow> \<exists>x. promoted_tier t = Some x \<and> items_of s' = apply_action (ATier i x) (items_of s)
    | Inl _ \<Rightarrow> items_of s' = items_of s)"
proof (cases "promoted_tier t")
  case None
  with assms show ?thesis by (auto simp: engine_promote_tier_def)
next
  case (Some x)
  obtain s1 q where g: "raw_db (get_memory i) s = (s1, q)" by fastforce
  then have q: "get_memory i (eg_db s) = (eg_db s1, q)" by (rule raw_dbD)
  have v1: "items_of s1 = items_of s"
    using q query_same same_items_of unfolding get_memory_def by blast
  have read: "q = Inr y \<Longrightarrow> y = items_of s i" for y
    using q unfolding get_memory_def items_of_def by (auto dest: db_query_Inr)
  show ?thesis
  proof (cases q)
    case (Inl e)
    with assms Some g v1 show ?thesis by (auto simp: engine_promote_tier_def)
  next
    case (Inr y)
    show ?thesis
    proof (cases y)
      case None
      with Inr read have "items_of s i = None" by simp
      then have "apply_action (ATier i x) (items_of s) = items_of s" by (simp add: fun_upd_idem)
      with assms Some g v1 Inr None show ?thesis by (auto simp: engine_promote_tier_def)
    next
      case m: (Some m)
      with Inr read have f: "items_of s i = Some m" by simp
      then have id: "mi_id m = i" unfolding items_of_def by (rule find_item_id)
      obtain s2 w where p: "raw_db (put_memory (m\<lparr> mi_tier := x \<rparr>)) s1 = (s2, w)" by fastforce
      have res: "s' = s2" "r = map_err KPersist w"
        using assms Some g Inr m p by (simp_all add: engine_promote_tier_def)
      show ?thesis
        using engine_put_view [OF p] res v1 Some f id by (cases w) simp_all
    qed
  qed
qed

interpretation eng: replica "engine_sink ev" items_of for ev
proof unfold_locales
  fix x s
  show "items_of (fst (sk_embed (engine_sink ev) x s)) = items_of s"
    by (simp add: engine_sink_def embed_def call_def items_of_def)
next
  fix i v s
  show "items_of (fst (sk_insert_vector (engine_sink ev) i v s)) = items_of s"
    by (simp add: engine_sink_def on_store_def items_of_def split: prod.split)
next
  fix a b r n s
  show "items_of (fst (sk_record_merge (engine_sink ev) a b r n s)) = items_of s"
    using record_merge_cases
    by (auto simp: engine_sink_def raw_db_def items_of_def fun_eq_iff split: prod.split)
next
  fix m s
  obtain s' r where p: "raw_db (put_memory m) s = (s', r)" by fastforce
  then show "items_of (fst (sk_put_item (engine_sink ev) m s)) =
      (case snd (sk_put_item (engine_sink ev) m s) of
         Inr _ \<Rightarrow> apply_action (APut m) (items_of s) | Inl _ \<Rightarrow> items_of s)"
    using engine_put_view [OF p] by (cases r) (simp_all add: engine_sink_def)
next
  fix a s
  obtain s' r where p: "raw_db (tombstone_memory a) s = (s', r)" by fastforce
  then have "tombstone_memory a (eg_db s) = (eg_db s', r)" by (rule raw_dbD)
  from tombstone_cases [OF this] same_items_of
  have "items_of s' = (case r of Inr _ \<Rightarrow> apply_action (AHide a) (items_of s) | Inl _ \<Rightarrow> items_of s)"
    by (cases r) (auto simp: items_of_def fun_eq_iff)
  with p show "items_of (fst (sk_tombstone (engine_sink ev) a s)) =
      (case snd (sk_tombstone (engine_sink ev) a s) of
         Inr _ \<Rightarrow> apply_action (AHide a) (items_of s) | Inl _ \<Rightarrow> items_of s)"
    by (cases r) (simp_all add: engine_sink_def)
next
  fix a t s
  obtain s' r where p: "engine_promote_tier a t s = (s', r)" by fastforce
  with engine_promote_view [OF p] show "items_of (fst (sk_promote_tier (engine_sink ev) a t s)) =
      (case snd (sk_promote_tier (engine_sink ev) a t s) of
         Inr _ \<Rightarrow> (case promoted_tier t of Some x \<Rightarrow> apply_action (ATier a x) (items_of s) | None \<Rightarrow> items_of s)
       | Inl _ \<Rightarrow> items_of s)"
    by (cases r) (auto simp: engine_sink_def)
next
  fix a t s u
  assume "snd (sk_promote_tier (engine_sink ev) a t s) = Inr u"
  then have "engine_promote_tier a t s = (fst (engine_promote_tier a t s), Inr u)"
    by (simp add: engine_sink_def prod_eq_iff)
  from engine_promote_view [OF this] show "promoted_tier t \<noteq> None" by auto
qed

section \<open>Following a leader\<close>

text \<open>Any number of synchronisations, each with its own connection.\<close>

fun sync_rounds ::
  "wire_codec \<Rightarrow> payload_codec \<Rightarrow> sync_config \<Rightarrow> 's sink \<Rightarrow> (string \<Rightarrow> cluster_error + string) list
     \<Rightarrow> int \<times> 's \<Rightarrow> int \<times> 's" where
  "sync_rounds c pc cfg k [] st = st"
| "sync_rounds c pc cfg k (net # nets) st = sync_rounds c pc cfg k nets (fst (sync_once c pc cfg k net st))"

fun honest_rounds ::
  "wire_codec \<Rightarrow> payload_codec \<Rightarrow> sync_config \<Rightarrow> 's sink \<Rightarrow> wop_entry list
     \<Rightarrow> (string \<Rightarrow> cluster_error + string) list \<Rightarrow> int \<times> 's \<Rightarrow> bool" where
  "honest_rounds c pc cfg k ws [] st = True"
| "honest_rounds c pc cfg k ws (net # nets) st =
     ((case fetch c cfg net (fst st) of Inr resp \<Rightarrow> honest ws (fst st) resp | Inl _ \<Rightarrow> True)
      \<and> honest_rounds c pc cfg k ws nets (fst (sync_once c pc cfg k net st)))"

lemma rounds_follow:
  assumes log: "sorted_wrt (<) (map we_seq ws)" "\<forall>w \<in> set ws. 0 < we_seq w"
  shows "\<lbrakk> 0 \<le> seq; eng.follows pc f ws seq s; honest_rounds c pc cfg (engine_sink ev) ws nets (seq, s);
           sync_rounds c pc cfg (engine_sink ev) nets (seq, s) = (seq', s') \<rbrakk>
         \<Longrightarrow> eng.follows pc f ws seq' s' \<and> seq \<le> seq'"
proof (induction nets arbitrary: seq s)
  case (Cons net nets)
  obtain q t res where one: "sync_once c pc cfg (engine_sink ev) net (seq, s) = ((q, t), res)"
    by (metis prod.exhaust)
  have h: "fetch c cfg net seq = Inr resp \<Longrightarrow> honest ws seq resp" for resp
    using Cons.prems(3) by simp
  have st: "eng.follows pc f ws q t \<and> seq \<le> q"
    by (rule eng.follows_sync [OF log Cons.prems(1,2) h one])
  moreover have "eng.follows pc f ws seq' s' \<and> q \<le> seq'"
    using Cons.IH [of q t] Cons.prems st one by simp
  ultimately show ?case by simp
qed simp

text \<open>
  C5: a follower converges to the log. Whatever its connections, its stores and its embedder do,
  as long as a response that arrives is a batch of the leader's log after the cursor: the cursor
  never goes back, and the items are exactly the effect of the entries up to the cursor, applied
  once each in order, or those and the effect of the next entry, whose replay is not finished.
  When the cursor has reached the end of the log, they are exactly the effect of the log.
\<close>

theorem follower_converges:
  assumes "sorted_wrt (<) (map we_seq ws)" and "\<forall>w \<in> set ws. 0 < we_seq w"
    and "0 \<le> seq" and "items_of s = effects pc (filter (\<lambda>w. we_seq w \<le> seq) ws) f"
    and "honest_rounds c pc cfg (engine_sink ev) ws nets (seq, s)"
    and "sync_rounds c pc cfg (engine_sink ev) nets (seq, s) = (seq', s')"
  shows "seq \<le> seq'
    \<and> (items_of s' = effects pc (filter (\<lambda>w. we_seq w \<le> seq') ws) f
       \<or> (\<exists>w rest. filter (\<lambda>w. we_seq w > seq') ws = w # rest
            \<and> items_of s' = effects pc (filter (\<lambda>w. we_seq w \<le> seq') ws @ [w]) f))
    \<and> ((\<forall>w \<in> set ws. we_seq w \<le> seq') \<longrightarrow> items_of s' = effects pc ws f)"
proof -
  have "eng.follows pc f ws seq s" using assms(4) by (simp add: eng.follows_def eng.tracks_def)
  from rounds_follow [OF assms(1,2,3) this assms(5,6)]
  have f: "eng.follows pc f ws seq' s'" and le: "seq \<le> seq'" by simp_all
  have "items_of s' = effects pc ws f" if all: "\<forall>w \<in> set ws. we_seq w \<le> seq'"
  proof -
    have "filter (\<lambda>w. we_seq w \<le> seq') ws = ws" "filter (\<lambda>w. we_seq w > seq') ws = []"
      using all by (auto simp: filter_id_conv filter_empty_conv)
    then show ?thesis using f by (simp add: eng.follows_def eng.tracks_def)
  qed
  with f le show ?thesis unfolding eng.follows_def eng.tracks_def by blast
qed

definition demo_log :: "wop_entry list" where
  "demo_log = [\<lparr> we_seq = 1, we_op = ''delete'', we_payload = ''a'', we_at = 9 \<rparr>]"

definition log_codec :: "wop_entry list \<Rightarrow> wire_codec" where
  "log_codec es = tiny_codec\<lparr> rd_response := (\<lambda>s. Inr \<lparr> sr_entries = es, sr_epoch = 3 \<rparr>) \<rparr>"

definition demo_replica :: engine where
  "demo_replica = \<lparr> eg_db = db_ab, eg_store = empty_store, eg_stale = False, eg_synced = 0, eg_tick = 0 \<rparr>"

definition demo_env0 :: engine_env where
  "demo_env0 =
     \<lparr> ev_embed = (\<lambda>n x. Inr [0, 0]), ev_extract = None, ev_chat = None, ev_ulid = show_nat,
       ev_now = (\<lambda>n. n), ev_redact = None, ev_knn = (\<lambda>ps q k. []), ev_tenant = [], ev_codec = no_codec \<rparr>"

lemma demo_fetch:
  "fetch (log_codec es) demo_sync (\<lambda>_. send tiny_codec FSyncResponse (Inr ''x'')) q
     = Inr \<lparr> sr_entries = es, sr_epoch = 3 \<rparr>"
proof -
  have s: "show_nat 8 = ''8''" by code_simp
  have "delivered tiny_codec FSyncResponse (Inr ''x'')"
    by (simp add: delivered_def tiny_codec_def MAX_FRAME_LEN_def)
  then obtain z where z: "send tiny_codec FSyncResponse (Inr ''x'') = Inr z"
    "\<And>r. read_frame tiny_codec (z @ r) = (Inr (Some \<lparr> fr_kind = FSyncResponse, fr_payload = ''x'' \<rparr>), r)"
    by (rule send_received [OF tiny_codec_ok]) simp
  have rdf: "rd_frame (log_codec es) = rd_frame tiny_codec" by (simp add: log_codec_def)
  have rd: "read_frame (log_codec es) z = read_frame tiny_codec z" by (simp only: read_frame_def rdf)
  have "rd_response (log_codec es) ''x'' = Inr \<lparr> sr_entries = es, sr_epoch = 3 \<rparr>"
    by (simp add: log_codec_def)
  then show ?thesis
    using z(2) [of "[]"] unfolding z(1)
    by (simp add: fetch_def expect_frame_def decode_payload_def rd)
       (simp add: send_def frame_new_def write_frame_def log_codec_def tiny_codec_def s)
qed

lemma follower_converges_witness:
  "\<exists>s'. sync_rounds (log_codec demo_log) no_codec demo_sync (engine_sink demo_env0)
         [\<lambda>_. send tiny_codec FSyncResponse (Inr ''x'')] (0, demo_replica) = (1, s')
     \<and> items_of s' = effects no_codec demo_log (items_of demo_replica)"
proof -
  let ?net = "\<lambda>_ :: string. send tiny_codec FSyncResponse (Inr ''x'')"
  have nf: "db_faults (eg_db demo_replica) = []"
    by (simp add: demo_replica_def db_ab_def put_item_def empty_db_def)
  obtain s' where r: "replay_wops no_codec (engine_sink demo_env0) demo_log demo_replica =
      (s', \<lparr> ro_applied = 1, ro_skipped = 0, ro_last_seq = 1, ro_failed = False, ro_permanent = False \<rparr>)"
    using nf by (simp add: replay_wops_def demo_log_def no_outcome_def replay_one_def then_do_def return_ok_def
        engine_sink_def raw_db_def tombstone_memory_def)
  have one: "sync_once (log_codec demo_log) no_codec demo_sync (engine_sink demo_env0) ?net (0, demo_replica)
      = ((1, s'), Inr (1, 1, False, False))"
    using demo_fetch r by (simp add: sync_once_def stale_leader_def demo_sync_def)
  have honest: "honest demo_log 0 \<lparr> sr_entries = demo_log, sr_epoch = 3 \<rparr>"
    by (simp add: honest_def demo_log_def)
  have run: "sync_rounds (log_codec demo_log) no_codec demo_sync (engine_sink demo_env0) [?net] (0, demo_replica) = (1, s')"
    using one by simp
  have "honest_rounds (log_codec demo_log) no_codec demo_sync (engine_sink demo_env0) demo_log [?net] (0, demo_replica)"
    using demo_fetch honest by simp
  from follower_converges [OF _ _ _ _ this run, of "items_of demo_replica"] run
  show ?thesis by (simp add: demo_log_def)
qed

end
