(* ===== verification/Manage.thy ===== *)
theory Manage
  imports Follower
begin

text \<open>
  The management calls of the engine (\<open>fm-engine/engine.rs\<close>): reading, deleting, counting and
  listing memories, with and without a tenant, the audit queries and the undoing of a merge.
\<close>

section \<open>Reading and deleting one memory\<close>

definition engine_get_memory :: "string \<Rightarrow> engine \<Rightarrow> engine \<times> (memory_error + memory_item option)" where
  "engine_get_memory i = on_db (get_memory i)"

definition drop_vector :: "memory_item option \<Rightarrow> engine \<Rightarrow> engine \<times> (memory_error + unit)" where
  "drop_vector mo s =
     (case mo of
        None \<Rightarrow> (s, Inr ())
      | Some m \<Rightarrow>
          (case parse_u64 (mi_vector_ref m) of
             Some v \<Rightarrow> on_store (delete_vector (of_nat v)) s
           | None \<Rightarrow> (s, Inr ())))"

definition delete_memory :: "engine_env \<Rightarrow> string \<Rightarrow> engine \<Rightarrow> engine \<times> (memory_error + unit)" where
  "delete_memory ev i =
     then_do (engine_get_memory i) (\<lambda>mo.
     then_do (drop_vector mo) (\<lambda>_.
     then_do (on_db (tombstone_memory i)) (\<lambda>_ s.
       case now_ms ev s of
         (s1, now) \<Rightarrow>
           then_do (on_db (append_wop ''delete'' i now)) (\<lambda>_ s2.
             (fst (on_db (append_audit now ''delete'' ''delete'' i ''tombstone'') s2), Inr ())) s1)))"

definition get_memory_tenant ::
  "string \<Rightarrow> string \<Rightarrow> engine \<Rightarrow> engine \<times> (memory_error + memory_item option)" where
  "get_memory_tenant i ten =
     then_do (engine_get_memory i) (\<lambda>mo s.
       (s, Inr (case mo of
                  None \<Rightarrow> None
                | Some m \<Rightarrow> if ten \<noteq> [] \<and> mi_tenant m \<noteq> ten then None else Some m)))"

definition delete_memory_tenant ::
  "engine_env \<Rightarrow> string \<Rightarrow> string \<Rightarrow> engine \<Rightarrow> engine \<times> (memory_error + unit)" where
  "delete_memory_tenant ev i ten =
     then_do (engine_get_memory i) (\<lambda>mo s.
       if (\<exists>m. mo = Some m \<and> ten \<noteq> [] \<and> mi_tenant m \<noteq> ten)
       then (s, Inl (ENotFound (''memory '' @ i @ '' not in tenant '' @ ten)))
       else delete_memory ev i s)"

section \<open>Deleting a session\<close>

text \<open>
  One memory of the session: a failing vector store is ignored, a failing tombstone skips the
  memory.
\<close>

definition scope_delete_one :: "memory_item \<Rightarrow> engine \<times> nat \<Rightarrow> engine \<times> nat" where
  "scope_delete_one m = (\<lambda>(s, n).
     case drop_vector (Some m) s of
       (s1, _) \<Rightarrow>
         (case on_db (tombstone_memory (mi_id m)) s1 of
            (s2, Inl e) \<Rightarrow> (s2, n)
          | (s2, Inr _) \<Rightarrow> (s2, n + 1)))"

definition delete_scope_tenant ::
  "engine_env \<Rightarrow> string \<Rightarrow> string \<Rightarrow> engine \<Rightarrow> engine \<times> (memory_error + nat)" where
  "delete_scope_tenant ev scope ten =
     then_do (on_db (list_by_session_tenant scope ten)) (\<lambda>items s.
       case fold scope_delete_one items (s, 0) of
         (s1, n) \<Rightarrow>
           if n > 0
           then (case now_ms ev s1 of
                   (s2, now) \<Rightarrow>
                     then_do (on_db (append_wop ''delete_scope'' scope now)) (\<lambda>_. return_ok n) s2)
           else (s1, Inr n))"

definition delete_scope :: "engine_env \<Rightarrow> string \<Rightarrow> engine \<Rightarrow> engine \<times> (memory_error + nat)" where
  "delete_scope ev sess = delete_scope_tenant ev sess (ev_tenant ev)"

section \<open>Counting and listing\<close>

definition count_tenant :: "string option \<Rightarrow> string \<Rightarrow> engine \<Rightarrow> engine \<times> (memory_error + nat)" where
  "count_tenant scope ten = on_db (count_by_session_tenant scope ten)"

definition count :: "engine_env \<Rightarrow> string option \<Rightarrow> engine \<Rightarrow> engine \<times> (memory_error + nat)" where
  "count ev scope = count_tenant scope (ev_tenant ev)"

definition audit_memory_access :: "string list \<Rightarrow> engine \<Rightarrow> engine \<times> (memory_error + memory_item list)" where
  "audit_memory_access es = on_db (audit_by_entities es)"

fun memory_type_name :: "memory_type \<Rightarrow> string" where
  "memory_type_name Episodic = ''Episodic''"
| "memory_type_name Semantic = ''Semantic''"
| "memory_type_name Procedural = ''Procedural''"

definition list_filter :: "list_query \<Rightarrow> ns_filter" where
  "list_filter q = (if lq_ns q = [] then ns_filter_new [] [] else ns_filter_new (lq_ns q) (lq_ns_key q))"

definition list_dead ::
  "list_query \<Rightarrow> string \<Rightarrow> memory_item list \<Rightarrow> engine \<Rightarrow> engine \<times> (memory_error + memory_item list)" where
  "list_dead q ten items =
     (if lq_tombstoned q
      then then_do (on_db list_tombstoned) (\<lambda>dead.
             return_ok (items @ filter (\<lambda>m. (ten = [] \<or> mi_tenant m = ten)
                                         \<and> ns_visible (list_filter q) (mi_ns m) (mi_ns_key m)) dead))
      else return_ok items)"

definition list_memories ::
  "list_query \<Rightarrow> string \<Rightarrow> engine \<Rightarrow> engine \<times> (memory_error + memory_item list)" where
  "list_memories q ten =
     then_do (on_db (list_all_by_tenant_scoped ten (list_filter q))) (\<lambda>live.
     then_do (list_dead q ten live) (\<lambda>items.
       let kept = (case lq_type q of
                     None \<Rightarrow> items
                   | Some ty \<Rightarrow> filter (\<lambda>m. memory_type_name (mi_type m) = ty) items)
       in return_ok (take (lq_limit q) (drop (lq_offset q) (sort_key mi_created kept)))))"

definition list_audit_log :: "nat \<Rightarrow> engine \<Rightarrow> engine \<times> (memory_error + audit_entry list)" where
  "list_audit_log n = on_db (list_audit (Some n))"

definition list_merges :: "engine \<Rightarrow> engine \<times> (memory_error + merge_entry list)" where
  "list_merges = on_db list_merge_log"

section \<open>Undoing a merge\<close>

definition restore_vector :: "engine_env \<Rightarrow> memory_item \<Rightarrow> engine \<Rightarrow> engine \<times> (memory_error + unit)" where
  "restore_vector ev m =
     (case parse_u64 (mi_vector_ref m) of
        None \<Rightarrow> return_ok ()
      | Some v \<Rightarrow>
          then_do (on_store (get_vector (of_nat v))) (\<lambda>old.
            case old of
              Some _ \<Rightarrow> return_ok ()
            | None \<Rightarrow>
                then_do (embed ev (mi_content m)) (\<lambda>vec. on_store (insert_vector (of_nat v) vec))))"

definition unmerge :: "engine_env \<Rightarrow> nat \<Rightarrow> engine \<Rightarrow> engine \<times> (memory_error + bool)" where
  "unmerge ev mid =
     then_do (on_db (unmerge_log mid)) (\<lambda>pair.
       case pair of
         None \<Rightarrow> return_ok False
       | Some (src, tgt) \<Rightarrow>
           then_do (engine_get_memory src) (\<lambda>mo.
             case mo of
               None \<Rightarrow> return_ok False
             | Some m0 \<Rightarrow>
                 let m = m0\<lparr> mi_tombstone := False \<rparr>
                 in then_do (restore_vector ev m) (\<lambda>_.
                    then_do (on_db (put_memory m)) (\<lambda>_. return_ok True))))"

section \<open>One call of a store\<close>

lemma engine_get_Inr:
  "engine_get_memory i s = (s', Inr x) \<Longrightarrow>
     x = find_item i (eg_db s) \<and> same_tables (eg_db s) (eg_db s') \<and> eg_store s' = eg_store s"
  unfolding engine_get_memory_def using on_db_Inr [of "get_memory i" s s' x] get_memory_Inr by blast

lemma drop_vector_db: "drop_vector mo s = (s', r) \<Longrightarrow> eg_db s' = eg_db s"
  by (auto simp: drop_vector_def dest: on_store_parts split: option.splits)

lemma delete_vector_Inr: "delete_vector v t = (t', Inr u) \<Longrightarrow> store_map t' v = None"
  by (auto simp: delete_vector_def st_op_def store_map_delete split: list.splits option.splits)

lemma drop_vector_gone:
  "\<lbrakk> drop_vector (Some m) s = (s', Inr u); parse_u64 (mi_vector_ref m) = Some v \<rbrakk>
     \<Longrightarrow> store_map (eg_store s') (of_nat v) = None"
  by (auto simp: drop_vector_def dest: on_store_parts delete_vector_Inr)

text \<open>A tombstone on one id, as an update of the items.\<close>

definition hide_in :: "string \<Rightarrow> db \<Rightarrow> db \<Rightarrow> bool" where
  "hide_in i d d' =
     (\<forall>j. find_item j d' = (if j = i then map_option (mi_tombstone_update (\<lambda>_. True)) (find_item j d)
                             else find_item j d))"

lemma tombstone_hides: "tombstone_memory i d = (d', Inr u) \<Longrightarrow> hide_in i d d' \<and> db_wop d' = db_wop d"
proof -
  assume t: "tombstone_memory i d = (d', Inr u)"
  then have "db_wop d' = db_wop d"
    unfolding tombstone_memory_def db_update_def
    by (cases rule: db_op_cases) (auto simp: update_items_def)
  with tombstone_cases [OF t] show ?thesis by (simp add: hide_in_def)
qed

lemma delete_memory_steps:
  assumes "delete_memory ev i s = (s', Inr ())"
  obtains s1 s2 s3 :: engine where "same_tables (eg_db s) (eg_db s1)" "eg_store s1 = eg_store s"
    "drop_vector (find_item i (eg_db s)) s1 = (s2, Inr ())"
    "hide_in i (eg_db s2) (eg_db s3)" "db_wop (eg_db s3) = db_wop (eg_db s2)" "eg_store s3 = eg_store s2"
    "\<forall>j. find_item j (eg_db s') = find_item j (eg_db s3)" "eg_store s' = eg_store s3"
    "\<exists>w. db_wop (eg_db s') = db_wop (eg_db s3) @ [w] \<and> we_op w = ''delete'' \<and> we_payload w = i"
proof -
  obtain s1 mo s2 s3 u u' where a: "engine_get_memory i s = (s1, Inr mo)"
    and b: "drop_vector mo s1 = (s2, Inr u)" and c: "on_db (tombstone_memory i) s2 = (s3, Inr u')"
    and d: "(case now_ms ev s3 of (s1, now) \<Rightarrow>
           then_do (on_db (append_wop ''delete'' i now)) (\<lambda>_ s2.
             (fst (on_db (append_audit now ''delete'' ''delete'' i ''tombstone'') s2), Inr ())) s1)
        = (s', Inr ())"
    using assms unfolding delete_memory_def then_do_Inr by blast
  obtain s4 now where n: "now_ms ev s3 = (s4, now)" by fastforce
  then have s4: "eg_db s4 = eg_db s3" "eg_store s4 = eg_store s3" by (auto simp: now_ms_def call_def)
  obtain s5 k where w: "on_db (append_wop ''delete'' i now) s4 = (s5, Inr k)"
    and s': "s' = fst (on_db (append_audit now ''delete'' ''delete'' i ''tombstone'') s5)"
    using d n by (auto simp: then_do_Inr)
  have st': "eg_store s' = eg_store s5" unfolding s' by (simp add: on_db_def raw_db_def split: prod.split)
  show ?thesis
  proof (rule that [of s1 s2 s3])
    show "same_tables (eg_db s) (eg_db s1)" "eg_store s1 = eg_store s" "drop_vector (find_item i (eg_db s)) s1 = (s2, Inr ())"
      using engine_get_Inr [OF a] b by auto
    show "hide_in i (eg_db s2) (eg_db s3)" "db_wop (eg_db s3) = db_wop (eg_db s2)" "eg_store s3 = eg_store s2"
      using tombstone_hides [OF on_db_Inr(1) [OF c]] on_db_Inr(2) [OF c] by simp_all
    show "\<forall>j. find_item j (eg_db s') = find_item j (eg_db s3)" "eg_store s' = eg_store s3"
      "\<exists>w. db_wop (eg_db s') = db_wop (eg_db s3) @ [w] \<and> we_op w = ''delete'' \<and> we_payload w = i"
      using append_wop_cases [OF on_db_Inr(1) [OF w]] on_db_Inr(2) [OF w] s4 st'
        fst_on_db_append_audit [of _ now "''delete''" "''delete''" i "''tombstone''" s5]
      unfolding s' by simp_all
  qed
qed

lemma delete_memory_facts:
  assumes "delete_memory ev i s = (s', Inr ())"
  shows "hide_in i (eg_db s) (eg_db s')
    \<and> (\<forall>m v. find_item i (eg_db s) = Some m \<and> parse_u64 (mi_vector_ref m) = Some v
          \<longrightarrow> store_map (eg_store s') (of_nat v) = None)
    \<and> log_adequate pc s s'"
proof -
  obtain s1 s2 s3 :: engine where st: "same_tables (eg_db s) (eg_db s1)" "eg_store s1 = eg_store s"
    "drop_vector (find_item i (eg_db s)) s1 = (s2, Inr ())"
    "hide_in i (eg_db s2) (eg_db s3)" "db_wop (eg_db s3) = db_wop (eg_db s2)" "eg_store s3 = eg_store s2"
    "\<forall>j. find_item j (eg_db s') = find_item j (eg_db s3)" "eg_store s' = eg_store s3"
    "\<exists>w. db_wop (eg_db s') = db_wop (eg_db s3) @ [w] \<and> we_op w = ''delete'' \<and> we_payload w = i"
    by (rule delete_memory_steps [OF assms])
  have db: "eg_db s2 = eg_db s1" using st(3) by (rule drop_vector_db)
  have hide: "hide_in i (eg_db s) (eg_db s')"
    using st(4,7) same_tables_facts [OF st(1)] db by (simp add: hide_in_def)
  obtain w where w: "db_wop (eg_db s') = db_wop (eg_db s) @ [w]" "we_op w = ''delete''" "we_payload w = i"
    using st(5,9) db same_tables_facts [OF st(1)] by auto
  then have "action_of pc w = AHide i" by (simp add: action_of_def)
  then have "effects pc [w] (items_of s) = items_of s'"
    using hide by (auto simp: items_of_def hide_in_def)
  then have "log_adequate pc s s'" using w(1) unfolding log_adequate_def by metis
  moreover have "store_map (eg_store s') (of_nat v) = None"
    if "find_item i (eg_db s) = Some m" "parse_u64 (mi_vector_ref m) = Some v" for m v
    using drop_vector_gone st(3,6,8) that by metis
  ultimately show ?thesis using hide by blast
qed

text \<open>
  C20: a successful deletion hides the memory, drops its vector and logs itself. Exactly the item
  with the id becomes a tombstone, its vector is gone from the vector store, and the one new log
  entry has, replayed on the old items, the new items as its effect.
\<close>

theorem delete_memory_effect:
  assumes "delete_memory ev i s = (s', Inr ())"
  shows "hide_in i (eg_db s) (eg_db s')
    \<and> (\<forall>m v. find_item i (eg_db s) = Some m \<and> parse_u64 (mi_vector_ref m) = Some v
          \<longrightarrow> store_map (eg_store s') (of_nat v) = None)
    \<and> log_adequate pc s s'"
  using assms by (rule delete_memory_facts)

lemma delete_memory_witness:
  "\<exists>s'. delete_memory demo_env0 ''a'' demo_replica = (s', Inr ())
     \<and> hide_in ''a'' (eg_db demo_replica) (eg_db s')"
proof -
  have nf: "db_faults (eg_db demo_replica) = []" "db_faults (db_ab\<lparr> db_wop := x, db_wop_seq := y \<rparr>) = []" for x y
    by (simp_all add: demo_replica_def db_ab_def put_item_def empty_db_def)
  have ref: "parse_u64 [] = None" by (simp add: parse_u64_def parse_unsigned_def)
  have "\<exists>s'. delete_memory demo_env0 ''a'' demo_replica = (s', Inr ())"
    by (simp add: delete_memory_def then_do_def engine_get_memory_def on_db_def raw_db_def get_memory_def
        tombstone_memory_def nf demo_replica_def db_ab_def find_item_def drop_vector_def ref
        put_item_def replace_item_def item_a_def item_b_def with_namespace_def new_turn_skeleton_def
        now_ms_def call_def append_wop_def db_op_def update_items_def empty_db_def add_wop_def Let_def)
  then show ?thesis using delete_memory_effect by blast
qed

section \<open>Tenants\<close>

lemma get_memory_tenant_Inr:
  "get_memory_tenant i ten s = (s', Inr (Some m)) \<Longrightarrow> find_item i (eg_db s) = Some m \<and> (ten = [] \<or> mi_tenant m = ten)"
  unfolding get_memory_tenant_def
  by (erule then_do_InrE, drule engine_get_Inr) (simp split: option.splits if_splits)

text \<open>The default tenant is not confined: its reads are the reads without a tenant.\<close>

lemma get_memory_default_tenant: "get_memory_tenant i [] s = engine_get_memory i s"
  by (auto simp: get_memory_tenant_def then_do_def split: prod.split sum.split option.split)

lemma list_memories_tenant:
  assumes "list_memories q ten s = (s', Inr ms)" and "ten \<noteq> []" and "m \<in> set ms"
  shows "mi_tenant m = ten"
proof -
  obtain s1 live s2 items where l: "on_db (list_all_by_tenant_scoped ten (list_filter q)) s = (s1, Inr live)"
    and d: "list_dead q ten live s1 = (s2, Inr items)"
    and ms: "ms = take (lq_limit q) (drop (lq_offset q) (sort_key mi_created
        (case lq_type q of None \<Rightarrow> items | Some ty \<Rightarrow> filter (\<lambda>m. memory_type_name (mi_type m) = ty) items)))"
    using assms(1) unfolding list_memories_def then_do_Inr by (auto simp: return_ok_def Let_def)
  have "m \<in> set items"
    using assms(3) ms by (auto dest!: in_set_takeD in_set_dropD split: option.splits)
  moreover have "\<forall>x \<in> set live. mi_tenant x = ten"
    using on_db_Inr(1) [OF l] unfolding list_all_by_tenant_scoped_def
    by (drule_tac scoped_query_Inr) (auto simp: order_created_def)
  ultimately show ?thesis
    using d assms(2) by (auto simp: list_dead_def then_do_Inr return_ok_def split: if_splits)
qed

lemma query_hides: "on_db (db_query q) s = (s', r) \<Longrightarrow> only_hides S s s'"
  using hides_query [of S s q] by simp

lemma drop_vector_hides: "only_hides S s (fst (drop_vector mo s))"
  by (rule only_hides_db) (metis drop_vector_db prod.collapse)

lemma delete_memory_hides: "only_hides {i} s (fst (delete_memory ev i s))"
  unfolding delete_memory_def engine_get_memory_def get_memory_def
proof (intro then_do_hides hides_query drop_vector_hides hides_tombstone)
  fix s
  obtain s1 now where n: "now_ms ev s = (s1, now)" by fastforce
  have "only_hides {i} s1 (fst (then_do (on_db (append_wop ''delete'' i now)) (\<lambda>_ s2.
         (fst (on_db (append_audit now ''delete'' ''delete'' i ''tombstone'') s2), Inr ())) s1))"
    by (intro then_do_hides hides_append_wop) (simp add: hides_append_audit)
  then show "only_hides {i} s (fst (case now_ms ev s of (s1, now) \<Rightarrow>
      then_do (on_db (append_wop ''delete'' i now)) (\<lambda>_ s2.
         (fst (on_db (append_audit now ''delete'' ''delete'' i ''tombstone'') s2), Inr ())) s1))"
    using hides_now_ms [of "{i}" s ev] by (simp only: n prod.case fst_conv) (rule only_hides_trans)
qed

lemma scope_delete_one_hides: "only_hides {mi_id m} (fst sn) (fst (scope_delete_one m sn))"
proof -
  obtain s n where sn: "sn = (s, n)" by fastforce
  obtain s1 r where d: "drop_vector (Some m) s = (s1, r)" by fastforce
  obtain s2 q where t: "on_db (tombstone_memory (mi_id m)) s1 = (s2, q)" by fastforce
  have "only_hides {mi_id m} s s1" using drop_vector_hides [of "{mi_id m}" s "Some m"] d by simp
  moreover have "only_hides {mi_id m} s1 s2" using hides_tombstone [of "mi_id m" s1] t by simp
  ultimately have "only_hides {mi_id m} s s2" by (rule only_hides_trans)
  with sn d t show ?thesis by (cases q) (simp_all add: scope_delete_one_def)
qed

lemma scope_delete_fold_hides:
  "only_hides (mi_id ` set ms) (fst sn) (fst (fold scope_delete_one ms sn))"
proof (induction ms arbitrary: sn)
  case (Cons m ms)
  have "only_hides (mi_id ` set (m # ms)) (fst sn) (fst (scope_delete_one m sn))"
    by (rule only_hides_mono [OF scope_delete_one_hides]) simp
  moreover have "only_hides (mi_id ` set (m # ms)) (fst (scope_delete_one m sn))
      (fst (fold scope_delete_one ms (scope_delete_one m sn)))"
    by (rule only_hides_mono [OF Cons.IH]) auto
  ultimately show ?case by (simp only: fold_simps) (rule only_hides_trans)
qed simp

lemma list_session_tenant:
  "list_by_session_tenant scope ten d = (d', Inr ms) \<Longrightarrow>
     set ms = {m \<in> set (db_items d). mi_session m = scope \<and> mi_tenant m = ten \<and> \<not> mi_tombstone m}
     \<and> same_tables d d'"
  unfolding list_by_session_tenant_def
  by (frule query_same, drule db_query_Inr) (auto simp: order_turn_def)

lemma delete_scope_tenant_hides:
  "only_hides {mi_id m | m. m \<in> set (db_items (eg_db s)) \<and> mi_session m = scope \<and> mi_tenant m = ten \<and> \<not> mi_tombstone m}
     s (fst (delete_scope_tenant ev scope ten s))" (is "only_hides ?S _ _")
proof -
  obtain s1 r where l: "on_db (list_by_session_tenant scope ten) s = (s1, r)" by fastforce
  have s1: "only_hides ?S s s1"
    using l unfolding list_by_session_tenant_def by (rule query_hides)
  show ?thesis
  proof (cases r)
    case (Inl e)
    with l s1 show ?thesis by (simp add: delete_scope_tenant_def then_do_def)
  next
    case (Inr ms)
    then have ms: "mi_id ` set ms = ?S" using list_session_tenant [OF on_db_Inr(1)] l by fastforce
    obtain s2 n where f: "fold scope_delete_one ms (s1, 0) = (s2, n)" by fastforce
    have s2: "only_hides ?S s1 s2" using scope_delete_fold_hides [of ms "(s1, 0)"] f ms by simp
    obtain s3 now where n: "now_ms ev s2 = (s3, now)" by fastforce
    have s3: "only_hides ?S s2 s3" using hides_now_ms [of ?S s2 ev] n by simp
    have "only_hides ?S s3 (fst (then_do (on_db (append_wop ''delete_scope'' scope now)) (\<lambda>_. return_ok n) s3))"
      by (rule then_do_hides [OF hides_append_wop]) (simp add: return_ok_def)
    with s1 s2 s3 have all: "only_hides ?S s s2"
      "only_hides ?S s (fst (then_do (on_db (append_wop ''delete_scope'' scope now)) (\<lambda>_. return_ok n) s3))"
      by (blast intro: only_hides_trans)+
    then show ?thesis
      using l Inr f n by (cases "n > 0") (simp_all add: delete_scope_tenant_def then_do_def)
  qed
qed

lemma count_tenant_card:
  assumes "db_wf (eg_db s)" and "count_tenant scope ten s = (s', Inr n)"
  shows "n = card {m \<in> set (db_items (eg_db s)). mi_tenant m = ten \<and> \<not> mi_tombstone m
    \<and> (scope = None \<or> scope = Some (mi_session m))}"
proof -
  have d: "distinct (filter p (db_items (eg_db s)))" for p
    using assms(1) by (simp add: db_wf_def items_wf_def distinct_map)
  let ?p = "\<lambda>m. \<not> mi_tombstone m \<and> (case scope of Some x \<Rightarrow> mi_tenant m = ten \<and> mi_session m = x | None \<Rightarrow> mi_tenant m = ten)"
  have "n = length (filter ?p (db_items (eg_db s)))"
    using assms(2) by (auto simp: count_tenant_def count_by_session_tenant_def count_where_def on_db_def raw_db_def
        split: option.splits prod.splits dest!: db_query_Inr)
  also have "\<dots> = card (set (filter ?p (db_items (eg_db s))))" using distinct_card [OF d] by metis
  also have "set (filter ?p (db_items (eg_db s))) = {m \<in> set (db_items (eg_db s)). mi_tenant m = ten \<and> \<not> mi_tombstone m
      \<and> (scope = None \<or> scope = Some (mi_session m))}"
    by (cases scope) auto
  finally show ?thesis .
qed

lemma tenant_isolation_facts:
  assumes wf: "db_wf (eg_db s)" and ten: "ten \<noteq> []"
  shows "(\<forall>i s' m. get_memory_tenant i ten s = (s', Inr (Some m)) \<longrightarrow> mi_tenant m = ten)
    \<and> (\<forall>q s' ms. list_memories q ten s = (s', Inr ms) \<longrightarrow> (\<forall>m \<in> set ms. mi_tenant m = ten))
    \<and> (\<forall>scope s' n. count_tenant scope ten s = (s', Inr n) \<longrightarrow>
         n = card {m \<in> set (db_items (eg_db s)). mi_tenant m = ten \<and> \<not> mi_tombstone m
                    \<and> (scope = None \<or> scope = Some (mi_session m))})
    \<and> (\<forall>j m. find_item j (eg_db s) = Some m \<and> mi_tenant m \<noteq> ten \<longrightarrow>
         (\<forall>i. find_item j (eg_db (fst (delete_memory_tenant ev i ten s))) = Some m)
         \<and> (\<forall>scope. find_item j (eg_db (fst (delete_scope_tenant ev scope ten s))) = Some m))"
proof -
  have del: "find_item j (eg_db (fst (delete_memory_tenant ev i ten s))) = Some m"
    if m: "find_item j (eg_db s) = Some m" "mi_tenant m \<noteq> ten" for i j m
  proof -
    obtain s1 r where g: "engine_get_memory i s = (s1, r)" by fastforce
    have "only_hides {} s s1"
      using g unfolding engine_get_memory_def get_memory_def by (rule query_hides)
    then have s1: "find_item j (eg_db s1) = Some m" if "find_item j (eg_db s) = Some m" for j m
      using only_hides_outside [of "{}" s s1 j] that by simp
    show ?thesis
    proof (cases r)
      case (Inl e)
      with g s1 m(1) show ?thesis by (simp add: delete_memory_tenant_def then_do_def)
    next
      case (Inr mo)
      then have mo: "mo = find_item i (eg_db s)" using engine_get_Inr g by blast
      show ?thesis
      proof (cases "\<exists>m. mo = Some m \<and> ten \<noteq> [] \<and> mi_tenant m \<noteq> ten")
        case True
        with g Inr s1 m(1) show ?thesis by (simp add: delete_memory_tenant_def then_do_def)
      next
        case False
        then have "i \<noteq> j" using mo m ten by blast
        moreover have "fst (delete_memory_tenant ev i ten s) = fst (delete_memory ev i s1)"
          using g Inr False by (auto simp: delete_memory_tenant_def then_do_def)
        ultimately show ?thesis
          using only_hides_outside [OF delete_memory_hides [of i s1 ev], of j] s1 m(1) by simp
      qed
    qed
  qed
  have scope: "find_item j (eg_db (fst (delete_scope_tenant ev scope ten s))) = Some m"
    if m: "find_item j (eg_db s) = Some m" "mi_tenant m \<noteq> ten" for scope j m
  proof -
    have "j \<notin> {mi_id m | m. m \<in> set (db_items (eg_db s)) \<and> mi_session m = scope \<and> mi_tenant m = ten \<and> \<not> mi_tombstone m}"
      using m find_item_wf [OF wf] by fastforce
    from only_hides_outside [OF delete_scope_tenant_hides this] m(1) show ?thesis by simp
  qed
  show ?thesis
    by (intro conjI allI impI ballI)
      (use get_memory_tenant_Inr ten in blast, use list_memories_tenant ten in blast,
       erule count_tenant_card [OF wf], (use del scope in blast)+)
qed

text \<open>
  C16: five calls are confined to the tenant they name. A read by id and a listing, tombstones
  included, return memories of that tenant only; a count is the number of its live memories, of
  the session if one is named; and whatever its outcome, a deletion by id or by session leaves
  every memory of another tenant as it is. Retrieval is not among them: the hits of a query are
  filtered by tenant, but the turns of a block are not (\<open>retrieve_crosses_tenants\<close>).
\<close>

theorem tenant_isolation:
  assumes wf: "db_wf (eg_db s)" and ten: "ten \<noteq> []"
  shows "(\<forall>i s' m. get_memory_tenant i ten s = (s', Inr (Some m)) \<longrightarrow> mi_tenant m = ten)
    \<and> (\<forall>q s' ms. list_memories q ten s = (s', Inr ms) \<longrightarrow> (\<forall>m \<in> set ms. mi_tenant m = ten))
    \<and> (\<forall>scope s' n. count_tenant scope ten s = (s', Inr n) \<longrightarrow>
         n = card {m \<in> set (db_items (eg_db s)). mi_tenant m = ten \<and> \<not> mi_tombstone m
                    \<and> (scope = None \<or> scope = Some (mi_session m))})
    \<and> (\<forall>j m. find_item j (eg_db s) = Some m \<and> mi_tenant m \<noteq> ten \<longrightarrow>
         (\<forall>i. find_item j (eg_db (fst (delete_memory_tenant ev i ten s))) = Some m)
         \<and> (\<forall>scope. find_item j (eg_db (fst (delete_scope_tenant ev scope ten s))) = Some m))"
  using wf ten by (rule tenant_isolation_facts)

lemma tenant_isolation_witness:
  "find_item ''a'' (eg_db (fst (delete_memory_tenant demo_env0 ''a'' ''t9'' demo_replica))) = Some item_a"
proof -
  have "db_wf (eg_db demo_replica)" by (simp add: demo_replica_def db_ab_def put_item_wf)
  moreover have "find_item ''a'' (eg_db demo_replica) = Some item_a" "mi_tenant item_a \<noteq> ''t9''"
    by (simp_all add: demo_replica_def db_ab_def item_a_def item_b_def with_namespace_def)
  ultimately show ?thesis using tenant_isolation [of demo_replica "''t9''" demo_env0] by blast
qed

section \<open>What the log does not say\<close>

lemma scope_delete_one_cases:
  "scope_delete_one m (s, n) = (s', n') \<Longrightarrow>
     db_wop (eg_db s') = db_wop (eg_db s)
     \<and> (n' = n \<or> n' = n + 1 \<and> items_of s' (mi_id m)
          = map_option (mi_tombstone_update (\<lambda>_. True)) (items_of s (mi_id m)))"
proof -
  assume run: "scope_delete_one m (s, n) = (s', n')"
  obtain s1 r where d: "drop_vector (Some m) s = (s1, r)" by fastforce
  then have db: "eg_db s1 = eg_db s" by (rule drop_vector_db)
  obtain s2 q where t: "on_db (tombstone_memory (mi_id m)) s1 = (s2, q)" by fastforce
  then obtain p where p: "tombstone_memory (mi_id m) (eg_db s1) = (eg_db s2, p)" "q = map_err to_memory p"
    by (rule on_db_parts)
  show ?thesis
  proof (cases p)
    case (Inl e)
    then show ?thesis
      using run d t p db tombstone_cases [OF p(1)] same_tables_facts by (auto simp: scope_delete_one_def)
  next
    case (Inr u)
    then show ?thesis
      using run d t p db tombstone_hides [of "mi_id m" "eg_db s1" "eg_db s2" u]
      by (auto simp: scope_delete_one_def hide_in_def items_of_def)
  qed
qed

lemma scope_delete_fold:
  "\<lbrakk> fold scope_delete_one ms (s, n) = (s', n'); \<forall>m \<in> set ms. \<exists>x. items_of s (mi_id m) = Some x \<rbrakk> \<Longrightarrow>
     db_wop (eg_db s') = db_wop (eg_db s)
     \<and> (n' = n \<or> (\<exists>m \<in> set ms. \<exists>x. items_of s' (mi_id m) = Some x \<and> mi_tombstone x))"
proof (induction ms arbitrary: s n)
  case (Cons m ms)
  obtain s1 n1 where one: "scope_delete_one m (s, n) = (s1, n1)" by fastforce
  have h1: "only_hides {mi_id m} s s1" using scope_delete_one_hides [of m "(s, n)"] one by simp
  then have live: "\<forall>m' \<in> set ms. \<exists>x. items_of s1 (mi_id m') = Some x"
    using Cons.prems(2) unfolding only_hides_def by (metis list.set_intros(2) option.map_disc_iff not_Some_eq)
  have run: "fold scope_delete_one ms (s1, n1) = (s', n')" using Cons.prems(1) one by simp
  have h2: "only_hides (mi_id ` set ms) s1 s'" using scope_delete_fold_hides [of ms "(s1, n1)"] run by simp
  have "\<exists>x. items_of s' (mi_id m) = Some x \<and> mi_tombstone x" if "n1 \<noteq> n"
  proof -
    obtain x where "items_of s (mi_id m) = Some x" using Cons.prems(2) by auto
    then have "items_of s1 (mi_id m) = Some (x\<lparr> mi_tombstone := True \<rparr>)"
      using scope_delete_one_cases [OF one] that by auto
    moreover have "items_of s' (mi_id m) = items_of s1 (mi_id m)
        \<or> items_of s' (mi_id m) = map_option (mi_tombstone_update (\<lambda>_. True)) (items_of s1 (mi_id m))"
      using h2 unfolding only_hides_def by blast
    ultimately show ?thesis by auto
  qed
  with Cons.IH [OF run live] scope_delete_one_cases [OF one] show ?case by auto
qed simp

text \<open>
  deleting a session is not replicated. When it has hidden at least one memory, the new log
  entry is one that every follower skips without touching its store, so the log does not account
  for the deletion: replayed on the old items it gives the old items.
\<close>

lemma delete_scope_not_replicated:
  assumes wf: "db_wf (eg_db s)" and run: "delete_scope_tenant ev scope ten s = (s', Inr n)" and n: "0 < n"
  shows "(\<exists>w. db_wop (eg_db s') = db_wop (eg_db s) @ [w] \<and> replay_one pc k w t = (t, Inr False))
    \<and> \<not> log_adequate pc s s'"
proof -
  obtain s1 ms where l: "on_db (list_by_session_tenant scope ten) s = (s1, Inr ms)"
    and rest: "(case fold scope_delete_one ms (s1, 0) of (s2, n) \<Rightarrow>
        if n > 0 then (case now_ms ev s2 of (s3, now) \<Rightarrow>
             then_do (on_db (append_wop ''delete_scope'' scope now)) (\<lambda>_. return_ok n) s3)
        else (s2, Inr n)) = (s', Inr n)"
    using run unfolding delete_scope_tenant_def then_do_Inr by blast
  have ms: "set ms = {m \<in> set (db_items (eg_db s)). mi_session m = scope \<and> mi_tenant m = ten \<and> \<not> mi_tombstone m}"
    and same: "same_tables (eg_db s) (eg_db s1)"
    using list_session_tenant [OF on_db_Inr(1) [OF l]] by simp_all
  have items: "items_of s1 = items_of s" using same by (rule same_items_of)
  have live: "items_of s (mi_id m) = Some m \<and> \<not> mi_tombstone m" if "m \<in> set ms" for m
    using that find_item_wf [OF wf] by (simp add: ms items_of_def)
  obtain s2 k' where f: "fold scope_delete_one ms (s1, 0) = (s2, k')" by fastforce
  obtain s3 now where nw: "now_ms ev s2 = (s3, now)" by fastforce
  then have s3: "eg_db s3 = eg_db s2" by (auto simp: now_ms_def call_def)
  have k': "0 < k'" using rest f n by (cases "0 < k'") (auto split: prod.splits)
  then have "then_do (on_db (append_wop ''delete_scope'' scope now)) (\<lambda>_. return_ok k') s3 = (s', Inr n)"
    using rest f nw by simp
  then obtain q where w: "on_db (append_wop ''delete_scope'' scope now) s3 = (s', Inr q)"
    by (auto simp: then_do_Inr return_ok_def)
  from append_wop_cases [OF on_db_Inr(1) [OF w]] s3 obtain w where
    same': "items_of s' = items_of s2" and w: "db_wop (eg_db s') = db_wop (eg_db s2) @ [w]" "we_op w = ''delete_scope''"
    by (auto simp: items_of_def)
  have fold: "db_wop (eg_db s2) = db_wop (eg_db s1)"
    "\<exists>m \<in> set ms. \<exists>x. items_of s2 (mi_id m) = Some x \<and> mi_tombstone x"
    using scope_delete_fold [OF f] live items k' by auto
  then have log: "db_wop (eg_db s') = db_wop (eg_db s) @ [w]" using w same_tables_facts [OF same] by simp
  have "items_of s' \<noteq> items_of s" using fold(2) live same' by (metis option.inject)
  moreover have "effects pc [w] (items_of s) = items_of s" using w(2) by (simp add: action_of_def)
  ultimately have "\<not> log_adequate pc s s'" using log by (auto simp: log_adequate_def)
  with log w(2) show ?thesis by (auto simp: replay_one_def)
qed

definition one_replica :: engine where
  "one_replica = demo_replica\<lparr> eg_db := put_item item_a (empty_db []) \<rparr>"

lemma append_wop_nofault: "db_faults d = [] \<Longrightarrow> \<exists>d' q. append_wop op p t d = (d', Inr q)"
  by (simp add: append_wop_def db_op_def add_wop_def Let_def)

lemma delete_scope_run: "\<exists>s'. delete_scope_tenant demo_env0 ''s'' ''t1'' one_replica = (s', Inr 1)"
proof -
  have nf: "db_faults (eg_db one_replica) = []" by (simp add: one_replica_def put_item_def empty_db_def)
  have ref: "parse_u64 [] = None" by (simp add: parse_u64_def parse_unsigned_def)
  have l: "on_db (list_by_session_tenant ''s'' ''t1'') one_replica = (one_replica, Inr [item_a])"
    using nf by (simp add: on_db_def raw_db_def list_by_session_tenant_def order_turn_def)
      (simp add: one_replica_def put_item_def replace_item_def empty_db_def item_a_def with_namespace_def new_turn_skeleton_def)
  have d: "drop_vector (Some item_a) one_replica = (one_replica, Inr ())"
    by (simp add: drop_vector_def item_a_def with_namespace_def ref)
  have t: "\<exists>s1. on_db (tombstone_memory (mi_id item_a)) one_replica = (s1, Inr ()) \<and> db_faults (eg_db s1) = []"
    using nf by (simp add: on_db_def raw_db_def tombstone_memory_def update_items_def)
  then obtain s1 where s1: "on_db (tombstone_memory (mi_id item_a)) one_replica = (s1, Inr ())"
    "db_faults (eg_db s1) = []" by blast
  then have "fold scope_delete_one [item_a] (one_replica, 0) = (s1, 1)"
    using d by (simp add: scope_delete_one_def)
  moreover obtain s2 q where "on_db (append_wop ''delete_scope'' ''s'' (eg_tick s1)) (s1\<lparr> eg_tick := eg_tick s1 + 1 \<rparr>) = (s2, Inr q)"
    using append_wop_nofault [of "eg_db s1" "''delete_scope''" "''s''" "eg_tick s1"] s1(2)
    by (auto simp: on_db_def raw_db_def)
  ultimately show ?thesis using l
    by (simp add: delete_scope_tenant_def then_do_def now_ms_def call_def return_ok_def demo_env0_def)
qed

lemma delete_scope_not_replicated_witness:
  "\<exists>s'. delete_scope_tenant demo_env0 ''s'' ''t1'' one_replica = (s', Inr 1)
     \<and> \<not> log_adequate no_codec one_replica s'"
proof -
  have wf: "db_wf (eg_db one_replica)" by (simp add: one_replica_def put_item_wf)
  obtain s' where r: "delete_scope_tenant demo_env0 ''s'' ''t1'' one_replica = (s', Inr 1)"
    using delete_scope_run by blast
  from delete_scope_not_replicated [OF wf r, of no_codec list_sink "[]"] r show ?thesis by auto
qed

section \<open>Undoing a merge\<close>

lemma restore_vector_db: "restore_vector ev m s = (s', r) \<Longrightarrow> eg_db s' = eg_db s"
  by (auto simp: restore_vector_def then_do_def return_ok_def dest!: on_store_parts embed_db
      split: option.splits prod.splits sum.splits)

lemma get_vector_Inr:
  "\<lbrakk> get_vector v t = (t', Inr x); store_wf t \<rbrakk> \<Longrightarrow> x = store_map t v \<and> store_map t' = store_map t \<and> store_wf t'"
  unfolding get_vector_def st_op_def
  by (auto simp: find_vec_wf fun_eq_iff split: list.splits option.splits)

lemma insert_vector_Inr:
  "\<lbrakk> insert_vector v x t = (t', Inr u); store_wf t \<rbrakk> \<Longrightarrow> store_map t' v \<noteq> None \<and> store_wf t'"
  unfolding insert_vector_def st_op_def
  by (auto simp: store_map_insert insert_vec_wf split: list.splits option.splits if_splits)

lemma restore_vector_present:
  assumes "restore_vector ev m s = (s', Inr u)" and "store_wf (eg_store s)" and "parse_u64 (mi_vector_ref m) = Some v"
  shows "store_map (eg_store s') (of_nat v) \<noteq> None"
proof -
  obtain s1 old where g: "on_store (get_vector (of_nat v)) s = (s1, Inr old)"
    and rest: "(case old of Some _ \<Rightarrow> return_ok () | None \<Rightarrow>
        then_do (embed ev (mi_content m)) (\<lambda>vec. on_store (insert_vector (of_nat v) vec))) s1 = (s', Inr u)"
    using assms(1,3) unfolding restore_vector_def by (auto simp: then_do_Inr)
  have old: "old = store_map (eg_store s1) (of_nat v)" "store_wf (eg_store s1)"
    using get_vector_Inr [of "of_nat v" "eg_store s" "eg_store s1" old] on_store_parts [OF g] assms(2) by auto
  show ?thesis
  proof (cases old)
    case None
    then obtain s2 vec where e: "embed ev (mi_content m) s1 = (s2, Inr vec)"
      and i: "on_store (insert_vector (of_nat v) vec) s2 = (s', Inr u)"
      using rest by (auto simp: then_do_Inr)
    then show ?thesis
      using insert_vector_Inr embed_db [OF e] old(2) on_store_parts [OF i] by metis
  next
    case (Some w)
    then have "s' = s1" using rest by (simp add: return_ok_def)
    moreover have "store_map (eg_store s1) (of_nat v) = Some w" using old(1) Some by simp
    ultimately show ?thesis by simp
  qed
qed

lemma unmerge_log_same:
  assumes "unmerge_log mid d = (d', r)"
  shows "find_item j d' = find_item j d \<and> db_wop d' = db_wop d"
proof -
  have upd: "db_items d2 = db_items d1 \<and> db_wop d2 = db_wop d1"
    if "db_update (\<lambda>d. d\<lparr> db_merges := filter (\<lambda>r. me_id r \<noteq> mid) (db_merges d) \<rparr>) d1 = (d2, q)" for d1 d2 q
    using that unfolding db_update_def by (cases rule: db_op_cases) auto
  have "db_items d' = db_items d \<and> db_wop d' = db_wop d"
    using assms unfolding unmerge_log_def
    by (auto dest!: upd query_tables split: prod.splits sum.splits option.splits)
  then show ?thesis by (simp add: find_item_def)
qed

text \<open>
  undoing a merge restores the memory here only. When it reports success, the memory of some
  merge is live again with its data, its vector is in the vector store, and no other item has
  changed; but the log has no new entry, so a follower keeps the memory hidden for good.
\<close>

lemma unmerge_restores:
  assumes wf: "store_wf (eg_store s)" and run: "unmerge ev mid s = (s', Inr True)"
  shows "(\<exists>m. find_item (mi_id m) (eg_db s) = Some m
        \<and> find_item (mi_id m) (eg_db s') = Some (m\<lparr> mi_tombstone := False \<rparr>)
        \<and> (\<forall>v. parse_u64 (mi_vector_ref m) = Some v \<longrightarrow> store_map (eg_store s') (of_nat v) \<noteq> None)
        \<and> (\<forall>j. j \<noteq> mi_id m \<longrightarrow> find_item j (eg_db s') = find_item j (eg_db s))
        \<and> (mi_tombstone m \<longrightarrow> \<not> log_adequate pc s s'))
    \<and> db_wop (eg_db s') = db_wop (eg_db s)"
proof -
  obtain s1 pair where u: "on_db (unmerge_log mid) s = (s1, Inr pair)"
    and rest0: "(case pair of
         None \<Rightarrow> return_ok False
       | Some (src, tgt) \<Rightarrow>
           then_do (engine_get_memory src) (\<lambda>mo.
             case mo of
               None \<Rightarrow> return_ok False
             | Some m0 \<Rightarrow>
                 let m = m0\<lparr> mi_tombstone := False \<rparr>
                 in then_do (restore_vector ev m) (\<lambda>_.
                    then_do (on_db (put_memory m)) (\<lambda>_. return_ok True)))) s1 = (s', Inr True)"
    by (rule then_do_InrE [OF run [unfolded unmerge_def]])
  then obtain src tgt where pair: "pair = Some (src, tgt)"
    by (cases pair) (auto simp: return_ok_def)
  have u1: "find_item j (eg_db s1) = find_item j (eg_db s)" "db_wop (eg_db s1) = db_wop (eg_db s)"
    "eg_store s1 = eg_store s" for j
    using unmerge_log_same [OF on_db_Inr(1) [OF u]] on_db_Inr(2) [OF u] by simp_all
  obtain s2 mo where g0: "engine_get_memory src s1 = (s2, Inr mo)"
    and rest1: "(case mo of
               None \<Rightarrow> return_ok False
             | Some m0 \<Rightarrow>
                 let m = m0\<lparr> mi_tombstone := False \<rparr>
                 in then_do (restore_vector ev m) (\<lambda>_.
                    then_do (on_db (put_memory m)) (\<lambda>_. return_ok True))) s2 = (s', Inr True)"
    by (rule then_do_InrE [OF rest0 [unfolded pair option.case prod.case]])
  then obtain m where mo: "mo = Some m" by (cases mo) (auto simp: return_ok_def)
  have g: "engine_get_memory src s1 = (s2, Inr (Some m))" using g0 mo by simp
  obtain s3 u' where v: "restore_vector ev (m\<lparr> mi_tombstone := False \<rparr>) s2 = (s3, Inr u')"
    and p: "\<exists>u. on_db (put_memory (m\<lparr> mi_tombstone := False \<rparr>)) s3 = (s', Inr u)"
    using rest1 mo by (auto simp: then_do_Inr return_ok_def Let_def)
  have g1: "find_item src (eg_db s1) = Some m" "same_tables (eg_db s1) (eg_db s2)" "eg_store s2 = eg_store s1"
    using engine_get_Inr [OF g] by simp_all
  have id: "mi_id m = src" using g1(1) by (rule find_item_id)
  have db3: "eg_db s3 = eg_db s2" using v by (rule restore_vector_db)
  obtain u where pu: "on_db (put_memory (m\<lparr> mi_tombstone := False \<rparr>)) s3 = (s', Inr u)" using p by blast
  have put: "\<forall>j. find_item j (eg_db s') = (if j = mi_id m then Some (m\<lparr> mi_tombstone := False \<rparr>) else find_item j (eg_db s))"
    "db_wop (eg_db s') = db_wop (eg_db s)"
    using put_memory_cases [OF on_db_Inr(1) [OF pu]] db3 same_tables_facts [OF g1(2)] u1 by simp_all
  have vec: "store_map (eg_store s') (of_nat w) \<noteq> None" if "parse_u64 (mi_vector_ref m) = Some w" for w
    using restore_vector_present [OF v, of w] wf u1(3) g1(3) that on_db_Inr(2) [OF pu] by simp
  have "items_of s' \<noteq> items_of s" if "mi_tombstone m"
  proof -
    have "items_of s src = Some m" "items_of s' src = Some (m\<lparr> mi_tombstone := False \<rparr>)"
      using u1(1) g1(1) put(1) id by (simp_all add: items_of_def)
    moreover have "mi_tombstone (m\<lparr> mi_tombstone := False \<rparr>) \<noteq> mi_tombstone m" using that by simp
    ultimately show ?thesis by (metis option.inject)
  qed
  then have "mi_tombstone m \<Longrightarrow> \<not> log_adequate pc s s'" using put(2) by (auto simp: log_adequate_def)
  moreover have "find_item (mi_id m) (eg_db s) = Some m" using u1(1) g1(1) id by simp
  ultimately show ?thesis using put vec by (intro conjI exI [of _ m]) simp_all
qed

definition merged_engine :: engine where
  "merged_engine = demo_replica\<lparr> eg_db := (put_item (item_a\<lparr> mi_tombstone := True \<rparr>) (empty_db []))\<lparr>
     db_merges := [\<lparr> me_id = 1, me_at = 0, me_source = ''a'', me_target = ''b'', me_reason = [] \<rparr>] \<rparr> \<rparr>"

lemma unmerge_restores_witness:
  "\<exists>s'. unmerge demo_env0 1 merged_engine = (s', Inr True)
     \<and> db_wop (eg_db s') = db_wop (eg_db merged_engine)"
proof -
  have ref: "parse_u64 [] = None" by (simp add: parse_u64_def parse_unsigned_def)
  have wf: "store_wf (eg_store merged_engine)"
    by (simp add: merged_engine_def demo_replica_def empty_store_def store_wf_def tree_ok_def is_tombstoned_def tree_has_def)
  have "\<exists>s'. unmerge demo_env0 1 merged_engine = (s', Inr True)"
    by (simp add: unmerge_def then_do_def on_db_def raw_db_def unmerge_log_def merged_engine_def demo_replica_def
        put_item_def replace_item_def empty_db_def item_a_def with_namespace_def new_turn_skeleton_def
        engine_get_memory_def get_memory_def find_item_def restore_vector_def ref return_ok_def Let_def put_memory_def)
  then obtain s' where r: "unmerge demo_env0 1 merged_engine = (s', Inr True)" by blast
  from unmerge_restores [OF wf r] r show ?thesis by blast
qed

end
