(* ===== verification/Reconcile.thy ===== *)
theory Reconcile
  imports Consolidate Manage
begin

text \<open>
  What the reconciliation of the two stores keeps and what it removes.
\<close>

section \<open>Items\<close>

text \<open>The items keep their data; those of a set of ids may be gone.\<close>

definition only_purges :: "string set \<Rightarrow> engine \<Rightarrow> engine \<Rightarrow> bool" where
  "only_purges S s s' =
     (\<forall>j. items_of s' j = items_of s j \<or> (j \<in> S \<and> items_of s' j = None))"

lemma only_purges_refl [simp]: "only_purges S s s"
  by (simp add: only_purges_def)

lemma only_purges_trans: "\<lbrakk> only_purges S a b; only_purges S b c \<rbrakk> \<Longrightarrow> only_purges S a c"
  unfolding only_purges_def by metis

lemma only_purges_mono: "\<lbrakk> only_purges S a b; S \<subseteq> T \<rbrakk> \<Longrightarrow> only_purges T a b"
  unfolding only_purges_def by blast

lemma purges_db: "eg_db s' = eg_db s \<Longrightarrow> only_purges S s s'"
  by (simp add: only_purges_def items_of_def)

lemma purges_same: "same_tables (eg_db s) (eg_db s') \<Longrightarrow> only_purges S s s'"
  by (simp add: only_purges_def same_items_of)

text \<open>The rows of the item and merge tables, and that no failure is left, stay as they are.\<close>

definition keeps_rows :: "db \<Rightarrow> db \<Rightarrow> bool" where
  "keeps_rows d d' =
     (db_items d' = db_items d \<and> db_merges d' = db_merges d \<and> (db_faults d = [] \<longrightarrow> db_faults d' = []))"

definition same_rows :: "engine \<Rightarrow> engine \<Rightarrow> bool" where
  "same_rows s s' = keeps_rows (eg_db s) (eg_db s')"

lemma rows_refl [simp]: "keeps_rows d d" "same_rows s s"
  by (simp_all add: keeps_rows_def same_rows_def)

lemma rows_trans: "\<lbrakk> keeps_rows a b; keeps_rows b c \<rbrakk> \<Longrightarrow> keeps_rows a c"
  by (simp add: keeps_rows_def)

lemma same_rows_trans: "\<lbrakk> same_rows a b; same_rows b c \<rbrakk> \<Longrightarrow> same_rows a c"
  unfolding same_rows_def by (rule rows_trans)

lemma same_rowsD:
  "same_rows s s' \<Longrightarrow> db_items (eg_db s') = db_items (eg_db s) \<and> db_merges (eg_db s') = db_merges (eg_db s)
     \<and> (db_faults (eg_db s) = [] \<longrightarrow> db_faults (eg_db s') = [])"
  by (simp add: same_rows_def keeps_rows_def)

lemma same_rows_purges: "same_rows s s' \<Longrightarrow> only_purges S s s'"
  by (drule same_rowsD) (simp add: only_purges_def items_of_def find_item_def)

lemma op_rows:
  assumes run: "db_op f d = (d', r)"
    and keeps: "\<And>d. db_items (fst (f d)) = db_items d \<and> db_merges (fst (f d)) = db_merges d
                  \<and> db_faults (fst (f d)) = db_faults d"
  shows "keeps_rows d d'"
  using run
proof (cases rule: db_op_cases)
  case (fault e fs)
  then show ?thesis using run by (auto simp: keeps_rows_def db_op_def split: list.splits prod.splits)
next
  case (success x fs)
  have "d' = fst (f (d\<lparr> db_faults := fs \<rparr>))" using success by simp
  then have "db_items d' = db_items d \<and> db_merges d' = db_merges d"
    using keeps [of "d\<lparr> db_faults := fs \<rparr>"] by simp
  moreover have "db_faults d = [] \<longrightarrow> db_faults d' = []"
    using run keeps [of d] by (auto simp: db_op_def split: prod.splits)
  ultimately show ?thesis by (simp add: keeps_rows_def)
qed

lemma query_rows_db: "db_query q d = (d', r) \<Longrightarrow> keeps_rows d d'"
  unfolding db_query_def by (erule op_rows) simp

lemma on_db_rows: "\<lbrakk> on_db f s = (s', r); \<And>d d' p. f d = (d', p) \<Longrightarrow> keeps_rows d d' \<rbrakk> \<Longrightarrow> same_rows s s'"
  by (elim on_db_parts) (simp add: same_rows_def)

lemma query_rows: "on_db (db_query q) s = (s', r) \<Longrightarrow> same_rows s s'"
  by (erule on_db_rows) (rule query_rows_db)

lemma scoped_rows: "on_db (list_all_by_tenant_scoped ten f) s = (s', r) \<Longrightarrow> same_rows s s'"
proof (erule on_db_rows)
  fix d d' p assume run: "list_all_by_tenant_scoped ten f d = (d', p)"
  obtain d1 q where one: "db_query (\<lambda>_. ()) d = (d1, q)" by fastforce
  then have d1: "keeps_rows d d1" by (rule query_rows_db)
  from run one d1 show "keeps_rows d d'"
    unfolding list_all_by_tenant_scoped_def scoped_query_def
    by (auto split: sum.splits intro: rows_trans [OF d1] dest!: query_rows_db)
qed

lemma store_rows: "on_store f s = (s', r) \<Longrightarrow> same_rows s s'"
  using on_store_parts [of f s s' r] by (simp add: same_rows_def)

lemma row_rows: "same_rows s (log_reconcile now i stage e s)"
proof -
  have "keeps_rows d d'" if "append_reconcile now i stage e d = (d', r)" for d d' r
    using that unfolding append_reconcile_def db_update_def by (rule op_rows) simp
  moreover obtain r where "append_reconcile now i stage e (eg_db s) = (eg_db (log_reconcile now i stage e s), r)"
    using fst_on_db unfolding log_reconcile_def by blast
  ultimately show ?thesis by (simp add: same_rows_def)
qed

lemma log_reconcile_store [simp]: "eg_store (log_reconcile now i stage e s) = eg_store s"
  by (simp add: log_reconcile_def on_db_def raw_db_def split: prod.split)

lemma fold_rows: "(\<And>x s. same_rows s (f x s)) \<Longrightarrow> same_rows s (fold f xs s)"
proof (induction xs arbitrary: s)
  case (Cons x xs)
  have "same_rows s (f x s)" by (rule Cons.prems)
  moreover have "same_rows (f x s) (fold f xs (f x s))" by (rule Cons.IH [OF Cons.prems])
  ultimately show ?case by (simp add: same_rows_trans)
qed simp

lemma forward_rows: "same_rows s (reconcile_forward_one now m s)"
proof (cases "parse_u64 (mi_vector_ref m)")
  case (Some v)
  obtain s1 r where g: "on_store (get_vector (of_nat v)) s = (s1, r)" by fastforce
  have "same_rows s s1" using g by (rule store_rows)
  moreover have "same_rows s1 (reconcile_forward_one now m s)"
    using Some g row_rows by (auto simp: reconcile_forward_one_def split: sum.split option.split)
  ultimately show ?thesis by (rule same_rows_trans)
qed (simp add: reconcile_forward_one_def row_rows)

lemma orphan_rows: "same_rows s (reconcile_orphan now refs v s)"
proof -
  let ?s1 = "log_reconcile now (''orphan-vec-'' @ show_nat (unat v)) ''orphan-vector''
                ''store has vector, sqlite missing metadata'' s"
  have "same_rows ?s1 (fst (on_store (delete_vector v) ?s1))" by (simp add: same_rows_def)
  with row_rows have "same_rows s (fst (on_store (delete_vector v) ?s1))"
    by (rule same_rows_trans)
  then show ?thesis by (simp add: reconcile_orphan_def)
qed

lemma physical_delete_purges: "raw_db (physical_delete i) s = (s', r) \<Longrightarrow> only_purges {i} s s'"
proof -
  assume "raw_db (physical_delete i) s = (s', r)"
  then have "db_update (delete_item i) (eg_db s) = (eg_db s', r)"
    unfolding physical_delete_def by (rule raw_dbD)
  then show ?thesis unfolding db_update_def
  proof (cases rule: db_op_cases)
    case (fault e fs)
    then show ?thesis by (auto intro!: purges_same simp: same_tables_def)
  next
    case (success x fs)
    have "find_item j (eg_db s') = (if j = i then None else find_item j (eg_db s))" for j
      using success(2) find_item_delete [of j i "eg_db s\<lparr> db_faults := fs \<rparr>"] by auto
    then show ?thesis by (simp add: only_purges_def items_of_def)
  qed
qed

lemma tombstone_purges:
  "only_purges (if mi_id t \<in> sources then {} else {mi_id t}) (fst snf) (fst (reconcile_tombstone now sources t snf))"
proof -
  obtain s n fl where snf: "snf = (s, n, fl)" using prod_cases3 by blast
  show ?thesis
  proof (cases "mi_id t \<in> sources")
    case True
    then show ?thesis by (simp add: snf reconcile_tombstone_def)
  next
    case False
    obtain s1 b where c: "(case parse_u64 (mi_vector_ref t) of
                  Some v \<Rightarrow> (case on_store (delete_vector (of_nat v)) s of (s1, r) \<Rightarrow> (s1, is_ok r))
                | None \<Rightarrow> (log_reconcile now (mi_id t) ''bad-vector-ref''
                            ''tombstone vector_ref not u64, ghost vector may remain'' s, False)) = (s1, b)"
      by fastforce
    have s1: "only_purges {mi_id t} s s1"
      using c by (auto split: option.splits prod.splits intro: same_rows_purges row_rows store_rows)
    obtain s2 r where d: "raw_db (physical_delete (mi_id t)) s1 = (s2, r)" by fastforce
    have "only_purges {mi_id t} s s2"
      by (rule only_purges_trans [OF s1 physical_delete_purges [OF d]])
    with s1 False c d show ?thesis
      by (cases b; cases r) (simp_all add: snf reconcile_tombstone_def)
  qed
qed

lemma tombstones_purge:
  "only_purges (mi_id ` set ts - sources) (fst snf) (fst (fold (reconcile_tombstone now sources) ts snf))"
proof (induction ts arbitrary: snf)
  case (Cons t ts)
  let ?S = "mi_id ` set (t # ts) - sources" and ?next = "reconcile_tombstone now sources t snf"
  have "only_purges ?S (fst snf) (fst ?next)"
    by (rule only_purges_mono [OF tombstone_purges]) simp
  moreover have "only_purges ?S (fst ?next) (fst (fold (reconcile_tombstone now sources) ts ?next))"
    by (rule only_purges_mono [OF Cons.IH]) auto
  ultimately show ?case by (simp only: fold_simps) (rule only_purges_trans)
qed simp

section \<open>The stages\<close>

lemma reconcile_stages:
  assumes "consolidate_reconcile ev now f fl s = ((s', fl'), r)"
  obtains e where "r = Inl e" "same_rows s s'"
  | all s1 s2 ids s3 s4 logs s5 tombs s6 n where
    "r = Inr n" "on_db (list_all_by_tenant_scoped (ev_tenant ev) f) s = (s1, Inr all)"
    "s2 = fold (reconcile_forward_one now) all s1" "on_store list_vector_ids s2 = (s3, ids)"
    "s4 = fold (reconcile_orphan now (known_refs all)) (case ids of Inr vs \<Rightarrow> vs | Inl _ \<Rightarrow> []) s3"
    "on_db list_merge_log s4 = (s5, logs)" "on_db list_tombstoned s5 = (s6, Inr tombs)"
    "fold (reconcile_tombstone now (case logs of Inr rows \<Rightarrow> me_source ` set rows | Inl _ \<Rightarrow> {})) tombs (s6, 0, fl)
       = (s', n, fl')"
    "same_rows s s5" "same_rows s s6"
proof -
  obtain s1 q where l: "on_db (list_all_by_tenant_scoped (ev_tenant ev) f) s = (s1, q)" by fastforce
  have s1: "same_rows s s1" using l by (rule scoped_rows)
  show ?thesis
  proof (cases q)
    case (Inl e)
    with assms l s1 show ?thesis by (intro that(1)) (auto simp: consolidate_reconcile_def)
  next
    case (Inr all)
    let ?s2 = "fold (reconcile_forward_one now) all s1"
    obtain s3 ids where i: "on_store list_vector_ids ?s2 = (s3, ids)" by fastforce
    let ?s4 = "fold (reconcile_orphan now (known_refs all)) (case ids of Inr vs \<Rightarrow> vs | Inl _ \<Rightarrow> []) s3"
    obtain s5 logs where m: "on_db list_merge_log ?s4 = (s5, logs)" by fastforce
    obtain s6 t where t: "on_db list_tombstoned s5 = (s6, t)" by fastforce
    have "same_rows s1 ?s2" by (rule fold_rows) (rule forward_rows)
    moreover have "same_rows ?s2 s3" using i by (rule store_rows)
    moreover have "same_rows s3 ?s4" by (rule fold_rows) (rule orphan_rows)
    moreover have "same_rows ?s4 s5" using m unfolding list_merge_log_def by (rule query_rows)
    moreover have "same_rows s5 s6" using t unfolding list_tombstoned_def by (rule query_rows)
    ultimately have rows: "same_rows s s5" "same_rows s s6" using s1 by (meson same_rows_trans)+
    show ?thesis
    proof (cases t)
      case (Inl e)
      with assms l Inr i m t rows show ?thesis by (intro that(1)) (auto simp: consolidate_reconcile_def Let_def)
    next
      case ts: (Inr tombs)
      obtain s7 n fl7 where f: "fold (reconcile_tombstone now
          (case logs of Inr rows \<Rightarrow> me_source ` set rows | Inl _ \<Rightarrow> {})) tombs (s6, 0, fl) = (s7, n, fl7)"
        using prod_cases3 by blast
      then have "s7 = s'" "fl7 = fl'" "r = Inr n"
        using assms l Inr i m t ts by (auto simp: consolidate_reconcile_def Let_def)
      with l Inr i m t ts f rows show ?thesis by (intro that(2) [where all = all and ?s1.0 = s1 and ?s2.0 = ?s2 and ids = ids and ?s3.0 = s3 and ?s4.0 = ?s4
            and logs = logs and ?s5.0 = s5 and tombs = tombs and ?s6.0 = s6 and n = n]) simp_all
    qed
  qed
qed

lemma reconcile_items:
  assumes wf: "db_wf (eg_db s)" and run: "consolidate_reconcile ev now f fl s = ((s', fl'), r)"
  shows "(\<forall>j m. find_item j (eg_db s) = Some m \<and> \<not> mi_tombstone m \<longrightarrow> find_item j (eg_db s') = Some m)
    \<and> (\<forall>j. find_item j (eg_db s') = find_item j (eg_db s) \<or> find_item j (eg_db s') = None)
    \<and> (db_faults (eg_db s) = [] \<longrightarrow> (\<forall>row \<in> set (db_merges (eg_db s)).
          find_item (me_source row) (eg_db s') = find_item (me_source row) (eg_db s)))"
  using run
proof (cases rule: reconcile_stages)
  case (1 e)
  then show ?thesis using same_rowsD by (simp add: find_item_def)
next
  case (2 all s1 s2 ids s3 s4 logs s5 tombs s6 n)
  let ?sources = "case logs of Inr rows \<Rightarrow> me_source ` set rows | Inl _ \<Rightarrow> {}"
  have tombs: "tombs = filter mi_tombstone (db_items (eg_db s5))"
    using on_db_Inr(1) [OF 2(7)] unfolding list_tombstoned_def by (rule db_query_Inr) simp
  then have tombs: "tombs = filter mi_tombstone (db_items (eg_db s))" using same_rowsD [OF 2(9)] by simp
  have "only_purges (mi_id ` set tombs - ?sources) s6 s'"
    using tombstones_purge [of tombs ?sources "(s6, 0, fl)" now] 2(8) by simp
  then have p: "only_purges (mi_id ` set tombs - ?sources) s s'"
    by (rule only_purges_trans [OF same_rows_purges [OF 2(10)]])
  have live: "j \<notin> mi_id ` set tombs" if "find_item j (eg_db s) = Some m" "\<not> mi_tombstone m" for j m
  proof
    assume "j \<in> mi_id ` set tombs"
    then obtain t where "t \<in> set (db_items (eg_db s))" "mi_tombstone t" "j = mi_id t" by (auto simp: tombs)
    with find_item_wf [OF wf] that show False by fastforce
  qed
  have merges: "?sources = me_source ` set (db_merges (eg_db s))" if "db_faults (eg_db s) = []"
  proof -
    have "db_faults (eg_db s4) = [] \<and> db_merges (eg_db s4) = db_merges (eg_db s)"
    proof -
      have "same_rows s s4"
      proof -
        have "same_rows s s1" using 2(2) by (rule scoped_rows)
        moreover have "same_rows s1 s2" unfolding 2(3) by (rule fold_rows) (rule forward_rows)
        moreover have "same_rows s2 s3" using 2(4) by (rule store_rows)
        moreover have "same_rows s3 s4" unfolding 2(5) by (rule fold_rows) (rule orphan_rows)
        ultimately show ?thesis by (meson same_rows_trans)
      qed
      with that show ?thesis using same_rowsD by blast
    qed
    with 2(6) show ?thesis by (auto simp: list_merge_log_def on_db_def raw_db_def)
  qed
  have p': "find_item j (eg_db s') = find_item j (eg_db s)
      \<or> j \<in> mi_id ` set tombs - ?sources \<and> find_item j (eg_db s') = None" for j
    using p by (simp add: only_purges_def items_of_def)
  have "find_item j (eg_db s') = Some m" if "find_item j (eg_db s) = Some m" "\<not> mi_tombstone m" for j m
    using p' [of j] live [OF that] that(1) by simp
  moreover have "find_item (me_source row) (eg_db s') = find_item (me_source row) (eg_db s)"
    if "db_faults (eg_db s) = []" "row \<in> set (db_merges (eg_db s))" for row
    using p' [of "me_source row"] merges [OF that(1)] that(2) by simp
  moreover have "find_item j (eg_db s') = find_item j (eg_db s) \<or> find_item j (eg_db s') = None" for j
    using p' [of j] by auto
  ultimately show ?thesis by (intro conjI allI impI ballI) simp_all
qed

text \<open>
  C23: reconciliation deletes only tombstones. Whatever the stores do, every live item survives
  unchanged, and every other one stays as it is or is gone; when the database does not fail, a
  tombstone that is the source of a recorded merge also stays, so the merge can be undone.
\<close>

theorem reconcile_keeps_live:
  assumes "db_wf (eg_db s)" and "consolidate_reconcile ev now f fl s = ((s', fl'), r)"
  shows "(\<forall>j m. find_item j (eg_db s) = Some m \<and> \<not> mi_tombstone m \<longrightarrow> find_item j (eg_db s') = Some m)
    \<and> (\<forall>j. find_item j (eg_db s') = find_item j (eg_db s) \<or> find_item j (eg_db s') = None)
    \<and> (db_faults (eg_db s) = [] \<longrightarrow> (\<forall>row \<in> set (db_merges (eg_db s)).
          find_item (me_source row) (eg_db s') = find_item (me_source row) (eg_db s)))"
  using assms by (rule reconcile_items)

lemma reconcile_keeps_live_witness:
  "find_item ''a'' (eg_db (fst (fst (consolidate_reconcile demo_env0 0 (ns_filter_new [] []) [] demo_replica)))) = Some item_a"
proof -
  have wf: "db_wf (eg_db demo_replica)" by (simp add: demo_replica_def db_ab_def put_item_wf)
  obtain s' fl' r where r: "consolidate_reconcile demo_env0 0 (ns_filter_new [] []) [] demo_replica = ((s', fl'), r)"
    by (metis prod.collapse)
  have "find_item ''a'' (eg_db demo_replica) = Some item_a" "\<not> mi_tombstone item_a"
    by (simp_all add: demo_replica_def db_ab_def item_a_def item_b_def with_namespace_def)
  with reconcile_keeps_live [OF wf r] r show ?thesis by simp
qed

section \<open>Vectors\<close>

definition calm :: "lstore \<Rightarrow> bool" where
  "calm t = (ls_faults t = [] \<and> store_wf t)"

lemma calm_delete:
  assumes "calm (eg_store s)"
  shows "calm (eg_store (fst (on_store (delete_vector v) s)))
    \<and> store_map (eg_store (fst (on_store (delete_vector v) s))) w
        = (if w = v then None else store_map (eg_store s) w)"
proof -
  have f: "ls_faults (delete_vec v (eg_store s)) = ls_faults (eg_store s)" by (simp add: delete_vec_def)
  have "eg_store (fst (on_store (delete_vector v) s)) = delete_vec v (eg_store s)"
    using assms by (simp add: calm_def on_store_def delete_vector_def st_op_def)
  then show ?thesis using assms f by (simp add: calm_def delete_vec_wf store_map_delete)
qed

lemma calm_read:
  assumes "calm (eg_store s)"
  shows "eg_store (fst (on_store (get_vector v) s)) = eg_store s"
    and "on_store list_vector_ids s = (s, Inr (vector_ids (eg_store s)))"
  using assms by (simp_all add: calm_def on_store_def get_vector_def list_vector_ids_def st_op_def find_vec_wf)

lemma forward_store: "calm (eg_store s) \<Longrightarrow> eg_store (reconcile_forward_one now m s) = eg_store s"
proof (cases "parse_u64 (mi_vector_ref m)")
  case (Some v)
  assume "calm (eg_store s)"
  then have "eg_store (fst (on_store (get_vector (of_nat v)) s)) = eg_store s" by (rule calm_read)
  then show ?thesis using Some
    by (auto simp: reconcile_forward_one_def split: prod.split sum.split option.split)
qed (simp add: reconcile_forward_one_def)

lemma forward_fold_store:
  "calm (eg_store s) \<Longrightarrow> eg_store (fold (reconcile_forward_one now) ms s) = eg_store s"
  by (induction ms arbitrary: s) (simp_all add: forward_store)

lemma orphan_fold_store:
  "calm (eg_store s) \<Longrightarrow>
     calm (eg_store (fold (reconcile_orphan now refs) vs s))
     \<and> store_map (eg_store (fold (reconcile_orphan now refs) vs s)) w
        = (if w \<in> set vs \<and> unat w \<notin> set refs then None else store_map (eg_store s) w)"
proof (induction vs arbitrary: s)
  case (Cons v vs)
  let ?s1 = "reconcile_orphan now refs v s"
  have "calm (eg_store ?s1) \<and> store_map (eg_store ?s1) w
      = (if w = v \<and> unat v \<notin> set refs then None else store_map (eg_store s) w)"
  proof (cases "unat v \<in> set refs")
    case True
    with Cons.prems show ?thesis by (simp add: reconcile_orphan_def)
  next
    case False
    define s0 where "s0 = log_reconcile now (''orphan-vec-'' @ show_nat (unat v)) ''orphan-vector''
                ''store has vector, sqlite missing metadata'' s"
    have s0: "eg_store s0 = eg_store s" by (simp add: s0_def)
    have "?s1 = fst (on_store (delete_vector v) s0)" using False by (simp add: reconcile_orphan_def s0_def)
    then show ?thesis using calm_delete [of s0 v w] s0 Cons.prems False by simp
  qed
  with Cons.IH [of ?s1] show ?case by auto
qed simp

lemma on_db_store: "on_db f s = (s', r) \<Longrightarrow> eg_store s' = eg_store s"
  by (elim on_db_parts)

lemma raw_db_store: "raw_db f s = (s', r) \<Longrightarrow> eg_store s' = eg_store s"
  using raw_db_parts [of f s s' r] by simp

lemma tombstone_drops:
  assumes "calm (eg_store (fst snf))"
  shows "calm (eg_store (fst (reconcile_tombstone now sources t snf)))
    \<and> (store_map (eg_store (fst snf)) w = None \<longrightarrow>
        store_map (eg_store (fst (reconcile_tombstone now sources t snf))) w = None)"
proof -
  obtain s n fl where snf: "snf = (s, n, fl)" using prod_cases3 by blast
  show ?thesis
  proof (cases "mi_id t \<in> sources")
    case True
    then show ?thesis using assms by (simp add: snf reconcile_tombstone_def)
  next
    case False
    obtain s1 b where c: "(case parse_u64 (mi_vector_ref t) of
                  Some v \<Rightarrow> (case on_store (delete_vector (of_nat v)) s of (s1, r) \<Rightarrow> (s1, is_ok r))
                | None \<Rightarrow> (log_reconcile now (mi_id t) ''bad-vector-ref''
                            ''tombstone vector_ref not u64, ghost vector may remain'' s, False)) = (s1, b)"
      by fastforce
    have s1: "calm (eg_store s1) \<and> (store_map (eg_store s) w = None \<longrightarrow> store_map (eg_store s1) w = None)"
    proof (cases "parse_u64 (mi_vector_ref t)")
      case None
      then show ?thesis using c assms snf by auto
    next
      case (Some v)
      then have "s1 = fst (on_store (delete_vector (of_nat v)) s)" using c by (auto split: prod.splits)
      then show ?thesis using calm_delete [of s "of_nat v" w] assms snf by simp
    qed
    obtain s2 r where d: "raw_db (physical_delete (mi_id t)) s1 = (s2, r)" by fastforce
    have "fst (reconcile_tombstone now sources t snf) = (if b then s2 else s1)"
      using False c d by (cases b; cases r) (simp_all add: snf reconcile_tombstone_def)
    then show ?thesis using s1 raw_db_store [OF d] snf by auto
  qed
qed

lemma tombstone_fold_drops:
  "\<lbrakk> calm (eg_store (fst snf)); store_map (eg_store (fst snf)) w = None \<rbrakk> \<Longrightarrow>
     store_map (eg_store (fst (fold (reconcile_tombstone now sources) ts snf))) w = None"
proof (induction ts arbitrary: snf)
  case (Cons t ts)
  have "calm (eg_store (fst (reconcile_tombstone now sources t snf)))"
    "store_map (eg_store (fst (reconcile_tombstone now sources t snf))) w = None"
    using tombstone_drops Cons.prems by blast+
  from Cons.IH [OF this] show ?case by simp
qed simp

lemma scoped_list_set:
  assumes "list_all_by_tenant_scoped ten f d = (d', Inr ms)"
  shows "set ms = {m \<in> set (db_items d). \<not> mi_tombstone m \<and> mi_tenant m = ten \<and> item_visible f m}"
  using scoped_query_Inr [OF assms [unfolded list_all_by_tenant_scoped_def]]
  by (auto simp: order_created_def ns_predicate_Inr)

text \<open>
  reconciliation deletes vectors that are in use. The live memories it compares with are
  those of the engine's tenant and of the namespace of the run, the vectors are all vectors of
  the store. A successful run therefore removes the vector of every live memory of another
  tenant or outside the namespace, while the memory itself stays, from then on without a vector.
\<close>

lemma reconcile_drops_foreign_vectors:
  assumes wf: "db_wf (eg_db s)" "store_wf (eg_store s)" "ls_faults (eg_store s) = []"
    and run: "consolidate_reconcile ev now f fl s = ((s', fl'), Inr n)"
    and m: "find_item j (eg_db s) = Some m" "\<not> mi_tombstone m" "mi_tenant m \<noteq> ev_tenant ev \<or> \<not> item_visible f m"
    and v: "parse_u64 (mi_vector_ref m) = Some v"
    and own: "\<forall>x \<in> set (db_items (eg_db s)). parse_u64 (mi_vector_ref x) = Some v \<longrightarrow> x = m"
  shows "find_item j (eg_db s') = Some m \<and> store_map (eg_store s') (of_nat v) = None"
proof
  show "find_item j (eg_db s') = Some m" using reconcile_items [OF wf(1) run] m by blast
next
  have calm: "calm (eg_store s)" using wf by (simp add: calm_def)
  from run show "store_map (eg_store s') (of_nat v) = None"
  proof (cases rule: reconcile_stages)
    case (2 all s1 s2 ids s3 s4 logs s5 tombs s6 k)
    have s1: "eg_store s1 = eg_store s" using 2(2) by (rule on_db_store)
    have s2: "eg_store s2 = eg_store s" using forward_fold_store [of s1 now all] calm s1 2(3) by simp
    have s3: "s3 = s2" "ids = Inr (vector_ids (eg_store s2))"
      using 2(4) calm_read(2) [of s2] calm s2 by simp_all
    have "v \<notin> set (known_refs all)"
    proof
      assume "v \<in> set (known_refs all)"
      then obtain x where "x \<in> set all" "parse_u64 (mi_vector_ref x) = Some v"
        by (auto simp: known_refs_def set_map_filter)
      moreover from this have "x = m" using own scoped_list_set [OF on_db_Inr(1) [OF 2(2)]] by blast
      ultimately show False using m(3) scoped_list_set [OF on_db_Inr(1) [OF 2(2)]] by blast
    qed
    moreover have "unat (of_nat v :: vid) = v"
      using parse_u64_bound [OF v] by (simp add: unat_of_nat take_bit_eq_mod)
    ultimately have "unat (of_nat v :: vid) \<notin> set (known_refs all)" by simp
    moreover have "store_map (eg_store s2) (of_nat v) = None" if "of_nat v \<notin> set (vector_ids (eg_store s2))"
      using that vector_ids_iff [of "eg_store s2" "of_nat v"] wf(2) s2 by simp
    ultimately have s4: "calm (eg_store s4) \<and> store_map (eg_store s4) (of_nat v) = None"
      using orphan_fold_store [of s3 now "known_refs all" "vector_ids (eg_store s2)" "of_nat v"] calm s2 s3 2(5) by simp
    have "eg_store s6 = eg_store s4" using on_db_store [OF 2(6)] on_db_store [OF 2(7)] by simp
    then show ?thesis
      using tombstone_fold_drops [of "(s6, 0, fl)" "of_nat v" now _ tombs] s4 2(8) by (metis fst_conv)
  qed simp
qed

lemma reconcile_total:
  assumes nf: "db_faults (eg_db s) = []"
  shows "\<exists>s' fl' n. consolidate_reconcile ev now (ns_filter_new [] []) fl s = ((s', fl'), Inr n)"
proof -
  let ?f = "ns_filter_new [] []"
  obtain all where l: "on_db (list_all_by_tenant_scoped (ev_tenant ev) ?f) s = (s, Inr all)"
    using nf by (simp add: on_db_def raw_db_def list_all_by_tenant_scoped_def scoped_query_def ns_predicate_def
        ns_active_def ns_filter_new_def)
  let ?s2 = "fold (reconcile_forward_one now) all s"
  obtain s3 ids where i: "on_store list_vector_ids ?s2 = (s3, ids)" by fastforce
  let ?s4 = "fold (reconcile_orphan now (known_refs all)) (case ids of Inr vs \<Rightarrow> vs | Inl _ \<Rightarrow> []) s3"
  obtain s5 logs where m: "on_db list_merge_log ?s4 = (s5, logs)" by fastforce
  have "same_rows s ?s2" by (rule fold_rows) (rule forward_rows)
  moreover have "same_rows ?s2 s3" using i by (rule store_rows)
  moreover have "same_rows s3 ?s4" by (rule fold_rows) (rule orphan_rows)
  moreover have "same_rows ?s4 s5" using m unfolding list_merge_log_def by (rule query_rows)
  ultimately have "same_rows s s5" by (meson same_rows_trans)
  then have "db_faults (eg_db s5) = []" using nf same_rowsD by blast
  then obtain tombs where "on_db list_tombstoned s5 = (s5, Inr tombs)"
    by (simp add: on_db_def raw_db_def list_tombstoned_def)
  with l i m show ?thesis by (simp add: consolidate_reconcile_def Let_def split: prod.split)
qed

definition foreign_item :: memory_item where
  "foreign_item = (new_turn_skeleton ''f'' ''ix'' 0 ''s'' ''t2'' Episodic ''kept'' 5)\<lparr> mi_vector_ref := ''7'' \<rparr>"

definition foreign_engine :: engine where
  "foreign_engine = demo_engine\<lparr> eg_db := put_item foreign_item (empty_db []),
     eg_store := insert_vec 7 [0, 0] empty_store \<rparr>"

lemma reconcile_drops_foreign_witness:
  "\<exists>s' n. reconcile demo_env foreign_engine = (s', Inr n)
     \<and> find_item ''f'' (eg_db s') = Some foreign_item \<and> store_map (eg_store s') 7 = None"
proof -
  let ?f = "ns_filter_new [] []" and ?s = "foreign_engine\<lparr> eg_tick := 1 \<rparr>"
  have st: "store_wf (eg_store ?s)" "ls_faults (eg_store ?s) = []"
  proof -
    have e: "store_wf empty_store"
      by (simp add: empty_store_def store_wf_def tree_ok_def is_tombstoned_def tree_has_def)
    then show "store_wf (eg_store ?s)" "ls_faults (eg_store ?s) = []"
      using insert_vec_wf [OF e, of "[0, 0]" 7] by (simp_all add: foreign_engine_def empty_store_def insert_vec_def Let_def)
  qed
  have wf: "db_wf (eg_db ?s)" by (simp add: foreign_engine_def put_item_wf)
  have items: "db_items (eg_db ?s) = [foreign_item]" "db_faults (eg_db ?s) = []" "db_merges (eg_db ?s) = []"
    by (simp_all add: foreign_engine_def put_item_def replace_item_def empty_db_def)
  have m: "find_item ''f'' (eg_db ?s) = Some foreign_item" "\<not> mi_tombstone foreign_item"
    "mi_tenant foreign_item \<noteq> ev_tenant demo_env" "parse_u64 (mi_vector_ref foreign_item) = Some 7"
    using items by (simp_all add: find_item_def foreign_item_def demo_env_def parse_u64_def parse_unsigned_def digit_val_def)
  obtain s' fl' n where r: "consolidate_reconcile demo_env 1000 ?f [] ?s = ((s', fl'), Inr n)"
    using reconcile_total [OF items(2)] by blast
  from reconcile_drops_foreign_vectors [OF wf st r m(1,2) _ m(4)] m items
  have "find_item ''f'' (eg_db s') = Some foreign_item \<and> store_map (eg_store s') 7 = None" by simp
  moreover have "reconcile demo_env foreign_engine = (s', Inr n)"
    using r by (simp add: reconcile_def now_ms_def call_def foreign_engine_def demo_engine_def demo_env_def)
  ultimately show ?thesis by blast
qed

end
