(* ===== verification/Saga.thy ===== *)
theory Saga
  imports Reconcile
begin

text \<open>
  What the phases of a consolidation do to the items and to the log.
\<close>

section \<open>Phase 1\<close>

definition phase1_outcome :: "nat \<Rightarrow> memory_item \<Rightarrow> memory_item" where
  "phase1_outcome now m =
     (if should_recycle m now then m\<lparr> mi_tombstone := True \<rparr>
      else if mi_tier m = Short \<and> should_promote m now then m\<lparr> mi_tier := Long \<rparr>
      else m)"

lemma tab_char: "char_of (9 :: nat) = CHR 0x09"
  by code_simp

lemma show_nat_no_tab: "char_of (9 :: nat) \<notin> set (show_nat n)"
proof
  assume "char_of (9 :: nat) \<in> set (show_nat n)"
  then obtain d where d: "d < 10" "char_of (9 :: nat) = digit_char d" by (auto dest: show_nat_digits)
  then have "(of_char (char_of (9 :: nat)) :: nat) = 48 + d" using of_char_digit by metis
  then show False by simp
qed

lemma append_wop_calm:
  assumes "db_faults (eg_db s) = []"
  shows "items_of (fst (on_db (append_wop op p t) s)) = items_of s
    \<and> db_faults (eg_db (fst (on_db (append_wop op p t) s))) = []
    \<and> (\<exists>w. db_wop (eg_db (fst (on_db (append_wop op p t) s))) = db_wop (eg_db s) @ [w]
           \<and> we_op w = op \<and> we_payload w = p)"
  using assms
  by (auto simp: on_db_def raw_db_def append_wop_def db_op_def add_wop_def Let_def items_of_def find_item_def)

lemma tombstone_calm:
  assumes "db_faults (eg_db s) = []"
  obtains s' where "raw_db (tombstone_memory i) s = (s', Inr ())" "db_faults (eg_db s') = []"
    "items_of s' = (items_of s)(i := map_option (mi_tombstone_update (\<lambda>_. True)) (items_of s i))"
    "db_wop (eg_db s') = db_wop (eg_db s)" "eg_store s' = eg_store s"
proof -
  obtain s' r where t: "raw_db (tombstone_memory i) s = (s', r)" by fastforce
  then have "r = Inr ()" "db_faults (eg_db s') = []" "eg_store s' = eg_store s"
    using assms by (auto simp: raw_db_def tombstone_memory_def update_items_def)
  moreover have "tombstone_memory i (eg_db s) = (eg_db s', r)" using t by (rule raw_dbD)
  ultimately show ?thesis
    using that t tombstone_hides [of i "eg_db s" "eg_db s'" "()"]
    by (auto simp: hide_in_def items_of_def fun_eq_iff)
qed

lemma put_calm:
  assumes "db_faults (eg_db s) = []"
  obtains s' where "raw_db (put_memory m) s = (s', Inr ())" "db_faults (eg_db s') = []"
    "items_of s' = (items_of s)(mi_id m \<mapsto> m)" "db_wop (eg_db s') = db_wop (eg_db s)" "eg_store s' = eg_store s"
proof -
  obtain s' r where t: "raw_db (put_memory m) s = (s', r)" by fastforce
  then have r: "r = Inr ()" "db_faults (eg_db s') = []" "eg_store s' = eg_store s"
    using assms by (auto simp: raw_db_def put_memory_def put_item_def)
  have "put_memory m (eg_db s) = (eg_db s', r)" using t by (rule raw_dbD)
  from put_memory_cases [OF this] r that t show ?thesis
    by (auto simp: items_of_def fun_eq_iff)
qed

text \<open>One memory: its item, one entry of the log that says so, and no failure.\<close>

definition phase1_step :: "payload_codec \<Rightarrow> nat \<Rightarrow> memory_item \<Rightarrow> phase1 \<Rightarrow> phase1 \<Rightarrow> bool" where
  "phase1_step pc now m p p' =
     (db_faults (eg_db (p1_eng p')) = []
      \<and> items_of (p1_eng p') = (items_of (p1_eng p))(mi_id m \<mapsto> phase1_outcome now m)
      \<and> log_adequate pc (p1_eng p) (p1_eng p')
      \<and> p1_dropped p' = p1_dropped p + (if should_recycle m now then 1 else 0))"

lemma recycle_step:
  assumes nf: "db_faults (eg_db (p1_eng p)) = []" and m: "items_of (p1_eng p) (mi_id m) = Some m"
    and rec: "should_recycle m now"
  shows "phase1_step pc now m p (recycle_one now m p)"
proof -
  define p1 where "p1 = (case parse_u64 (mi_vector_ref m) of
                  None \<Rightarrow> p
                | Some v \<Rightarrow>
                    (case on_store (delete_vector (of_nat v)) (p1_eng p) of
                       (s, Inl e) \<Rightarrow> p1_fail (mi_id m) ''recycle'' (err_display e) (p\<lparr> p1_eng := s \<rparr>)
                     | (s, Inr _) \<Rightarrow> p\<lparr> p1_eng := s \<rparr>))"
  then have d1: "eg_db (p1_eng p1) = eg_db (p1_eng p)" "p1_dropped p1 = p1_dropped p"
    by (auto split: option.splits prod.splits sum.splits simp: p1_fail_def dest: on_store_parts)
  have nf1: "db_faults (eg_db (p1_eng p1)) = []" using nf d1 by simp
  obtain s2 where t: "raw_db (tombstone_memory (mi_id m)) (p1_eng p1) = (s2, Inr ())" "db_faults (eg_db s2) = []"
    "items_of s2 = (items_of (p1_eng p1))(mi_id m := map_option (mi_tombstone_update (\<lambda>_. True)) (items_of (p1_eng p1) (mi_id m)))"
    "db_wop (eg_db s2) = db_wop (eg_db (p1_eng p1))"
    by (rule tombstone_calm [OF nf1])
  define s3 where "s3 = fst (on_db (append_wop ''recycle'' (mi_id m) now) s2)"
  have p': "recycle_one now m p = p1\<lparr> p1_eng := s3, p1_dropped := p1_dropped p1 + 1 \<rparr>"
    unfolding recycle_one_def p1_def [symmetric] Let_def t by (simp add: s3_def)
  obtain w where w: "items_of s3 = items_of s2" "db_faults (eg_db s3) = []"
    "db_wop (eg_db s3) = db_wop (eg_db s2) @ [w]" "we_op w = ''recycle''" "we_payload w = mi_id m"
    using append_wop_calm [OF t(2)] unfolding s3_def by metis
  have i1: "items_of (p1_eng p1) = items_of (p1_eng p)" using d1 by (simp add: items_of_def)
  have items: "items_of s3 = (items_of (p1_eng p))(mi_id m \<mapsto> m\<lparr> mi_tombstone := True \<rparr>)"
    using w(1) t(3) i1 m by simp
  have "action_of pc w = AHide (mi_id m)" using w by (simp add: action_of_def)
  then have "effects pc [w] (items_of (p1_eng p)) = items_of s3" using items m by simp
  moreover have "db_wop (eg_db s3) = db_wop (eg_db (p1_eng p)) @ [w]" using w(3) t(4) d1 by simp
  ultimately have "log_adequate pc (p1_eng p) s3" unfolding log_adequate_def by metis
  then show ?thesis
    using p' items w(2) d1 rec by (simp add: phase1_step_def phase1_outcome_def)
qed

lemma promote_step:
  assumes nf: "db_faults (eg_db (p1_eng p)) = []" and m: "items_of (p1_eng p) (mi_id m) = Some m"
    and pro: "\<not> should_recycle m now" "mi_tier m = Short" "should_promote m now"
    and tabless: "char_of (9 :: nat) \<notin> set (mi_id m)"
  shows "phase1_step pc now m p (promote_one now m p)"
proof -
  let ?up = "m\<lparr> mi_tier := Long \<rparr>"
  obtain s2 where t: "raw_db (put_memory ?up) (p1_eng p) = (s2, Inr ())" "db_faults (eg_db s2) = []"
    "items_of s2 = (items_of (p1_eng p))(mi_id ?up \<mapsto> ?up)" "db_wop (eg_db s2) = db_wop (eg_db (p1_eng p))"
    by (rule put_calm [OF nf])
  define s3 where "s3 = fst (on_db (append_wop ''promote'' (mi_id m @ tab @ ''Long'') now) s2)"
  have p': "promote_one now m p = p\<lparr> p1_eng := s3, p1_promoted := p1_promoted p + 1 \<rparr>"
    unfolding promote_one_def t by (simp add: s3_def)
  obtain w where w: "items_of s3 = items_of s2" "db_faults (eg_db s3) = []"
    "db_wop (eg_db s3) = db_wop (eg_db s2) @ [w]" "we_op w = ''promote''" "we_payload w = mi_id m @ tab @ ''Long''"
    using append_wop_calm [OF t(2)] unfolding s3_def by metis
  have "split_on (char_of (9 :: nat)) (mi_id m @ tab @ ''Long'') = [mi_id m, ''Long'']"
    using tabless unfolding tab_def tab_char by (simp add: split_on_append)
  then have "action_of pc w = ATier (mi_id m) Long" using w by (simp add: action_of_def promoted_tier_def)
  then have "effects pc [w] (items_of (p1_eng p)) = items_of s3" using w(1) t(3) m by simp
  moreover have "db_wop (eg_db s3) = db_wop (eg_db (p1_eng p)) @ [w]" using w(3) t(4) by simp
  ultimately have "log_adequate pc (p1_eng p) s3" unfolding log_adequate_def by metis
  then show ?thesis
    using p' t(3) w(1,2) pro by (simp add: phase1_step_def phase1_outcome_def)
qed

lemma log_adequate_refl: "items_of s' = items_of s \<Longrightarrow> db_wop (eg_db s') = db_wop (eg_db s) \<Longrightarrow> log_adequate pc s s'"
  unfolding log_adequate_def by (intro exI [of _ "[]"]) simp

lemma log_adequate_trans: "\<lbrakk> log_adequate pc a b; log_adequate pc b c \<rbrakk> \<Longrightarrow> log_adequate pc a c"
  unfolding log_adequate_def by (metis append_assoc effects_simps(3))

lemma phase1_one_step:
  assumes "db_faults (eg_db (p1_eng p)) = []" and "items_of (p1_eng p) (mi_id m) = Some m"
    and "char_of (9 :: nat) \<notin> set (mi_id m)"
  shows "phase1_step pc now m p (phase1_one now m p)"
proof (cases "should_recycle m now \<or> mi_tier m = Short \<and> should_promote m now")
  case False
  then have "phase1_one now m p = p" by (auto simp: phase1_one_def)
  then show ?thesis using assms False
    by (auto simp: phase1_step_def phase1_outcome_def log_adequate_refl)
next
  case True
  then show ?thesis using recycle_step promote_step assms by (auto simp: phase1_one_def)
qed

lemma phase1_fold:
  assumes "db_faults (eg_db (p1_eng p)) = []" and "distinct (map mi_id ms)"
    and "\<forall>m \<in> set ms. items_of (p1_eng p) (mi_id m) = Some m \<and> char_of (9 :: nat) \<notin> set (mi_id m)"
  shows "let p' = fold (phase1_one now) ms p in
    log_adequate pc (p1_eng p) (p1_eng p')
    \<and> p1_dropped p' = p1_dropped p + length (filter (\<lambda>m. should_recycle m now) ms)
    \<and> (\<forall>m \<in> set ms. items_of (p1_eng p') (mi_id m) = Some (phase1_outcome now m))
    \<and> (\<forall>j. j \<notin> mi_id ` set ms \<longrightarrow> items_of (p1_eng p') j = items_of (p1_eng p) j)"
  using assms
proof (induction ms arbitrary: p)
  case Nil
  then show ?case by (simp add: log_adequate_refl)
next
  case (Cons m ms)
  let ?q = "phase1_one now m p"
  have step: "phase1_step pc now m p ?q" using Cons.prems by (intro phase1_one_step) simp_all
  have other: "items_of (p1_eng ?q) j = items_of (p1_eng p) j" if "j \<noteq> mi_id m" for j
    using step that by (simp add: phase1_step_def)
  have rest: "\<forall>x \<in> set ms. items_of (p1_eng ?q) (mi_id x) = Some x \<and> char_of (9 :: nat) \<notin> set (mi_id x)"
  proof
    fix x assume x: "x \<in> set ms"
    then have "mi_id x \<noteq> mi_id m" using Cons.prems(2) by (metis distinct.simps(2) image_eqI list.map(2) set_map)
    with other x Cons.prems(3) show "items_of (p1_eng ?q) (mi_id x) = Some x \<and> char_of (9 :: nat) \<notin> set (mi_id x)"
      by simp
  qed
  have nf: "db_faults (eg_db (p1_eng ?q)) = []" using step by (simp add: phase1_step_def)
  let ?p' = "fold (phase1_one now) ms ?q"
  have ih: "log_adequate pc (p1_eng ?q) (p1_eng ?p')"
    "p1_dropped ?p' = p1_dropped ?q + length (filter (\<lambda>m. should_recycle m now) ms)"
    "\<forall>m \<in> set ms. items_of (p1_eng ?p') (mi_id m) = Some (phase1_outcome now m)"
    "\<forall>j. j \<notin> mi_id ` set ms \<longrightarrow> items_of (p1_eng ?p') j = items_of (p1_eng ?q) j"
    using Cons.IH [OF nf _ rest] Cons.prems(2) by (simp_all add: Let_def)
  have "mi_id m \<notin> mi_id ` set ms" using Cons.prems(2) by simp
  then have "items_of (p1_eng ?p') (mi_id m) = Some (phase1_outcome now m)"
    using ih(4) step by (simp add: phase1_step_def)
  moreover have "log_adequate pc (p1_eng p) (p1_eng ?p')"
    using step ih(1) log_adequate_trans unfolding phase1_step_def by blast
  moreover have "p1_dropped ?p' = p1_dropped p + length (filter (\<lambda>m. should_recycle m now) (m # ms))"
    using step ih(2) by (simp add: phase1_step_def)
  moreover have "items_of (p1_eng ?p') j = items_of (p1_eng p) j" if "j \<notin> mi_id ` set (m # ms)" for j
    using that ih(4) other by simp
  ultimately show ?case using ih(3) by (simp add: Let_def)
qed

text \<open>
  C21: the first phase of a consolidation is replicated. On memories as they are in the database,
  with no database failure and whatever the vector store does, every memory below the threshold
  is a tombstone and every short-term memory above it is long-term, no other memory changes, the
  report counts the dropped ones, and the new log entries, replayed on the old items, give
  exactly the new items.
\<close>

theorem phase1_replicated:
  assumes "db_faults (eg_db s) = []" and "distinct (map mi_id changed)"
    and "\<forall>m \<in> set changed. find_item (mi_id m) (eg_db s) = Some m \<and> char_of (9 :: nat) \<notin> set (mi_id m)"
    and "consolidate_phase1 now changed s = p"
  shows "log_adequate pc s (p1_eng p)
    \<and> p1_dropped p = length (filter (\<lambda>m. should_recycle m now) changed)
    \<and> (\<forall>m \<in> set changed. find_item (mi_id m) (eg_db (p1_eng p)) = Some (phase1_outcome now m))
    \<and> (\<forall>j. j \<notin> mi_id ` set changed \<longrightarrow> find_item j (eg_db (p1_eng p)) = find_item j (eg_db s))"
  using phase1_fold [of "\<lparr> p1_eng = s, p1_dropped = 0, p1_promoted = 0, p1_failures = [] \<rparr>" changed now pc]
    assms by (simp add: consolidate_phase1_def Let_def items_of_def)

lemma phase1_replicated_witness:
  "p1_dropped (consolidate_phase1 400005 [item_a] demo_replica) = 1"
proof -
  have nf: "db_faults (eg_db demo_replica) = []" by (simp add: demo_replica_def db_ab_def put_item_def empty_db_def)
  have m: "\<forall>m \<in> set [item_a]. find_item (mi_id m) (eg_db demo_replica) = Some m \<and> char_of (9 :: nat) \<notin> set (mi_id m)"
    by (simp add: demo_replica_def db_ab_def item_a_def item_b_def with_namespace_def tab_char)
  have r: "should_recycle item_a 400005"
    by (rule old_episodic_recycled) (simp_all add: item_a_def with_namespace_def new_turn_skeleton_def)
  from phase1_replicated [OF nf _ m refl, where now = 400005 and pc = no_codec] r show ?thesis by simp
qed

section \<open>A merge\<close>

text \<open>
  C22: what one merge does. With a neighbour that is similar enough, live, another memory and
  shares an entity, and no database failure, the source becomes a tombstone, one row records
  source and target, the log entry has the new items as its effect, and no other memory changes.
  The tenants of source and target are not compared.
\<close>

theorem merge_effect:
  assumes nf: "db_faults (eg_db s) = []"
    and hit: "MERGE_SIM_THRESHOLD \<le> sim" "unat vid \<noteq> vr" "by (unat vid) = Some tgt"
      "\<not> mi_tombstone tgt" "mi_id tgt \<noteq> mi_id src" "shares_entity src tgt"
    and tabless: "char_of (9 :: nat) \<notin> set (mi_id src)" "char_of (9 :: nat) \<notin> set (mi_id tgt)"
    and run: "merge_with by src vr vec now ((vid, sim) # knn) fl s = (s', k, fl')"
  shows "k = 1 \<and> fl' = fl \<and> log_adequate pc s s'
    \<and> items_of s' = (items_of s)(mi_id src := map_option (mi_tombstone_update (\<lambda>_. True)) (items_of s (mi_id src)))
    \<and> (\<exists>row. db_merges (eg_db s') = db_merges (eg_db s) @ [row] \<and> me_source row = mi_id src \<and> me_target row = mi_id tgt)"
proof -
  obtain s1 where t: "raw_db (tombstone_memory (mi_id src)) s = (s1, Inr ())" "db_faults (eg_db s1) = []"
    "items_of s1 = (items_of s)(mi_id src := map_option (mi_tombstone_update (\<lambda>_. True)) (items_of s (mi_id src)))"
    "db_wop (eg_db s1) = db_wop (eg_db s)"
    by (rule tombstone_calm [OF nf])
  have m1: "db_merges (eg_db s1) = db_merges (eg_db s)"
    using t(1) nf by (auto simp: raw_db_def tombstone_memory_def update_items_def)
  define s2 where "s2 = fst (on_store (delete_vector (of_nat vr)) s1)"
  have s2: "eg_db s2 = eg_db s1" by (simp add: s2_def)
  obtain s3 where r: "raw_db (record_merge (mi_id src) (mi_id tgt) merge_reason now) s2 = (s3, Inr ())"
    "db_faults (eg_db s3) = []" "items_of s3 = items_of s2" "db_wop (eg_db s3) = db_wop (eg_db s2)"
    "\<exists>row. db_merges (eg_db s3) = db_merges (eg_db s2) @ [row] \<and> me_source row = mi_id src \<and> me_target row = mi_id tgt"
    using t(2) s2 by (auto simp: raw_db_def record_merge_def Let_def items_of_def find_item_def)
  define p where "p = mi_id src @ tab @ mi_id tgt @ tab @ merge_reason @ tab @ show_nat now"
  define s4 where "s4 = fst (on_db (append_wop ''merge'' p now) s3)"
  have run': "s' = s4 \<and> k = 1 \<and> fl' = fl"
    using run hit t(1) r(1) by (simp add: s2_def s4_def p_def Let_def)
  obtain w where w: "items_of s4 = items_of s3" "db_wop (eg_db s4) = db_wop (eg_db s3) @ [w]"
    "we_op w = ''merge''" "we_payload w = p"
    using append_wop_calm [OF r(2)] unfolding s4_def by metis
  have m4: "db_merges (eg_db s4) = db_merges (eg_db s3)"
    using r(2) by (simp add: s4_def on_db_def raw_db_def append_wop_def db_op_def add_wop_def Let_def)
  have "char_of (9 :: nat) \<notin> set merge_reason" by (simp add: merge_reason_def tab_char)
  moreover have "char_of (9 :: nat) \<notin> set (show_nat now)" by (rule show_nat_no_tab)
  ultimately have "split_on (char_of (9 :: nat)) p = [mi_id src, mi_id tgt, merge_reason, show_nat now]"
    using tabless by (simp add: p_def tab_def split_on_append split_on_plain)
  then have a: "action_of pc w = AHide (mi_id src)" using w by (simp add: action_of_def)
  have items: "items_of s4 = (items_of s)(mi_id src := map_option (mi_tombstone_update (\<lambda>_. True)) (items_of s (mi_id src)))"
    using w(1) r(3) t(3) s2 by (simp add: items_of_def)
  have "db_wop (eg_db s4) = db_wop (eg_db s) @ [w]" using w(2) r(4) t(4) s2 by simp
  moreover have "effects pc [w] (items_of s) = items_of s4" using a items by simp
  ultimately have "log_adequate pc s s4" unfolding log_adequate_def by metis
  then show ?thesis using run' items r(5) m4 m1 s2 by simp
qed

definition merge_src :: memory_item where
  "merge_src = (new_turn_skeleton ''m1'' ''i1'' 0 ''s1'' ''t1'' Semantic ''likes tea'' 5)
     \<lparr> mi_entities := [entity_node_new ''e'' ''tea'' Preference] \<rparr>"

definition merge_tgt :: memory_item where
  "merge_tgt = (new_turn_skeleton ''m2'' ''i2'' 0 ''s2'' [] Semantic ''tea drinker'' 5)
     \<lparr> mi_entities := [entity_node_new ''e'' ''tea'' Preference] \<rparr>"

definition merge_engine :: engine where
  "merge_engine = demo_engine\<lparr> eg_db := put_item merge_tgt (put_item merge_src (empty_db [])) \<rparr>"

text \<open>The source belongs to tenant \<open>t1\<close>, the target to the default tenant.\<close>

lemma merge_effect_witness:
  "\<exists>s' fl. merge_with (\<lambda>v. if v = 2 then Some merge_tgt else None) merge_src 1 [0, 0] 9 [(2, 1)] [] merge_engine
       = (s', 1, fl)
     \<and> find_item ''m1'' (eg_db s') = Some (merge_src\<lparr> mi_tombstone := True \<rparr>)"
proof -
  let ?by = "\<lambda>v. if v = 2 then Some merge_tgt else None"
  obtain s' k fl where r: "merge_with ?by merge_src 1 [0, 0] 9 ((2, 1) # []) [] merge_engine = (s', k, fl)"
    using prod_cases3 by blast
  have ids: "mi_id merge_src = ''m1''" "mi_id merge_tgt = ''m2''" by (simp_all add: merge_src_def merge_tgt_def)
  have nf: "db_faults (eg_db merge_engine) = []" by (simp add: merge_engine_def put_item_def empty_db_def)
  have h: "MERGE_SIM_THRESHOLD \<le> 1" "unat (2 :: vid) \<noteq> 1" "?by (unat (2 :: vid)) = Some merge_tgt"
    "\<not> mi_tombstone merge_tgt" "mi_id merge_tgt \<noteq> mi_id merge_src" "shares_entity merge_src merge_tgt"
    "char_of (9 :: nat) \<notin> set (mi_id merge_src)" "char_of (9 :: nat) \<notin> set (mi_id merge_tgt)"
    by (simp_all add: MERGE_SIM_THRESHOLD_def shares_entity_def ids tab_char) (simp_all add: merge_src_def merge_tgt_def)
  have "items_of merge_engine ''m1'' = Some merge_src" by (simp add: items_of_def merge_engine_def ids)
  with merge_effect [OF nf h r] r ids show ?thesis by (auto simp: items_of_def fun_eq_iff)
qed

section \<open>Late extraction writes snapshots\<close>

lemma reextract_step:
  assumes nf: "db_faults (eg_db s) = []" and ex: "ev_extract ev = Some ex" "\<And>k x. snd (ex k x)"
    and pending: "mi_entities_pending m"
  obtains s' es where "reextract_one ev now m (s, n, fl) = (s', n + 1, fl)" "db_faults (eg_db s') = []"
    "items_of s' = (items_of s)(mi_id m \<mapsto> m\<lparr> mi_entities := es, mi_entities_pending := False \<rparr>)"
proof -
  obtain s1 es where c: "call (\<lambda>k. ex k (mi_content m)) s = (s1, (es, True))" and db: "eg_db s1 = eg_db s"
    using ex(2) [of "eg_tick s" "mi_content m"] by (cases "ex (eg_tick s) (mi_content m)") (auto simp: call_def)
  let ?m = "m\<lparr> mi_entities := es, mi_entities_pending := False \<rparr>"
  have nf1: "db_faults (eg_db s1) = []" using nf db by simp
  obtain s2 where p: "raw_db (put_memory ?m) s1 = (s2, Inr ())" "db_faults (eg_db s2) = []"
    "items_of s2 = (items_of s1)(mi_id ?m \<mapsto> ?m)"
    by (rule put_calm [OF nf1])
  define s3 where "s3 = fst (on_db (append_wop ''reextract''
    (case pc_item_enc (ev_codec ev) ?m of Inr p \<Rightarrow> p | Inl _ \<Rightarrow> []) now) s2)"
  have "reextract_one ev now m (s, n, fl) = (s3, n + 1, fl)"
    using pending ex(1) c p(1) by (simp add: reextract_one_def s3_def Let_def)
  moreover have "items_of s3 = items_of s2" "db_faults (eg_db s3) = []"
    using append_wop_calm [OF p(2)] unfolding s3_def by simp_all
  moreover have "items_of s1 = items_of s" using db by (simp add: items_of_def)
  ultimately show ?thesis using that p(3) by simp
qed

lemma reextract_idle:
  "\<not> mi_entities_pending m \<Longrightarrow> reextract_one ev now m (s, n, fl) = (s, n, fl)"
  by (simp add: reextract_one_def)

lemma reextract_fold:
  assumes "db_faults (eg_db s) = []" and ex: "ev_extract ev = Some ex" "\<And>k x. snd (ex k x)"
    and "fold (reextract_one ev now) ms (s, n, fl) = (s', n', fl')"
  shows "(\<forall>j. j \<notin> mi_id ` set ms \<longrightarrow> items_of s' j = items_of s j)
    \<and> (distinct (map mi_id ms) \<longrightarrow> (\<forall>m \<in> set ms. mi_entities_pending m \<longrightarrow>
         (\<exists>es. items_of s' (mi_id m) = Some (m\<lparr> mi_entities := es, mi_entities_pending := False \<rparr>))))"
  using assms(1,4)
proof (induction ms arbitrary: s n fl)
  case (Cons m ms)
  show ?case
  proof (cases "mi_entities_pending m")
    case False
    then have "fold (reextract_one ev now) ms (s, n, fl) = (s', n', fl')"
      using Cons.prems(2) by (simp add: reextract_idle)
    from Cons.IH [OF Cons.prems(1) this] False show ?thesis by simp
  next
    case True
    obtain s1 es where one: "reextract_one ev now m (s, n, fl) = (s1, n + 1, fl)" "db_faults (eg_db s1) = []"
      "items_of s1 = (items_of s)(mi_id m \<mapsto> m\<lparr> mi_entities := es, mi_entities_pending := False \<rparr>)"
      by (rule reextract_step [OF Cons.prems(1) ex True])
    have "fold (reextract_one ev now) ms (s1, n + 1, fl) = (s', n', fl')" using Cons.prems(2) one(1) by simp
    note ih = Cons.IH [OF one(2) this]
    have "items_of s' (mi_id m) = Some (m\<lparr> mi_entities := es, mi_entities_pending := False \<rparr>)"
      if "distinct (map mi_id (m # ms))"
      using that ih one(3) by simp
    with ih one(3) show ?thesis by auto
  qed
qed simp

text \<open>
  late extraction undoes the earlier phases. It writes back the memory as it was listed
  before the first phase: whatever the first three phases have made of a memory that waits for
  its entities (recycled, promoted or merged away), after a successful extraction it is live
  again, in its old tier, while the vector stays deleted.
\<close>

lemma late_extraction_undoes_recycling:
  assumes "db_faults (eg_db s) = []" and "ev_extract ev = Some ex" and "\<forall>k x. snd (ex k x)"
    and "distinct (map mi_id changed)" and "m \<in> set changed" and "mi_entities_pending m" and "\<not> mi_tombstone m"
    and "fold (reextract_one ev now) changed (s, n, fl) = (s', n', fl')"
  shows "\<exists>m'. find_item (mi_id m) (eg_db s') = Some m' \<and> \<not> mi_tombstone m' \<and> mi_tier m' = mi_tier m
    \<and> mi_vector_ref m' = mi_vector_ref m"
proof -
  obtain es where "items_of s' (mi_id m) = Some (m\<lparr> mi_entities := es, mi_entities_pending := False \<rparr>)"
    using reextract_fold [OF assms(1,2) _ assms(8)] assms by blast
  with assms(7) show ?thesis by (simp add: items_of_def)
qed

definition stale_env :: engine_env where
  "stale_env = demo_env\<lparr> ev_extract := Some (\<lambda>n x. ([], True)) \<rparr>"

lemma late_extraction_witness:
  "p1_dropped (consolidate_phase1 400005 [item_a] demo_replica) = 1
     \<and> (\<exists>m'. find_item ''a'' (eg_db (fst (fold (reextract_one stale_env 400005) [item_a]
            (p1_eng (consolidate_phase1 400005 [item_a] demo_replica), 0, [])))) = Some m' \<and> \<not> mi_tombstone m')"
proof -
  let ?p = "\<lparr> p1_eng = demo_replica, p1_dropped = 0, p1_promoted = 0, p1_failures = [] \<rparr>"
  let ?p' = "consolidate_phase1 400005 [item_a] demo_replica"
  have p: "?p' = phase1_one 400005 item_a ?p" by (simp add: consolidate_phase1_def)
  have nf: "db_faults (eg_db demo_replica) = []" by (simp add: demo_replica_def db_ab_def put_item_def empty_db_def)
  have m: "items_of demo_replica (mi_id item_a) = Some item_a" "char_of (9 :: nat) \<notin> set (mi_id item_a)"
    by (simp_all add: items_of_def demo_replica_def db_ab_def item_a_def item_b_def with_namespace_def tab_char)
  have rec: "should_recycle item_a 400005"
    by (rule old_episodic_recycled) (simp_all add: item_a_def with_namespace_def new_turn_skeleton_def)
  have step: "phase1_step no_codec 400005 item_a ?p ?p'"
    unfolding p using nf m by (intro phase1_one_step) simp_all
  then have nf': "db_faults (eg_db (p1_eng ?p')) = []" and one: "p1_dropped ?p' = 1"
    using rec by (simp_all add: phase1_step_def)
  obtain s' n' fl' where r: "fold (reextract_one stale_env 400005) [item_a] (p1_eng ?p', 0, []) = (s', n', fl')"
    using prod_cases3 by blast
  have it: "mi_entities_pending item_a" "\<not> mi_tombstone item_a" "mi_id item_a = ''a''"
    by (simp_all add: item_a_def with_namespace_def)
  have ex: "ev_extract stale_env = Some (\<lambda>n x. ([], True))" by (simp add: stale_env_def)
  have "\<exists>m'. find_item (mi_id item_a) (eg_db s') = Some m' \<and> \<not> mi_tombstone m' \<and> mi_tier m' = mi_tier item_a
    \<and> mi_vector_ref m' = mi_vector_ref item_a"
    by (rule late_extraction_undoes_recycling [OF nf' ex _ _ _ it(1,2) r]) simp_all
  then show ?thesis using one r it(3) by auto
qed

end
