(* ===== verification/Import.thy ===== *)
theory Import
  imports Extract
begin

text \<open>
  The import of memories from the agent-studio database (\<open>fm-engine/import_studio.rs\<close>): the
  reading of its rows, the mapping of a row to a memory item, and the loop that embeds and
  stores the items. SQLite gives the columns of a row; the JSON reader of the metadata is a
  parameter.
\<close>

section \<open>The source rows\<close>

text \<open>A column holds a value of the type asked for, null, or a value of another type.\<close>

datatype 'a column = Val 'a | Null | Bad string

record studio_columns =
  sc_id :: "string column"
  sc_content :: "string column"
  sc_scope :: "string column"
  sc_tags :: "string column"
  sc_importance :: "int column"
  sc_created :: "real column"
  sc_metadata :: "string column"
  sc_is_summary :: "int column"
  sc_tier :: "string column"
  sc_type :: "string column"

record studio_row =
  sr_id :: string
  sr_content :: string
  sr_scope :: string
  sr_tags :: string
  sr_importance :: int
  sr_created :: real
  sr_metadata :: string
  sr_is_summary :: int
  sr_tier :: string
  sr_type :: string

text \<open>The source database: each step of reading it may fail; a null has an error text of its own.\<close>

record studio_db =
  sd_open :: "string + unit"
  sd_prepare :: "string + unit"
  sd_query :: "string + studio_columns list"
  sd_null :: string

definition col_get :: "string \<Rightarrow> 'a column \<Rightarrow> string + 'a" where
  "col_get null c = (case c of Val x \<Rightarrow> Inr x | Null \<Rightarrow> Inl null | Bad e \<Rightarrow> Inl e)"

definition col_opt :: "'a \<Rightarrow> 'a column \<Rightarrow> string + 'a" where
  "col_opt d c = (case c of Val x \<Rightarrow> Inr x | Null \<Rightarrow> Inr d | Bad e \<Rightarrow> Inl e)"

definition col_or :: "'a \<Rightarrow> 'a column \<Rightarrow> 'a" where
  "col_or d c = (case c of Val x \<Rightarrow> x | Null \<Rightarrow> d | Bad e \<Rightarrow> d)"

definition studio_row_of :: "string \<Rightarrow> studio_columns \<Rightarrow> string + studio_row" where
  "studio_row_of null c =
     bind_res (col_get null (sc_id c)) (\<lambda>i.
     bind_res (col_get null (sc_content c)) (\<lambda>content.
     bind_res (col_get null (sc_scope c)) (\<lambda>scope.
     bind_res (col_opt [] (sc_tags c)) (\<lambda>tags.
     bind_res (col_opt ''{}'' (sc_metadata c)) (\<lambda>meta.
     bind_res (col_opt ''short_term'' (sc_tier c)) (\<lambda>tier.
     bind_res (col_opt ''project'' (sc_type c)) (\<lambda>ty.
       Inr \<lparr> sr_id = i, sr_content = content, sr_scope = scope, sr_tags = tags,
             sr_importance = col_or 5 (sc_importance c), sr_created = col_or 0 (sc_created c),
             sr_metadata = meta, sr_is_summary = col_or 0 (sc_is_summary c), sr_tier = tier,
             sr_type = ty \<rparr>)))))))"

fun collect_rows :: "string \<Rightarrow> studio_columns list \<Rightarrow> string + studio_row list" where
  "collect_rows null [] = Inr []"
| "collect_rows null (c # cs) =
     bind_res (map_err (\<lambda>e. ''row: '' @ e) (studio_row_of null c)) (\<lambda>r.
     bind_res (collect_rows null cs) (\<lambda>rs. Inr (r # rs)))"

definition read_studio_rows :: "studio_db \<Rightarrow> string + studio_row list" where
  "read_studio_rows src =
     bind_res (map_err (\<lambda>e. ''open source db: '' @ e) (sd_open src)) (\<lambda>_.
     bind_res (map_err (\<lambda>e. ''prepare: '' @ e) (sd_prepare src)) (\<lambda>_.
     bind_res (map_err (\<lambda>e. ''query_map: '' @ e) (sd_query src)) (collect_rows (sd_null src))))"

section \<open>The mapping of a row\<close>

definition user_kw :: "string list" where
  "user_kw = [''i am'', [CHR ''i'', CHR 0x27] @ ''m'', ''my role'', ''i use'', ''i work'', ''i prefer'', ''expertise'']"

definition feedback_kw :: "string list" where
  "feedback_kw = [''prefer'', ''don'' @ [CHR 0x27] @ ''t'', ''always use'', ''never use'', ''should'',
     ''rule:'', ''why:'', ''how to apply'']"

definition reference_kw :: "string list" where
  "reference_kw = [''http://'', ''https://'', ''url:'', ''dashboard'', ''ticket'', ''doc at'', ''see '']"

definition classify_memory_type :: "string \<Rightarrow> string" where
  "classify_memory_type content =
     (let text = to_ascii_lowercase content
      in if list_ex (\<lambda>k. contains_str k text) user_kw then ''user''
         else if list_ex (\<lambda>k. contains_str k text) feedback_kw then ''feedback''
         else if list_ex (\<lambda>k. contains_str k text) reference_kw then ''reference''
         else ''project'')"

definition map_tier :: "string \<Rightarrow> memory_tier option" where
  "map_tier src =
     (if src = ''short_term'' then Some Short
      else if src = ''long_term'' then Some Long
      else if src = ''archive'' then None
      else Some Short)"

definition map_memory_type :: "string \<Rightarrow> memory_type" where
  "map_memory_type src =
     (if src = ''user'' \<or> src = ''reference'' then Semantic
      else if src = ''feedback'' then Procedural
      else Episodic)"

definition importance_to_weight :: "int \<Rightarrow> real" where
  "importance_to_weight n = max 0.1 (min 1.0 (real_of_int n / 10))"

record import_env =
  im_json :: "string \<Rightarrow> json option"
  im_alphanumeric :: "string \<Rightarrow> bool"
  im_redactor :: redactor
  im_redact_var :: "string option"

definition metadata_graph_id :: "import_env \<Rightarrow> string \<Rightarrow> string option" where
  "metadata_graph_id im meta =
     Option.bind (im_json im meta) (\<lambda>v. Option.bind (jget v ''graph_id'') (\<lambda>x.
       Option.bind (jas_str x) (\<lambda>g. if g = [] then None else Some g)))"

definition slugify :: "(string \<Rightarrow> bool) \<Rightarrow> string \<Rightarrow> string" where
  "slugify uni s =
     trim_with (\<lambda>c. c = CHR ''-'')
       (concat (map (\<lambda>ch. if is_alphanumeric uni ch then to_ascii_lowercase ch else ''-'') (utf8_chars s)))"

definition entity_from_scope :: "import_env \<Rightarrow> string \<Rightarrow> string \<Rightarrow> entity_node option" where
  "entity_from_scope im scope meta =
     map_option (\<lambda>name.
         \<lparr> en_id = ''ent-'' @ slugify (im_alphanumeric im) name @ ''-'' @ hex16 (fnv1a_64 name),
           en_name = name, en_aliases = [], en_type = Project \<rparr>)
       (case strip_prefix ''graph:'' scope of
          Some rest \<Rightarrow> if rest = [] then None else Some rest
        | None \<Rightarrow> metadata_graph_id im meta)"

definition VALID_STUDIO_TYPES :: "string list" where
  "VALID_STUDIO_TYPES = [''user'', ''feedback'', ''project'', ''reference'']"

text \<open>A float cast to \<open>u64\<close> saturates and drops the fraction.\<close>

definition f64_as_u64 :: "real \<Rightarrow> nat" where
  "f64_as_u64 r = min (2 ^ 64 - 1) (nat \<lfloor>r\<rfloor>)"

definition import_content :: "import_env \<Rightarrow> studio_row \<Rightarrow> string" where
  "import_content im row =
     (let content = trim (sr_content row)
      in if redact_enabled_env (im_redact_var im) then redact_text (im_redactor im) content else content)"

definition import_item :: "import_env \<Rightarrow> nat \<Rightarrow> memory_tier \<Rightarrow> studio_row \<Rightarrow> memory_item" where
  "import_item im now tier row =
     (let content = import_content im row;
          src_type = (if sr_type row \<in> set VALID_STUDIO_TYPES then sr_type row
                      else classify_memory_type content)
      in \<lparr> mi_id = sr_id row, mi_interaction = ''studio-'' @ sr_id row, mi_turn_idx = 0,
           mi_session = ''import-agent-studio'', mi_tenant = [], mi_ns = [], mi_ns_key = [],
           mi_type = map_memory_type src_type, mi_tier = tier, mi_content = content,
           mi_entities = (case entity_from_scope im (sr_scope row) (sr_metadata row) of
                            Some e \<Rightarrow> [e] | None \<Rightarrow> []),
           mi_vector_ref = show_nat (unat (vector_id_from_ulid (sr_id row))),
           mi_weight = importance_to_weight (sr_importance row), mi_access_count = 0,
           mi_last_accessed = now, mi_created = f64_as_u64 (sr_created row * 1000),
           mi_provenance = Some (if sr_is_summary row \<noteq> 0 then ''imported-summary''
                                 else ''imported-agent-studio''),
           mi_tombstone = False, mi_entities_pending = False \<rparr>)"

section \<open>The import\<close>

record import_report =
  ir_imported :: nat
  ir_archive :: nat
  ir_empty :: nat
  ir_failed :: nat

definition import_row ::
  "import_env \<Rightarrow> engine_env \<Rightarrow> nat \<Rightarrow> studio_row \<Rightarrow> engine \<times> import_report \<Rightarrow> engine \<times> import_report" where
  "import_row im ev now row = (\<lambda>(s, rep).
     case map_tier (sr_tier row) of
       None \<Rightarrow> (s, rep\<lparr> ir_archive := ir_archive rep + 1 \<rparr>)
     | Some tier \<Rightarrow>
         if trim (sr_content row) = [] then (s, rep\<lparr> ir_empty := ir_empty rep + 1 \<rparr>)
         else
           (case embed ev (import_content im row) s of
              (s1, Inl _) \<Rightarrow> (s1, rep\<lparr> ir_failed := ir_failed rep + 1 \<rparr>)
            | (s1, Inr v) \<Rightarrow>
                (case on_store (insert_vector (vector_id_from_ulid (sr_id row)) v) s1 of
                   (s2, Inl _) \<Rightarrow> (s2, rep\<lparr> ir_failed := ir_failed rep + 1 \<rparr>)
                 | (s2, Inr _) \<Rightarrow>
                     (case raw_db (put_memory (import_item im now tier row)) s2 of
                        (s3, Inl _) \<Rightarrow> (s3, rep\<lparr> ir_failed := ir_failed rep + 1 \<rparr>)
                      | (s3, Inr _) \<Rightarrow> (s3, rep\<lparr> ir_imported := ir_imported rep + 1 \<rparr>)))))"

definition run_import ::
  "import_env \<Rightarrow> engine_env \<Rightarrow> studio_db \<Rightarrow> engine \<Rightarrow> engine \<times> (string + import_report)" where
  "run_import im ev src s =
     (case read_studio_rows src of
        Inl e \<Rightarrow> (s, Inl e)
      | Inr rows \<Rightarrow>
          (case now_ms ev s of
             (s0, now) \<Rightarrow>
               (case fold (import_row im ev now) rows
                       (s0, \<lparr> ir_imported = 0, ir_archive = 0, ir_empty = 0, ir_failed = 0 \<rparr>) of
                  (s1, rep) \<Rightarrow> (s1, Inr rep))))"

section \<open>What an import does\<close>

definition rows_counted :: "import_report \<Rightarrow> nat" where
  "rows_counted rep = ir_imported rep + ir_archive rep + ir_empty rep + ir_failed rep"

text \<open>The items that the rows of a list may have stored, on top of a table.\<close>

definition imported_over :: "import_env \<Rightarrow> nat \<Rightarrow> studio_row set \<Rightarrow> engine \<Rightarrow> engine \<Rightarrow> bool" where
  "imported_over im now R s s' =
     (db_wop (eg_db s') = db_wop (eg_db s)
      \<and> (\<forall>j. items_of s' j = items_of s j
           \<or> (\<exists>row \<in> R. \<exists>tier. j = sr_id row \<and> map_tier (sr_tier row) = Some tier
                \<and> items_of s' j = Some (import_item im now tier row))))"

lemma imported_over_refl: "imported_over im now R s s"
  by (simp add: imported_over_def)

lemma imported_over_same: "same_tables (eg_db s) (eg_db s') \<Longrightarrow> imported_over im now R s s'"
  using same_tables_facts by (auto simp: imported_over_def items_of_def)

lemma imported_over_mono: "\<lbrakk> imported_over im now R s s'; R \<subseteq> Q \<rbrakk> \<Longrightarrow> imported_over im now Q s s'"
  unfolding imported_over_def by blast

lemma imported_over_trans:
  "\<lbrakk> imported_over im now R a b; imported_over im now R b c \<rbrakk> \<Longrightarrow> imported_over im now R a c"
  unfolding imported_over_def by metis

lemma import_put:
  assumes "put_memory (import_item im now tier row) (eg_db s) = (eg_db s', r)"
    and "map_tier (sr_tier row) = Some tier"
  shows "imported_over im now {row} s s'"
proof (cases r)
  case (Inl e)
  then show ?thesis using put_memory_cases [OF assms(1)] by (simp add: imported_over_same)
next
  case (Inr u)
  have "mi_id (import_item im now tier row) = sr_id row" by (simp add: import_item_def Let_def)
  then show ?thesis
    using put_memory_cases [OF assms(1)] Inr assms(2) by (auto simp: imported_over_def items_of_def)
qed

lemma import_row_effect:
  assumes "import_row im ev now row (s, rep) = (s', rep')"
  shows "rows_counted rep' = rows_counted rep + 1 \<and> imported_over im now {row} s s'"
proof (cases "map_tier (sr_tier row)")
  case None
  then show ?thesis using assms by (auto simp: import_row_def rows_counted_def imported_over_refl)
next
  case (Some tier)
  show ?thesis
  proof (cases "trim (sr_content row) = []")
    case True
    then show ?thesis using assms Some
      by (auto simp: import_row_def rows_counted_def imported_over_refl)
  next
    case False
    obtain s1 r1 where e: "embed ev (import_content im row) s = (s1, r1)" by fastforce
    obtain s2 r2 where i: "on_store (insert_vector (vector_id_from_ulid (sr_id row)) (projr r1)) s1 = (s2, r2)"
      by fastforce
    obtain s3 r3 where p: "raw_db (put_memory (import_item im now tier row)) s2 = (s3, r3)" by fastforce
    have s1: "eg_db s1 = eg_db s" using embed_db [OF e] by simp
    have s2: "eg_db s2 = eg_db s" using on_store_parts [OF i] s1 by simp
    have s3: "imported_over im now {row} s s3"
      using import_put [of im now tier row s s3 r3] raw_dbD [OF p] s2 Some by simp
    show ?thesis
      using assms Some False e i p s1 s2 s3
      by (cases r1; cases r2; cases r3)
         (auto simp: import_row_def rows_counted_def intro: imported_over_same)
  qed
qed

lemma import_rows_effect:
  "fold (import_row im ev now) rows (s, rep) = (s', rep') \<Longrightarrow>
     rows_counted rep' = rows_counted rep + length rows \<and> imported_over im now (set rows) s s'"
proof (induction rows arbitrary: s rep)
  case (Cons row rows)
  obtain s1 rep1 where one: "import_row im ev now row (s, rep) = (s1, rep1)" by fastforce
  with Cons(2) have rest: "fold (import_row im ev now) rows (s1, rep1) = (s', rep')" by simp
  note Cons(1) [OF rest] import_row_effect [OF one]
  then have c: "rows_counted rep' = rows_counted rep + length (row # rows)"
    and a: "imported_over im now {row} s s1" and b: "imported_over im now (set rows) s1 s'"
    by simp_all
  from a have a: "imported_over im now (set (row # rows)) s s1" by (rule imported_over_mono) simp
  from b have b: "imported_over im now (set (row # rows)) s1 s'" by (rule imported_over_mono) auto
  show ?case using c imported_over_trans [OF a b] by blast
qed (simp add: imported_over_refl)


definition studio_demo :: studio_db where
  "studio_demo =
     \<lparr> sd_open = Inr (), sd_prepare = Inr (),
       sd_query = Inr [\<lparr> sc_id = Val ''m1'', sc_content = Val '' I use Rust '', sc_scope = Val ''graph:app'',
         sc_tags = Null, sc_importance = Val 12, sc_created = Bad ''text'', sc_metadata = Null,
         sc_is_summary = Null, sc_tier = Val ''long_term'', sc_type = Val ''note'' \<rparr>],
       sd_null = ''null'' \<rparr>"

definition studio_demo_row :: studio_row where
  "studio_demo_row =
     \<lparr> sr_id = ''m1'', sr_content = '' I use Rust '', sr_scope = ''graph:app'', sr_tags = [],
       sr_importance = 12, sr_created = 0, sr_metadata = ''{}'', sr_is_summary = 0,
       sr_tier = ''long_term'', sr_type = ''note'' \<rparr>"


end
