(* ===== verification/Cli.thy ===== *)
theory Cli
  imports Config Saga Import
begin

text \<open>
  The command line tool (\<open>fm-cli\<close>): the engine every command opens first, the commands on the
  engine, the import, the cluster commands, and the backup and the restoration of the data
  directory. What a command prints is a value.

  A directory is a list of names and nodes; a file is its text. Every call of the file system may
  fail: the host says which call fails at which path, and with what message. A call that fails
  leaves the file or directory it names as it was (a partly copied file is not modelled); what a
  walk has copied before its failure stays. A link stands for everything that is neither a file
  nor a directory; where the code follows it (\<open>memory.db\<close> or \<open>store\<close> itself), it is taken as
  missing. The snapshot that SQLite makes of a database and its log is a parameter, and so is the
  opening of the vector store, which may depend on how often it is open already.
\<close>

section \<open>Directories\<close>

datatype node = NFile string | NDir "(string \<times> node) list" | NLink

type_synonym dir = "(string \<times> node) list"

definition dir_has :: "string \<Rightarrow> dir \<Rightarrow> bool" where
  "dir_has k d = (map_of d k \<noteq> None)"

text \<open>The file or directory of this name, as \<open>exists\<close> sees it.\<close>

definition present :: "node option \<Rightarrow> node option" where
  "present n = (case n of Some NLink \<Rightarrow> None | _ \<Rightarrow> n)"

definition dir_get :: "dir \<Rightarrow> string \<Rightarrow> node option" where
  "dir_get d k = present (map_of d k)"

definition dir_remove :: "string \<Rightarrow> dir \<Rightarrow> dir" where
  "dir_remove k d = filter (\<lambda>e. fst e \<noteq> k) d"

definition dir_put :: "string \<Rightarrow> node \<Rightarrow> dir \<Rightarrow> dir" where
  "dir_put k n d = (k, n) # dir_remove k d"

text \<open>The calls of the file system that can fail, each at a path.\<close>

datatype io_call = MakeDir | ReadDir | ReadEntry | CopyFile | RemoveFile | RemoveTree

type_synonym io_faults = "io_call \<Rightarrow> string \<Rightarrow> string option"

text \<open>
  The number of files copied, what is at the destination afterwards, and the failure, if there
  was one. An entry that is neither a file nor a directory is left out.
\<close>

type_synonym 'a copied = "nat \<times> 'a \<times> string option"

definition put_entry :: "string \<Rightarrow> node option \<Rightarrow> dir \<Rightarrow> dir" where
  "put_entry k y es = (case y of None \<Rightarrow> es | Some n \<Rightarrow> (k, n) # es)"

fun copy_node :: "io_faults \<Rightarrow> string \<Rightarrow> string \<Rightarrow> node \<Rightarrow> node option copied"
  and copy_entries :: "io_faults \<Rightarrow> string \<Rightarrow> string \<Rightarrow> dir \<Rightarrow> dir copied" where
  "copy_node io src dst (NFile x) =
     (case io CopyFile dst of Some e \<Rightarrow> (0, None, Some e) | None \<Rightarrow> (1, Some (NFile x), None))"
| "copy_node io src dst NLink = (0, None, None)"
| "copy_node io src dst (NDir es) =
     (case io MakeDir dst of
        Some e \<Rightarrow> (0, None, Some e)
      | None \<Rightarrow>
          (case io ReadDir src of
             Some e \<Rightarrow> (0, Some (NDir []), Some e)
           | None \<Rightarrow> (case copy_entries io src dst es of (n, es', r) \<Rightarrow> (n, Some (NDir es'), r))))"
| "copy_entries io src dst [] = (0, [], None)"
| "copy_entries io src dst ((k, x) # es) =
     (case io ReadEntry (path_join src k) of
        Some e \<Rightarrow> (0, [], Some e)
      | None \<Rightarrow>
          (case copy_node io (path_join src k) (path_join dst k) x of
             (n, y, Some e) \<Rightarrow> (n, put_entry k y [], Some e)
           | (n, y, None) \<Rightarrow>
               (case copy_entries io src dst es of (m, es', r) \<Rightarrow> (n + m, put_entry k y es', r))))"

text \<open>
  \<open>copy_dir_recursive\<close> makes its destination before it reads its source as a directory.\<close>

definition not_a_directory :: string where
  "not_a_directory = ''Not a directory (os error 20)''"

definition copy_dir_recursive :: "io_faults \<Rightarrow> string \<Rightarrow> string \<Rightarrow> node \<Rightarrow> node option copied" where
  "copy_dir_recursive io src dst x =
     (case x of
        NDir es \<Rightarrow> copy_node io src dst (NDir es)
      | _ \<Rightarrow> (case io MakeDir dst of
                Some e \<Rightarrow> (0, None, Some e)
              | None \<Rightarrow> (0, Some (NDir []), Some not_a_directory)))"

definition MEMORY_DB :: string where "MEMORY_DB = ''memory.db''"
definition MEMORY_WAL :: string where "MEMORY_WAL = ''memory.db-wal''"
definition STORE :: string where "STORE = ''store''"
definition PROBED_SOCK :: string where "PROBED_SOCK = ''fm.sock''"

definition resolve_home :: "os_env \<Rightarrow> string option \<Rightarrow> string" where
  "resolve_home env h =
     (case h of
        Some d \<Rightarrow> d
      | None \<Rightarrow> (case env ''HOME'' of Some d \<Rightarrow> path_join d ''.fusion-memory'' | None \<Rightarrow> ''.fusion-memory''))"

section \<open>Commands\<close>

datatype cluster_cmd = CStatus | CPromote

datatype command =
    CommitCmd string "string + string"
  | QueryCmd string nat nat
  | StatsCmd
  | DeleteCmd string bool
  | DoctorCmd
  | ConsolidateCmd
  | MergesCmd
  | UnmergeCmd nat
  | ReconcileCmd
  | ImportCmd "string option" bool
  | ClusterCmd cluster_cmd
  | BackupCmd "string option"
  | RestoreCmd string bool
  | AuditCmd nat

datatype cli_output =
    OCommitted "string list"
  | OBlocks formatted_context
  | OCount nat
  | OTombstoned string
  | ODoctor bool nat
  | OReport consolidation_report
  | OMerges "merge_entry list"
  | OAudit "audit_entry list"
  | OUnmerged nat
  | OReconciled nat
  | OImported string import_report
  | OStatus node_role int string string "string + election_config option" nat
  | OPromoted nat nat
  | OBackup nat nat
  | ORestored nat

text \<open>Reading an interaction, the engine's environment and the import's are given.\<close>

record cli_env =
  ce_engine :: engine_env
  ce_order :: "string list \<Rightarrow> string list"
  ce_import :: import_env
  ce_interaction :: "string \<Rightarrow> string + interaction"
  ce_studio :: "string \<Rightarrow> studio_db"
  ce_exists :: "string \<Rightarrow> bool"

definition cli_commit :: "cli_env \<Rightarrow> string \<Rightarrow> string + string \<Rightarrow> engine \<Rightarrow> engine \<times> (string + cli_output)" where
  "cli_commit ce session raw s =
     (case bind_res raw (\<lambda>x. map_err (\<lambda>e. ''parse json: '' @ e) (ce_interaction ce x)) of
        Inl e \<Rightarrow> (s, Inl e)
      | Inr ix \<Rightarrow>
          (case commit_episodic_memory (ce_engine ce) session ix s of
             (s1, Inl e) \<Rightarrow> (s1, Inl (''commit: '' @ err_display e))
           | (s1, Inr ids) \<Rightarrow> (s1, Inr (OCommitted ids))))"

text \<open>A call of the engine, with a prefix for its error.\<close>

definition calling ::
  "string \<Rightarrow> (engine \<Rightarrow> engine \<times> (memory_error + 'a)) \<Rightarrow> ('a \<Rightarrow> string + cli_output) \<Rightarrow> engine \<Rightarrow> engine \<times> (string + cli_output)" where
  "calling what f k s =
     (case f s of (s1, Inl e) \<Rightarrow> (s1, Inl (what @ '': '' @ err_display e)) | (s1, Inr a) \<Rightarrow> (s1, k a))"

definition calling_db ::
  "string \<Rightarrow> (db \<Rightarrow> db \<times> (persist_error + 'a)) \<Rightarrow> ('a \<Rightarrow> string + cli_output) \<Rightarrow> engine \<Rightarrow> engine \<times> (string + cli_output)" where
  "calling_db what f k s =
     (case raw_db f s of (s1, Inl e) \<Rightarrow> (s1, Inl (what @ '': '' @ persist_display e)) | (s1, Inr a) \<Rightarrow> (s1, k a))"

definition cli_query :: "cli_env \<Rightarrow> string \<Rightarrow> nat \<Rightarrow> nat \<Rightarrow> engine \<Rightarrow> engine \<times> (string + cli_output)" where
  "cli_query ce text k budget =
     calling ''query'' (retrieve_context (ce_engine ce) (retrieve_query_new text k budget)) (\<lambda>c. Inr (OBlocks c))"

definition cli_stats :: "engine \<Rightarrow> engine \<times> (string + cli_output)" where
  "cli_stats = calling_db ''count'' count_all (\<lambda>n. Inr (OCount n))"

definition cli_delete :: "cli_env \<Rightarrow> string \<Rightarrow> bool \<Rightarrow> engine \<Rightarrow> engine \<times> (string + cli_output)" where
  "cli_delete ce i confirm s =
     (if \<not> confirm then (s, Inl ''delete requires --confirm'')
      else calling ''delete'' (delete_memory (ce_engine ce) i) (\<lambda>_. Inr (OTombstoned i)) s)"

definition cli_doctor :: "engine \<Rightarrow> engine \<times> (string + cli_output)" where
  "cli_doctor s = calling_db ''count'' count_all (\<lambda>n. Inr (ODoctor (ls_dim (eg_store s) > 0) n)) s"

definition cli_consolidate :: "cli_env \<Rightarrow> engine \<Rightarrow> engine \<times> (string + cli_output)" where
  "cli_consolidate ce = calling ''consolidate'' (consolidate_memories (ce_order ce) (ce_engine ce)) (\<lambda>r. Inr (OReport r))"

definition cli_merges :: "engine \<Rightarrow> engine \<times> (string + cli_output)" where
  "cli_merges = calling ''list merges'' list_merges (\<lambda>es. Inr (OMerges es))"

definition cli_audit :: "nat \<Rightarrow> engine \<Rightarrow> engine \<times> (string + cli_output)" where
  "cli_audit n = calling_db ''list audit'' (list_audit (Some n)) (\<lambda>es. Inr (OAudit es))"

definition cli_unmerge :: "cli_env \<Rightarrow> nat \<Rightarrow> engine \<Rightarrow> engine \<times> (string + cli_output)" where
  "cli_unmerge ce i =
     calling ''unmerge'' (unmerge (ce_engine ce) i)
       (\<lambda>ok. if ok then Inr (OUnmerged i)
              else Inl (''unmerge id '' @ show_nat i @ '' not found or source missing''))"

definition cli_reconcile :: "cli_env \<Rightarrow> engine \<Rightarrow> engine \<times> (string + cli_output)" where
  "cli_reconcile ce = calling ''reconcile'' (reconcile (ce_engine ce)) (\<lambda>n. Inr (OReconciled n))"

section \<open>The host\<close>

text \<open>
  The parts of the host that may fail: creating the directory, opening the vector store (with
  the number of times it is open) and the database, and writing the files of the cluster.
\<close>

record cli_host =
  ch_env :: os_env
  ch_mkdir :: "string + unit"
  ch_store :: "nat \<Rightarrow> nat \<Rightarrow> string + unit"
  ch_db :: "string + unit"
  ch_embedder :: "string + unit"
  ch_role_write :: "string option"
  ch_epoch_write :: "string option"
  ch_listening :: "string \<Rightarrow> bool"
  ch_snapshot :: "string \<Rightarrow> node option \<Rightarrow> string + string"
  ch_millis :: nat
  ch_io :: io_faults

definition build_engine :: "cli_host \<Rightarrow> nat \<Rightarrow> string + unit" where
  "build_engine ho dm =
     bind_res (map_err (\<lambda>e. ''create home dir: '' @ e) (ch_mkdir ho)) (\<lambda>_.
     bind_res (map_err (\<lambda>e. ''store open: '' @ e) (ch_store ho 0 dm)) (\<lambda>_.
     map_err (\<lambda>e. ''persist open: '' @ e) (ch_db ho)))"

text \<open>The engine of an import is opened while the first one is still there.\<close>

definition build_import_engine_at :: "cli_host \<Rightarrow> bool \<Rightarrow> string + unit" where
  "build_import_engine_at ho stub =
     bind_res (map_err (\<lambda>e. ''create home dir: '' @ e) (ch_mkdir ho)) (\<lambda>_.
     bind_res (map_err (\<lambda>e. ''store open: '' @ e) (ch_store ho 1 (if stub then 64 else 1024))) (\<lambda>_.
     bind_res (map_err (\<lambda>e. ''persist open: '' @ e) (ch_db ho)) (\<lambda>_.
       if stub then Inr () else map_err (\<lambda>e. ''mlx embedder: '' @ e) (ch_embedder ho))))"

definition import_path :: "os_env \<Rightarrow> string option \<Rightarrow> string" where
  "import_path env source =
     (case source of
        Some p \<Rightarrow> p
      | None \<Rightarrow> (case env ''HOME'' of Some h \<Rightarrow> h | None \<Rightarrow> ''/tmp'') @ ''/.fusion-agent-studio/memory.db'')"

definition cli_import ::
  "cli_env \<Rightarrow> cli_host \<Rightarrow> string option \<Rightarrow> bool \<Rightarrow> engine \<Rightarrow> engine \<times> (string + cli_output)" where
  "cli_import ce ho source stub s =
     (let path = import_path (ch_env ho) source
      in if \<not> ce_exists ce path then (s, Inl (''source db not found: '' @ path))
         else case build_import_engine_at ho stub of
                Inl e \<Rightarrow> (s, Inl e)
              | Inr _ \<Rightarrow>
                  (case run_import (ce_import ce) (ce_engine ce) (ce_studio ce path) s of
                     (s1, Inl e) \<Rightarrow> (s1, Inl e)
                   | (s1, Inr rep) \<Rightarrow> (s1, Inr (OImported path rep))))"

section \<open>The cluster commands\<close>

definition cluster_status :: "cli_host \<Rightarrow> home \<Rightarrow> db \<Rightarrow> string + cli_output" where
  "cluster_status ho h d =
     (let env = ch_env ho;
          port = (case env ''FUSION_MEMORY_SYNC_PORT'' of
                    Some p \<Rightarrow> p | None \<Rightarrow> show_nat (cc_port (cluster_config_default env)));
          leader = (case env ''FUSION_MEMORY_LEADER'' of Some l \<Rightarrow> l | None \<Rightarrow> [])
      in bind_res (case ch_db ho of
                     Inl _ \<Rightarrow> Inr (-1)
                   | Inr _ \<Rightarrow> map_err (\<lambda>e. ''last_wop_seq: '' @ persist_display e) (snd (last_wop_seq d))) (\<lambda>seq.
           Inr (OStatus (detect_role_with_home env (Some h)) seq leader port
                  (map_err cluster_display (election_from_env env)) (read_epoch_file h))))"

text \<open>The role is written first.\<close>

definition cluster_promote :: "cli_host \<Rightarrow> home \<Rightarrow> home \<times> (string + cli_output)" where
  "cluster_promote ho h =
     (case ch_mkdir ho of
        Inl e \<Rightarrow> (h, Inl (''create home dir: '' @ e))
      | Inr _ \<Rightarrow>
          (case ch_role_write ho of
             Some e \<Rightarrow> (h, Inl (''write role file: '' @ e))
           | None \<Rightarrow>
               (let h1 = write_role_file RLeader h;
                    old = read_epoch_file h1;
                    new = (old + 1) mod 2 ^ 64
                in case ch_epoch_write ho of
                     Some e \<Rightarrow> (h1, Inl (''write epoch file: '' @ e))
                   | None \<Rightarrow> (write_epoch_file new h1, Inr (OPromoted old new)))))"

section \<open>Backup and restoration\<close>

definition backup_path :: "cli_host \<Rightarrow> string \<Rightarrow> string option \<Rightarrow> string" where
  "backup_path ho home dest =
     (case dest of
        Some d \<Rightarrow> d
      | None \<Rightarrow> path_join (path_join home ''backups'') (show_nat (ch_millis ho)))"

text \<open>The backup of a data directory: the new directory, if one is made, and the result.\<close>

definition backup_into :: "cli_host \<Rightarrow> string \<Rightarrow> string \<Rightarrow> dir \<Rightarrow> node \<Rightarrow> dir \<times> (string + cli_output)" where
  "backup_into ho home path d db =
     (case (case db of
              NFile x \<Rightarrow>
                bind_res (map_err (\<lambda>e. ''persist open: '' @ e) (ch_db ho)) (\<lambda>_.
                map_err (\<lambda>e. ''sqlite backup: '' @ e) (ch_snapshot ho x (map_of d MEMORY_WAL)))
            | _ \<Rightarrow> Inl ''persist open: unable to open database file'') of
        Inl e \<Rightarrow> ([], Inl e)
      | Inr snap \<Rightarrow>
          (case dir_get d STORE of
             None \<Rightarrow> ([(MEMORY_DB, NFile snap)], Inr (OBackup (length snap) 0))
           | Some st \<Rightarrow>
               (case copy_dir_recursive (ch_io ho) (path_join home STORE) (path_join path STORE) st of
                  (n, y, r) \<Rightarrow>
                    ((MEMORY_DB, NFile snap) # put_entry STORE y [],
                     (case r of
                        Some e \<Rightarrow> Inl (''copy store dir: '' @ e)
                      | None \<Rightarrow> Inr (OBackup (length snap) n))))))"

definition cli_backup ::
  "cli_host \<Rightarrow> string \<Rightarrow> string option \<Rightarrow> dir option \<Rightarrow> (string \<Rightarrow> node option)
     \<Rightarrow> dir option \<times> (string + cli_output)" where
  "cli_backup ho home dest dd other =
     (let path = backup_path ho home dest
      in case dd of
           None \<Rightarrow> (None, Inl (''home dir not found: '' @ home @ '' (nothing to back up)''))
         | Some d \<Rightarrow>
             (case dir_get d MEMORY_DB of
                None \<Rightarrow> (None, Inl (''memory.db not found in '' @ home @ '' (run commit first)''))
              | Some db \<Rightarrow>
                  if other path \<noteq> None
                  then (None, Inl (''backup dest already exists: '' @ path @ '' (refusing overwrite)''))
                  else case ch_io ho MakeDir path of
                         Some e \<Rightarrow> (None, Inl (''create dest dir: '' @ e))
                       | None \<Rightarrow> (case backup_into ho home path d db of (d', r) \<Rightarrow> (Some d', r))))"

text \<open>The removal of the old database and store: the first failure ends it.\<close>

definition is_dir :: "node \<Rightarrow> bool" where
  "is_dir x = (case x of NDir _ \<Rightarrow> True | _ \<Rightarrow> False)"

definition remove_old_db :: "io_faults \<Rightarrow> string \<Rightarrow> dir \<Rightarrow> string option" where
  "remove_old_db io home d =
     (case dir_get d MEMORY_DB of
        None \<Rightarrow> None
      | Some x \<Rightarrow> if is_dir x then Some ''Is a directory (os error 21)''
                 else io RemoveFile (path_join home MEMORY_DB))"

definition remove_old_store :: "io_faults \<Rightarrow> string \<Rightarrow> dir \<Rightarrow> string option" where
  "remove_old_store io home d =
     (case dir_get d STORE of
        None \<Rightarrow> None
      | Some x \<Rightarrow> if is_dir x then io RemoveTree (path_join home STORE) else Some not_a_directory)"

text \<open>\<open>fs::copy\<close> of the database refuses a directory.\<close>

definition copy_db :: "io_faults \<Rightarrow> string \<Rightarrow> node \<Rightarrow> string option" where
  "copy_db io home db =
     (if is_dir db then Some ''the source path is neither a regular file nor a symlink to a regular file''
      else io CopyFile (path_join home MEMORY_DB))"

text \<open>A restoration: the data directory afterwards, and the result.\<close>

definition restore_into ::
  "io_faults \<Rightarrow> string \<Rightarrow> string \<Rightarrow> dir \<Rightarrow> node \<Rightarrow> node option \<Rightarrow> dir \<times> (string + cli_output)" where
  "restore_into io home source d db st =
     (case remove_old_db io home d of
        Some e \<Rightarrow> (d, Inl (''remove old memory.db: '' @ e))
      | None \<Rightarrow>
          (let d1 = dir_remove MEMORY_DB d
           in case remove_old_store io home d of
                Some e \<Rightarrow> (d1, Inl (''remove old store dir: '' @ e))
              | None \<Rightarrow>
                  (let d2 = dir_remove STORE d1
                   in case copy_db io home db of
                        Some e \<Rightarrow> (d2, Inl (''copy memory.db: '' @ e))
                      | None \<Rightarrow>
                          (let d3 = dir_put MEMORY_DB db d2
                           in case st of
                                None \<Rightarrow> (d3, Inr (ORestored 0))
                              | Some x \<Rightarrow>
                                  (case copy_dir_recursive io (path_join source STORE) (path_join home STORE) x of
                                     (n, y, r) \<Rightarrow>
                                       (put_entry STORE y d3,
                                        (case r of
                                           Some e \<Rightarrow> Inl (''copy store dir: '' @ e)
                                         | None \<Rightarrow> Inr (ORestored n))))))))"

definition cli_restore ::
  "cli_host \<Rightarrow> string \<Rightarrow> string \<Rightarrow> bool \<Rightarrow> dir option \<Rightarrow> (string \<Rightarrow> node option)
     \<Rightarrow> dir option \<times> (string + cli_output)" where
  "cli_restore ho home source confirm dd other =
     (if \<not> confirm
      then (dd,
            Inl ''restore is destructive: pass --confirm to acknowledge overwrite of live data dir'')
      else case present (other source) of
             None \<Rightarrow> (dd, Inl (''backup source not found: '' @ source))
           | Some n \<Rightarrow>
               (let src = (case n of NDir src \<Rightarrow> src | _ \<Rightarrow> [])
                in case dir_get src MEMORY_DB of
                     None \<Rightarrow>
                       (dd, Inl (''no memory.db in backup source '' @ source @ '' (not a valid backup dir)''))
                   | Some db \<Rightarrow>
                       (let d = (case dd of Some d \<Rightarrow> d | None \<Rightarrow> [])
                        in if dir_has PROBED_SOCK d \<and> ch_listening ho (path_join home PROBED_SOCK)
                           then (dd,
                                 Inl (''fm-server appears running (sock '' @ path_join home PROBED_SOCK
                                      @ '' live). stop it first before restore''))
                           else case ch_mkdir ho of
                                  Inl e \<Rightarrow> (dd, Inl (''create home dir: '' @ e))
                                | Inr _ \<Rightarrow>
                                    (case restore_into (ch_io ho) home source d db (dir_get src STORE) of
                                       (d', r) \<Rightarrow> (Some d', r)))))"

section \<open>Running a command\<close>

text \<open>The data directory is the one that the opening of the engine leaves.\<close>

record cli_state =
  cs_engine :: engine
  cs_cluster :: home
  cs_home :: "dir option"
  cs_other :: "string \<Rightarrow> node option"

definition on_engine :: "cli_state \<Rightarrow> engine \<times> (string + cli_output) \<Rightarrow> cli_state \<times> (string + cli_output)" where
  "on_engine st r = (st\<lparr> cs_engine := fst r \<rparr>, snd r)"

definition run_command :: "cli_env \<Rightarrow> cli_host \<Rightarrow> string option \<Rightarrow> command \<Rightarrow> cli_state \<Rightarrow> cli_state \<times> (string + cli_output)" where
  "run_command ce ho home cmd st =
     (let s = cs_engine st; dir = resolve_home (ch_env ho) home
      in case cmd of
           CommitCmd session raw \<Rightarrow> on_engine st (cli_commit ce session raw s)
         | QueryCmd x k b \<Rightarrow> on_engine st (cli_query ce x k b s)
         | StatsCmd \<Rightarrow> on_engine st (cli_stats s)
         | DeleteCmd i c \<Rightarrow> on_engine st (cli_delete ce i c s)
         | DoctorCmd \<Rightarrow> on_engine st (cli_doctor s)
         | ConsolidateCmd \<Rightarrow> on_engine st (cli_consolidate ce s)
         | MergesCmd \<Rightarrow> on_engine st (cli_merges s)
         | UnmergeCmd i \<Rightarrow> on_engine st (cli_unmerge ce i s)
         | ReconcileCmd \<Rightarrow> on_engine st (cli_reconcile ce s)
         | ImportCmd src stub \<Rightarrow> on_engine st (cli_import ce ho src stub s)
         | ClusterCmd CStatus \<Rightarrow> (st, cluster_status ho (cs_cluster st) (eg_db s))
         | ClusterCmd CPromote \<Rightarrow>
             (case cluster_promote ho (cs_cluster st) of (h, r) \<Rightarrow> (st\<lparr> cs_cluster := h \<rparr>, r))
         | BackupCmd dest \<Rightarrow>
             (case cli_backup ho dir dest (cs_home st) (cs_other st) of
                (None, r) \<Rightarrow> (st, r)
              | (Some d, r) \<Rightarrow> (st\<lparr> cs_other := (cs_other st)(backup_path ho dir dest \<mapsto> NDir d) \<rparr>, r))
         | RestoreCmd src c \<Rightarrow>
             (case cli_restore ho dir src c (cs_home st) (cs_other st) of (d, r) \<Rightarrow> (st\<lparr> cs_home := d \<rparr>, r))
         | AuditCmd n \<Rightarrow> on_engine st (cli_audit n s))"

definition run_cli ::
  "cli_env \<Rightarrow> cli_host \<Rightarrow> string option \<Rightarrow> nat \<Rightarrow> command \<Rightarrow> cli_state \<Rightarrow> cli_state \<times> (string + cli_output)" where
  "run_cli ce ho home dm cmd st =
     (case build_engine ho dm of Inl e \<Rightarrow> (st, Inl e) | Inr _ \<Rightarrow> run_command ce ho home cmd st)"

section \<open>Copies\<close>

text \<open>What is at a path below a node.\<close>

datatype seen = AFile string | ADir | ALink

fun seen_below :: "node \<Rightarrow> string list \<Rightarrow> seen option" where
  "seen_below (NFile x) p = (if p = [] then Some (AFile x) else None)"
| "seen_below NLink p = (if p = [] then Some ALink else None)"
| "seen_below (NDir es) [] = Some ADir"
| "seen_below (NDir es) (k # p) = (case map_of es k of None \<Rightarrow> None | Some y \<Rightarrow> seen_below y p)"

definition seen_at :: "node option \<Rightarrow> string list \<Rightarrow> seen option" where
  "seen_at n p = (case n of None \<Rightarrow> None | Some x \<Rightarrow> seen_below x p)"

definition without_links :: "seen option \<Rightarrow> seen option" where
  "without_links v = (if v = Some ALink then None else v)"

definition file_paths :: "node option \<Rightarrow> string list set" where
  "file_paths n = {p. \<exists>x. seen_at n p = Some (AFile x)}"

text \<open>The names in a directory are distinct.\<close>

fun names_ok :: "node \<Rightarrow> bool" and dir_names_ok :: "dir \<Rightarrow> bool" where
  "names_ok (NFile x) = True"
| "names_ok NLink = True"
| "names_ok (NDir es) = dir_names_ok es"
| "dir_names_ok [] = True"
| "dir_names_ok ((k, x) # es) = (k \<notin> fst ` set es \<and> names_ok x \<and> dir_names_ok es)"

lemma seen_at_simps [simp]:
  "seen_at None p = None" "seen_at (Some x) p = seen_below x p"
  by (simp_all add: seen_at_def)

lemma without_links_simps [simp]:
  "without_links None = None" "without_links (Some ALink) = None"
  "without_links (Some ADir) = Some ADir" "without_links (Some (AFile x)) = Some (AFile x)"
  by (simp_all add: without_links_def)

lemma without_links_again [simp]: "without_links (without_links v) = without_links v"
  by (simp add: without_links_def)

lemma without_links_no_link [simp]: "without_links v \<noteq> Some ALink" "Some ALink \<noteq> without_links v"
  by (auto simp: without_links_def)

lemma names_ok_entry: "dir_names_ok es \<Longrightarrow> map_of es k = Some x \<Longrightarrow> names_ok x"
  by (induction es) (auto split: if_splits)

lemma map_of_put_entry:
  "k \<notin> fst ` set es \<Longrightarrow> map_of (put_entry k y es) j = (if j = k then y else map_of es j)"
  by (auto simp: put_entry_def map_of_eq_None_iff split: option.split)

text \<open>
  A copy that does not fail shows the same files and directories at every path, and nothing where
  there was a link.
\<close>

lemma copy_seen:
  "\<lbrakk> copy_node io src dst x = (n, y, None); names_ok x \<rbrakk>
     \<Longrightarrow> (\<forall>p. seen_at y p = without_links (seen_below x p)) \<and> (\<forall>z. y = Some z \<longrightarrow> names_ok z)"
  "\<lbrakk> copy_entries io src dst es = (m, es', None); dir_names_ok es \<rbrakk>
     \<Longrightarrow> dir_names_ok es' \<and> fst ` set es' \<subseteq> fst ` set es
       \<and> (\<forall>k p. seen_at (map_of es' k) p = without_links (seen_at (map_of es k) p))"
proof (induction io src dst x and io src dst es arbitrary: n y and m es' rule: copy_node_copy_entries.induct)
  case (3 io src dst es)
  then obtain m es1 where e: "io MakeDir dst = None" "io ReadDir src = None"
    "copy_entries io src dst es = (m, es1, None)" "y = Some (NDir es1)"
    by (auto split: option.splits prod.splits)
  have ih: "dir_names_ok es1 \<and> (\<forall>k p. seen_at (map_of es1 k) p = without_links (seen_at (map_of es k) p))"
    using 3(1) [OF e(1,2,3)] 3(3) by simp
  have "seen_below (NDir es1) p = without_links (seen_below (NDir es) p)" for p
    using ih by (cases p) (auto simp: seen_at_def)
  with ih e show ?case by simp
next
  case (5 io src dst k x es)
  obtain n y m1 es1 where c: "io ReadEntry (path_join src k) = None"
    "copy_node io (path_join src k) (path_join dst k) x = (n, y, None)"
    "copy_entries io src dst es = (m1, es1, None)" "es' = put_entry k y es1"
    using 5(3) by (auto split: option.splits prod.splits)
  have ok: "k \<notin> fst ` set es" "names_ok x" "dir_names_ok es" using 5(4) by simp_all
  have x: "seen_at y p = without_links (seen_below x p)" "y = Some z \<Longrightarrow> names_ok z" for p z
    using 5(1) [OF c(1,2) ok(2)] by simp_all
  have r: "dir_names_ok es1" "fst ` set es1 \<subseteq> fst ` set es"
    "seen_at (map_of es1 j) p = without_links (seen_at (map_of es j) p)" for j p
    using 5(2) [OF c(1) c(2) [symmetric] _ _ c(3) ok(3)] by simp_all
  have k: "k \<notin> fst ` set es1" using r(2) ok(1) by blast
  have "dir_names_ok (put_entry k y es1)" "fst ` set (put_entry k y es1) \<subseteq> fst ` set ((k, x) # es)"
    using r(1,2) k x(2) by (auto simp: put_entry_def split: option.split)
  moreover have "seen_at (map_of (put_entry k y es1) j) p
      = without_links (seen_at (map_of ((k, x) # es) j) p)" for j p
    using r(3) x(1) k by (simp add: map_of_put_entry)
  ultimately show ?case unfolding c(4) by blast
qed (auto split: option.splits)

text \<open>It counts the files.\<close>

lemma file_paths_simps [simp]:
  "file_paths None = {}" "file_paths (Some (NFile x)) = {[]}" "file_paths (Some NLink) = {}"
  by (auto simp: file_paths_def split: if_splits)

lemma file_paths_empty_dir: "file_paths (Some (NDir [])) = {}"
proof -
  have "p \<notin> file_paths (Some (NDir []))" for p by (cases p) (simp_all add: file_paths_def)
  then show ?thesis by blast
qed

lemma file_paths_entry:
  assumes "k \<notin> fst ` set es"
  shows "file_paths (Some (NDir ((k, x) # es)))
    = (#) k ` file_paths (Some x) \<union> file_paths (Some (NDir es))"
    "(#) k ` file_paths (Some x) \<inter> file_paths (Some (NDir es)) = {}"
proof -
  have n: "map_of es k = None" using assms by (simp add: map_of_eq_None_iff)
  have "p \<in> file_paths (Some (NDir ((k, x) # es)))
      \<longleftrightarrow> p \<in> (#) k ` file_paths (Some x) \<union> file_paths (Some (NDir es))" for p
    using n by (cases p) (auto simp: file_paths_def split: if_splits)
  then show "file_paths (Some (NDir ((k, x) # es)))
      = (#) k ` file_paths (Some x) \<union> file_paths (Some (NDir es))" by blast
  show "(#) k ` file_paths (Some x) \<inter> file_paths (Some (NDir es)) = {}"
    using n by (auto simp: file_paths_def)
qed

lemma copy_counts:
  "\<lbrakk> copy_node io src dst x = (n, y, None); names_ok x \<rbrakk>
     \<Longrightarrow> finite (file_paths (Some x)) \<and> n = card (file_paths (Some x))"
  "\<lbrakk> copy_entries io src dst es = (m, es', None); dir_names_ok es \<rbrakk>
     \<Longrightarrow> finite (file_paths (Some (NDir es))) \<and> m = card (file_paths (Some (NDir es)))"
proof (induction io src dst x and io src dst es arbitrary: n y and m es' rule: copy_node_copy_entries.induct)
  case (4 io src dst)
  then show ?case by (simp add: file_paths_empty_dir)
next
  case (5 io src dst k x es)
  obtain n y m1 es1 where c: "io ReadEntry (path_join src k) = None"
    "copy_node io (path_join src k) (path_join dst k) x = (n, y, None)"
    "copy_entries io src dst es = (m1, es1, None)" "m = n + m1"
    using 5(3) by (auto split: option.splits prod.splits)
  have ok: "k \<notin> fst ` set es" "names_ok x" "dir_names_ok es" using 5(4) by simp_all
  have "finite (file_paths (Some x)) \<and> n = card (file_paths (Some x))"
    by (rule 5(1) [OF c(1,2) ok(2)])
  moreover have "finite (file_paths (Some (NDir es))) \<and> m1 = card (file_paths (Some (NDir es)))"
    by (rule 5(2) [OF c(1) c(2) [symmetric] _ _ c(3) ok(3)]) simp_all
  ultimately show ?case
    using file_paths_entry [OF ok(1), of x] c(4) by (simp add: card_Un_disjoint card_image)
qed (auto split: option.splits prod.splits)

lemma copy_dir_ok:
  assumes "copy_dir_recursive io src dst x = (n, y, None)" and "names_ok x"
  shows "(\<exists>es. y = Some (NDir es)) \<and> pred_option names_ok y
    \<and> (\<forall>p. seen_at y p = without_links (seen_below x p)) \<and> n = card (file_paths (Some x))"
proof (cases x)
  case (NDir es)
  then have c: "copy_node io src dst x = (n, y, None)" using assms(1) by (simp add: copy_dir_recursive_def)
  then have "\<exists>es. y = Some (NDir es)" using NDir by (auto split: option.splits prod.splits)
  then show ?thesis using copy_seen(1) [OF c assms(2)] copy_counts(1) [OF c assms(2)] by auto
qed (use assms in \<open>simp_all add: copy_dir_recursive_def split: option.splits\<close>)

lemma file_paths_without_links:
  "(\<And>p. seen_at y p = without_links (seen_at x p)) \<Longrightarrow> file_paths y = file_paths x"
  by (auto simp: file_paths_def without_links_def split: if_splits)

lemma map_of_dir_remove [simp]: "map_of (dir_remove k d) j = (if j = k then None else map_of d j)"
  by (induction d) (auto simp: dir_remove_def)

lemma map_of_dir_put [simp]: "map_of (dir_put k n d) j = (if j = k then Some n else map_of d j)"
  by (simp add: dir_put_def)

lemma names_differ [simp]: "STORE \<noteq> MEMORY_DB" "MEMORY_DB \<noteq> STORE" "MEMORY_WAL \<noteq> MEMORY_DB" "MEMORY_WAL \<noteq> STORE"
  "SOCK_NAME \<noteq> PROBED_SOCK"
  by (simp_all add: STORE_def MEMORY_DB_def MEMORY_WAL_def SOCK_NAME_def PROBED_SOCK_def)

text \<open>What a backup that succeeds holds, and what a restoration that succeeds makes of it.\<close>

lemma seen_at_dir_get: "without_links (seen_at (dir_get d k) p) = without_links (seen_at (map_of d k) p)"
  by (cases "map_of d k") (auto simp: dir_get_def present_def split: node.split)

lemma backup_into_holds:
  assumes "backup_into ho home path d db = (b, Inr out)" and "dir_names_ok d"
  shows "\<exists>x snap n. db = NFile x \<and> ch_snapshot ho x (map_of d MEMORY_WAL) = Inr snap
    \<and> out = OBackup (length snap) n \<and> n = card (file_paths (map_of d STORE))
    \<and> map_of b MEMORY_DB = Some (NFile snap) \<and> dir_names_ok b
    \<and> (\<forall>p. seen_at (map_of b STORE) p = without_links (seen_at (map_of d STORE) p))"
proof -
  obtain x snap where s: "db = NFile x" "ch_snapshot ho x (map_of d MEMORY_WAL) = Inr snap"
    and fin: "(case dir_get d STORE of
         None \<Rightarrow> ([(MEMORY_DB, NFile snap)], Inr (OBackup (length snap) 0))
       | Some st \<Rightarrow>
           (case copy_dir_recursive (ch_io ho) (path_join home STORE) (path_join path STORE) st of
              (n, y, r) \<Rightarrow>
                ((MEMORY_DB, NFile snap) # put_entry STORE y [],
                 (case r of Some e \<Rightarrow> Inl (''copy store dir: '' @ e)
                  | None \<Rightarrow> Inr (OBackup (length snap) n))))) = (b, Inr out)"
    using assms(1)
    by (auto simp: backup_into_def map_err_def bind_res_def split: node.splits sum.splits)
  show ?thesis
  proof (cases "dir_get d STORE")
    case None
    then have "map_of d STORE = None \<or> map_of d STORE = Some NLink"
      by (auto simp: dir_get_def present_def split: option.splits node.splits)
    then show ?thesis using s fin None by (auto simp: file_paths_def without_links_def)
  next
    case (Some st)
    then have m: "map_of d STORE = Some st" by (auto simp: dir_get_def present_def split: option.splits node.splits)
    then have "names_ok st" using names_ok_entry assms(2) by blast
    moreover obtain n y where c: "copy_dir_recursive (ch_io ho) (path_join home STORE) (path_join path STORE) st = (n, y, None)"
      and o: "out = OBackup (length snap) n" and b: "b = (MEMORY_DB, NFile snap) # put_entry STORE y []"
      using fin Some by (auto split: prod.splits option.splits)
    moreover note copy_dir_ok [OF c]
    ultimately show ?thesis using s m by (auto simp: put_entry_def)
  qed
qed

lemma restore_into_holds:
  assumes "restore_into io home source d db st = (d', Inr out)" and "pred_option names_ok st"
  shows "map_of d' MEMORY_DB = Some db \<and> \<not> is_dir db
    \<and> (\<forall>p. seen_at (map_of d' STORE) p = without_links (seen_at st p))
    \<and> out = ORestored (card (file_paths st))
    \<and> (\<forall>k. k \<noteq> MEMORY_DB \<and> k \<noteq> STORE \<longrightarrow> map_of d' k = map_of d k)"
proof -
  let ?d3 = "dir_put MEMORY_DB db (dir_remove STORE (dir_remove MEMORY_DB d))"
  have nd: "\<not> is_dir db" and
    fin: "(case st of None \<Rightarrow> (?d3, Inr (ORestored 0))
       | Some x \<Rightarrow>
           (case copy_dir_recursive io (path_join source STORE) (path_join home STORE) x of
              (n, y, r) \<Rightarrow>
                (put_entry STORE y ?d3,
                 (case r of Some e \<Rightarrow> Inl (''copy store dir: '' @ e) | None \<Rightarrow> Inr (ORestored n))))) = (d', Inr out)"
    using assms(1) by (auto simp: restore_into_def copy_db_def Let_def split: option.splits if_splits)
  show ?thesis
  proof (cases st)
    case None
    then show ?thesis using nd fin by auto
  next
    case (Some x)
    then obtain n y where c: "copy_dir_recursive io (path_join source STORE) (path_join home STORE) x = (n, y, None)"
      and o: "out = ORestored n" "d' = put_entry STORE y ?d3"
      using fin by (auto split: prod.splits option.splits)
    have k: "STORE \<notin> fst ` set ?d3" by (auto simp: map_of_eq_None_iff [symmetric])
    show ?thesis using copy_dir_ok [OF c] assms(2) Some nd unfolding o(2) map_of_put_entry [OF k]
      by (auto simp: o(1))
  qed
qed

text \<open>
  C38: A backup that is restored, into any data directory on any host, gives back the snapshot of the
  database and the vector store: at every path below the store there is the same file with the same
  content, or a directory, where the original has one, and nothing where it has a link or nothing.
  Both commands report the number of its files. Everything else in the directory stays as it
  was: the role and epoch of the node, and also the write-ahead log of the database that was
  there before.\<close>
theorem backup_restore_roundtrip:
  assumes backup: "cli_backup ho home dest (Some d) other = (Some b, Inr out)"
    and names: "names_ok (NDir d)" and src: "other' src = Some (NDir b)"
    and restore: "cli_restore ho' home' src True dd other' = (Some d', Inr out')"
  shows "\<exists>db snap. map_of d MEMORY_DB = Some (NFile db)
    \<and> ch_snapshot ho db (map_of d MEMORY_WAL) = Inr snap
    \<and> map_of d' MEMORY_DB = Some (NFile snap)
    \<and> (\<forall>p. seen_at (map_of d' STORE) p = without_links (seen_at (map_of d STORE) p))
    \<and> out = OBackup (length snap) (card {p. \<exists>x. seen_at (map_of d STORE) p = Some (AFile x)})
    \<and> out' = ORestored (card {p. \<exists>x. seen_at (map_of d STORE) p = Some (AFile x)})
    \<and> (\<forall>k. k \<noteq> MEMORY_DB \<and> k \<noteq> STORE \<longrightarrow> map_of d' k = Option.bind dd (\<lambda>d0. map_of d0 k))"
proof -
  obtain dbn path where "dir_get d MEMORY_DB = Some dbn" "backup_into ho home path d dbn = (b, Inr out)"
    using backup by (auto simp: cli_backup_def Let_def split: option.splits if_splits prod.splits)
  moreover from this obtain x snap where s: "dbn = NFile x" "ch_snapshot ho x (map_of d MEMORY_WAL) = Inr snap"
    and o: "out = OBackup (length snap) (card (file_paths (map_of d STORE)))"
    and b: "map_of b MEMORY_DB = Some (NFile snap)" "dir_names_ok b"
      "\<And>p. seen_at (map_of b STORE) p = without_links (seen_at (map_of d STORE) p)"
    using backup_into_holds names by (metis names_ok.simps(3))
  ultimately have m: "map_of d MEMORY_DB = Some (NFile x)"
    by (auto simp: dir_get_def present_def split: option.splits node.splits)
  let ?d0 = "case dd of Some d \<Rightarrow> d | None \<Rightarrow> []" and ?st = "dir_get b STORE"
  have "dir_get b MEMORY_DB = Some (NFile snap)" using b(1) by (simp add: dir_get_def present_def)
  then have r: "restore_into (ch_io ho') home' src ?d0 (NFile snap) ?st = (d', Inr out')"
    using restore src
    by (auto simp: cli_restore_def present_def Let_def split: if_splits sum.splits prod.splits)
  have "pred_option names_ok ?st"
    using names_ok_entry [OF b(2), of STORE] by (auto simp: dir_get_def present_def pred_option_def split: option.splits node.splits)
  note R = restore_into_holds [OF r this]
  have v: "seen_at ?st p = without_links (seen_at (map_of d STORE) p)" for p
    using b(3) [of p] b(3) [of "[]"] by (auto simp: dir_get_def present_def split: option.splits node.splits)
  have f: "file_paths ?st = file_paths (map_of d STORE)" by (rule file_paths_without_links [OF v])
  have k: "map_of ?d0 k = Option.bind dd (\<lambda>d0. map_of d0 k)" for k by (cases dd) simp_all
  show ?thesis
    using R by (intro exI [of _ x] exI [of _ snap]) (simp add: m s o f v k file_paths_def [symmetric])
qed

section \<open>The import\<close>

text \<open>
  The vector store can be opened once. Since every command opens it before anything else,
  the import, which opens it again, always fails, and has no effect.\<close>
lemma cli_import_always_fails:
  assumes "\<forall>dm. \<exists>e. ch_store ho 1 dm = Inl e"
  shows "\<exists>e. run_cli ce ho home dm (ImportCmd src stub) st = (st, Inl e)"
proof -
  obtain e where "ch_store ho 1 (if stub then 64 else 1024) = Inl e" using assms by blast
  then have "\<exists>e. build_import_engine_at ho stub = Inl e"
    by (cases "ch_mkdir ho") (simp_all add: build_import_engine_at_def map_err_def)
  then have "\<exists>e. cli_import ce ho src stub (cs_engine st) = (cs_engine st, Inl e)"
    by (auto simp: cli_import_def Let_def)
  then show ?thesis by (auto simp: run_cli_def run_command_def on_engine_def Let_def split: sum.split)
qed

section \<open>The promotion\<close>

lemma epoch_after_role [simp]: "read_epoch_file (write_role_file r h) = read_epoch_file h"
  by (simp add: write_role_file_def read_epoch_file_def)

lemma role_after_write: "hm_role (write_role_file RLeader h) = Some ''leader''"
  by (simp add: write_role_file_def)

lemma epoch_kept: "hm_epoch (write_role_file r h) = hm_epoch h"
  by (simp add: write_role_file_def)

lemma role_after_epoch [simp]: "hm_role (write_epoch_file n h) = hm_role h"
  by (simp add: write_epoch_file_def)

lemma cluster_promote_effect:
  assumes "cluster_promote ho h = (h', r)"
  shows "case r of
      Inr _ \<Rightarrow> hm_role h' = Some ''leader'' \<and> read_epoch_file h' = (read_epoch_file h + 1) mod 2 ^ 64
    | Inl _ \<Rightarrow> hm_epoch h' = hm_epoch h"
  using assms
  by (auto simp: cluster_promote_def Let_def read_write_epoch role_after_write epoch_kept split: sum.splits option.splits)

text \<open>When the epoch cannot be written, the node is a leader that fences nobody.\<close>

lemma cluster_promote_half:
  assumes "ch_mkdir ho = Inr ()" and "ch_role_write ho = None" and "ch_epoch_write ho = Some e"
  shows "hm_role (fst (cluster_promote ho h)) = Some ''leader'' \<and> read_epoch_file (fst (cluster_promote ho h)) = read_epoch_file h"
  using assms by (simp add: cluster_promote_def write_role_file_def read_epoch_file_def Let_def)

text \<open>The probe looks for a socket that the server never makes.\<close>

lemma restore_ignores_server:
  assumes "\<not> dir_has PROBED_SOCK d"
  shows "cli_restore ho home src True (Some d) other = cli_restore (ho\<lparr> ch_listening := l \<rparr>) home src True (Some d) other"
  using assms by (cases "ch_mkdir ho") (simp_all add: cli_restore_def Let_def split: option.split)

section \<open>Concrete hosts\<close>

definition demo_cli_host :: cli_host where
  "demo_cli_host =
     \<lparr> ch_env = (\<lambda>_. None), ch_mkdir = Inr (), ch_store = (\<lambda>n _. if n = 0 then Inr () else Inl ''locked''),
       ch_db = Inr (), ch_embedder = Inr (), ch_role_write = None, ch_epoch_write = None,
       ch_listening = (\<lambda>_. False), ch_snapshot = (\<lambda>x _. Inr x), ch_millis = 7, ch_io = (\<lambda>_ _. None) \<rparr>"

definition demo_cli :: cli_env where
  "demo_cli =
     \<lparr> ce_engine = demo_env, ce_order = (\<lambda>x. x),
       ce_import = \<lparr> im_json = (\<lambda>_. None), im_alphanumeric = (\<lambda>_. False),
          im_redactor = \<lparr> rd_credentials = None, rd_is_match = (\<lambda>_ _. False), rd_replace_all = (\<lambda>_ _ x. x) \<rparr>,
          im_redact_var = None \<rparr>,
       ce_interaction = (\<lambda>_. Inl ''x''), ce_studio = (\<lambda>_. studio_demo), ce_exists = (\<lambda>_. True) \<rparr>"

definition demo_cli_state :: cli_state where
  "demo_cli_state = \<lparr> cs_engine = demo_engine, cs_cluster = \<lparr> hm_role = None, hm_epoch = None \<rparr>, cs_home = None,
     cs_other = (\<lambda>_. None) \<rparr>"

lemma cli_import_witness:
  "\<exists>e. run_cli demo_cli demo_cli_host None 64 (ImportCmd None True) demo_cli_state = (demo_cli_state, Inl e)"
  by (rule cli_import_always_fails) (simp add: demo_cli_host_def)

definition demo_dir :: dir where
  "demo_dir = [(MEMORY_DB, NFile ''db''), (STORE, NDir [(''conf'', NFile ''c''), (''l'', NLink)])]"

definition old_dir :: dir where
  "old_dir = [(MEMORY_DB, NFile ''old''), (MEMORY_WAL, NFile ''log'')]"

lemma backup_restore_witness:
  "\<exists>b out d' out'. cli_backup demo_cli_host ''h'' (Some ''b'') (Some demo_dir) (\<lambda>_. None) = (Some b, Inr out)
    \<and> cli_restore demo_cli_host ''h'' ''b'' True (Some old_dir) [''b'' \<mapsto> NDir b] = (Some d', Inr out')
    \<and> seen_at (map_of d' STORE) [''conf''] = Some (AFile ''c'')
    \<and> seen_at (map_of d' STORE) [''l''] = None \<and> map_of d' MEMORY_WAL = Some (NFile ''log'')"
proof -
  let ?b = "[(MEMORY_DB, NFile ''db''), (STORE, NDir [(''conf'', NFile ''c'')])]"
  note D = demo_cli_host_def copy_dir_recursive_def put_entry_def dir_get_def present_def Let_def
  have b: "cli_backup demo_cli_host ''h'' (Some ''b'') (Some demo_dir) (\<lambda>_. None) = (Some ?b, Inr (OBackup 2 1))"
    by (simp add: cli_backup_def backup_path_def backup_into_def demo_dir_def bind_res_def map_err_def D)
  have t: "names_ok (NDir demo_dir)" by (simp add: demo_dir_def)
  obtain d' out' where r: "cli_restore demo_cli_host ''h'' ''b'' True (Some old_dir) [''b'' \<mapsto> NDir ?b] = (Some d', Inr out')"
    by (simp add: cli_restore_def dir_has_def old_dir_def restore_into_def remove_old_db_def
        remove_old_store_def copy_db_def is_dir_def PROBED_SOCK_def MEMORY_DB_def MEMORY_WAL_def STORE_def D)
  have s: "[''b'' \<mapsto> NDir ?b] ''b'' = Some (NDir ?b)" by simp
  note X = backup_restore_roundtrip [OF b t s r]
  from X have "seen_at (map_of d' STORE) p = without_links (seen_at (map_of demo_dir STORE) p)" for p by blast
  moreover from X have "map_of d' MEMORY_WAL = Option.bind (Some old_dir) (\<lambda>d0. map_of d0 MEMORY_WAL)"
    using names_differ(3,4) by blast
  ultimately show ?thesis using b r by (auto simp: demo_dir_def old_dir_def)
qed

end
