(* ===== verification/Schema.thy ===== *)
theory Schema
  imports Core
begin

text \<open>
  The schema of the SQLite file and its migration (\<open>fm-persist/src/schema.rs\<close>): the DDL
  statements with their \<open>IF NOT EXISTS\<close> behaviour, \<open>user_version\<close>, and \<open>migrate\<close>. A statement
  fails as SQLite fails it: an index on a missing table or column, a duplicate column.
\<close>

section \<open>Statements\<close>

type_synonym schema_row = "(string \<times> string) list"

record schema =
  sc_version :: nat
  sc_columns :: "string list option"
  sc_rows :: "schema_row list"
  sc_tables :: "string list"
  sc_indexes :: "string list"

datatype ddl =
    CreateItemTable
  | CreateTable string
  | CreateIndex string string "string list"
  | AddColumn string

definition item_columns :: "string list" where
  "item_columns =
     [''id'', ''interaction_id'', ''turn_idx'', ''session_id'', ''tenant'', ''memory_type'',
      ''tier'', ''content'', ''vector_ref'', ''weight'', ''access_count'',
      ''last_accessed_timestamp'', ''created_timestamp'', ''provenance'', ''tombstone'',
      ''entities_pending'', ''entities_json'', ''namespace'', ''namespace_key'']"

definition all_ddl :: "ddl list" where
  "all_ddl =
     [CreateItemTable,
      CreateTable ''entity'', CreateTable ''memory_entity'', CreateTable ''relation'',
      CreateTable ''consolidation_log'', CreateTable ''merge_log'',
      CreateTable ''reconcile_report'', CreateTable ''wop_log'', CreateTable ''audit_log'',
      CreateIndex ''idx_memory_interaction'' ''memory_item'' [''interaction_id''],
      CreateIndex ''idx_memory_session'' ''memory_item'' [''session_id''],
      CreateIndex ''idx_memory_tier'' ''memory_item'' [''tier'', ''tombstone''],
      CreateIndex ''idx_wop_at'' ''wop_log'' [''at''],
      CreateIndex ''idx_memory_entity_eid'' ''memory_entity'' [''entity_id''],
      CreateIndex ''idx_memory_vector_ref'' ''memory_item'' [''vector_ref''],
      CreateIndex ''idx_memory_tenant'' ''memory_item'' [''tenant'', ''tombstone''],
      CreateIndex ''idx_memory_namespace'' ''memory_item''
        [''namespace'', ''namespace_key'', ''tombstone'']]"

text \<open>Tables other than \<open>memory_item\<close> never change: their indexes only need the table.\<close>

definition index_ok :: "string \<Rightarrow> string list \<Rightarrow> schema \<Rightarrow> bool" where
  "index_ok t cols s =
     (if t = ''memory_item''
      then (case sc_columns s of None \<Rightarrow> False | Some cs \<Rightarrow> set cols \<subseteq> set cs)
      else t \<in> set (sc_tables s))"

fun exec_ddl :: "ddl \<Rightarrow> schema \<Rightarrow> schema option" where
  "exec_ddl CreateItemTable s =
     (case sc_columns s of
        None \<Rightarrow> Some (s\<lparr> sc_columns := Some item_columns \<rparr>)
      | Some _ \<Rightarrow> Some s)"
| "exec_ddl (CreateTable t) s =
     Some (if t \<in> set (sc_tables s) then s else s\<lparr> sc_tables := sc_tables s @ [t] \<rparr>)"
| "exec_ddl (CreateIndex i t cols) s =
     (if i \<in> set (sc_indexes s) then Some s
      else if index_ok t cols s then Some (s\<lparr> sc_indexes := sc_indexes s @ [i] \<rparr>)
      else None)"
| "exec_ddl (AddColumn c) s =
     (case sc_columns s of
        None \<Rightarrow> None
      | Some cs \<Rightarrow>
          if c \<in> set cs then None
          else Some (s\<lparr> sc_columns := Some (cs @ [c]),
                        sc_rows := map (\<lambda>r. r @ [(c, [])]) (sc_rows s) \<rparr>))"

section \<open>Migration\<close>

definition SCHEMA_VERSION :: nat where
  "SCHEMA_VERSION = 4"

definition has_column :: "string \<Rightarrow> schema \<Rightarrow> bool" where
  "has_column c s = (case sc_columns s of None \<Rightarrow> False | Some cs \<Rightarrow> c \<in> set cs)"

definition ensure_column :: "string \<Rightarrow> schema \<Rightarrow> schema option" where
  "ensure_column c s = (if has_column c s then Some s else exec_ddl (AddColumn c) s)"

fun exec_all :: "ddl list \<Rightarrow> schema \<Rightarrow> schema option" where
  "exec_all [] s = Some s"
| "exec_all (x # xs) s = Option.bind (exec_ddl x s) (exec_all xs)"

definition migrate :: "schema \<Rightarrow> schema option" where
  "migrate s =
     (let from_version = sc_version s
      in if from_version \<ge> SCHEMA_VERSION then Some s
         else Option.bind (exec_ddl CreateItemTable s) (\<lambda>s1.
              Option.bind (if from_version < 3 then ensure_column ''tenant'' s1 else Some s1) (\<lambda>s2.
              Option.bind (if from_version < 4
                           then Option.bind (ensure_column ''namespace'' s2)
                                  (ensure_column ''namespace_key'')
                           else Some s2) (\<lambda>s3.
              Option.bind (exec_all all_ddl s3) (\<lambda>s4.
              Some (s4\<lparr> sc_version := SCHEMA_VERSION \<rparr>))))))"

section \<open>What a migration leaves\<close>

definition row_value :: "string \<Rightarrow> schema_row \<Rightarrow> string option" where
  "row_value c r = map_of r c"

text \<open>The columns every version of the table has had.\<close>

definition base_columns :: "string list" where
  "base_columns = [''id'', ''interaction_id'', ''session_id'', ''tier'', ''tombstone'', ''vector_ref'']"

text \<open>An old file: no table yet, or a table with the base columns and, from version 3 on, the tenant.\<close>

definition old_schema :: "schema \<Rightarrow> bool" where
  "old_schema s =
     (case sc_columns s of
        None \<Rightarrow> sc_rows s = []
      | Some cs \<Rightarrow> set base_columns \<subseteq> set cs \<and> (sc_version s = 3 \<longrightarrow> ''tenant'' \<in> set cs)
                   \<and> (\<forall>r \<in> set (sc_rows s). map fst r = cs) \<and> distinct cs)"

definition rows_extend :: "schema \<Rightarrow> schema \<Rightarrow> bool" where
  "rows_extend s t = (\<exists>ext. sc_rows t = map (\<lambda>r. r @ ext) (sc_rows s) \<and> (\<forall>p \<in> set ext. snd p = []))"

lemma rows_extend_refl: "rows_extend s s"
  by (auto simp: rows_extend_def intro!: exI [of _ "[]"])

lemma rows_extend_same: "sc_rows t = sc_rows s \<Longrightarrow> rows_extend s t"
  by (auto simp: rows_extend_def intro!: exI [of _ "[]"])

lemma rows_extend_trans:
  assumes "rows_extend s t" and "rows_extend t u"
  shows "rows_extend s u"
proof -
  obtain e1 e2 where "sc_rows t = map (\<lambda>r. r @ e1) (sc_rows s)" "\<forall>p \<in> set e1. snd p = []"
    "sc_rows u = map (\<lambda>r. r @ e2) (sc_rows t)" "\<forall>p \<in> set e2. snd p = []"
    using assms unfolding rows_extend_def by blast
  then show ?thesis
    unfolding rows_extend_def by (intro exI [of _ "e1 @ e2"]) (auto simp: comp_def)
qed

text \<open>
  One column step: it succeeds on a table, the column is there afterwards, the others stay,
  and every row keeps its cells and gets an empty one.
\<close>

lemma ensure_column_step:
  assumes "sc_columns s = Some cs"
  obtains t cs' where "ensure_column c s = Some t" "sc_columns t = Some cs'"
    "set cs' = insert c (set cs)" "rows_extend s t" "sc_version t = sc_version s"
    "sc_tables t = sc_tables s" "sc_indexes t = sc_indexes s"
proof (cases "c \<in> set cs")
  case True
  with assms show thesis
    by (intro that [of s cs]) (auto simp: ensure_column_def has_column_def rows_extend_refl)
next
  case False
  let ?t = "s\<lparr> sc_columns := Some (cs @ [c]), sc_rows := map (\<lambda>r. r @ [(c, [])]) (sc_rows s) \<rparr>"
  have "rows_extend s ?t"
    unfolding rows_extend_def by (intro exI [of _ "[(c, [])]"]) simp
  with False assms show thesis
    by (intro that [of ?t "cs @ [c]"]) (auto simp: ensure_column_def has_column_def)
qed

text \<open>The final pass: with every indexed column in place each statement succeeds.\<close>

fun created :: "ddl \<Rightarrow> schema \<Rightarrow> bool" where
  "created CreateItemTable s = (sc_columns s \<noteq> None)"
| "created (CreateTable t) s = (t \<in> set (sc_tables s))"
| "created (CreateIndex i t cs) s = (i \<in> set (sc_indexes s))"
| "created (AddColumn c) s = has_column c s"

text \<open>A list of statements that only create, each index after its table.\<close>

fun creatable :: "string list \<Rightarrow> string list \<Rightarrow> ddl list \<Rightarrow> bool" where
  "creatable cs ts [] = True"
| "creatable cs ts (CreateItemTable # xs) = creatable cs ts xs"
| "creatable cs ts (CreateTable t # xs) = creatable cs (t # ts) xs"
| "creatable cs ts (CreateIndex i t cols # xs) =
     ((if t = ''memory_item'' then set cols \<subseteq> set cs else t \<in> set ts) \<and> creatable cs ts xs)"
| "creatable cs ts (AddColumn c # xs) = False"

lemma exec_all_create:
  assumes "creatable cs ts xs" and "sc_columns s = Some cs" and "set ts \<subseteq> set (sc_tables s)"
  shows "\<exists>t. exec_all xs s = Some t \<and> sc_columns t = Some cs \<and> sc_rows t = sc_rows s
    \<and> sc_version t = sc_version s \<and> set (sc_tables s) \<subseteq> set (sc_tables t)
    \<and> set (sc_indexes s) \<subseteq> set (sc_indexes t) \<and> (\<forall>x \<in> set xs. created x t)"
  using assms
proof (induction cs ts xs arbitrary: s rule: creatable.induct)
  case (2 cs ts xs)
  then obtain t where "exec_all xs s = Some t \<and> sc_columns t = Some cs \<and> sc_rows t = sc_rows s
    \<and> sc_version t = sc_version s \<and> set (sc_tables s) \<subseteq> set (sc_tables t)
    \<and> set (sc_indexes s) \<subseteq> set (sc_indexes t) \<and> (\<forall>x \<in> set xs. created x t)"
    by fastforce
  with 2 show ?case by auto
next
  case (3 cs ts t xs)
  let ?s = "if t \<in> set (sc_tables s) then s else s\<lparr> sc_tables := sc_tables s @ [t] \<rparr>"
  have "creatable cs (t # ts) xs" "sc_columns ?s = Some cs" "set (t # ts) \<subseteq> set (sc_tables ?s)"
    using "3.prems" by auto
  from "3.IH" [OF this] obtain u where "exec_all xs ?s = Some u" "sc_columns u = Some cs"
    "sc_rows u = sc_rows ?s" "sc_version u = sc_version ?s" "set (sc_tables ?s) \<subseteq> set (sc_tables u)"
    "set (sc_indexes ?s) \<subseteq> set (sc_indexes u)" "\<forall>x \<in> set xs. created x u" by blast
  then show ?case by (auto split: if_splits)
next
  case (4 cs ts i t cols xs)
  have ok: "index_ok t cols s"
    using "4.prems" by (auto simp: index_ok_def split: if_splits)
  let ?s = "if i \<in> set (sc_indexes s) then s else s\<lparr> sc_indexes := sc_indexes s @ [i] \<rparr>"
  have "creatable cs ts xs" "sc_columns ?s = Some cs" "set ts \<subseteq> set (sc_tables ?s)"
    using "4.prems" by (auto split: if_splits)
  from "4.IH" [OF this] obtain u where "exec_all xs ?s = Some u" "sc_columns u = Some cs"
    "sc_rows u = sc_rows ?s" "sc_version u = sc_version ?s" "set (sc_tables ?s) \<subseteq> set (sc_tables u)"
    "set (sc_indexes ?s) \<subseteq> set (sc_indexes u)" "\<forall>x \<in> set xs. created x u" by blast
  moreover have "exec_ddl (CreateIndex i t cols) s = Some ?s" using ok by simp
  ultimately show ?case by (auto split: if_splits)
qed auto

definition schema_complete :: "schema \<Rightarrow> bool" where
  "schema_complete s =
     (sc_version s = SCHEMA_VERSION
      \<and> has_column ''tenant'' s \<and> has_column ''namespace'' s \<and> has_column ''namespace_key'' s
      \<and> (\<forall>x \<in> set all_ddl. created x s))"

lemma creatable_all:
  "set [''interaction_id'', ''session_id'', ''tier'', ''tombstone'', ''vector_ref'', ''tenant'',
        ''namespace'', ''namespace_key''] \<subseteq> set cs \<Longrightarrow> creatable cs [] all_ddl"
  by (simp add: all_ddl_def)

lemma has_column_mono: "sc_columns t = sc_columns s \<Longrightarrow> has_column c t = has_column c s"
  by (simp add: has_column_def)

lemma created_version [simp]: "created x (s\<lparr> sc_version := v \<rparr>) = created x s"
  by (cases x) (simp_all add: has_column_def)

lemma migrate_facts:
  assumes old: "old_schema s" and v: "sc_version s < 4"
  shows "\<exists>t. migrate s = Some t \<and> schema_complete t \<and> rows_extend s t \<and> migrate t = Some t"
proof -
  define s1 where "s1 = (if sc_columns s = None then s\<lparr> sc_columns := Some item_columns \<rparr> else s)"
  have s1: "exec_ddl CreateItemTable s = Some s1" by (auto simp: s1_def split: option.splits)
  obtain cs where cs: "sc_columns s1 = Some cs" "set base_columns \<subseteq> set cs"
    "sc_version s = 3 \<longrightarrow> ''tenant'' \<in> set cs"
  proof (cases "sc_columns s")
    case None
    then show thesis
      by (intro that [of item_columns]) (simp_all add: s1_def item_columns_def base_columns_def)
  next
    case (Some c)
    with old show thesis
      by (intro that [of c]) (simp_all add: s1_def old_schema_def)
  qed
  have r1: "rows_extend s s1" "sc_version s1 = sc_version s"
    by (simp_all add: s1_def rows_extend_same)
  obtain s2 cs2 where s2: "(if sc_version s < 3 then ensure_column ''tenant'' s1 else Some s1) = Some s2"
    "sc_columns s2 = Some cs2" "set cs2 = insert ''tenant'' (set cs)" "rows_extend s1 s2"
  proof (cases "sc_version s < 3")
    case True
    with ensure_column_step [OF cs(1), of "''tenant''"] that show thesis by metis
  next
    case False
    then have "sc_version s = 3" using v by simp
    with cs(1,3) show thesis by (intro that [of s1 cs]) (auto simp: rows_extend_refl)
  qed
  obtain s3 cs3 where s3: "ensure_column ''namespace'' s2 = Some s3" "sc_columns s3 = Some cs3"
    "set cs3 = insert ''namespace'' (set cs2)" "rows_extend s2 s3"
    using ensure_column_step [OF s2(2)] by metis
  obtain s4 cs4 where s4: "ensure_column ''namespace_key'' s3 = Some s4" "sc_columns s4 = Some cs4"
    "set cs4 = insert ''namespace_key'' (set cs3)" "rows_extend s3 s4"
    using ensure_column_step [OF s3(2)] by metis
  have "creatable cs4 [] all_ddl"
    using cs(2) s2(3) s3(3) s4(3) by (intro creatable_all) (auto simp: base_columns_def)
  from exec_all_create [OF this s4(2)] obtain s5 where
    s5: "exec_all all_ddl s4 = Some s5" "sc_columns s5 = Some cs4" "sc_rows s5 = sc_rows s4"
    "\<forall>x \<in> set all_ddl. created x s5" by auto
  let ?t = "s5\<lparr> sc_version := SCHEMA_VERSION \<rparr>"
  have "migrate s = Some ?t"
    using v s1 s2(1) s3(1) s4(1) s5(1) by (simp add: migrate_def SCHEMA_VERSION_def Let_def)
  moreover have "schema_complete ?t"
    using s5 s2(3) s3(3) s4(3) by (simp add: schema_complete_def has_column_def)
  moreover have "rows_extend s ?t"
  proof -
    have "rows_extend s4 ?t" using s5(3) by (intro rows_extend_same) simp
    with r1(1) s2(4) s3(4) s4(4) show ?thesis by (metis rows_extend_trans)
  qed
  moreover have "migrate ?t = Some ?t" by (simp add: migrate_def)
  ultimately show ?thesis by blast
qed

text \<open>
  C35: \<open>migrate\<close> brings any older file to the current schema. From a missing table, or a table
  of version 0 to 3, it succeeds and leaves version 4 with the tenant and namespace columns,
  every table and every index; no row is lost, each keeps its old cells, and the added columns
  are empty, the default tenant and the global namespace. Running it again changes nothing.
\<close>

theorem migrate_completes:
  assumes "old_schema s" and "sc_version s < 4"
  shows "\<exists>t. migrate s = Some t \<and> schema_complete t \<and> rows_extend s t \<and> migrate t = Some t"
  using assms by (rule migrate_facts)

definition schema_v2 :: schema where
  "schema_v2 = \<lparr> sc_version = 2, sc_columns = Some base_columns,
     sc_rows = [map (\<lambda>c. (c, c)) base_columns], sc_tables = [''entity''], sc_indexes = [] \<rparr>"

lemma migrate_completes_witness:
  "\<exists>t. migrate schema_v2 = Some t \<and> schema_complete t \<and> rows_extend schema_v2 t \<and> migrate t = Some t"
  by (rule migrate_completes) (simp_all add: schema_v2_def old_schema_def base_columns_def)

end
