(* ===== verification/Codec.thy ===== *)
theory Codec
  imports Persist
begin

text \<open>
  How a memory item is written to a row and read back: \<open>encrypt_field\<close>, \<open>decrypt_field\<close> and the
  key selection of \<open>fm-persist/src/crypto.rs\<close>, the bound parameters of \<open>put_memory\<close> and
  \<open>row_to_memory\<close> of \<open>store.rs\<close>.

  AES-GCM, base64, argon2, the UTF-8 decoder and serde_json are the fields of the record
  \<open>codec_lib\<close>; what the code relies on is the predicate \<open>codec_lib_ok\<close> (decryption with the same
  key and nonce inverts encryption, base64 decoding inverts encoding) and, for one item, that
  its entity list is parsed back from the JSON it is printed to.
\<close>

section \<open>Encryption of a field\<close>

record codec_lib =
  cl_aes_encrypt :: "string \<Rightarrow> string \<Rightarrow> string \<Rightarrow> string option"
  cl_aes_decrypt :: "string \<Rightarrow> string \<Rightarrow> string \<Rightarrow> string option"
  cl_b64_encode :: "string \<Rightarrow> string"
  cl_b64_decode :: "string \<Rightarrow> string option"
  cl_utf8_lossy :: "string \<Rightarrow> string"
  cl_entities_text :: "entity_node list \<Rightarrow> string"
  cl_entities_parse :: "string \<Rightarrow> entity_node list option"

definition codec_lib_ok :: "codec_lib \<Rightarrow> bool" where
  "codec_lib_ok L =
     ((\<forall>k n p c. cl_aes_encrypt L k n p = Some c \<longrightarrow> cl_aes_decrypt L k n c = Some p)
      \<and> (\<forall>b. cl_b64_decode L (cl_b64_encode L b) = Some b))"

definition ENC_PREFIX :: string where
  "ENC_PREFIX = ''enc:v1:''"

definition KEY_LEN :: nat where
  "KEY_LEN = 32"

definition encrypt :: "codec_lib \<Rightarrow> string \<Rightarrow> string \<Rightarrow> string \<Rightarrow> persist_error + string" where
  "encrypt L key nonce plain =
     (case cl_aes_encrypt L key nonce plain of
        None \<Rightarrow> Inl (PEncrypt ''aes encrypt: aead::Error'')
      | Some ct \<Rightarrow> Inr (ENC_PREFIX @ cl_b64_encode L (nonce @ ct)))"

definition decrypt :: "codec_lib \<Rightarrow> string \<Rightarrow> string \<Rightarrow> string" where
  "decrypt L key stored =
     (if \<not> starts_with ENC_PREFIX stored then stored
      else case cl_b64_decode L (drop (length ENC_PREFIX) stored) of
             None \<Rightarrow> stored
           | Some blob \<Rightarrow>
               if length blob < 12 then stored
               else case cl_aes_decrypt L key (take 12 blob) (drop 12 blob) of
                      None \<Rightarrow> stored
                    | Some pt \<Rightarrow> cl_utf8_lossy L pt)"

definition decrypt_field :: "codec_lib \<Rightarrow> string option \<Rightarrow> string \<Rightarrow> string" where
  "decrypt_field L cipher stored =
     (case cipher of Some k \<Rightarrow> decrypt L k stored | None \<Rightarrow> stored)"

definition encrypt_field ::
  "codec_lib \<Rightarrow> string option \<Rightarrow> string \<Rightarrow> string \<Rightarrow> persist_error + string" where
  "encrypt_field L cipher nonce plain =
     (case cipher of Some k \<Rightarrow> encrypt L k nonce plain | None \<Rightarrow> Inr plain)"

text \<open>
  The key: a file named by the environment must hold exactly 32 bytes; otherwise a passphrase
  goes through argon2; otherwise there is no encryption. \<open>read\<close> and \<open>argon\<close> are the file
  system and the key derivation.
\<close>

definition cipher_from_env ::
  "(string \<Rightarrow> string option) \<Rightarrow> (string \<Rightarrow> string + string) \<Rightarrow> (string \<Rightarrow> string + string)
     \<Rightarrow> persist_error + string option" where
  "cipher_from_env env read argon =
     (case env ''FUSION_MEMORY_ENC_KEY_FILE'' of
        Some path \<Rightarrow>
          (case read path of
             Inl e \<Rightarrow> Inl (PEncrypt (''read key file '' @ path @ '': '' @ e))
           | Inr raw \<Rightarrow>
               if length raw \<noteq> KEY_LEN
               then Inl (PEncrypt (''key file '' @ path @ '' must be 32 bytes, got ''
                                   @ show_nat (length raw)))
               else Inr (Some raw))
      | None \<Rightarrow>
          (case env ''FUSION_MEMORY_ENC_PASSPHRASE'' of
             Some pass \<Rightarrow>
               (case argon pass of
                  Inl e \<Rightarrow> Inl (PEncrypt (''argon2 derive: '' @ e))
                | Inr key \<Rightarrow> Inr (Some key))
           | None \<Rightarrow> Inr None))"

lemma cipher_key_file_length:
  "\<lbrakk> cipher_from_env env read argon = Inr (Some k); env ''FUSION_MEMORY_ENC_KEY_FILE'' \<noteq> None \<rbrakk>
     \<Longrightarrow> length k = 32"
  by (auto simp: cipher_from_env_def KEY_LEN_def split: option.splits sum.splits if_splits)

lemma decrypt_encrypt:
  assumes "codec_lib_ok L" and "encrypt L k n p = Inr c" and "length n = 12"
    and "cl_utf8_lossy L p = p"
  shows "decrypt L k c = p"
proof -
  obtain ct where ct: "cl_aes_encrypt L k n p = Some ct"
    and c: "c = ENC_PREFIX @ cl_b64_encode L (n @ ct)"
    using assms(2) by (auto simp: encrypt_def split: option.splits)
  have "cl_aes_decrypt L k n ct = Some p" "cl_b64_decode L (cl_b64_encode L (n @ ct)) = Some (n @ ct)"
    using assms(1) ct by (auto simp: codec_lib_ok_def)
  with assms(3,4) c show ?thesis
    by (simp add: decrypt_def starts_with_def)
qed

lemma decrypt_field_encrypt:
  "\<lbrakk> codec_lib_ok L; encrypt_field L ck n p = Inr c; length n = 12; cl_utf8_lossy L p = p \<rbrakk>
     \<Longrightarrow> decrypt_field L ck c = p"
  by (auto simp: encrypt_field_def decrypt_field_def decrypt_encrypt split: option.splits)

lemma decrypt_plain [simp]: "\<not> starts_with ENC_PREFIX s \<Longrightarrow> decrypt_field L ck s = s"
  by (simp add: decrypt_field_def decrypt_def split: option.splits)

section \<open>Rows\<close>

record raw_row =
  rw_id :: string
  rw_interaction :: string
  rw_turn_idx :: int
  rw_session :: string
  rw_tenant :: "string option"
  rw_type :: string
  rw_tier :: string
  rw_content :: string
  rw_vector_ref :: string
  rw_weight :: real
  rw_access_count :: int
  rw_last_accessed :: int
  rw_created :: int
  rw_provenance :: "string option"
  rw_tombstone :: int
  rw_pending :: int
  rw_entities :: string
  rw_ns :: "string option"
  rw_ns_key :: "string option"

text \<open>The parameters that \<open>put_memory\<close> and \<open>put_memory_with_wop\<close> bind; one nonce per encryption.\<close>

definition memory_to_row ::
  "codec_lib \<Rightarrow> string option \<Rightarrow> string \<Rightarrow> string \<Rightarrow> memory_item \<Rightarrow> persist_error + raw_row" where
  "memory_to_row L ck nonce1 nonce2 m =
     bind_res (encrypt_field L ck nonce1 (mi_content m)) (\<lambda>content.
     bind_res (encrypt_field L ck nonce2 (cl_entities_text L (mi_entities m))) (\<lambda>ents.
     Inr \<lparr> rw_id = mi_id m, rw_interaction = mi_interaction m, rw_turn_idx = int (mi_turn_idx m),
           rw_session = mi_session m, rw_tenant = Some (mi_tenant m),
           rw_type = memory_type_as_str (mi_type m), rw_tier = memory_tier_as_str (mi_tier m),
           rw_content = content, rw_vector_ref = mi_vector_ref m, rw_weight = mi_weight m,
           rw_access_count = u64_as_i64 (mi_access_count m),
           rw_last_accessed = u64_as_i64 (mi_last_accessed m),
           rw_created = u64_as_i64 (mi_created m), rw_provenance = mi_provenance m,
           rw_tombstone = (if mi_tombstone m then 1 else 0),
           rw_pending = (if mi_entities_pending m then 1 else 0),
           rw_entities = ents, rw_ns = Some (mi_ns m), rw_ns_key = Some (mi_ns_key m) \<rparr>))"

text \<open>
  Reading: a \<open>None\<close> tenant or namespace is a column that is missing or of another type
  (\<open>unwrap_or_default\<close>); unknown type and tier texts and entity JSON that does not parse
  degrade to \<open>Episodic\<close>, \<open>Short\<close> and no entities.
\<close>

definition row_to_memory :: "codec_lib \<Rightarrow> string option \<Rightarrow> raw_row \<Rightarrow> memory_item" where
  "row_to_memory L ck r =
     \<lparr> mi_id = rw_id r, mi_interaction = rw_interaction r,
       mi_turn_idx = i64_as_u32 (rw_turn_idx r), mi_session = rw_session r,
       mi_tenant = (case rw_tenant r of Some t \<Rightarrow> t | None \<Rightarrow> []),
       mi_ns = (case rw_ns r of Some t \<Rightarrow> t | None \<Rightarrow> []),
       mi_ns_key = (case rw_ns_key r of Some t \<Rightarrow> t | None \<Rightarrow> []),
       mi_type = (case memory_type_parse (rw_type r) of Some t \<Rightarrow> t | None \<Rightarrow> Episodic),
       mi_tier = (case memory_tier_parse (rw_tier r) of Some t \<Rightarrow> t | None \<Rightarrow> Short),
       mi_content = decrypt_field L ck (rw_content r),
       mi_entities = (case cl_entities_parse L (decrypt_field L ck (rw_entities r)) of
                        Some es \<Rightarrow> es | None \<Rightarrow> []),
       mi_vector_ref = rw_vector_ref r, mi_weight = rw_weight r,
       mi_access_count = i64_as_u64 (rw_access_count r),
       mi_last_accessed = i64_as_u64 (rw_last_accessed r),
       mi_created = i64_as_u64 (rw_created r), mi_provenance = rw_provenance r,
       mi_tombstone = (rw_tombstone r \<noteq> 0), mi_entities_pending = (rw_pending r \<noteq> 0) \<rparr>"

text \<open>
  The values the Rust types admit, with texts the UTF-8 decoder leaves alone and entities that
  JSON carries.
\<close>

definition item_in_range :: "codec_lib \<Rightarrow> memory_item \<Rightarrow> bool" where
  "item_in_range L m =
     (mi_turn_idx m < 2 ^ 32 \<and> mi_access_count m < 2 ^ 64 \<and> mi_last_accessed m < 2 ^ 64
      \<and> mi_created m < 2 ^ 64 \<and> cl_utf8_lossy L (mi_content m) = mi_content m
      \<and> cl_utf8_lossy L (cl_entities_text L (mi_entities m)) = cl_entities_text L (mi_entities m)
      \<and> cl_entities_parse L (cl_entities_text L (mi_entities m)) = Some (mi_entities m))"

text \<open>
  C32: every memory item survives storage. Whatever the key (or none), the row written for an
  item is read back as the same item: the two encrypted columns, the entity JSON, the texts of
  the enumerations and the \<open>u64\<close> values beyond \<open>i64::MAX\<close>, which are stored as negative
  integers.
\<close>

theorem row_roundtrip:
  assumes lib: "codec_lib_ok L" and range: "item_in_range L m"
    and nonce: "length n1 = 12" "length n2 = 12"
    and enc: "memory_to_row L ck n1 n2 m = Inr r"
  shows "row_to_memory L ck r = m"
proof -
  obtain c e where c: "encrypt_field L ck n1 (mi_content m) = Inr c"
    and e: "encrypt_field L ck n2 (cl_entities_text L (mi_entities m)) = Inr e"
    using enc by (auto simp: memory_to_row_def bind_res_eq_Inr)
  have "decrypt_field L ck c = mi_content m"
    "decrypt_field L ck e = cl_entities_text L (mi_entities m)"
    using decrypt_field_encrypt [OF lib c] decrypt_field_encrypt [OF lib e] range nonce
    by (auto simp: item_in_range_def)
  moreover have "cl_entities_parse L (cl_entities_text L (mi_entities m)) = Some (mi_entities m)"
    using range by (simp add: item_in_range_def)
  ultimately show ?thesis
    using enc c e range
    by (auto simp: memory_to_row_def row_to_memory_def item_in_range_def i64_as_u64_inverse
        i64_as_u32_inverse)
qed

text \<open>A library for the witness: the cipher reverses, base64 is the identity, one entity has a text.\<close>

definition demo_entity :: entity_node where
  "demo_entity = entity_node_new ''ent_rust'' ''Rust'' Tech"

definition demo_lib :: codec_lib where
  "demo_lib =
     \<lparr> cl_aes_encrypt = (\<lambda>k n p. Some (rev p)), cl_aes_decrypt = (\<lambda>k n c. Some (rev c)),
       cl_b64_encode = (\<lambda>b. b), cl_b64_decode = Some, cl_utf8_lossy = (\<lambda>b. b),
       cl_entities_text = (\<lambda>es. if es = [] then ''[]'' else ''[rust]''),
       cl_entities_parse = (\<lambda>s. if s = ''[]'' then Some [] else Some [demo_entity]) \<rparr>"

definition demo_item :: memory_item where
  "demo_item = (new_turn_skeleton ''m1'' ''ix'' 3 ''s'' ''t'' Procedural ''use Rust'' (2 ^ 64 - 1))
     \<lparr> mi_entities := [demo_entity], mi_tombstone := True \<rparr>"

definition demo_nonce :: string where
  "demo_nonce = replicate 12 (CHR ''n'')"

lemma row_roundtrip_witness:
  "\<exists>r. memory_to_row demo_lib (Some ''key'') demo_nonce demo_nonce demo_item = Inr r
     \<and> rw_content r \<noteq> ''use Rust'' \<and> row_to_memory demo_lib (Some ''key'') r = demo_item"
proof -
  have lib: "codec_lib_ok demo_lib" by (simp add: codec_lib_ok_def demo_lib_def)
  have range: "item_in_range demo_lib demo_item"
    by (simp add: item_in_range_def demo_lib_def demo_item_def new_turn_skeleton_def)
  have n: "length demo_nonce = 12" by (simp add: demo_nonce_def)
  obtain r where r: "memory_to_row demo_lib (Some ''key'') demo_nonce demo_nonce demo_item = Inr r"
    and c: "rw_content r \<noteq> ''use Rust''"
    by (simp add: memory_to_row_def encrypt_field_def encrypt_def demo_lib_def ENC_PREFIX_def
        demo_item_def)
  from row_roundtrip [OF lib range n n r] r c show ?thesis by blast
qed

end
