(* ===== verification/Opening.thy ===== *)
theory Opening
  imports Schema Codec
begin

text \<open>
  Opening and backing up the database (\<open>fm-persist/src/store.rs\<close>, \<open>Persist::open\<close>, \<open>init_conn\<close>
  and \<open>backup_sqlite\<close>). The pool opens its connections at the same time, and each of them runs
  the pragmas and the migration, one statement at a time and without a transaction. A connection
  is the statement it executes next; the pool is a list of connections over one file, and a run
  is any sequence of steps, failures and new attempts.
\<close>

section \<open>A connection\<close>

definition PRAGMA_WAL :: string where "PRAGMA_WAL = ''PRAGMA journal_mode=WAL''"

definition ALL_PRAGMAS :: "string list" where
  "ALL_PRAGMAS = [''PRAGMA busy_timeout=5000'', ''PRAGMA synchronous=NORMAL'', ''PRAGMA foreign_keys=ON'']"

datatype conn_pc =
    AtPragma "string list"
  | AtTable nat
  | AtLook "string list"
  | AtAlter string "string list"
  | AtDdl "ddl list"
  | Ready
  | Broken

definition conn_start :: conn_pc where "conn_start = AtPragma (PRAGMA_WAL # ALL_PRAGMAS)"

text \<open>The columns that a file of an older version may lack.\<close>

definition new_columns :: "nat \<Rightarrow> string list" where
  "new_columns from_version =
     (if from_version < 3 then [''tenant''] else [])
     @ (if from_version < 4 then [''namespace'', ''namespace_key''] else [])"

text \<open>
  The next statement of a connection: a pragma, reading \<open>user_version\<close>, the item table, looking
  for a column, adding it, a statement of the DDL, writing \<open>user_version\<close>.
\<close>

fun conn_next :: "conn_pc \<Rightarrow> schema \<Rightarrow> schema \<times> conn_pc" where
  "conn_next (AtPragma (p # ps)) s = (s, AtPragma ps)"
| "conn_next (AtPragma []) s =
     (s, if sc_version s \<ge> SCHEMA_VERSION then Ready else AtTable (sc_version s))"
| "conn_next (AtTable v) s =
     (case exec_ddl CreateItemTable s of None \<Rightarrow> (s, Broken) | Some t \<Rightarrow> (t, AtLook (new_columns v)))"
| "conn_next (AtLook (c # cs)) s = (s, if has_column c s then AtLook cs else AtAlter c cs)"
| "conn_next (AtLook []) s = (s, AtDdl all_ddl)"
| "conn_next (AtAlter c cs) s =
     (case exec_ddl (AddColumn c) s of None \<Rightarrow> (s, Broken) | Some t \<Rightarrow> (t, AtLook cs))"
| "conn_next (AtDdl (x # xs)) s =
     (case exec_ddl x s of None \<Rightarrow> (s, Broken) | Some t \<Rightarrow> (t, AtDdl xs))"
| "conn_next (AtDdl []) s = (s\<lparr> sc_version := SCHEMA_VERSION \<rparr>, Ready)"
| "conn_next Ready s = (s, Ready)"
| "conn_next Broken s = (s, Broken)"

section \<open>The pool\<close>

datatype pool_event =
    Step nat
  | Fault nat
  | Retry nat

fun pool_step :: "pool_event \<Rightarrow> schema \<times> conn_pc list \<Rightarrow> schema \<times> conn_pc list" where
  "pool_step (Step i) (s, pcs) =
     (if i < length pcs then (case conn_next (pcs ! i) s of (t, pc) \<Rightarrow> (t, pcs[i := pc])) else (s, pcs))"
| "pool_step (Fault i) (s, pcs) =
     (s, if i < length pcs \<and> pcs ! i \<noteq> Ready then pcs[i := Broken] else pcs)"
| "pool_step (Retry i) (s, pcs) =
     (s, if i < length pcs \<and> pcs ! i = Broken then pcs[i := conn_start] else pcs)"

definition pool_run :: "pool_event list \<Rightarrow> schema \<times> conn_pc list \<Rightarrow> schema \<times> conn_pc list" where
  "pool_run es = fold pool_step es"

definition POOL_SIZE :: nat where "POOL_SIZE = 8"

text \<open>
  The pool is there when all its connections are (what happened until then is the parameter
  \<open>es\<close>); otherwise it gives up after its timeout, with the error \<open>gave_up\<close>. Then the key is read.
\<close>

record persist =
  ps_schema :: schema
  ps_cipher :: "string option"

definition persist_open ::
  "pool_event list \<Rightarrow> string \<Rightarrow> (persist_error + string option) \<Rightarrow> schema \<Rightarrow> schema \<times> (persist_error + persist)" where
  "persist_open es gave_up cipher s =
     (case pool_run es (s, replicate POOL_SIZE conn_start) of
        (t, pcs) \<Rightarrow>
          (t, if set pcs \<subseteq> {Ready}
              then bind_res cipher (\<lambda>k. Inr \<lparr> ps_schema = t, ps_cipher = k \<rparr>)
              else Inl (PPool gave_up)))"

section \<open>What a statement changes\<close>

text \<open>A file only grows: columns, tables and indexes are added, rows get empty cells.\<close>

definition grows :: "schema \<Rightarrow> schema \<Rightarrow> bool" where
  "grows s t =
     (rows_extend s t \<and> set (sc_tables s) \<subseteq> set (sc_tables t) \<and> set (sc_indexes s) \<subseteq> set (sc_indexes t)
      \<and> (\<forall>cs. sc_columns s = Some cs \<longrightarrow> (\<exists>ds. sc_columns t = Some (cs @ ds))))"

lemma grows_refl: "grows s s"
  by (auto simp: grows_def rows_extend_refl intro!: exI [of _ "[]"])

lemma grows_trans: "\<lbrakk> grows s t; grows t u \<rbrakk> \<Longrightarrow> grows s u"
  unfolding grows_def using rows_extend_trans by (metis append_assoc subset_trans)

lemma grows_column: "\<lbrakk> grows s t; has_column c s \<rbrakk> \<Longrightarrow> has_column c t"
  by (auto simp: grows_def has_column_def split: option.splits)

lemma grows_created: "\<lbrakk> grows s t; created x s \<rbrakk> \<Longrightarrow> created x t"
  by (cases x) (auto simp: grows_column, auto simp: grows_def)

lemma grows_same:
  "\<lbrakk> sc_rows t = sc_rows s; sc_columns s = None \<or> sc_columns t = sc_columns s;
     set (sc_tables s) \<subseteq> set (sc_tables t); set (sc_indexes s) \<subseteq> set (sc_indexes t) \<rbrakk> \<Longrightarrow> grows s t"
  by (auto simp: grows_def rows_extend_same intro: exI [of _ "[]"])

lemma exec_grows:
  assumes "exec_ddl x s = Some t"
  shows "grows s t \<and> created x t \<and> sc_version t = sc_version s"
proof (cases x)
  case (AddColumn c)
  with assms(1) obtain cs where cs: "sc_columns s = Some cs"
    "t = s\<lparr> sc_columns := Some (cs @ [c]), sc_rows := map (\<lambda>r. r @ [(c, [])]) (sc_rows s) \<rparr>"
    by (auto split: option.splits if_splits)
  have "rows_extend s t" unfolding rows_extend_def by (intro exI [of _ "[(c, [])]"]) (simp add: cs(2))
  with AddColumn cs show ?thesis by (simp add: grows_def has_column_def)
qed (use assms in \<open>auto simp: grows_refl intro!: grows_same split: option.splits if_splits\<close>)

text \<open>Every file that occurs is one an old version could have left.\<close>

lemma exec_old:
  assumes "exec_ddl x s = Some t" and "old_schema s"
  shows "old_schema t"
  using assms
  by (cases x) (auto simp: old_schema_def item_columns_def base_columns_def split: option.splits if_splits)

section \<open>The invariant of concurrent migrations\<close>

definition added_columns :: "string set" where "added_columns = {''tenant'', ''namespace'', ''namespace_key''}"

fun pc_ok :: "nat \<Rightarrow> schema \<Rightarrow> conn_pc \<Rightarrow> bool" where
  "pc_ok v s (AtTable u) = (u = v)"
| "pc_ok v s (AtLook cs) = (sc_columns s \<noteq> None \<and> (\<forall>c \<in> added_columns. c \<in> set cs \<or> has_column c s))"
| "pc_ok v s (AtAlter c cs) = (sc_columns s \<noteq> None \<and> (\<forall>d \<in> added_columns. d = c \<or> d \<in> set cs \<or> has_column d s))"
| "pc_ok v s (AtDdl xs) =
     ((\<forall>c \<in> added_columns. has_column c s) \<and> (\<exists>ys. all_ddl = ys @ xs \<and> (\<forall>y \<in> set ys. created y s)))"
| "pc_ok v s Ready = schema_complete s"
| "pc_ok v s _ = True"

text \<open>The file: of the old version \<open>v\<close>, or complete.\<close>

definition file_ok :: "nat \<Rightarrow> schema \<Rightarrow> schema \<Rightarrow> bool" where
  "file_ok v s0 s =
     (old_schema s \<and> grows s0 s \<and> (sc_version s = v \<or> schema_complete s)
      \<and> (v = 3 \<longrightarrow> sc_columns s = None \<or> has_column ''tenant'' s))"

lemma complete_grows:
  "\<lbrakk> schema_complete s; grows s t; sc_version t = sc_version s \<rbrakk> \<Longrightarrow> schema_complete t"
  by (auto simp: schema_complete_def grows_column grows_created)

text \<open>What another connection does keeps what a connection relies on.\<close>

lemma pc_ok_grows:
  assumes "pc_ok v s pc" and "grows s t" and "schema_complete s \<Longrightarrow> schema_complete t"
  shows "pc_ok v t pc"
  using assms grows_column [OF assms(2)] grows_created [OF assms(2)]
  by (cases pc) (auto simp: grows_def split: option.splits)

lemma item_columns_added: "added_columns \<subseteq> set item_columns"
  by (simp add: added_columns_def item_columns_def)

lemma file_ok_exec:
  assumes "file_ok v s0 s" and "exec_ddl x s = Some t"
  shows "file_ok v s0 t \<and> grows s t \<and> created x t \<and> sc_version t = sc_version s"
proof -
  have old: "old_schema s" using assms(1) by (simp add: file_ok_def)
  note g = exec_grows [OF assms(2)]
  have "sc_columns t = None \<or> has_column ''tenant'' t" if "sc_columns s = None \<or> has_column ''tenant'' s"
  proof (cases "sc_columns s = None")
    case True
    with assms(2) show ?thesis
      by (cases x) (auto simp: has_column_def item_columns_def split: if_splits)
  next
    case False
    with that have "has_column ''tenant'' s" by simp
    then show ?thesis using grows_column [of s t] g by simp
  qed
  then show ?thesis
    using assms(1) g exec_old [OF assms(2) old] complete_grows [of s t] grows_trans [of s0 s t]
    by (auto simp: file_ok_def)
qed

lemma conn_next_ok:
  assumes f: "file_ok v s0 s" and p: "pc_ok v s pc" and v: "v < 4" and run: "conn_next pc s = (t, pc')"
  shows "file_ok v s0 t \<and> pc_ok v t pc' \<and> grows s t \<and> (schema_complete s \<longrightarrow> schema_complete t)"
proof -
  have step: "file_ok v s0 u \<and> grows s u \<and> created x u \<and> (schema_complete s \<longrightarrow> schema_complete u)"
    if "exec_ddl x s = Some u" for x u
    using file_ok_exec [OF f that] complete_grows by blast
  show ?thesis
  proof (cases pc)
    case (AtPragma ps)
    then show ?thesis
      using run f v by (cases ps) (auto simp: file_ok_def grows_refl schema_complete_def SCHEMA_VERSION_def)
  next
    case (AtTable u)
    then obtain t' where t: "exec_ddl CreateItemTable s = Some t'" "t = t'" "pc' = AtLook (new_columns v)"
      using run p by (auto split: option.splits)
    have "sc_columns t \<noteq> None" using step [OF t(1)] t(2) by simp
    moreover have "v = 3 \<longrightarrow> has_column ''tenant'' t"
      using step [OF t(1)] t(2) calculation by (auto simp: file_ok_def)
    ultimately have "pc_ok v t pc'" using v t(3) by (auto simp: new_columns_def added_columns_def)
    then show ?thesis using step [OF t(1)] t(2) by blast
  next
    case (AtLook cs)
    show ?thesis
    proof (cases cs)
      case Nil
      then show ?thesis using AtLook run f p by (auto simp: grows_refl)
    next
      case (Cons c rest)
      then show ?thesis using AtLook run f p by (auto simp: grows_refl)
    qed
  next
    case (AtAlter c cs)
    show ?thesis
    proof (cases "exec_ddl (AddColumn c) s")
      case None
      then show ?thesis using AtAlter run f by (auto simp: grows_refl simp del: exec_ddl.simps)
    next
      case (Some u)
      note u = step [OF Some]
      have "pc_ok v u (AtLook cs)"
        using p AtAlter u grows_column [of s u] by (auto simp: grows_def has_column_def)
      then show ?thesis using u AtAlter run Some by (auto simp del: exec_ddl.simps)
    qed
  next
    case (AtDdl xs)
    show ?thesis
    proof (cases xs)
      case Nil
      then have "schema_complete t" using AtDdl run p by (auto simp: schema_complete_def added_columns_def has_column_def)
      moreover have "grows s t" using Nil AtDdl run by (auto simp: grows_def rows_extend_same)
      moreover have "old_schema t" using Nil AtDdl run f
        by (auto simp: file_ok_def old_schema_def SCHEMA_VERSION_def split: option.splits)
      ultimately show ?thesis
        using Nil AtDdl run f grows_trans [of s0 s t] by (auto simp: file_ok_def has_column_def)
    next
      case (Cons x rest)
      show ?thesis
      proof (cases "exec_ddl x s")
        case None
        then show ?thesis using AtDdl Cons run f by (simp add: grows_refl)
      next
        case (Some u)
        note u = step [OF Some]
        obtain ys where ys: "all_ddl = ys @ x # rest" "\<forall>y \<in> set ys. created y s" "\<forall>c \<in> added_columns. has_column c s"
          using p AtDdl Cons by auto
        have "all_ddl = (ys @ [x]) @ rest \<and> (\<forall>y \<in> set (ys @ [x]). created y u)"
          using ys u grows_created [of s u] by auto
        then have "pc_ok v u (AtDdl rest)" using ys(3) u grows_column [of s u] by (simp only: pc_ok.simps) blast
        then show ?thesis using u AtDdl Cons run Some by (auto simp del: exec_ddl.simps pc_ok.simps)
      qed
    qed
  qed (use run f p in \<open>auto simp: grows_refl\<close>)
qed

definition pool_ok :: "nat \<Rightarrow> schema \<Rightarrow> schema \<times> conn_pc list \<Rightarrow> bool" where
  "pool_ok v s0 p = (file_ok v s0 (fst p) \<and> (\<forall>pc \<in> set (snd p). pc_ok v (fst p) pc))"

lemma pool_step_ok:
  assumes "pool_ok v s0 (s, pcs)" and "v < 4"
  shows "pool_ok v s0 (pool_step e (s, pcs))"
proof (cases e)
  case (Step i)
  show ?thesis
  proof (cases "i < length pcs")
    case True
    obtain t pc where n: "conn_next (pcs ! i) s = (t, pc)" by fastforce
    have f: "file_ok v s0 s" and p: "\<forall>q \<in> set pcs. pc_ok v s q" using assms(1) by (auto simp: pool_ok_def)
    have "pc_ok v s (pcs ! i)" using p True by simp
    note ok = conn_next_ok [OF f this assms(2) n]
    have "pc_ok v t q" if "q \<in> set (pcs[i := pc])" for q
    proof (cases "q = pc")
      case False
      then have "q \<in> set pcs" using that set_update_subset_insert by fastforce
      then show ?thesis using pc_ok_grows [of v s q t] p ok by blast
    qed (use ok in simp)
    then show ?thesis using ok Step True n by (simp add: pool_ok_def)
  qed (use Step assms in simp)
next
  case (Fault i)
  have "pc_ok v s q" if "q \<in> set (pcs[i := Broken])" for q
    using that assms(1) set_update_subset_insert [of pcs i Broken] by (auto simp: pool_ok_def)
  then show ?thesis using assms(1) Fault by (simp add: pool_ok_def)
next
  case (Retry i)
  have "pc_ok v s q" if "q \<in> set (pcs[i := conn_start])" for q
    using that assms(1) set_update_subset_insert [of pcs i conn_start]
    by (auto simp: pool_ok_def conn_start_def)
  then show ?thesis using assms(1) Retry by (simp add: pool_ok_def)
qed

lemma pool_run_ok: "\<lbrakk> pool_ok v s0 p; v < 4 \<rbrakk> \<Longrightarrow> pool_ok v s0 (pool_run es p)"
proof (induction es arbitrary: p)
  case (Cons e es)
  have "pool_ok v s0 (pool_step e p)" using pool_step_ok [of v s0 "fst p" "snd p" e] Cons.prems by simp
  from Cons.IH [OF this Cons.prems(2)] show ?case by (simp add: pool_run_def)
qed (simp add: pool_run_def)

lemma pool_start_ok:
  assumes "old_schema s0" and "sc_version s0 < 4"
  shows "pool_ok (sc_version s0) s0 (s0, replicate n conn_start)"
  using assms
  by (auto simp: pool_ok_def file_ok_def conn_start_def grows_refl old_schema_def has_column_def
      split: option.splits)

section \<open>A connection that is left alone\<close>

fun conn_run :: "nat \<Rightarrow> conn_pc \<Rightarrow> schema \<Rightarrow> schema \<times> conn_pc" where
  "conn_run 0 pc s = (s, pc)"
| "conn_run (Suc n) pc s = (case conn_next pc s of (t, pc') \<Rightarrow> conn_run n pc' t)"

lemma conn_run_add: "conn_run (m + n) pc s = (case conn_run m pc s of (t, pc') \<Rightarrow> conn_run n pc' t)"
  by (induction m arbitrary: pc s) (simp_all split: prod.split)

lemma conn_run_ready [simp]: "conn_run n Ready s = (s, Ready)"
  by (induction n) simp_all

lemma conn_run_longer:
  assumes "conn_run n pc s = (t, Ready)" and "n \<le> m"
  shows "conn_run m pc s = (t, Ready)"
  using conn_run_add [of n "m - n" pc s] assms by simp

lemma run_ddl: "exec_all xs s = Some t \<Longrightarrow> conn_run (length xs) (AtDdl xs) s = (t, AtDdl [])"
  by (induction xs arbitrary: s) (auto split: Option.bind_splits option.splits)

lemma run_column:
  assumes "ensure_column c s = Some t"
  obtains n where "n \<le> 2" "conn_run n (AtLook (c # cs)) s = (t, AtLook cs)"
proof (cases "has_column c s")
  case True
  with assms that [of 1] show thesis by (simp add: ensure_column_def)
next
  case False
  with assms that [of 2] show thesis by (simp add: ensure_column_def numeral_2_eq_2)
qed

text \<open>The steps of a single connection are those of \<open>migrate\<close>.\<close>

lemma run_migrate:
  assumes "migrate s = Some t"
  shows "conn_run 31 conn_start s = (t, Ready)"
proof (cases "sc_version s \<ge> SCHEMA_VERSION")
  case True
  then have "conn_run 5 conn_start s = (t, Ready)"
    using assms by (simp add: conn_start_def ALL_PRAGMAS_def migrate_def eval_nat_numeral)
  then show ?thesis by (rule conn_run_longer) simp
next
  case False
  let ?v = "sc_version s"
  obtain s1 s2 s3 s4 where m: "exec_ddl CreateItemTable s = Some s1"
    "(if ?v < 3 then ensure_column ''tenant'' s1 else Some s1) = Some s2"
    "(if ?v < 4 then Option.bind (ensure_column ''namespace'' s2) (ensure_column ''namespace_key'') else Some s2) = Some s3"
    "exec_all all_ddl s3 = Some s4" "t = s4\<lparr> sc_version := SCHEMA_VERSION \<rparr>"
    using assms False by (auto simp: migrate_def Let_def bind_eq_Some_conv)
  have v: "?v < 4" using False by (simp add: SCHEMA_VERSION_def)
  obtain a where a: "a \<le> 2" "conn_run a (AtLook (new_columns ?v)) s1 = (s2, AtLook [''namespace'', ''namespace_key''])"
  proof (cases "?v < 3")
    case True
    with m(2) run_column [of "''tenant''" s1 s2 "[''namespace'', ''namespace_key'']"] that show thesis
      by (auto simp: new_columns_def)
  next
    case False
    with m(2) v that [of 0] show thesis by (simp add: new_columns_def)
  qed
  obtain s2' where s2': "ensure_column ''namespace'' s2 = Some s2'" "ensure_column ''namespace_key'' s2' = Some s3"
    using m(3) v by (auto simp: bind_eq_Some_conv)
  obtain b where b: "b \<le> 2" "conn_run b (AtLook [''namespace'', ''namespace_key'']) s2 = (s2', AtLook [''namespace_key''])"
    using run_column [OF s2'(1)] by blast
  obtain c where c: "c \<le> 2" "conn_run c (AtLook [''namespace_key'']) s2' = (s3, AtLook [])"
    using run_column [OF s2'(2)] by blast
  have h: "conn_run 6 conn_start s = (s1, AtLook (new_columns ?v))"
    using False m(1) by (simp add: conn_start_def ALL_PRAGMAS_def eval_nat_numeral)
  have d: "conn_run 1 (AtLook []) s3 = (s3, AtDdl all_ddl)" by simp
  have e: "conn_run (length all_ddl) (AtDdl all_ddl) s3 = (s4, AtDdl [])" by (rule run_ddl [OF m(4)])
  have f: "conn_run 1 (AtDdl []) s4 = (t, Ready)" by (simp add: m(5))
  have "conn_run (6 + (a + (b + (c + (1 + (length all_ddl + 1)))))) conn_start s = (t, Ready)"
    by (simp only: conn_run_add h a(2) b(2) c(2) d e f prod.case)
  then show ?thesis
    by (rule conn_run_longer) (use a(1) b(1) c(1) in \<open>simp add: all_ddl_def\<close>)
qed

text \<open>
  C25: The connections of the pool migrate the file at the same time. However their statements
  interleave, whatever fails and however often a connection is tried again: no row is lost and
  every row keeps its cells; as soon as the file says version 4, or one connection is ready, the
  schema is complete; and at any time an attempt that runs undisturbed succeeds, in 31 steps.
\<close>

theorem concurrent_migration_safe:
  assumes "old_schema s0" and "sc_version s0 < 4"
    and "pool_run es (s0, replicate n conn_start) = (s, pcs)"
  shows "rows_extend s0 s \<and> (sc_version s = 4 \<longrightarrow> schema_complete s) \<and> (Ready \<in> set pcs \<longrightarrow> schema_complete s)
    \<and> (\<exists>t. conn_run 31 conn_start s = (t, Ready) \<and> schema_complete t \<and> rows_extend s0 t)"
proof -
  have ok: "pool_ok (sc_version s0) s0 (s, pcs)"
    using pool_run_ok [OF pool_start_ok [OF assms(1,2), of n] assms(2), of es] assms(3) by simp
  then have f: "old_schema s" "rows_extend s0 s" "sc_version s < 4 \<or> schema_complete s"
    using assms(2) by (auto simp: pool_ok_def file_ok_def grows_def)
  have "\<exists>t. conn_run 31 conn_start s = (t, Ready) \<and> schema_complete t \<and> rows_extend s t"
  proof (cases "schema_complete s")
    case True
    then have "migrate s = Some s" by (simp add: migrate_def schema_complete_def)
    with True show ?thesis using run_migrate rows_extend_refl by blast
  next
    case False
    then obtain t where "migrate s = Some t" "schema_complete t" "rows_extend s t"
      using migrate_facts [OF f(1)] f(3) by blast
    then show ?thesis using run_migrate by blast
  qed
  moreover have "sc_version s = 4 \<longrightarrow> schema_complete s" using f(3) by auto
  moreover have "Ready \<in> set pcs \<longrightarrow> schema_complete s" using ok by (fastforce simp: pool_ok_def)
  ultimately show ?thesis using f(2) rows_extend_trans by blast
qed

text \<open>
  A race: two connections both find that the tenant column is missing, the second one to add it
  fails. (The pool tries it again.)
\<close>

definition race :: "pool_event list" where
  "race = replicate 7 (Step 0) @ replicate 7 (Step 1) @ [Step 0, Step 1]"

lemma race_breaks_connection: "snd (pool_run race (schema_v2, replicate 2 conn_start)) ! 1 = Broken"
  by code_simp

lemma concurrent_migration_witness:
  "\<exists>t. conn_run 31 conn_start (fst (pool_run race (schema_v2, replicate 2 conn_start))) = (t, Ready)
     \<and> schema_complete t \<and> rows_extend schema_v2 t"
proof -
  obtain s pcs where r: "pool_run race (schema_v2, replicate 2 conn_start) = (s, pcs)" by fastforce
  have "old_schema schema_v2" "sc_version schema_v2 < 4"
    by (simp_all add: schema_v2_def old_schema_def base_columns_def)
  from concurrent_migration_safe [OF this r] r show ?thesis by simp
qed

text \<open>So a file that was opened is complete, and its rows are those it had.\<close>

lemma opened_complete:
  assumes "persist_open es e k s = (t, Inr p)" and "old_schema s" and "sc_version s < 4"
  shows "ps_schema p = t \<and> schema_complete t \<and> rows_extend s t"
proof -
  obtain pcs where r: "pool_run es (s, replicate POOL_SIZE conn_start) = (t, pcs)"
    and ready: "set pcs \<subseteq> {Ready}" and p: "ps_schema p = t"
    using assms(1) by (auto simp: persist_open_def bind_res_eq_Inr split: prod.splits if_splits)
  have ok: "pool_ok (sc_version s) s (t, pcs)"
    using pool_run_ok [OF pool_start_ok [OF assms(2,3), of POOL_SIZE] assms(3), of es] r by simp
  have "length (snd (pool_run es q)) = length (snd q)" for es q
  proof (induction es arbitrary: q)
    case (Cons x es)
    have "length (snd (pool_step x q)) = length (snd q)"
      by (cases q; cases x) (simp_all split: prod.split)
    with Cons [of "pool_step x q"] show ?case by (simp add: pool_run_def)
  qed (simp add: pool_run_def)
  from this [of es "(s, replicate POOL_SIZE conn_start)"] have "length pcs = 8" using r by (simp add: POOL_SIZE_def)
  then have "Ready \<in> set pcs" using ready by (cases pcs) auto
  with ok have "schema_complete t" by (fastforce simp: pool_ok_def)
  then show ?thesis using ok p by (simp add: pool_ok_def file_ok_def grows_def)
qed

section \<open>Backup\<close>

text \<open>The target is put into the statement as a string literal, with its quotes doubled.\<close>

definition quote_char :: char where "quote_char = CHR 0x27"

definition double_quotes :: "string \<Rightarrow> string" where
  "double_quotes p = concat (map (\<lambda>c. if c = quote_char then [quote_char, quote_char] else [c]) p)"

definition vacuum_into :: "string \<Rightarrow> string" where
  "vacuum_into p = ''VACUUM INTO '' @ [quote_char] @ double_quotes p @ [quote_char]"

record backup_host =
  bh_exists :: "string \<Rightarrow> bool"
  bh_conn :: "string + unit"
  bh_utf8 :: "string \<Rightarrow> bool"
  bh_exec :: "string \<Rightarrow> persist_error + unit"
  bh_size :: "string \<Rightarrow> nat option"

definition backup_sqlite :: "backup_host \<Rightarrow> string \<Rightarrow> persist_error + nat" where
  "backup_sqlite h dest =
     (if bh_exists h dest
      then Inl (PIo (''backup target already exists: '' @ dest @ '' (refusing overwrite)''))
      else bind_res (map_err PPool (bh_conn h)) (\<lambda>_.
           if \<not> bh_utf8 h dest then Inl (PIo ''backup path not utf-8'')
           else bind_res (bh_exec h (vacuum_into dest)) (\<lambda>_.
             Inr (case bh_size h dest of Some n \<Rightarrow> n | None \<Rightarrow> 0))))"

text \<open>How SQLite reads a string literal, after its first quote: the text, and what follows.\<close>

fun sql_literal :: "string \<Rightarrow> (string \<times> string) option" where
  "sql_literal [] = None"
| "sql_literal (c # cs) =
     (if c \<noteq> quote_char then map_option (apfst ((#) c)) (sql_literal cs)
      else case cs of
             d # ds \<Rightarrow> if d = quote_char then map_option (apfst ((#) c)) (sql_literal ds) else Some ([], cs)
           | [] \<Rightarrow> Some ([], []))"

text \<open>No path ends the literal: SQLite reads exactly the path, and nothing follows it.\<close>

lemma vacuum_into_literal: "sql_literal (double_quotes p @ [quote_char]) = Some (p, [])"
  by (induction p) (simp_all add: double_quotes_def)

lemma backup_never_overwrites:
  "bh_exists h dest \<Longrightarrow> \<exists>e. backup_sqlite h dest = Inl (PIo e)"
  by (simp add: backup_sqlite_def)

end
