(* ===== verification/Rpc.thy ===== *)
theory Rpc
  imports Saga
begin

text \<open>
  The JSON-RPC interface of \<open>fm-server\<close> (\<open>jsonrpc.rs\<close>), which HTTP and the Unix socket share:
  requests, responses, error codes, the decoding of parameters, one handler per method and the
  dispatch.

  \<open>serde\<close> is another crate. What its derived readers need is a parameter (\<open>rpc_codec\<close>): the
  fields of a value read as a struct, the readers of the basic types, the texts of its errors,
  and the writers of results. Which fields a method has, which are required and which defaults
  the others have is written out here, as the attributes of the source say.
\<close>

section \<open>Requests and responses\<close>

record rpc_request =
  rq_jsonrpc :: string
  rq_method :: string
  rq_params :: json
  rq_id :: json

record rpc_error =
  re_code :: int
  re_message :: string

record rpc_response =
  rs_jsonrpc :: string
  rs_result :: "json option"
  rs_error :: "rpc_error option"
  rs_id :: json

definition err_parse :: rpc_error where "err_parse = \<lparr> re_code = -32700, re_message = ''parse error'' \<rparr>"
definition err_invalid_request :: "string \<Rightarrow> rpc_error" where
  "err_invalid_request m = \<lparr> re_code = -32600, re_message = m \<rparr>"
definition err_method_not_found :: "string \<Rightarrow> rpc_error" where
  "err_method_not_found m = \<lparr> re_code = -32601, re_message = ''method not found: '' @ m \<rparr>"
definition err_invalid_params :: "string \<Rightarrow> rpc_error" where
  "err_invalid_params m = \<lparr> re_code = -32602, re_message = m \<rparr>"
definition err_internal :: "string \<Rightarrow> rpc_error" where
  "err_internal m = \<lparr> re_code = -32603, re_message = m \<rparr>"
definition err_not_found :: "string \<Rightarrow> rpc_error" where
  "err_not_found m = \<lparr> re_code = -32001, re_message = m \<rparr>"
definition err_poisoned :: "string \<Rightarrow> rpc_error" where
  "err_poisoned m = \<lparr> re_code = -32002, re_message = m \<rparr>"
definition err_busy :: "string \<Rightarrow> rpc_error" where
  "err_busy m = \<lparr> re_code = -32003, re_message = m \<rparr>"
definition err_unauthorized :: rpc_error where
  "err_unauthorized = \<lparr> re_code = -32004, re_message = ''unauthorized'' \<rparr>"

lemmas rpc_error_defs =
  err_parse_def err_invalid_request_def err_method_not_found_def err_invalid_params_def err_internal_def
  err_not_found_def err_poisoned_def err_busy_def err_unauthorized_def

definition from_engine :: "memory_error \<Rightarrow> rpc_error" where
  "from_engine e =
     (if is_not_found e then err_not_found (err_display e)
      else if e = EPoisoned then err_poisoned (err_display e)
      else if retryable e then err_busy (err_display e)
      else err_internal (err_display e))"

definition http_status_for_error :: "int \<Rightarrow> nat" where
  "http_status_for_error code =
     (if code = -32700 \<or> code = -32600 \<or> code = -32601 \<or> code = -32602 then 400
      else if code = -32001 then 404
      else if code = -32002 \<or> code = -32003 then 503
      else 500)"

definition API_VERSION :: nat where "API_VERSION = 1"

section \<open>The codec\<close>

type_synonym fields = "string \<Rightarrow> json option"

record rpc_codec =
  rc_fields :: "string list \<Rightarrow> json \<Rightarrow> fields option"
  rc_str :: "json \<Rightarrow> string option"
  rc_opt_str :: "json \<Rightarrow> string option option"
  rc_uint :: "json \<Rightarrow> nat option"
  rc_bool :: "json \<Rightarrow> bool option"
  rc_strs :: "json \<Rightarrow> string list option"
  rc_interaction :: "json \<Rightarrow> interaction option"
  rc_error :: "string \<Rightarrow> json \<Rightarrow> string"
  rc_debug :: "string \<Rightarrow> string"
  wc_outcome :: "commit_outcome \<Rightarrow> string + json"
  wc_context :: "formatted_context \<Rightarrow> string + json"
  wc_report :: "consolidation_report \<Rightarrow> string + json"
  wc_item :: "memory_item option \<Rightarrow> string + json"
  wc_items :: "memory_item list \<Rightarrow> string + json"
  wc_audit :: "audit_entry list \<Rightarrow> string + json"
  wc_merges :: "merge_entry list \<Rightarrow> string + json"
  wc_response :: "rpc_response \<Rightarrow> string + string"
  rc_line :: "string \<Rightarrow> rpc_request option"

text \<open>A field is required, or has a default when it is missing; a wrong type is an error.\<close>

definition required :: "(json \<Rightarrow> 'a option) \<Rightarrow> string \<Rightarrow> fields \<Rightarrow> 'a option" where
  "required rd k fs = Option.bind (fs k) rd"

definition defaulted :: "'a \<Rightarrow> (json \<Rightarrow> 'a option) \<Rightarrow> string \<Rightarrow> fields \<Rightarrow> 'a option" where
  "defaulted d rd k fs = (case fs k of None \<Rightarrow> Some d | Some v \<Rightarrow> rd v)"

definition decoded :: "rpc_codec \<Rightarrow> string \<Rightarrow> json \<Rightarrow> 'p option \<Rightarrow> rpc_error + 'p" where
  "decoded rc name v p = ok_or (err_invalid_params (rc_error rc name v)) p"

definition rd_rpc_request :: "rpc_codec \<Rightarrow> json \<Rightarrow> rpc_request option" where
  "rd_rpc_request rc v =
     Option.bind (rc_fields rc [''jsonrpc'', ''method'', ''params'', ''id''] v) (\<lambda>fs.
     Option.bind (required (rc_str rc) ''jsonrpc'' fs) (\<lambda>j.
     Option.bind (required (rc_str rc) ''method'' fs) (\<lambda>m.
     Option.bind (defaulted JNull Some ''params'' fs) (\<lambda>p.
     Option.bind (required Some ''id'' fs) (\<lambda>i.
       Some \<lparr> rq_jsonrpc = j, rq_method = m, rq_params = p, rq_id = i \<rparr>)))))"

definition to_value :: "string + json \<Rightarrow> rpc_error + json" where
  "to_value r = map_err err_internal r"

definition validate_namespace :: "rpc_codec \<Rightarrow> string \<Rightarrow> rpc_error + unit" where
  "validate_namespace rc ns =
     (if is_valid_namespace ns then Inr ()
      else Inl (err_invalid_params
             (''namespace must be one of user|project|local|'' @ [CHR 0x22, CHR 0x22] @ '', got '' @ rc_debug rc ns)))"

text \<open>A handler checks its parameters and then calls the engine.\<close>

type_synonym handler = "engine \<Rightarrow> engine \<times> (rpc_error + json)"

definition checked :: "rpc_error + 'p \<Rightarrow> ('p \<Rightarrow> handler) \<Rightarrow> handler" where
  "checked r k s = (case r of Inl e \<Rightarrow> (s, Inl e) | Inr p \<Rightarrow> k p s)"

definition answer :: "(engine \<Rightarrow> engine \<times> (memory_error + 'a)) \<Rightarrow> ('a \<Rightarrow> rpc_error + json) \<Rightarrow> handler" where
  "answer f k s =
     (case f s of (s1, Inl e) \<Rightarrow> (s1, Inl (from_engine e)) | (s1, Inr a) \<Rightarrow> (s1, k a))"

section \<open>The handlers\<close>

record commit_params =
  cp_session :: string
  cp_interaction :: interaction
  cp_ns :: "string option"
  cp_key :: "string option"

definition rd_commit :: "rpc_codec \<Rightarrow> json \<Rightarrow> commit_params option" where
  "rd_commit rc v =
     Option.bind (rc_fields rc [''session_id'', ''interaction'', ''namespace'', ''namespace_key''] v) (\<lambda>fs.
     Option.bind (required (rc_str rc) ''session_id'' fs) (\<lambda>s.
     Option.bind (required (rc_interaction rc) ''interaction'' fs) (\<lambda>ix.
     Option.bind (defaulted None (rc_opt_str rc) ''namespace'' fs) (\<lambda>n.
     Option.bind (defaulted None (rc_opt_str rc) ''namespace_key'' fs) (\<lambda>k.
       Some \<lparr> cp_session = s, cp_interaction = ix, cp_ns = n, cp_key = k \<rparr>)))))"

text \<open>The server's tenant and the explicit namespace win over what the interaction says.\<close>

definition commit_interaction :: "rpc_codec \<Rightarrow> string \<Rightarrow> commit_params \<Rightarrow> rpc_error + interaction" where
  "commit_interaction rc tenant p =
     (let ix1 = (if tenant \<noteq> [] then (cp_interaction p)\<lparr> ix_tenant := tenant \<rparr> else cp_interaction p)
      in bind_res (case cp_ns p of
                     None \<Rightarrow> Inr ix1
                   | Some ns \<Rightarrow> bind_res (validate_namespace rc ns) (\<lambda>_. Inr (ix1\<lparr> ix_ns := ns \<rparr>))) (\<lambda>ix2.
         bind_res (validate_namespace rc (ix_ns ix2)) (\<lambda>_.
           Inr (case cp_key p of Some k \<Rightarrow> ix2\<lparr> ix_ns_key := k \<rparr> | None \<Rightarrow> ix2))))"

definition rpc_commit :: "rpc_codec \<Rightarrow> engine_env \<Rightarrow> json \<Rightarrow> string \<Rightarrow> handler" where
  "rpc_commit rc ev params tenant =
     checked (decoded rc ''CommitParams'' params (rd_commit rc params)) (\<lambda>p.
     checked (commit_interaction rc tenant p) (\<lambda>ix.
       answer (commit_inner ev (cp_session p) ix) (\<lambda>out. to_value (wc_outcome rc out))))"

definition default_top_k :: nat where "default_top_k = 10"
definition default_budget :: nat where "default_budget = 4096"
definition default_true :: bool where "default_true = True"

record retrieve_params =
  rp_text :: string
  rp_top_k :: nat
  rp_budget :: nat
  rp_aggregate :: bool
  rp_session :: "string option"
  rp_ns :: "string option"
  rp_key :: "string option"

definition rd_retrieve :: "rpc_codec \<Rightarrow> json \<Rightarrow> retrieve_params option" where
  "rd_retrieve rc v =
     Option.bind (rc_fields rc [''text'', ''top_k'', ''token_budget'', ''aggregate'', ''session_id'',
                                ''namespace'', ''namespace_key''] v) (\<lambda>fs.
     Option.bind (required (rc_str rc) ''text'' fs) (\<lambda>t.
     Option.bind (defaulted default_top_k (rc_uint rc) ''top_k'' fs) (\<lambda>k.
     Option.bind (defaulted default_budget (rc_uint rc) ''token_budget'' fs) (\<lambda>b.
     Option.bind (defaulted default_true (rc_bool rc) ''aggregate'' fs) (\<lambda>a.
     Option.bind (defaulted None (rc_opt_str rc) ''session_id'' fs) (\<lambda>s.
     Option.bind (defaulted None (rc_opt_str rc) ''namespace'' fs) (\<lambda>n.
     Option.bind (defaulted None (rc_opt_str rc) ''namespace_key'' fs) (\<lambda>nk.
       Some \<lparr> rp_text = t, rp_top_k = k, rp_budget = b, rp_aggregate = a, rp_session = s,
              rp_ns = n, rp_key = nk \<rparr>))))))))"

definition or_empty :: "string option \<Rightarrow> string" where
  "or_empty x = (case x of Some v \<Rightarrow> v | None \<Rightarrow> [])"

definition rpc_retrieve :: "rpc_codec \<Rightarrow> engine_env \<Rightarrow> json \<Rightarrow> string \<Rightarrow> handler" where
  "rpc_retrieve rc ev params tenant =
     checked (decoded rc ''RetrieveParams'' params (rd_retrieve rc params)) (\<lambda>p.
     checked (validate_namespace rc (or_empty (rp_ns p))) (\<lambda>_.
       answer (retrieve_context ev
                 \<lparr> rq_text = rp_text p, rq_top_k = rp_top_k p, rq_session = rp_session p, rq_tenant = tenant,
                   rq_ns = or_empty (rp_ns p), rq_ns_key = or_empty (rp_key p), rq_tiers = None,
                   rq_budget = rp_budget p, rq_aggregate = rp_aggregate p \<rparr>)
              (\<lambda>ctx. to_value (wc_context rc ctx))))"

definition rd_consolidate :: "rpc_codec \<Rightarrow> json \<Rightarrow> (string option \<times> string option) option" where
  "rd_consolidate rc v =
     (if v = JNull then Some (None, None)
      else Option.bind (rc_fields rc [''namespace'', ''namespace_key''] v) (\<lambda>fs.
           Option.bind (defaulted None (rc_opt_str rc) ''namespace'' fs) (\<lambda>n.
           Option.bind (defaulted None (rc_opt_str rc) ''namespace_key'' fs) (\<lambda>k. Some (n, k)))))"

definition rpc_consolidate ::
  "rpc_codec \<Rightarrow> (string list \<Rightarrow> string list) \<Rightarrow> engine_env \<Rightarrow> json \<Rightarrow> handler" where
  "rpc_consolidate rc ord ev params =
     checked (decoded rc ''ConsolidateParams'' params (rd_consolidate rc params)) (\<lambda>(n, k).
     checked (validate_namespace rc (or_empty n)) (\<lambda>_.
       answer (if or_empty n = [] then consolidate_memories ord ev
               else consolidate_memories_scoped ord ev (or_empty n) (or_empty k))
              (\<lambda>r. to_value (wc_report rc r))))"

definition rd_id :: "rpc_codec \<Rightarrow> json \<Rightarrow> string option" where
  "rd_id rc v = Option.bind (rc_fields rc [''id''] v) (required (rc_str rc) ''id'')"

definition rpc_get :: "rpc_codec \<Rightarrow> json \<Rightarrow> string \<Rightarrow> handler" where
  "rpc_get rc params tenant =
     checked (decoded rc ''GetParams'' params (rd_id rc params)) (\<lambda>i.
       answer (get_memory_tenant i tenant) (\<lambda>m. to_value (wc_item rc m)))"

text \<open>The UTF-8 bytes of the Chinese words in the texts of two refusals.\<close>

definition CONFIRM_ZH :: string where
  "CONFIRM_ZH = map (char_of :: nat \<Rightarrow> char)
     [0xe4, 0xba, 0x8c, 0xe6, 0xac, 0xa1, 0xe7, 0xa1, 0xae, 0xe8, 0xae, 0xa4]"

definition rd_delete :: "rpc_codec \<Rightarrow> json \<Rightarrow> (string \<times> bool) option" where
  "rd_delete rc v =
     Option.bind (rc_fields rc [''id'', ''confirm''] v) (\<lambda>fs.
     Option.bind (required (rc_str rc) ''id'' fs) (\<lambda>i.
     Option.bind (defaulted False (rc_bool rc) ''confirm'' fs) (\<lambda>c. Some (i, c))))"

definition rpc_delete :: "rpc_codec \<Rightarrow> engine_env \<Rightarrow> json \<Rightarrow> string \<Rightarrow> handler" where
  "rpc_delete rc ev params tenant =
     checked (decoded rc ''DeleteParams'' params (rd_delete rc params)) (\<lambda>(i, confirm) s.
       if \<not> confirm
       then (s, Inl (err_invalid_params (''delete requires confirm=true (B5 '' @ CONFIRM_ZH @ '')'')))
       else answer (delete_memory_tenant ev i tenant) (\<lambda>_. Inr (JStr ''deleted'')) s)"

definition rpc_audit :: "rpc_codec \<Rightarrow> json \<Rightarrow> handler" where
  "rpc_audit rc params =
     checked (decoded rc ''AuditParams'' params
                (Option.bind (rc_fields rc [''entity_ids''] params) (required (rc_strs rc) ''entity_ids''))) (\<lambda>es.
       answer (audit_memory_access es) (\<lambda>ms. to_value (wc_items rc ms)))"

definition rd_delete_scope :: "rpc_codec \<Rightarrow> json \<Rightarrow> (string \<times> bool) option" where
  "rd_delete_scope rc v =
     Option.bind (rc_fields rc [''scope'', ''confirm''] v) (\<lambda>fs.
     Option.bind (required (rc_str rc) ''scope'' fs) (\<lambda>x.
     Option.bind (defaulted False (rc_bool rc) ''confirm'' fs) (\<lambda>c. Some (x, c))))"

definition rpc_delete_scope :: "rpc_codec \<Rightarrow> engine_env \<Rightarrow> json \<Rightarrow> string \<Rightarrow> handler" where
  "rpc_delete_scope rc ev params tenant =
     checked (decoded rc ''DeleteScopeParams'' params (rd_delete_scope rc params)) (\<lambda>(scope, confirm) s.
       if \<not> confirm
       then (s, Inl (err_invalid_params (''delete_scope requires confirm=true (B5 '' @ CONFIRM_ZH @ '')'')))
       else answer (delete_scope_tenant ev scope tenant) (\<lambda>n. Inr (JObj [(''deleted_count'', JNat n)])) s)"

definition rpc_count :: "rpc_codec \<Rightarrow> json \<Rightarrow> string \<Rightarrow> handler" where
  "rpc_count rc params tenant =
     checked (decoded rc ''CountParams'' params
                (Option.bind (rc_fields rc [''scope''] params) (defaulted None (rc_opt_str rc) ''scope''))) (\<lambda>scope.
       answer (count_tenant scope tenant) (\<lambda>n. Inr (JObj [(''count'', JNat n)])))"

definition default_list_limit :: nat where "default_list_limit = 50"

definition rd_list :: "rpc_codec \<Rightarrow> json \<Rightarrow> list_query option" where
  "rd_list rc v =
     Option.bind (rc_fields rc [''offset'', ''limit'', ''memory_type'', ''namespace'', ''namespace_key'',
                                ''include_tombstoned''] v) (\<lambda>fs.
     Option.bind (defaulted 0 (rc_uint rc) ''offset'' fs) (\<lambda>off.
     Option.bind (defaulted default_list_limit (rc_uint rc) ''limit'' fs) (\<lambda>lm.
     Option.bind (defaulted None (rc_opt_str rc) ''memory_type'' fs) (\<lambda>ty.
     Option.bind (defaulted [] (rc_str rc) ''namespace'' fs) (\<lambda>n.
     Option.bind (defaulted [] (rc_str rc) ''namespace_key'' fs) (\<lambda>k.
     Option.bind (defaulted False (rc_bool rc) ''include_tombstoned'' fs) (\<lambda>tb.
       Some \<lparr> lq_offset = off, lq_limit = lm, lq_type = ty, lq_ns = n, lq_ns_key = k,
              lq_tombstoned = tb \<rparr>)))))))"

definition check_list :: "rpc_codec \<Rightarrow> list_query \<Rightarrow> rpc_error + unit" where
  "check_list rc q =
     (if lq_limit q = 0 \<or> lq_limit q > 200 then Inl (err_invalid_params ''limit must be 1..=200'')
      else case lq_type q of
             Some mt \<Rightarrow>
               if mt \<notin> {''Episodic'', ''Semantic'', ''Procedural''}
               then Inl (err_invalid_params
                      (''memory_type must be Episodic|Semantic|Procedural, got '' @ rc_debug rc mt))
               else validate_namespace rc (lq_ns q)
           | None \<Rightarrow> validate_namespace rc (lq_ns q))"

definition rpc_list :: "rpc_codec \<Rightarrow> json \<Rightarrow> string \<Rightarrow> handler" where
  "rpc_list rc params tenant =
     checked (decoded rc ''ListParams'' params (rd_list rc params)) (\<lambda>q.
     checked (check_list rc q) (\<lambda>_.
       answer (list_memories q tenant) (\<lambda>ms. to_value (wc_items rc ms))))"

definition default_audit_log_limit :: nat where "default_audit_log_limit = 100"

definition rpc_audit_log :: "rpc_codec \<Rightarrow> json \<Rightarrow> handler" where
  "rpc_audit_log rc params =
     checked (decoded rc ''AuditLogParams'' params
                (Option.bind (rc_fields rc [''limit''] params)
                   (defaulted default_audit_log_limit (rc_uint rc) ''limit''))) (\<lambda>n s.
       if n = 0 \<or> n > 500 then (s, Inl (err_invalid_params ''limit must be 1..=500''))
       else answer (list_audit_log n) (\<lambda>es. to_value (wc_audit rc es)) s)"

definition rpc_merges :: "rpc_codec \<Rightarrow> handler" where
  "rpc_merges rc = answer list_merges (\<lambda>es. to_value (wc_merges rc es))"

definition rd_unmerge :: "rpc_codec \<Rightarrow> json \<Rightarrow> (nat \<times> bool) option" where
  "rd_unmerge rc v =
     Option.bind (rc_fields rc [''id'', ''confirm''] v) (\<lambda>fs.
     Option.bind (required (rc_uint rc) ''id'' fs) (\<lambda>i.
     Option.bind (defaulted False (rc_bool rc) ''confirm'' fs) (\<lambda>c. Some (i, c))))"

definition rpc_unmerge :: "rpc_codec \<Rightarrow> engine_env \<Rightarrow> json \<Rightarrow> handler" where
  "rpc_unmerge rc ev params =
     checked (decoded rc ''UnmergeParams'' params (rd_unmerge rc params)) (\<lambda>(i, confirm) s.
       if \<not> confirm
       then (s, Inl (err_invalid_params ''unmerge requires confirm=true (B5 double-confirmation)''))
       else answer (unmerge ev i) (\<lambda>b. Inr (JObj [(''unmerged'', JBool b)])) s)"

definition rpc_reconcile :: "rpc_codec \<Rightarrow> engine_env \<Rightarrow> json \<Rightarrow> handler" where
  "rpc_reconcile rc ev params =
     checked (decoded rc ''ReconcileParams'' params
                (Option.bind (rc_fields rc [''confirm''] params) (defaulted False (rc_bool rc) ''confirm''))) (\<lambda>confirm s.
       if \<not> confirm
       then (s, Inl (err_invalid_params ''reconcile requires confirm=true (B5 double-confirmation)''))
       else answer (reconcile ev) (\<lambda>n. Inr (JObj [(''reconciled'', JNat n)])) s)"

definition rd_contract :: "rpc_codec \<Rightarrow> json \<Rightarrow> retrieve_params option" where
  "rd_contract rc v =
     Option.bind (rc_fields rc [''trigger_id'', ''query'', ''top_k'', ''node_id'', ''namespace'',
                                ''namespace_key''] v) (\<lambda>fs.
     Option.bind (defaulted [] (rc_str rc) ''trigger_id'' fs) (\<lambda>_.
     Option.bind (required (rc_str rc) ''query'' fs) (\<lambda>t.
     Option.bind (defaulted default_top_k (rc_uint rc) ''top_k'' fs) (\<lambda>k.
     Option.bind (defaulted [] (rc_str rc) ''node_id'' fs) (\<lambda>_.
     Option.bind (defaulted None (rc_opt_str rc) ''namespace'' fs) (\<lambda>n.
     Option.bind (defaulted None (rc_opt_str rc) ''namespace_key'' fs) (\<lambda>nk.
       Some \<lparr> rp_text = t, rp_top_k = k, rp_budget = default_budget, rp_aggregate = True,
              rp_session = None, rp_ns = n, rp_key = nk \<rparr>)))))))"

definition contract_value :: "formatted_context \<Rightarrow> json" where
  "contract_value ctx =
     JObj [(''context'', JStr (join ([char_of (10 :: nat)] @ ''---'' @ [char_of (10 :: nat)])
                                    (map cb_text (fc_blocks ctx)))),
           (''memory_ids'', JArr (map JStr (dedup_seen [] (map cb_interaction (fc_blocks ctx))))),
           (''cache_hit'', JBool False)]"

definition rpc_retrieve_context :: "rpc_codec \<Rightarrow> engine_env \<Rightarrow> json \<Rightarrow> string \<Rightarrow> handler" where
  "rpc_retrieve_context rc ev params tenant =
     checked (decoded rc ''RetrieveContextContractParams'' params (rd_contract rc params)) (\<lambda>p.
     checked (validate_namespace rc (or_empty (rp_ns p))) (\<lambda>_.
       answer (retrieve_context ev
                 \<lparr> rq_text = rp_text p, rq_top_k = rp_top_k p, rq_session = None, rq_tenant = tenant,
                   rq_ns = or_empty (rp_ns p), rq_ns_key = or_empty (rp_key p), rq_tiers = None,
                   rq_budget = default_budget, rq_aggregate = True \<rparr>)
              (\<lambda>ctx. Inr (contract_value ctx))))"

section \<open>Dispatch\<close>

definition strip_version :: "string \<Rightarrow> string" where
  "strip_version m = (case strip_prefix ''v1.'' m of Some rest \<Rightarrow> rest | None \<Rightarrow> m)"

definition call_method ::
  "rpc_codec \<Rightarrow> (string list \<Rightarrow> string list) \<Rightarrow> engine_env \<Rightarrow> string \<Rightarrow> json \<Rightarrow> string \<Rightarrow> handler" where
  "call_method rc ord ev m params tenant =
     (if m = ''commit'' then rpc_commit rc ev params tenant
      else if m = ''retrieve'' then rpc_retrieve rc ev params tenant
      else if m = ''memory.retrieve_context'' then rpc_retrieve_context rc ev params tenant
      else if m = ''consolidate'' then rpc_consolidate rc ord ev params
      else if m = ''get'' then rpc_get rc params tenant
      else if m = ''delete'' then rpc_delete rc ev params tenant
      else if m = ''delete_scope'' then rpc_delete_scope rc ev params tenant
      else if m = ''count'' then rpc_count rc params tenant
      else if m = ''audit'' then rpc_audit rc params
      else if m = ''list'' then rpc_list rc params tenant
      else if m = ''audit_log'' then rpc_audit_log rc params
      else if m = ''merges'' then rpc_merges rc
      else if m = ''unmerge'' then rpc_unmerge rc ev params
      else if m = ''reconcile'' then rpc_reconcile rc ev params
      else if m = ''health'' then (\<lambda>s. (s, Inr (JStr ''ok'')))
      else if m = ''version'' then (\<lambda>s. (s, Inr (JObj [(''api_version'', JNat API_VERSION)])))
      else (\<lambda>s. (s, Inl (err_method_not_found m))))"

definition respond :: "json \<Rightarrow> rpc_error + json \<Rightarrow> rpc_response" where
  "respond i r =
     (case r of
        Inr v \<Rightarrow> \<lparr> rs_jsonrpc = ''2.0'', rs_result = Some v, rs_error = None, rs_id = i \<rparr>
      | Inl e \<Rightarrow> \<lparr> rs_jsonrpc = ''2.0'', rs_result = None, rs_error = Some e, rs_id = i \<rparr>)"

definition dispatch ::
  "rpc_codec \<Rightarrow> (string list \<Rightarrow> string list) \<Rightarrow> engine_env \<Rightarrow> rpc_request \<Rightarrow> string \<Rightarrow> engine
     \<Rightarrow> engine \<times> rpc_response" where
  "dispatch rc ord ev req tenant s =
     (if rq_jsonrpc req \<noteq> ''2.0''
      then (s, respond (rq_id req) (Inl (err_invalid_request
              (''jsonrpc must be '' @ [CHR 0x22] @ ''2.0'' @ [CHR 0x22] @ '', got '' @ rc_debug rc (rq_jsonrpc req)))))
      else case call_method rc ord ev (strip_version (rq_method req)) (rq_params req) tenant s of
             (s1, r) \<Rightarrow> (s1, respond (rq_id req) r))"

definition parse_line :: "rpc_codec \<Rightarrow> string \<Rightarrow> rpc_request option" where
  "parse_line rc l = rc_line rc l"

text \<open>The literal text that is sent when not even the error frame can be written.\<close>

definition quoted :: "string \<Rightarrow> string" where "quoted s = [CHR 0x22] @ s @ [CHR 0x22]"

definition FALLBACK_FRAME :: string where
  "FALLBACK_FRAME =
     ''{'' @ quoted ''jsonrpc'' @ '':'' @ quoted ''2.0'' @ '','' @ quoted ''result'' @ '':null,'' @ quoted ''error''
     @ '':{'' @ quoted ''code'' @ '':-32603,'' @ quoted ''message'' @ '':'' @ quoted ''serialize failed''
     @ ''},'' @ quoted ''id'' @ '':null}''"

definition serialize_response :: "rpc_codec \<Rightarrow> rpc_response \<Rightarrow> string" where
  "serialize_response rc r =
     (case wc_response rc r of
        Inr x \<Rightarrow> x
      | Inl e \<Rightarrow>
          (case wc_response rc (respond JNull (Inl (err_internal (''serialize failed: '' @ e)))) of
             Inr x \<Rightarrow> x
           | Inl _ \<Rightarrow> FALLBACK_FRAME))"

end
