(* ===== verification/Confine.thy ===== *)
theory Confine
  imports Rpc
begin

text \<open>
  What a request may do, by its method and its tenant: a request that is refused as bad changes
  nothing, destructive methods need a confirmation, and a tenant's request leaves the memories
  of the other tenants alone, except through the methods that have no tenant.
\<close>

section \<open>A concrete codec\<close>

text \<open>A codec and requests at which the statements of this file are applied.\<close>

definition plain_codec :: rpc_codec where
  "plain_codec =
     \<lparr> rc_fields = (\<lambda>_ v. case v of JObj kvs \<Rightarrow> Some (map_of kvs) | _ \<Rightarrow> None),
       rc_str = (\<lambda>v. case v of JStr x \<Rightarrow> Some x | _ \<Rightarrow> None),
       rc_opt_str = (\<lambda>v. case v of JStr x \<Rightarrow> Some (Some x) | JNull \<Rightarrow> Some None | _ \<Rightarrow> None),
       rc_uint = (\<lambda>v. case v of JNat n \<Rightarrow> Some n | _ \<Rightarrow> None),
       rc_bool = (\<lambda>v. case v of JBool b \<Rightarrow> Some b | _ \<Rightarrow> None),
       rc_strs = (\<lambda>v. case v of JArr [JStr x] \<Rightarrow> Some [x] | _ \<Rightarrow> None),
       rc_interaction = (\<lambda>_. None), rc_error = (\<lambda>n _. n), rc_debug = (\<lambda>x. x),
       wc_outcome = (\<lambda>_. Inl ''x''), wc_context = (\<lambda>_. Inl ''x''), wc_report = (\<lambda>_. Inl ''x''),
       wc_item = (\<lambda>mo. Inr (case mo of None \<Rightarrow> JNull | Some m \<Rightarrow> JStr (mi_id m))), wc_items = (\<lambda>ms. Inr (JArr (map (JStr \<circ> mi_id) ms))),
       wc_audit = (\<lambda>_. Inl ''x''), wc_merges = (\<lambda>_. Inl ''x''),
       wc_response = (\<lambda>_. Inl ''x''), rc_line = (\<lambda>_. None) \<rparr>"

definition demo_request :: "string \<Rightarrow> json \<Rightarrow> rpc_request" where
  "demo_request m p = \<lparr> rq_jsonrpc = ''2.0'', rq_method = m, rq_params = p, rq_id = JNat 1 \<rparr>"

lemma strip_version_plain [simp]: "\<not> starts_with ''v1.'' m \<Longrightarrow> strip_version m = m"
  by (simp add: strip_version_def strip_prefix_def)

lemma strip_version_v1 [simp]: "strip_version (CHR ''v'' # CHR ''1'' # CHR ''.'' # m) = m"
  using strip_prefix_append [of "''v1.''" m] by (simp add: strip_version_def)

section \<open>Bad requests change nothing\<close>

definition is_bad_request :: "rpc_error \<Rightarrow> bool" where
  "is_bad_request e = (http_status_for_error (re_code e) = 400)"

text \<open>A handler refuses cleanly if its error answers of status 400 leave the engine as it was.\<close>

definition clean :: "handler \<Rightarrow> bool" where
  "clean h = (\<forall>s s' e. h s = (s', Inl e) \<and> is_bad_request e \<longrightarrow> s' = s)"

named_theorems clean_intros \<open>rules for handlers that refuse cleanly\<close>

lemma from_engine_not_bad: "\<not> is_bad_request (from_engine e)"
  by (cases e) (simp_all add: is_bad_request_def from_engine_def http_status_for_error_def rpc_error_defs)

lemma clean_answer [clean_intros]:
  "(\<And>a e. k a = Inl e \<Longrightarrow> \<not> is_bad_request e) \<Longrightarrow> clean (answer f k)"
  using from_engine_not_bad by (auto simp: clean_def answer_def split: prod.splits sum.splits)

lemma clean_checked [clean_intros]: "(\<And>p. clean (k p)) \<Longrightarrow> clean (checked r k)"
  by (auto simp: clean_def checked_def split: sum.splits)

lemma clean_if [clean_intros]:
  "\<lbrakk> clean a; clean b \<rbrakk> \<Longrightarrow> clean (if c then a else b)"
  by simp

lemma clean_guard [clean_intros]:
  "clean h \<Longrightarrow> clean (\<lambda>s. if c then (s, Inl e) else h s)"
  by (auto simp: clean_def)

lemma clean_const [clean_intros]: "clean (\<lambda>s. (s, r))"
  by (simp add: clean_def)

lemma clean_split [clean_intros]: "(\<And>a b. p = (a, b) \<Longrightarrow> clean (k a b)) \<Longrightarrow> clean (case p of (a, b) \<Rightarrow> k a b)"
  by (cases p) simp

lemma clean_split_state [clean_intros]:
  "(\<And>a b. p = (a, b) \<Longrightarrow> clean (\<lambda>s. k a b s)) \<Longrightarrow> clean (\<lambda>s. case p of (a, b) \<Rightarrow> k a b s)"
  by (cases p) simp

lemma to_value_not_bad: "to_value r = Inl e \<Longrightarrow> \<not> is_bad_request e"
  by (cases r) (auto simp: to_value_def is_bad_request_def http_status_for_error_def rpc_error_defs)

lemmas handler_defs =
  rpc_commit_def rpc_retrieve_def rpc_retrieve_context_def rpc_consolidate_def rpc_get_def rpc_delete_def
  rpc_delete_scope_def rpc_count_def rpc_audit_def rpc_list_def rpc_audit_log_def rpc_merges_def
  rpc_unmerge_def rpc_reconcile_def

lemma call_method_clean: "clean (call_method rc ord ev m params tenant)"
  unfolding call_method_def handler_defs
  by (intro clean_intros; auto dest: to_value_not_bad)

lemma respond_error [simp]: "rs_error (respond i r) = Some e \<longleftrightarrow> r = Inl e"
  by (cases r) (auto simp: respond_def)

lemma bad_request_unchanged:
  assumes "dispatch rc ord ev req tenant s = (s', resp)" and "rs_error resp = Some e"
    and "http_status_for_error (re_code e) = 400"
  shows "s' = s"
  using assms call_method_clean [of rc ord ev "strip_version (rq_method req)" "rq_params req" tenant]
  by (auto simp: dispatch_def clean_def is_bad_request_def split: if_splits prod.splits)

text \<open>
  A request that is answered with a status of 400 (not JSON-RPC 2.0, an unknown method,
  parameters that cannot be read, a namespace that does not exist, a limit out of range, a
  missing confirmation) has changed nothing at all: no memory, no log entry, not even the
  service counters.\<close>
lemma bad_request_changes_nothing:
  assumes "dispatch rc ord ev req tenant s = (s', resp)" and "rs_error resp = Some e"
    and "http_status_for_error (re_code e) = 400"
  shows "s' = s"
  using assms by (rule bad_request_unchanged)

lemma bad_request_witness:
  "fst (dispatch plain_codec (\<lambda>x. x) demo_env0 (demo_request ''forget'' JNull) [] demo_replica) = demo_replica"
proof -
  have run: "dispatch plain_codec (\<lambda>x. x) demo_env0 (demo_request ''forget'' JNull) [] demo_replica
      = (demo_replica, respond (JNat 1) (Inl (err_method_not_found ''forget'')))"
    by (simp add: dispatch_def demo_request_def call_method_def starts_with_def)
  from bad_request_changes_nothing [OF run, of "err_method_not_found ''forget''"] run show ?thesis
    by (simp add: err_method_not_found_def http_status_for_error_def)
qed

section \<open>Confirmation\<close>

definition confirms :: "rpc_codec \<Rightarrow> json \<Rightarrow> bool" where
  "confirms rc v = (\<exists>ns fs. rc_fields rc ns v = Some fs \<and> Option.bind (fs ''confirm'') (rc_bool rc) = Some True)"

lemma defaulted_confirm:
  assumes "\<not> confirms rc v" and "rc_fields rc ns v = Some fs"
    and "defaulted False (rc_bool rc) ''confirm'' fs = Some c"
  shows "\<not> c"
proof
  assume c
  with assms(3) have "Option.bind (fs ''confirm'') (rc_bool rc) = Some True"
    by (auto simp: defaulted_def split: option.splits)
  with assms(1,2) show False unfolding confirms_def by blast
qed

definition refuses :: "handler \<Rightarrow> bool" where
  "refuses h = (\<forall>s. \<exists>e. h s = (s, Inl e) \<and> re_code e = -32602)"

lemma refuses_decoded: "(\<And>p. r = Some p \<Longrightarrow> refuses (k p)) \<Longrightarrow> refuses (checked (decoded rc name v r) k)"
  by (cases r) (auto simp: refuses_def checked_def decoded_def err_invalid_params_def)

lemma refuses_guard: "\<not> b \<Longrightarrow> refuses (\<lambda>s. if \<not> b then (s, Inl (err_invalid_params x)) else h s)"
  by (simp add: refuses_def err_invalid_params_def)

lemma unconfirmed_handlers:
  assumes "\<not> confirms rc v"
  shows "refuses (rpc_delete rc ev v t)" "refuses (rpc_delete_scope rc ev v t)"
    "refuses (rpc_unmerge rc ev v)" "refuses (rpc_reconcile rc ev v)"
proof -
  have d: "\<not> b" if "rd_delete rc v = Some (a, b)" for a b
    using that defaulted_confirm [OF assms] by (auto simp: rd_delete_def split: bind_splits)
  have ds: "\<not> b" if "rd_delete_scope rc v = Some (a, b)" for a b
    using that defaulted_confirm [OF assms] by (auto simp: rd_delete_scope_def split: bind_splits)
  have u: "\<not> b" if "rd_unmerge rc v = Some (a, b)" for a b
    using that defaulted_confirm [OF assms] by (auto simp: rd_unmerge_def split: bind_splits)
  have r: "\<not> b" if "Option.bind (rc_fields rc [''confirm''] v) (defaulted False (rc_bool rc) ''confirm'') = Some b" for b
    using that defaulted_confirm [OF assms] by (auto split: bind_splits)
  show "refuses (rpc_delete rc ev v t)" unfolding rpc_delete_def
    by (rule refuses_decoded) (auto dest: d intro: refuses_guard)
  show "refuses (rpc_delete_scope rc ev v t)" unfolding rpc_delete_scope_def
    by (rule refuses_decoded) (auto dest: ds intro: refuses_guard)
  show "refuses (rpc_unmerge rc ev v)" unfolding rpc_unmerge_def
    by (rule refuses_decoded) (auto dest: u intro: refuses_guard)
  show "refuses (rpc_reconcile rc ev v)" unfolding rpc_reconcile_def
    by (rule refuses_decoded) (auto dest: r intro: refuses_guard)
qed

text \<open>
  The methods that destroy or restore data (\<open>delete\<close>, \<open>delete_scope\<close>, \<open>unmerge\<close>,
  \<open>reconcile\<close>, with or without the version prefix) do nothing unless the parameters say
  \<open>confirm: true\<close>: the request is refused with the code for invalid parameters.\<close>
lemma unconfirmed_is_refused:
  assumes "rq_jsonrpc req = ''2.0''"
    and "strip_version (rq_method req) \<in> {''delete'', ''delete_scope'', ''unmerge'', ''reconcile''}"
    and "\<not> confirms rc (rq_params req)"
  shows "\<exists>e. dispatch rc ord ev req tenant s = (s, respond (rq_id req) (Inl e)) \<and> re_code e = -32602"
proof -
  have "refuses (call_method rc ord ev (strip_version (rq_method req)) (rq_params req) tenant)"
    using assms(2) unconfirmed_handlers [OF assms(3)] by (auto simp: call_method_def)
  then obtain e where "call_method rc ord ev (strip_version (rq_method req)) (rq_params req) tenant s = (s, Inl e)"
    "re_code e = -32602" unfolding refuses_def by blast
  then show ?thesis using assms(1) by (auto simp: dispatch_def)
qed

lemma unconfirmed_witness:
  "fst (dispatch plain_codec (\<lambda>x. x) demo_env0 (demo_request ''v1.delete'' (JObj [(''id'', JStr ''a'')])) [] demo_replica)
     = demo_replica"
  using unconfirmed_is_refused [of "demo_request ''v1.delete'' (JObj [(''id'', JStr ''a'')])" plain_codec
      "\<lambda>x. x" demo_env0 "[]" demo_replica]
  by (auto simp: demo_request_def confirms_def plain_codec_def)

section \<open>Error codes\<close>

text \<open>
  How an error of the engine reaches an HTTP client: 404 exactly for a missing memory, 503
  exactly for a poisoned lock or an error the client may retry, 500 for everything else.\<close>
lemma engine_error_status:
  "http_status_for_error (re_code (from_engine e))
     = (if is_not_found e then 404 else if e = EPoisoned \<or> retryable e then 503 else 500)"
  by (cases e) (simp_all add: from_engine_def http_status_for_error_def rpc_error_defs)

section \<open>What a tenant's request leaves alone\<close>

text \<open>A call keeps a memory when the memory is the same after it, whatever the call answers.\<close>

definition keeps :: "string \<Rightarrow> memory_item \<Rightarrow> (engine \<Rightarrow> engine \<times> 'a) \<Rightarrow> bool" where
  "keeps j m f = (\<forall>s. db_wf (eg_db s) \<and> find_item j (eg_db s) = Some m \<longrightarrow>
     find_item j (eg_db (fst (f s))) = Some m)"

named_theorems keeps_intros \<open>rules for calls that keep a memory\<close>

lemma keeps_answer [keeps_intros]: "keeps j m f \<Longrightarrow> keeps j m (answer f k)"
  by (simp add: keeps_def answer_def split: prod.split sum.split) (metis fst_conv)

lemma keeps_checked [keeps_intros]: "(\<And>p. keeps j m (k p)) \<Longrightarrow> keeps j m (checked r k)"
  by (cases r) (simp_all add: keeps_def checked_def)

lemma keeps_guard [keeps_intros]: "keeps j m h \<Longrightarrow> keeps j m (\<lambda>s. if c then (s, Inl e) else h s)"
  by (simp add: keeps_def)

lemma keeps_const [keeps_intros]: "keeps j m (\<lambda>s. (s, r))"
  by (simp add: keeps_def)

lemma keeps_split_state [keeps_intros]:
  "(\<And>a b. p = (a, b) \<Longrightarrow> keeps j m (\<lambda>s. k a b s)) \<Longrightarrow> keeps j m (\<lambda>s. case p of (a, b) \<Rightarrow> k a b s)"
  by (cases p) simp

lemma keeps_hides: "(\<And>s. only_hides {} s (fst (f s))) \<Longrightarrow> keeps j m f"
  by (simp add: keeps_def only_hides_def items_of_def)

lemma scoped_query_hides: "only_hides S s (fst (on_db (scoped_query f q) s))"
proof (rule hides_on_db)
  fix d d' r assume "scoped_query f q d = (d', r)"
  then have "same_tables d d'"
    by (auto simp: scoped_query_def dest!: query_same intro: same_trans split: prod.splits sum.splits)
  then show "\<forall>i. find_item i d' = find_item i d" by (simp add: same_tables_facts)
qed

lemma keeps_reads [keeps_intros]:
  "keeps j m (get_memory_tenant i t)" "keeps j m (count_tenant x t)" "keeps j m (audit_memory_access es)"
  "keeps j m (list_audit_log n)" "keeps j m list_merges" "keeps j m (list_memories q t)"
proof -
  have ret: "only_hides {} s (fst (return_ok a s))" for s :: engine and a :: 'b
    by (simp add: return_ok_def only_hides_db)
  show "keeps j m (get_memory_tenant i t)"
    unfolding get_memory_tenant_def engine_get_memory_def get_memory_def
    by (rule keeps_hides, rule then_do_hides) (simp_all add: hides_query only_hides_db)
  show "keeps j m (count_tenant x t)"
    unfolding count_tenant_def count_by_session_tenant_def count_where_def
    by (rule keeps_hides) (simp add: hides_query split: option.split)
  show "keeps j m (audit_memory_access es)"
    unfolding audit_memory_access_def
    by (rule keeps_hides, rule hides_on_db)
       (auto simp: audit_by_entities_def same_tables_facts dest!: query_same split: if_splits)
  show "keeps j m (list_audit_log n)" "keeps j m list_merges"
    unfolding list_audit_log_def list_audit_def list_merges_def list_merge_log_def
    by (rule keeps_hides, rule hides_query)+
  show "keeps j m (list_memories q t)"
    unfolding list_memories_def list_all_by_tenant_scoped_def list_dead_def list_tombstoned_def
    by (rule keeps_hides)
       (intro then_do_hides scoped_query_hides hides_query ret; simp add: Let_def ret hides_query then_do_hides)
qed

lemma refs_hides: "only_hides S s (fst (on_db (get_by_vector_refs_tenant_scoped vs t f) s))"
proof (cases "vs = []")
  case True
  then show ?thesis by (simp add: get_by_vector_refs_tenant_scoped_def only_hides_db on_db_def raw_db_def)
next
  case False
  then have "get_by_vector_refs_tenant_scoped vs t f = scoped_query f (\<lambda>p d.
      filter (\<lambda>m. \<not> mi_tombstone m \<and> mi_tenant m = t \<and> sql_eval p m
                \<and> mi_vector_ref m \<in> set (map show_nat vs)) (db_items d))"
    by (simp add: fun_eq_iff get_by_vector_refs_tenant_scoped_def)
  then show ?thesis by (simp only: scoped_query_hides)
qed

lemma retrieve_hits_hides: "only_hides {} s (fst (retrieve_hits ev q now s))"
proof -
  obtain s1 qs where q: "query_entities ev (rq_text q) s = (s1, qs)" by fastforce
  obtain s2 r2 where e: "embed ev (rq_text q) s1 = (s2, r2)" by fastforce
  have s2: "only_hides {} s s2" using query_entities_db [OF q] embed_db [OF e] by (simp add: only_hides_db)
  show ?thesis
  proof (cases r2)
    case (Inl x)
    then show ?thesis using q e s2 by (simp add: retrieve_hits_def)
  next
    case (Inr qvec)
    obtain s3 r3 where k: "on_store (search_knn (ev_knn ev) qvec (knn_request (query_filter q) (rq_top_k q))) s2 = (s3, r3)"
      by fastforce
    have s3: "only_hides {} s s3" using s2 on_store_parts [OF k] by (simp add: only_hides_def items_of_def)
    have refs: "only_hides {} s3 (fst (on_db (get_by_vector_refs_tenant_scoped vs t f) s3))" for vs t f
      by (rule refs_hides)
    show ?thesis
      using q e Inr k s3 only_hides_trans [OF s3 refs]
      by (auto simp: retrieve_hits_def split: prod.split sum.split) (metis fst_conv)+
  qed
qed

lemma make_blocks_hides: "only_hides {} s (fst (make_blocks best ixs s))"
proof (induction ixs arbitrary: s)
  case (Cons ix ixs)
  obtain s1 r1 where l: "on_db (list_by_interaction ix) s = (s1, r1)" by fastforce
  have s1: "only_hides {} s s1"
    using hides_query [of "{}" s] l by (metis fst_conv list_by_interaction_def)
  show ?case
    using l s1 only_hides_trans [OF s1 Cons.IH [of s1]]
    by (auto split: prod.split sum.split)
qed (simp add: only_hides_db)

lemma keeps_retrieve [keeps_intros]:
  assumes "mi_tenant m \<noteq> rq_tenant q"
  shows "keeps j m (retrieve_context ev q)"
  unfolding keeps_def
proof (intro allI impI, elim conjE)
  fix s :: engine
  assume wf: "db_wf (eg_db s)" and m: "find_item j (eg_db s) = Some m"
  obtain s' r where run: "retrieve_context ev q s = (s', r)" by fastforce
  show "find_item j (eg_db (fst (retrieve_context ev q s))) = Some m"
  proof (cases r)
    case (Inr ctx)
    from retrieve_touches_once_facts [OF run [unfolded Inr], THEN conjunct2] obtain now ids where
      ids: "\<forall>i \<in> ids. \<exists>m. m \<in> set (db_items (eg_db s)) \<and> mi_id m = i \<and> answers q m
             \<and> mi_interaction m \<in> set (map cb_interaction (fc_blocks ctx))"
      and upd: "\<forall>i. find_item i (eg_db s') = (if i \<in> ids
         then map_option (\<lambda>m. if mi_tombstone m then m else touch_item now m) (find_item i (eg_db s))
         else find_item i (eg_db s))" by (elim exE conjE)
    have "j \<notin> ids"
    proof
      assume "j \<in> ids"
      with ids obtain m' where "m' \<in> set (db_items (eg_db s))" "mi_id m' = j" "answers q m'" by blast
      with find_item_wf [OF wf] m assms show False by (auto simp: answers_def)
    qed
    with upd m run show ?thesis by simp
  next
    case (Inl e)
    obtain s0 now where n: "now_ms ev s = (s0, now)" by fastforce
    have s0: "only_hides {} s s0" using n by (auto simp: now_ms_def call_def intro: only_hides_db)
    obtain s1 r1 where h: "retrieve_hits ev q now s0 = (s1, r1)" by fastforce
    have s1: "only_hides {} s s1" using only_hides_trans [OF s0] retrieve_hits_hides [of s0 ev q now] h by simp
    have "only_hides {} s s'"
    proof (cases r1)
      case (Inl e1)
      then show ?thesis using run n h s1 by (simp add: retrieve_context_def)
    next
      case (Inr hs)
      obtain s2 r2 where b: "make_blocks (best_score hs) (group_keys hs) s1 = (s2, r2)" by fastforce
      have "only_hides {} s s2"
        using only_hides_trans [OF s1] make_blocks_hides [of s1 "best_score hs" "group_keys hs"] b by simp
      moreover have "s' = s2"
        using run n h Inr b \<open>r = Inl e\<close>
        by (cases r2) (auto simp: retrieve_context_def Let_def split: prod.splits)
      ultimately show ?thesis by simp
    qed
    then show ?thesis using m run by (simp add: only_hides_def items_of_def)
  qed
qed


text \<open>A commit only writes items with the ids it draws, even when it ends with an error.\<close>

lemma commit_turn_keeps:
  assumes ids: "\<forall>n. ev_ulid ev n \<noteq> j"
  shows "find_item j (eg_db (fst (commit_turn ev sess ix now t s))) = find_item j (eg_db s)"
proof -
  obtain s' r where run: "commit_turn ev sess ix now t s = (s', r)" by fastforce
  obtain s0 i where c: "call (ev_ulid ev) s = (s0, i)" by fastforce
  then have s0: "eg_db s0 = eg_db s" using call_parts(1) [of "ev_ulid ev" s] by simp
  have i: "j \<noteq> i" using c ids by (auto simp: call_def)
  let ?m = "commit_item ev sess ix now t i" and ?vid = "vector_id_from_ulid i"
  obtain s1 r1 where e: "embed ev (mi_content ?m) s0 = (s1, r1)" by fastforce
  then have s1: "eg_db s1 = eg_db s" using embed_db s0 by metis
  show ?thesis
  proof (cases r)
    case (Inl x)
    have "eg_db s' = eg_db s"
    proof (cases r1)
      case (Inl y)
      with run c e s1 show ?thesis by (simp add: commit_turn_def Let_def)
    next
      case (Inr v)
      obtain s2 r2 where st: "on_store (insert_vector ?vid v) s1 = (s2, r2)" by fastforce
      then have "eg_db s2 = eg_db s" using on_store_parts s1 by metis
      with run c e Inr st \<open>r = Inl x\<close> show ?thesis
        by (auto simp: commit_turn_def Let_def split: sum.splits prod.splits)
    qed
    then show ?thesis using run by simp
  next
    case (Inr y)
    show ?thesis
    proof (cases y)
      case (Inl f)
      then show ?thesis using commit_turn_db [of ev sess ix now t s s' y] run Inr by (simp add: turn_undone_def)
    next
      case (Inr i')
      have "i' = i" using run c \<open>r = Inr y\<close> Inr
        by (auto simp: commit_turn_def Let_def split: sum.splits prod.splits)
      then show ?thesis using commit_turn_db [of ev sess ix now t s s' y] run \<open>r = Inr y\<close> Inr i
        by (simp add: turn_stored_def)
    qed
  qed
qed

lemma commit_loop_keeps:
  assumes "\<forall>n. ev_ulid ev n \<noteq> j"
  shows "find_item j (eg_db (fst (commit_loop ev sess ix now ts out s))) = find_item j (eg_db s)"
proof (induction ts arbitrary: out s)
  case (Cons t ts)
  obtain s1 r where one: "commit_turn ev sess ix now t s = (s1, r)" by fastforce
  have "find_item j (eg_db s1) = find_item j (eg_db s)"
    using commit_turn_keeps [OF assms, of sess ix now t s] one by simp
  with one Cons.IH show ?case by (auto split: sum.split)
qed simp

lemma keeps_commit [keeps_intros]:
  assumes "\<forall>n. ev_ulid ev n \<noteq> j"
  shows "keeps j m (commit_inner ev sess ix)"
  unfolding keeps_def
proof (intro allI impI, elim conjE)
  fix s :: engine
  assume m: "find_item j (eg_db s) = Some m"
  obtain s0 now where n: "now_ms ev s = (s0, now)" by fastforce
  then have s0: "eg_db s0 = eg_db s" by (auto simp: now_ms_def call_def)
  obtain s1 r where l: "commit_loop ev sess ix now (ix_turns ix) \<lparr> co_ids = [], co_failed = [] \<rparr> s0 = (s1, r)"
    by fastforce
  have s1: "find_item j (eg_db s1) = Some m"
    using commit_loop_keeps [OF assms, of sess ix now "ix_turns ix" "\<lparr> co_ids = [], co_failed = [] \<rparr>" s0] l s0 m
    by simp
  have "find_item j (eg_db (fst (on_db (append_audit now sess k x d) s1))) = Some m" for k x d
    using only_hides_outside [OF hides_append_audit, of j "{}"] s1 by simp
  then show "find_item j (eg_db (fst (commit_inner ev sess ix s))) = Some m"
    using n l s1 by (cases r) (simp_all add: commit_inner_def Let_def)
qed

lemma keeps_deletes [keeps_intros]:
  assumes "t \<noteq> []" and "mi_tenant m \<noteq> t"
  shows "keeps j m (delete_memory_tenant ev i t)" "keeps j m (delete_scope_tenant ev x t)"
  using tenant_isolation_facts assms unfolding keeps_def by blast+

lemma keeps_rpc_deletes [keeps_intros]:
  assumes "t \<noteq> []" and "mi_tenant m \<noteq> t"
  shows "keeps j m (rpc_delete rc ev v t)" "keeps j m (rpc_delete_scope rc ev v t)"
  using assms unfolding rpc_delete_def rpc_delete_scope_def
  by (auto intro!: keeps_intros split: prod.split)

lemmas tenant_handler_defs =
  rpc_commit_def rpc_retrieve_def rpc_retrieve_context_def rpc_get_def rpc_count_def rpc_audit_def
  rpc_list_def rpc_audit_log_def rpc_merges_def

lemma dispatch_keeps:
  assumes "db_wf (eg_db s)" and "find_item j (eg_db s) = Some m" and "t \<noteq> []" and "mi_tenant m \<noteq> t"
    and "\<forall>n. ev_ulid ev n \<noteq> j"
    and "strip_version (rq_method req) \<notin> {''consolidate'', ''unmerge'', ''reconcile''}"
    and "dispatch rc ord ev req t s = (s', resp)"
  shows "find_item j (eg_db s') = Some m"
proof -
  have "keeps j m (call_method rc ord ev (strip_version (rq_method req)) (rq_params req) t)"
    using assms(3-6) unfolding call_method_def
    by (auto simp: tenant_handler_defs intro!: keeps_intros)
  then show ?thesis using assms(1,2,7)
    by (auto simp: dispatch_def keeps_def split: if_splits prod.splits)
qed

text \<open>
  A tenant cannot change the memory of another tenant. Whatever a request of tenant \<open>t\<close> asks
  for, and whether it succeeds or fails, a stored memory of another tenant is found unchanged
  afterwards, provided that the method is not one of \<open>consolidate\<close>, \<open>unmerge\<close> and \<open>reconcile\<close>,
  which the server runs for all tenants at once, and that the ids the engine draws are new.\<close>
lemma dispatch_tenant_confined:
  assumes "db_wf (eg_db s)" and "find_item j (eg_db s) = Some m" and "t \<noteq> []" and "mi_tenant m \<noteq> t"
    and "\<forall>n. ev_ulid ev n \<noteq> j"
    and "strip_version (rq_method req) \<notin> {''consolidate'', ''unmerge'', ''reconcile''}"
    and "dispatch rc ord ev req t s = (s', resp)"
  shows "find_item j (eg_db s') = Some m"
  using assms by (rule dispatch_keeps)

lemma demo_ulid: "ev_ulid demo_env0 n \<noteq> ''a''"
proof
  assume "ev_ulid demo_env0 n = ''a''"
  then have "parse_digits 0 ''a'' = Some n" using parse_digits_show [of n] by (simp add: demo_env0_def)
  then show False by (simp add: digit_val_def)
qed

lemma demo_deleted:
  "t = [] \<or> t = ''t1'' \<Longrightarrow>
     find_item ''a'' (eg_db (fst (delete_memory_tenant demo_env0 ''a'' t demo_replica))) \<noteq> Some item_a"
proof -
  assume t: "t = [] \<or> t = ''t1''"
  have nf: "db_faults (eg_db demo_replica) = []" "db_faults (db_ab\<lparr> db_wop := x, db_wop_seq := y \<rparr>) = []" for x y
    by (simp_all add: demo_replica_def db_ab_def put_item_def empty_db_def)
  have ref: "parse_u64 [] = None" by (simp add: parse_u64_def parse_unsigned_def)
  show ?thesis using t
    by (elim disjE) (simp_all add: delete_memory_tenant_def delete_memory_def then_do_def engine_get_memory_def on_db_def raw_db_def get_memory_def
        tombstone_memory_def nf demo_replica_def db_ab_def find_item_def drop_vector_def ref
        put_item_def replace_item_def item_a_def item_b_def with_namespace_def new_turn_skeleton_def append_audit_def
        now_ms_def call_def append_wop_def db_op_def update_items_def empty_db_def add_wop_def Let_def)
qed

lemma dispatch_confined_witness:
  "find_item ''a'' (eg_db (fst (dispatch plain_codec (\<lambda>x. x) demo_env0
      (demo_request ''v1.delete'' (JObj [(''id'', JStr ''a''), (''confirm'', JBool True)])) ''t9'' demo_replica)))
     = Some item_a"
proof -
  let ?req = "demo_request ''v1.delete'' (JObj [(''id'', JStr ''a''), (''confirm'', JBool True)])"
  have wf: "db_wf (eg_db demo_replica)" by (simp add: demo_replica_def db_ab_def put_item_wf)
  have m: "find_item ''a'' (eg_db demo_replica) = Some item_a" "''t9'' \<noteq> []" "mi_tenant item_a \<noteq> ''t9''"
    by (simp_all add: demo_replica_def db_ab_def item_a_def item_b_def with_namespace_def)
  have u: "\<forall>n. ev_ulid demo_env0 n \<noteq> ''a''" by (simp add: demo_ulid)
  have meth: "strip_version (rq_method ?req) \<notin> {''consolidate'', ''unmerge'', ''reconcile''}"
    by (simp add: demo_request_def)
  show ?thesis by (rule dispatch_tenant_confined [OF wf m u meth prod.collapse [symmetric]])
qed

section \<open>Methods without a tenant\<close>

text \<open>
  Reading is not confined in the same way: \<open>audit\<close> has no tenant. Whoever asks, under whatever
  tenant, gets every live memory that is linked to one of the entities named in the request,
  the memories of all tenants included.\<close>
lemma audit_shows_every_tenant:
  assumes "rq_jsonrpc req = ''2.0''" and "strip_version (rq_method req) = ''audit''"
    and "Option.bind (rc_fields rc [''entity_ids''] (rq_params req)) (required (rc_strs rc) ''entity_ids'') = Some es"
    and "db_faults (eg_db s) = []" and "m \<in> set (db_items (eg_db s))" and "\<not> mi_tombstone m"
    and "(mi_id m, e) \<in> set (db_links (eg_db s))" and "e \<in> set es"
  shows "\<exists>ms. dispatch rc ord ev req tenant s = (s, respond (rq_id req) (to_value (wc_items rc ms))) \<and> m \<in> set ms"
proof -
  from assms(8) have ne: "es \<noteq> []" by auto
  obtain ms where ms: "audit_by_entities es (eg_db s) = (eg_db s, Inr ms)" "m \<in> set ms"
    using assms(4-8) ne by (force simp: audit_by_entities_def order_created_def image_iff)
  then have "on_db (audit_by_entities es) s = (s, Inr ms)" by (simp add: on_db_def raw_db_def)
  then show ?thesis using assms(1-3) ms(2)
    by (auto simp: dispatch_def call_method_def rpc_audit_def checked_def decoded_def answer_def audit_memory_access_def)
qed

definition linked_replica :: engine where
  "linked_replica = demo_replica\<lparr> eg_db := db_ab\<lparr> db_links := [(''a'', ''e1'')] \<rparr> \<rparr>"

lemma audit_shows_witness:
  "\<exists>ms. dispatch plain_codec (\<lambda>x. x) demo_env0 (demo_request ''audit'' (JObj [(''entity_ids'', JArr [JStr ''e1''])])) ''t9''
      linked_replica = (linked_replica, respond (JNat 1) (to_value (wc_items plain_codec ms))) \<and> item_a \<in> set ms"
proof -
  have "item_a \<in> set (db_items db_ab)" "db_faults db_ab = []"
    by (simp_all add: db_ab_def put_item_def empty_db_def item_a_def item_b_def with_namespace_def set_replace_item)
  then show ?thesis
  using audit_shows_every_tenant [of "demo_request ''audit'' (JObj [(''entity_ids'', JArr [JStr ''e1''])])" plain_codec
      "[''e1'']" linked_replica item_a "''e1''" "\<lambda>x. x" demo_env0 "''t9''"]
  by (simp add: demo_request_def plain_codec_def required_def starts_with_def linked_replica_def demo_replica_def)
     (simp add: item_a_def with_namespace_def)
qed

end
