(* ===== verification/Steps.thy ===== *)
theory Steps
  imports Confine Import "HOL-Library.Sublist"
begin

text \<open>
  What the engine does to its two stores, seen as a sequence of small effects: the statements
  it sends to the database, the entities it attaches to a stored memory, the vectors it inserts and deletes, and the reads and the calls of
  its environment, which only use up a fault or a tick. Every operation of the engine, with
  every pattern of failures, is such a sequence, and its effects are of the kinds that its
  request method allows.
\<close>

section \<open>The effects\<close>

datatype effect = XDb db_cmd | XAttach string "entity_node list" bool | XInsert vid vec | XDelete vid

fun do_effect :: "effect \<Rightarrow> engine \<Rightarrow> engine" where
  "do_effect (XDb c) s = s\<lparr> eg_db := db_exec c (eg_db s) \<rparr>"
| "do_effect (XAttach i es pending) s =
     (case find_item i (eg_db s) of
        None \<Rightarrow> s
      | Some m \<Rightarrow>
          s\<lparr> eg_db := db_exec (CPut (m\<lparr> mi_entities := es, mi_entities_pending := pending \<rparr>)) (eg_db s) \<rparr>)"
| "do_effect (XInsert i v) s = s\<lparr> eg_store := fst (insert_vector i v (eg_store s)) \<rparr>"
| "do_effect (XDelete i) s = s\<lparr> eg_store := fst (delete_vector i (eg_store s)) \<rparr>"

definition read_db :: "engine \<Rightarrow> engine" where
  "read_db s = s\<lparr> eg_db := (eg_db s)\<lparr> db_faults := tl (db_faults (eg_db s)) \<rparr> \<rparr>"

definition read_store :: "engine \<Rightarrow> engine" where
  "read_store s = s\<lparr> eg_store := (eg_store s)\<lparr> ls_faults := tl (ls_faults (eg_store s)) \<rparr> \<rparr>"

definition tick :: "engine \<Rightarrow> engine" where
  "tick s = s\<lparr> eg_tick := eg_tick s + 1 \<rparr>"

inductive estep :: "effect set \<Rightarrow> engine \<Rightarrow> engine \<Rightarrow> bool" for X where
  es_effect: "x \<in> X \<Longrightarrow> estep X s (do_effect x s)"
| es_read: "estep X s (read_db s)"
| es_look: "estep X s (read_store s)"
| es_tick: "estep X s (tick s)"

inductive_cases estepE: "estep X s t"

definition esteps :: "effect set \<Rightarrow> engine \<Rightarrow> engine \<Rightarrow> bool" where
  "esteps X = (estep X)\<^sup>*\<^sup>*"

named_theorems step_intros \<open>rules for calls that are sequences of effects\<close>

lemma esteps_refl: "esteps X s s"
  by (simp add: esteps_def)

lemma esteps_step: "\<lbrakk> esteps X s t; estep X t u \<rbrakk> \<Longrightarrow> esteps X s u"
  by (simp add: esteps_def)

lemma esteps_trans: "\<lbrakk> esteps X s t; esteps X t u \<rbrakk> \<Longrightarrow> esteps X s u"
  by (simp add: esteps_def)

lemma estep_mono: "\<lbrakk> estep X s t; X \<subseteq> Y \<rbrakk> \<Longrightarrow> estep Y s t"
  by (auto elim!: estepE intro: estep.intros)

lemma esteps_mono: "\<lbrakk> esteps X s t; X \<subseteq> Y \<rbrakk> \<Longrightarrow> esteps Y s t"
  unfolding esteps_def by (metis estep_mono mono_rtranclp)

section \<open>Following the control structure\<close>

text \<open>
  To show that a call leads from a state to a related one, the rules of this locale follow the
  cases of the results of the calls it makes, for any reflexive and transitive relation: from a
  state reached so far to the states after one more call.
\<close>

locale call_path =
  fixes R :: "engine \<Rightarrow> engine \<Rightarrow> bool"
  assumes refl: "R s s" and trans: "\<lbrakk> R s t; R t u \<rbrakk> \<Longrightarrow> R s u"
begin

lemma at_pair: "R s t \<Longrightarrow> R s (fst (t, r))"
  by simp

lemma at_return: "R s t \<Longrightarrow> R s (fst (return_ok a t))"
  by (simp add: return_ok_def)

lemma at_case_pair:
  assumes "R s (fst p)" and "\<And>t r. p = (t, r) \<Longrightarrow> R s t \<Longrightarrow> R s (fst (g t r))"
  shows "R s (fst (case p of (t, r) \<Rightarrow> g t r))"
  using assms by (cases p) simp

lemma at_case_sum:
  "\<lbrakk> \<And>e. r = Inl e \<Longrightarrow> R s (fst (f e)); \<And>a. r = Inr a \<Longrightarrow> R s (fst (g a)) \<rbrakk>
     \<Longrightarrow> R s (fst (case r of Inl e \<Rightarrow> f e | Inr a \<Rightarrow> g a))"
  by (cases r) simp_all

lemma at_case_option:
  "\<lbrakk> r = None \<Longrightarrow> R s (fst f); \<And>a. r = Some a \<Longrightarrow> R s (fst (g a)) \<rbrakk>
     \<Longrightarrow> R s (fst (case r of None \<Rightarrow> f | Some a \<Rightarrow> g a))"
  by (cases r) simp_all

lemma at_if:
  "\<lbrakk> b \<Longrightarrow> R s (fst f); \<not> b \<Longrightarrow> R s (fst g) \<rbrakk> \<Longrightarrow> R s (fst (if b then f else g))"
  by simp

lemma at_then_do:
  assumes "R s (fst (f t))"
    and "\<And>a u. R s u \<Longrightarrow> R s (fst (g a u))"
  shows "R s (fst (then_do f g t))"
proof -
  obtain u r where f: "f t = (u, r)" by fastforce
  with assms show ?thesis by (cases r) (simp_all add: then_do_def)
qed

lemma at_apply:
  "\<lbrakk> b \<Longrightarrow> R s (fst (f t)); \<not> b \<Longrightarrow> R s (fst (g t)) \<rbrakk>
     \<Longrightarrow> R s (fst ((if b then f else g) t))"
  "\<lbrakk> r = None \<Longrightarrow> R s (fst (h t)); \<And>a. r = Some a \<Longrightarrow> R s (fst (k a t)) \<rbrakk>
     \<Longrightarrow> R s (fst ((case r of None \<Rightarrow> h | Some a \<Rightarrow> k a) t))"
  "(\<And>a b. p = (a, b) \<Longrightarrow> R s (fst (l a b t))) \<Longrightarrow> R s (fst ((case p of (a, b) \<Rightarrow> l a b) t))"
  by (simp_all split: option.split prod.split)

lemma at_case_bool:
  "\<lbrakk> b \<Longrightarrow> R s (fst f); \<not> b \<Longrightarrow> R s (fst g) \<rbrakk>
     \<Longrightarrow> R s (fst (case b of True \<Rightarrow> f | False \<Rightarrow> g))"
  by (cases b) simp_all

text \<open>The same for calls that return the engine alone, and for pairs without a state.\<close>

lemma plain_pair:
  assumes "R s (fst p)" and "\<And>t r. p = (t, r) \<Longrightarrow> R s t \<Longrightarrow> R s (g t r)"
  shows "R s (case p of (t, r) \<Rightarrow> g t r)"
  using assms by (cases p) simp

lemma plain_split: "(\<And>a b. p = (a, b) \<Longrightarrow> R s (g a b)) \<Longrightarrow> R s (case p of (a, b) \<Rightarrow> g a b)"
  by (cases p) simp

lemma plain_sum:
  "\<lbrakk> \<And>e. r = Inl e \<Longrightarrow> R s (f e); \<And>a. r = Inr a \<Longrightarrow> R s (g a) \<rbrakk>
     \<Longrightarrow> R s (case r of Inl e \<Rightarrow> f e | Inr a \<Rightarrow> g a)"
  by (cases r) simp_all

lemma plain_option:
  "\<lbrakk> r = None \<Longrightarrow> R s f; \<And>a. r = Some a \<Longrightarrow> R s (g a) \<rbrakk>
     \<Longrightarrow> R s (case r of None \<Rightarrow> f | Some a \<Rightarrow> g a)"
  by (cases r) simp_all

lemma plain_if:
  "\<lbrakk> b \<Longrightarrow> R s f; \<not> b \<Longrightarrow> R s g \<rbrakk> \<Longrightarrow> R s (if b then f else g)"
  by simp

lemma fst_split:
  "(\<And>a b. p = (a, b) \<Longrightarrow> R s (fst (g a b))) \<Longrightarrow> R s (fst (case p of (a, b) \<Rightarrow> g a b))"
  by (cases p) simp

lemmas plain = plain_pair plain_split plain_sum plain_option plain_if

text \<open>The same for calls that return the engine with a list of failures, and a result.\<close>

lemma at_case_deep:
  assumes "R s (fst (fst p))"
    and "\<And>(a :: engine \<times> consolidation_failure list) r. p = (a, r) \<Longrightarrow> R s (fst a) \<Longrightarrow> R s (fst (g a r))"
  shows "R s (fst (case p of (a, r) \<Rightarrow> g a r))"
  using assms by (cases p) simp

lemma deep_case:
  assumes "R s (fst (fst p))"
    and "\<And>(a :: engine \<times> consolidation_failure list) r. p = (a, r) \<Longrightarrow> R s (fst a) \<Longrightarrow> R s (fst (fst (g a r)))"
  shows "R s (fst (fst (case p of (a, r) \<Rightarrow> g a r)))"
  using assms by (cases p) simp

lemma deep_case_pair:
  assumes "R s (fst p)" and "\<And>t r. p = (t, r) \<Longrightarrow> R s t \<Longrightarrow> R s (fst (fst (g t r)))"
  shows "R s (fst (fst (case p of (t, r) \<Rightarrow> g t r)))"
  using assms by (cases p) simp

lemma deep_split:
  "(\<And>a b. p = (a, b) \<Longrightarrow> R s (fst (fst (g a b)))) \<Longrightarrow> R s (fst (fst (case p of (a, b) \<Rightarrow> g a b)))"
  by (cases p) simp

lemma deep_sum:
  "\<lbrakk> \<And>e. r = Inl e \<Longrightarrow> R s (fst (fst (f e))); \<And>a. r = Inr a \<Longrightarrow> R s (fst (fst (g a))) \<rbrakk>
     \<Longrightarrow> R s (fst (fst (case r of Inl e \<Rightarrow> f e | Inr a \<Rightarrow> g a)))"
  by (cases r) simp_all

lemma deep_option:
  "\<lbrakk> r = None \<Longrightarrow> R s (fst (fst f)); \<And>a. r = Some a \<Longrightarrow> R s (fst (fst (g a))) \<rbrakk>
     \<Longrightarrow> R s (fst (fst (case r of None \<Rightarrow> f | Some a \<Rightarrow> g a)))"
  by (cases r) simp_all

lemma deep_if:
  "\<lbrakk> b \<Longrightarrow> R s (fst (fst f)); \<not> b \<Longrightarrow> R s (fst (fst g)) \<rbrakk>
     \<Longrightarrow> R s (fst (fst (if b then f else g)))"
  by simp

lemma deep_pair: "R s t \<Longrightarrow> R s (fst (fst ((t, fl), r)))"
  by simp

text \<open>A loop over a list.\<close>

lemma fold_rule:
  assumes "\<And>x t. R s (p t) \<Longrightarrow> R s (p (f x t))" and "R s (p t)"
  shows "R s (p (fold f xs t))"
  using assms(2) by (induction xs arbitrary: t) (simp_all add: assms(1))

lemmas rules =
  refl at_pair at_return at_case_pair at_case_sum at_case_option at_if at_then_do at_apply at_case_bool
  at_case_deep deep_case deep_case_pair deep_sum deep_option deep_if deep_pair

end

text \<open>A relation that every effect keeps is kept by every sequence of effects.\<close>

locale engine_law = call_path +
  fixes X :: "effect set"
  assumes law_effect: "x \<in> X \<Longrightarrow> R s (do_effect x s)"
    and law_read: "R s (read_db s)"
    and law_look: "R s (read_store s)"
    and law_tick: "R s (tick s)"
begin

lemma law_step: "estep X s t \<Longrightarrow> R s t"
  by (auto elim!: estepE intro: law_effect law_read law_look law_tick)

lemma law_steps:
  assumes "esteps X s t"
  shows "R s t"
proof -
  have "(estep X)\<^sup>*\<^sup>* s t" using assms by (simp add: esteps_def)
  then show ?thesis by induction (auto intro: refl trans law_step)
qed

end

interpretation es: call_path "esteps X" for X
  by unfold_locales (rule esteps_refl, rule esteps_trans)

declare es.rules [step_intros]

section \<open>Composing calls\<close>

text \<open>
  Each rule leads from a state reached by effects to the state after one more call.
\<close>

definition sends :: "(db \<Rightarrow> db \<times> 'a) \<Rightarrow> db_cmd \<Rightarrow> bool" where
  "sends f c = (\<forall>d. fst (f d) = db_exec c d)"

lemma on_db_raw: "fst (on_db f t) = fst (raw_db f t)"
  by (simp add: on_db_def split: prod.split)

lemma steps_sends:
  assumes "sends f c" and "XDb c \<in> X" and "esteps X s t"
  shows "esteps X s (fst (raw_db f t))"
proof -
  have "fst (raw_db f t) = do_effect (XDb c) t"
    using assms(1) by (simp add: sends_def raw_db_def split: prod.split) (metis fst_conv)
  then show ?thesis using assms(2,3) by (simp only: esteps_step es_effect)
qed

lemma commands:
  "sends (put_memory m) (CPut m)"
  "sends (put_memory_with_wop m op p n) (CPutWop m op p n)"
  "sends (tombstone_memory i) (CTombstone i)"
  "sends (untombstone_memory i) (CUntombstone i)"
  "sends (touch_access_batch is n) (CTouch is n)"
  "sends (append_wop op p n) (CAppendWop op p n)"
  "sends (append_audit n a b c d) (CAudit n a b c d)"
  "sends (append_reconcile n i a e) (CReconcile n i a e)"
  "sends (record_merge a b r n) (CRecordMerge a b r n)"
  "sends (record_consolidation rep n) (CRecordConsolidation rep n)"
  "sends (physical_delete i) (CPhysicalDelete i)"
  "sends (unmerge_log k) (CUnmerge k)"
  by (simp_all add: sends_def)

lemmas steps_commands [step_intros] = commands [THEN steps_sends]

text \<open>Reads of the database.\<close>

definition only_reads :: "(db \<Rightarrow> db \<times> (persist_error + 'a)) \<Rightarrow> bool" where
  "only_reads f = (\<forall>d. \<exists>n. fst (f d) = d\<lparr> db_faults := drop n (db_faults d) \<rparr>)"

lemma drop_read: "s\<lparr> eg_db := (eg_db s)\<lparr> db_faults := drop n (db_faults (eg_db s)) \<rparr> \<rparr> = (read_db ^^ n) s"
proof (induction n arbitrary: s)
  case (Suc n)
  have step: "(read_db ^^ Suc n) s = (read_db ^^ n) (read_db s)" by (simp add: funpow_Suc_right del: funpow.simps)
  have "s\<lparr> eg_db := (eg_db s)\<lparr> db_faults := drop (Suc n) (db_faults (eg_db s)) \<rparr> \<rparr>
      = (read_db s)\<lparr> eg_db := (eg_db (read_db s))\<lparr> db_faults := drop n (db_faults (eg_db (read_db s))) \<rparr> \<rparr>"
    by (simp add: read_db_def drop_Suc)
  then show ?case unfolding step Suc.IH .
qed simp

lemma esteps_reads: "esteps X s t \<Longrightarrow> esteps X s ((read_db ^^ n) t)"
  by (induction n) (auto intro: esteps_step es_read)

lemma steps_reads:
  assumes "only_reads f" and "esteps X s t"
  shows "esteps X s (fst (raw_db f t))"
proof -
  obtain n where "fst (f (eg_db t)) = (eg_db t)\<lparr> db_faults := drop n (db_faults (eg_db t)) \<rparr>"
    using assms(1) unfolding only_reads_def by blast
  then have "fst (raw_db f t) = (read_db ^^ n) t"
    using drop_read [where s = t and n = n] by (simp add: raw_db_def split: prod.split) (metis fst_conv)
  then show ?thesis using assms(2) by (simp only: esteps_reads)
qed

lemma query_tick: "fst (db_query q d) = d\<lparr> db_faults := tl (db_faults d) \<rparr>"
  by (cases "db_faults d") (auto simp: db_query_def db_op_def split: option.split prod.split)

lemma reads_query: "only_reads (db_query q)"
  unfolding only_reads_def query_tick by (metis drop_Suc drop0)

lemma reads_none: "only_reads (\<lambda>d. (d, r))"
  unfolding only_reads_def by (metis drop0 fst_conv db.surjective db.update_convs(13))

lemma reads_if: "\<lbrakk> only_reads f; only_reads g \<rbrakk> \<Longrightarrow> only_reads (\<lambda>d. if b then f d else g d)"
  by (cases b) simp_all

lemma reads_scoped: "only_reads (scoped_query f q)"
  unfolding only_reads_def
proof
  fix d :: db
  obtain d1 r1 where q: "db_query (\<lambda>_. ()) d = (d1, r1)" by fastforce
  then have d1: "d1 = d\<lparr> db_faults := drop 1 (db_faults d) \<rparr>"
    using query_tick [of "\<lambda>_. ()" d] by (simp add: drop_Suc)
  have two: "fst (db_query g d1) = d\<lparr> db_faults := drop 2 (db_faults d) \<rparr>" for g :: "db \<Rightarrow> 'a"
    using query_tick [of g d1] d1 by (simp add: drop_Suc numeral_2_eq_2)
  show "\<exists>n. fst (scoped_query f q d) = d\<lparr> db_faults := drop n (db_faults d) \<rparr>"
    using q d1 two by (auto simp: scoped_query_def split: sum.split)
qed

lemma reads_lists:
  "only_reads (get_memory i)" "only_reads (list_by_interaction x)" "only_reads (list_all_by_tenant_scoped t f)"
  "only_reads (list_by_session_tenant y t)" "only_reads (list_changed_since_scoped n f)" "only_reads list_tombstoned"
  "only_reads list_merge_log" "only_reads last_consolidate_at" "only_reads (list_audit k)" "only_reads (count_by_session_tenant o1 t)"
  "only_reads (get_by_vector_refs_tenant_scoped vs t f)" "only_reads (audit_by_entities es)"
proof -
  show "only_reads (get_by_vector_refs_tenant_scoped vs t f)"
    unfolding get_by_vector_refs_tenant_scoped_def by (intro reads_if reads_none reads_scoped)
  show "only_reads (audit_by_entities es)"
    unfolding audit_by_entities_def by (intro reads_if reads_none reads_query)
  show "only_reads (count_by_session_tenant o1 t)"
    by (cases o1) (simp_all add: count_by_session_tenant_def count_where_def reads_query)
qed (simp_all add: get_memory_def list_by_interaction_def list_all_by_tenant_scoped_def list_by_session_tenant_def
    list_changed_since_scoped_def list_tombstoned_def list_merge_log_def last_consolidate_at_def list_audit_def
    reads_query reads_scoped)

lemmas steps_read_calls [step_intros] = reads_lists [THEN steps_reads]

lemma steps_on_db [step_intros]: "esteps X s (fst (raw_db f t)) \<Longrightarrow> esteps X s (fst (on_db f t))"
  by (simp add: on_db_raw)

text \<open>The vector store.\<close>

lemma on_store_fst: "fst (on_store f s) = s\<lparr> eg_store := fst (f (eg_store s)) \<rparr>"
  by (simp add: on_store_def split: prod.split)

lemma steps_insert [step_intros]:
  "\<lbrakk> XInsert i v \<in> X; esteps X s t \<rbrakk> \<Longrightarrow> esteps X s (fst (on_store (insert_vector i v) t))"
  using esteps_step [OF _ es_effect [of "XInsert i v" X t]] by (simp add: on_store_fst)

lemma steps_delete [step_intros]:
  "\<lbrakk> XDelete i \<in> X; esteps X s t \<rbrakk> \<Longrightarrow> esteps X s (fst (on_store (delete_vector i) t))"
  using esteps_step [OF _ es_effect [of "XDelete i" X t]] by (simp add: on_store_fst)

lemma look_tick: "fst (st_op (\<lambda>s. (s, g s)) t) = t\<lparr> ls_faults := tl (ls_faults t) \<rparr>"
  by (cases "ls_faults t") (auto simp: st_op_def split: option.split)

lemma steps_looks [step_intros]:
  assumes "esteps X s t"
  shows "esteps X s (fst (on_store (get_vector i) t))" "esteps X s (fst (on_store list_vector_ids t))"
    "esteps X s (fst (on_store (search_knn knn q k) t))"
  using esteps_step [OF assms es_look]
  by (simp_all add: on_store_fst get_vector_def list_vector_ids_def search_knn_def look_tick read_store_def)

text \<open>The environment.\<close>

lemma steps_call [step_intros]: "esteps X s t \<Longrightarrow> esteps X s (fst (call f t))"
  using esteps_step [OF _ es_tick] by (simp add: call_def tick_def)

lemma steps_env [step_intros]:
  assumes "esteps X s t"
  shows "esteps X s (fst (embed ev x t))" "esteps X s (fst (now_ms ev t))"
  unfolding embed_def now_ms_def using assms by (rule steps_call)+

section \<open>What each method does\<close>

inductive_set commit_effects :: "engine_env \<Rightarrow> effect set" for ev where
  ce_vector: "XInsert i v \<in> commit_effects ev"
| ce_undo: "XDelete i \<in> commit_effects ev"
| ce_store: "\<lbrakk> pc_enc (ev_codec ev) (m, Some v) = Inr p; mi_vector_ref m = show_nat (unat (i :: vid));
      mi_id m = ev_ulid ev k; mi_weight m = initial_weight (mi_type m) \<rbrakk> \<Longrightarrow> XDb (CPutWop m ''commit'' p n) \<in> commit_effects ev"
| ce_extract: "XAttach i es pending \<in> commit_effects ev"
| ce_audit: "XDb (CAudit n a b x d) \<in> commit_effects ev"

inductive_set retrieve_effects :: "effect set" where
  re_touch: "XDb (CTouch is n) \<in> retrieve_effects"
| re_audit: "XDb (CAudit n a b x d) \<in> retrieve_effects"

inductive_set delete_effects :: "effect set" where
  de_vector: "XDelete i \<in> delete_effects"
| de_hide: "XDb (CTombstone j) \<in> delete_effects"
| de_log: "XDb (CAppendWop ''delete'' p n) \<in> delete_effects"
| de_audit: "XDb (CAudit n a b x d) \<in> delete_effects"

inductive_set scope_effects :: "effect set" where
  se_vector: "XDelete i \<in> scope_effects"
| se_hide: "XDb (CTombstone j) \<in> scope_effects"
| se_log: "XDb (CAppendWop ''delete_scope'' p n) \<in> scope_effects"

inductive_set unmerge_effects :: "effect set" where
  ue_row: "XDb (CUnmerge k) \<in> unmerge_effects"
| ue_vector: "XInsert i v \<in> unmerge_effects"
| ue_store: "XDb (CPut m) \<in> unmerge_effects"

inductive_set reconcile_effects :: "effect set" where
  rc_row: "XDb (CReconcile n i a e) \<in> reconcile_effects"
| rc_vector: "XDelete v \<in> reconcile_effects"
| rc_purge: "XDb (CPhysicalDelete i) \<in> reconcile_effects"

inductive_set import_effects :: "effect set" where
  ie_vector: "XInsert i v \<in> import_effects"
| ie_store: "XDb (CPut m) \<in> import_effects"

inductive_set saga_effects :: "payload_codec \<Rightarrow> effect set" for c where
  sg_row: "XDb (CReconcile n i a e) \<in> saga_effects c"
| sg_drop: "XDelete v \<in> saga_effects c"
| sg_purge: "XDb (CPhysicalDelete i) \<in> saga_effects c"
| sg_hide: "XDb (CTombstone i) \<in> saga_effects c"
| sg_recycle: "XDb (CAppendWop ''recycle'' i n) \<in> saga_effects c"
| sg_store: "XDb (CPut m) \<in> saga_effects c"
| sg_promote: "XDb (CAppendWop ''promote'' (i @ tab @ ''Long'') n) \<in> saga_effects c"
| sg_merge_row: "XDb (CRecordMerge a b r n) \<in> saga_effects c"
| sg_show: "XDb (CUntombstone i) \<in> saga_effects c"
| sg_vector: "XInsert v x \<in> saga_effects c"
| sg_merge: "XDb (CAppendWop ''merge'' (a @ tab @ b @ tab @ merge_reason @ tab @ show_nat n) n) \<in> saga_effects c"
| sg_summary: "XDb (CPutWop m ''summarize'' p n) \<in> saga_effects c"
| sg_extract: "XDb (CAppendWop ''reextract'' (case pc_item_enc c m of Inr p \<Rightarrow> p | Inl e \<Rightarrow> []) n) \<in> saga_effects c"
| sg_run: "XDb (CRecordConsolidation rep n) \<in> saga_effects c"
| sg_audit: "XDb (CAudit n a b x d) \<in> saga_effects c"

lemmas effect_intros =
  retrieve_effects.intros delete_effects.intros scope_effects.intros
  unmerge_effects.intros reconcile_effects.intros import_effects.intros saga_effects.intros
  ce_vector ce_undo ce_extract ce_audit

declare effect_intros [step_intros]

section \<open>Commit, query, deletion\<close>

lemma attach_effect:
  assumes "on_db (get_memory i) t = (t1, Inr (Some m))"
  shows "fst (raw_db (put_memory (m\<lparr> mi_entities := es, mi_entities_pending := pending \<rparr>)) t1)
    = do_effect (XAttach i es pending) t1"
proof -
  from on_db_Inr(1) [OF assms] have "Some m = find_item i (eg_db t)" "same_tables (eg_db t) (eg_db t1)"
    by (auto dest: get_memory_Inr)
  then have "find_item i (eg_db t1) = Some m" using same_tables_facts by metis
  then show ?thesis by (simp add: raw_db_def split: prod.split)
qed

lemma extract_steps:
  assumes "\<And>es p. XAttach i es p \<in> X" and t: "esteps X s t"
  shows "esteps X s (extract_and_attach ev i content t)"
proof (cases "ev_extract ev")
  case None
  then show ?thesis using t by (simp add: extract_and_attach_def)
next
  case (Some ex)
  obtain s1 ents success where c: "call (\<lambda>n. ex n content) t = (s1, (ents, success))" by (metis prod.exhaust)
  obtain s2 r where g: "on_db (get_memory i) s1 = (s2, r)" by fastforce
  have "esteps X s s1" using steps_call [OF t, of "\<lambda>n. ex n content"] c by simp
  then have "esteps X s (fst (on_db (get_memory i) s1))" by (intro step_intros)
  then have s2: "esteps X s s2" using g by simp
  show ?thesis
  proof (cases "\<exists>m. r = Inr (Some m)")
    case True
    then obtain m where r: "r = Inr (Some m)" by blast
    have "extract_and_attach ev i content t = do_effect (XAttach i ents (\<not> success)) s2"
      using Some c g r attach_effect [of i s1 s2 m "\<not> success" ents]
      by (simp add: extract_and_attach_def on_db_raw)
    then show ?thesis by (simp only: esteps_step [OF s2 es_effect [OF assms(1)]])
  next
    case False
    then have "extract_and_attach ev i content t = s2"
      using Some c g by (cases r) (auto simp: extract_and_attach_def split: option.splits)
    with s2 show ?thesis by simp
  qed
qed

lemma ce_item:
  assumes "call (ev_ulid ev) t = (s0, i)"
    and "pc_enc (ev_codec ev) ((commit_item ev sess ix now tn i)
      \<lparr> mi_vector_ref := show_nat (unat (vector_id_from_ulid i)), mi_entities_pending := True \<rparr>, Some v) = Inr p"
  shows "XDb (CPutWop ((commit_item ev sess ix now tn i)
      \<lparr> mi_vector_ref := show_nat (unat (vector_id_from_ulid i)), mi_entities_pending := True \<rparr>) ''commit'' p n)
    \<in> commit_effects ev"
proof (rule ce_store [OF assms(2)])
  show "mi_id ((commit_item ev sess ix now tn i)
      \<lparr> mi_vector_ref := show_nat (unat (vector_id_from_ulid i)), mi_entities_pending := True \<rparr>) = ev_ulid ev (eg_tick t)"
    using assms(1) by (auto simp: call_def commit_item_def with_namespace_def)
qed (simp_all add: commit_item_def with_namespace_def)

lemma commit_turn_steps:
  assumes "esteps (commit_effects ev) s t"
  shows "esteps (commit_effects ev) s (fst (commit_turn ev sess ix now tn t))"
  unfolding commit_turn_def Let_def
  by (intro step_intros extract_steps assms | assumption | erule (1) ce_item)+

lemma commit_loop_steps:
  assumes "esteps (commit_effects ev) s t"
  shows "esteps (commit_effects ev) s (fst (commit_loop ev sess ix now ts out t))"
  using assms
proof (induction ts arbitrary: out t)
  case (Cons tn ts)
  show ?case unfolding commit_loop.simps
    by (intro step_intros commit_turn_steps Cons | assumption)+
qed simp

lemma commit_steps:
  assumes "esteps (commit_effects ev) s t"
  shows "esteps (commit_effects ev) s (fst (commit_inner ev sess ix t))"
  unfolding commit_inner_def Let_def
  by (intro step_intros commit_loop_steps assms | assumption)+

lemma make_blocks_steps:
  assumes "esteps X s t"
  shows "esteps X s (fst (make_blocks best ixs t))"
  using assms
proof (induction ixs arbitrary: t)
  case (Cons ix ixs)
  show ?case unfolding make_blocks.simps
    by (intro step_intros Cons | assumption)+
qed simp

lemma query_entities_steps:
  assumes "esteps X s t"
  shows "esteps X s (fst (query_entities ev x t))"
  unfolding query_entities_def
  by (intro step_intros assms | assumption | simp split: prod.split)+

lemma retrieve_hits_steps:
  assumes "esteps X s t"
  shows "esteps X s (fst (retrieve_hits ev q now t))"
  unfolding retrieve_hits_def
  by (intro step_intros query_entities_steps assms | assumption)+

lemma retrieve_steps:
  assumes "esteps retrieve_effects s t"
  shows "esteps retrieve_effects s (fst (retrieve_context ev q t))"
  unfolding retrieve_context_def Let_def
  by (intro step_intros es.plain retrieve_hits_steps make_blocks_steps assms | assumption | rule es.fst_split)+

lemma drop_vector_steps:
  assumes "\<And>v. XDelete v \<in> X" and "esteps X s t"
  shows "esteps X s (fst (drop_vector mo t))"
  unfolding drop_vector_def by (intro step_intros assms | assumption)+

lemma delete_memory_steps_of:
  assumes "esteps delete_effects s t"
  shows "esteps delete_effects s (fst (delete_memory ev i t))"
  unfolding delete_memory_def engine_get_memory_def
  by (intro step_intros drop_vector_steps assms | assumption)+

lemma delete_steps:
  assumes "esteps delete_effects s t"
  shows "esteps delete_effects s (fst (delete_memory_tenant ev i ten t))"
  unfolding delete_memory_tenant_def engine_get_memory_def
  by (intro step_intros delete_memory_steps_of assms | assumption)+

lemma scope_one_steps:
  assumes "esteps scope_effects s (fst x)"
  shows "esteps scope_effects s (fst (scope_delete_one m x))"
  using assms unfolding scope_delete_one_def
  by (cases x) (simp only: prod.case, intro step_intros drop_vector_steps | assumption | simp)+

lemma scope_steps:
  assumes "esteps scope_effects s t"
  shows "esteps scope_effects s (fst (delete_scope_tenant ev scope ten t))"
  unfolding delete_scope_tenant_def
  by (intro step_intros es.fold_rule [where p = fst] scope_one_steps assms | assumption | simp)+

lemma read_steps:
  assumes "esteps X s t"
  shows "esteps X s (fst (get_memory_tenant i ten t))" "esteps X s (fst (count_tenant x ten t))"
    "esteps X s (fst (audit_memory_access es t))" "esteps X s (fst (list_memories q ten t))"
    "esteps X s (fst (list_audit_log n t))" "esteps X s (fst (list_merges t))"
  unfolding get_memory_tenant_def engine_get_memory_def count_tenant_def audit_memory_access_def
    list_audit_log_def list_merges_def list_memories_def list_dead_def Let_def
  using assms by - (intro step_intros | assumption)+

lemma unmerge_steps:
  assumes "esteps unmerge_effects s t"
  shows "esteps unmerge_effects s (fst (unmerge ev k t))"
  unfolding unmerge_def restore_vector_def engine_get_memory_def Let_def
  by (intro step_intros assms | assumption)+

lemma import_row_steps:
  assumes "esteps import_effects s (fst x)"
  shows "esteps import_effects s (fst (import_row im ev now row x))"
  using assms unfolding import_row_def
  by (cases x) (simp only: prod.case, intro step_intros | assumption | simp)+

lemma import_steps:
  assumes "esteps import_effects s t"
  shows "esteps import_effects s (fst (run_import im ev src t))"
  unfolding run_import_def
  by (intro step_intros es.fold_rule [where p = fst] import_row_steps assms | assumption | simp)+

section \<open>Consolidation\<close>

lemma p1_fail_eng [simp]: "p1_eng (p1_fail i st e p) = p1_eng p"
  by (simp add: p1_fail_def)

lemma recycle_steps:
  assumes "esteps (saga_effects c) s (p1_eng p)"
  shows "esteps (saga_effects c) s (p1_eng (recycle_one now m p))"
proof -
  let ?X = "saga_effects c"
  define p1 where "p1 = (case parse_u64 (mi_vector_ref m) of
      None \<Rightarrow> p
    | Some v \<Rightarrow> (case on_store (delete_vector (of_nat v)) (p1_eng p) of
         (s, Inl e) \<Rightarrow> p1_fail (mi_id m) ''recycle'' (err_display e) (p\<lparr> p1_eng := s \<rparr>)
       | (s, Inr _) \<Rightarrow> p\<lparr> p1_eng := s \<rparr>))"
  define p2 where "p2 = (case raw_db (tombstone_memory (mi_id m)) (p1_eng p1) of
      (s, Inl e) \<Rightarrow> p1_fail (mi_id m) ''recycle'' (persist_display e) (p1\<lparr> p1_eng := s \<rparr>)
    | (s, Inr _) \<Rightarrow> p1\<lparr> p1_eng := s \<rparr>)"
  have "p1_eng p1 = (case parse_u64 (mi_vector_ref m) of None \<Rightarrow> p1_eng p
      | Some v \<Rightarrow> fst (on_store (delete_vector (of_nat v)) (p1_eng p)))"
    by (auto simp: p1_def split: option.split prod.split sum.split)
  then have p1: "esteps ?X s (p1_eng p1)"
    by (simp only:) (intro step_intros es.plain assms)
  have "p1_eng p2 = fst (raw_db (tombstone_memory (mi_id m)) (p1_eng p1))"
    by (auto simp: p2_def split: prod.split sum.split)
  then have p2: "esteps ?X s (p1_eng p2)"
    by (simp only:) (intro step_intros p1)
  have "p1_eng (recycle_one now m p) = fst (on_db (append_wop ''recycle'' (mi_id m) now) (p1_eng p2))"
    by (simp add: recycle_one_def Let_def p1_def p2_def)
  then show ?thesis by (simp only:) (intro step_intros p2)
qed

lemma promote_steps:
  assumes "esteps (saga_effects c) s (p1_eng p)"
  shows "esteps (saga_effects c) s (p1_eng (promote_one now m p))"
proof -
  have "p1_eng (promote_one now m p) = (case raw_db (put_memory (m\<lparr> mi_tier := Long \<rparr>)) (p1_eng p) of
      (s, r) \<Rightarrow> (case r of Inl e \<Rightarrow> s | Inr _ \<Rightarrow> fst (on_db (append_wop ''promote'' (mi_id m @ tab @ ''Long'') now) s)))"
    by (simp add: promote_one_def split: prod.split sum.split)
  then show ?thesis by (simp only:) (intro step_intros es.plain assms | assumption)+
qed

lemma phase1_steps:
  assumes "esteps (saga_effects c) s t"
  shows "esteps (saga_effects c) s (p1_eng (consolidate_phase1 now changed t))"
  unfolding consolidate_phase1_def
  by (rule es.fold_rule [where p = p1_eng]) (simp_all add: phase1_one_def recycle_steps promote_steps assms)

lemma merge_with_steps:
  assumes "esteps (saga_effects c) s t"
  shows "esteps (saga_effects c) s (fst (merge_with by src vr vec now knn fl t))"
  using assms
proof (induction knn arbitrary: fl t)
  case (Cons vk knn)
  obtain v k where vk: "vk = (v, k)" by fastforce
  show ?case unfolding merge_with.simps vk Let_def
    by (intro step_intros Cons | assumption)+
qed simp

lemma merge_all_steps:
  assumes "esteps (saga_effects c) s t"
  shows "esteps (saga_effects c) s (fst (fst (merge_all ev by now srcs n fl t)))"
  using assms
proof (induction srcs arbitrary: n fl t)
  case (Cons src rest)
  show ?case unfolding merge_all.simps
    by (intro step_intros merge_with_steps Cons | assumption | rule es.deep_split)+
qed simp

lemma merge_steps:
  assumes "esteps (saga_effects c) s t"
  shows "esteps (saga_effects c) s (fst (fst (consolidate_merge ev changed now f fl t)))"
  unfolding consolidate_merge_def by (intro step_intros merge_all_steps assms | assumption)+

lemma store_summary_steps:
  assumes "esteps (saga_effects c) s t"
  shows "esteps (saga_effects c) s (fst (fst (store_summary ev sess summary now f ms fl t)))"
  unfolding store_summary_def Let_def by (intro step_intros assms | assumption)+

lemma summarize_sessions_steps:
  assumes "esteps (saga_effects c) s t"
  shows "esteps (saga_effects c) s (fst (fst (summarize_sessions ev chat eps now f ss n fl t)))"
  using assms
proof (induction ss arbitrary: n fl t)
  case (Cons sess rest)
  show ?case unfolding summarize_sessions.simps Let_def
    by (intro step_intros store_summary_steps Cons | assumption)+
qed simp

lemma summarize_steps:
  assumes "esteps (saga_effects c) s t"
  shows "esteps (saga_effects c) s (fst (fst (consolidate_summarize ord ev changed now f fl t)))"
  unfolding consolidate_summarize_def Let_def by (intro step_intros summarize_sessions_steps assms | assumption)+

lemma reextract_steps:
  assumes "esteps (saga_effects (ev_codec ev)) s (fst x)"
  shows "esteps (saga_effects (ev_codec ev)) s (fst (reextract_one ev now m x))"
  using assms unfolding reextract_one_def Let_def
  by (cases x) (simp only: prod.case, intro step_intros | assumption | rule es.fst_split | simp)+

lemma log_reconcile_steps:
  assumes "reconcile_effects \<subseteq> X" and "esteps X s t"
  shows "esteps X s (log_reconcile now i stage e t)"
  unfolding log_reconcile_def using assms by (intro step_intros subsetD [OF assms(1)])

lemma forward_steps:
  assumes "reconcile_effects \<subseteq> X" and "esteps X s t"
  shows "esteps X s (reconcile_forward_one now m t)"
  unfolding reconcile_forward_one_def
  by (intro step_intros es.plain log_reconcile_steps assms | assumption)+

lemma orphan_steps:
  assumes "reconcile_effects \<subseteq> X" and "esteps X s t"
  shows "esteps X s (reconcile_orphan now refs v t)"
  unfolding reconcile_orphan_def
  by (intro es.plain log_reconcile_steps steps_delete subsetD [OF assms(1)] rc_vector assms | assumption)+

lemma tombstone_steps:
  assumes "reconcile_effects \<subseteq> X" and "esteps X s (fst x)"
  shows "esteps X s (fst (reconcile_tombstone now sources m x))"
  using assms(2) unfolding reconcile_tombstone_def
  by (cases x) (simp only: prod.case, intro log_reconcile_steps assms(1) subsetD [OF assms(1)] step_intros
      | assumption | simp)+

lemma reconcile_pass_steps:
  assumes "reconcile_effects \<subseteq> X" and "esteps X s t"
  shows "esteps X s (fst (fst (consolidate_reconcile ev now f fl t)))"
  unfolding consolidate_reconcile_def Let_def
  by (intro step_intros es.fold_rule [where p = fst] es.fold_rule [where p = "\<lambda>x. x"] forward_steps orphan_steps
        tombstone_steps assms | assumption | rule es.deep_split | simp)+

lemma reconcile_steps:
  assumes "esteps reconcile_effects s t"
  shows "esteps reconcile_effects s (fst (reconcile ev t))"
  unfolding reconcile_def
  by (intro step_intros reconcile_pass_steps assms subset_refl | assumption | rule es.fst_split)+

lemma reconcile_saga: "reconcile_effects \<subseteq> saga_effects c"
  by (auto elim!: reconcile_effects.cases intro: saga_effects.intros)

lemma finish_steps:
  assumes "esteps (saga_effects c) s t"
  shows "esteps (saga_effects c) s (fst (consolidate_finish f start rep t))"
  unfolding consolidate_finish_def
  by (intro step_intros es.fold_rule [where p = "\<lambda>x. x"] log_reconcile_steps [OF reconcile_saga] assms | assumption)+

lemma consolidate_steps:
  assumes "esteps (saga_effects (ev_codec ev)) s t"
  shows "esteps (saga_effects (ev_codec ev)) s (fst (consolidate_impl ord ev f t))"
  unfolding consolidate_impl_def Let_def
  by (intro step_intros phase1_steps merge_steps summarize_steps reconcile_pass_steps [OF reconcile_saga]
        es.fold_rule [where p = fst] reextract_steps finish_steps assms | assumption | rule es.fst_split | simp)+

section \<open>Requests\<close>

text \<open>The effects that the handler of a method may have; every other method has none.\<close>

definition footprint :: "engine_env \<Rightarrow> string \<Rightarrow> effect set" where
  "footprint ev m =
     (if m = ''commit'' then commit_effects ev
      else if m = ''retrieve'' \<or> m = ''memory.retrieve_context'' then retrieve_effects
      else if m = ''consolidate'' then saga_effects (ev_codec ev)
      else if m = ''delete'' then delete_effects
      else if m = ''delete_scope'' then scope_effects
      else if m = ''unmerge'' then unmerge_effects
      else if m = ''reconcile'' then reconcile_effects
      else {})"

lemma answer_steps: "esteps X s (fst (f t)) \<Longrightarrow> esteps X s (fst (answer f k t))"
  by (simp add: answer_def split: prod.split sum.split) (metis fst_conv)

lemma checked_steps:
  assumes "esteps X s t" and "\<And>p. esteps X s (fst (k p t))"
  shows "esteps X s (fst (checked r k t))"
  using assms by (simp add: checked_def split: sum.split)

lemmas op_steps =
  commit_steps retrieve_steps read_steps delete_steps scope_steps unmerge_steps reconcile_steps consolidate_steps

lemma consolidate_both:
  assumes "esteps (saga_effects (ev_codec ev)) s t"
  shows "esteps (saga_effects (ev_codec ev)) s
    (fst ((if b then consolidate_memories ord ev else consolidate_memories_scoped ord ev ns k) t))"
  using consolidate_steps [OF assms] by (simp add: consolidate_memories_def consolidate_memories_scoped_def)

lemma handler_steps:
  "esteps (commit_effects ev) s (fst (rpc_commit rc ev v ten s))"
  "esteps retrieve_effects s (fst (rpc_retrieve rc ev v ten s))"
  "esteps retrieve_effects s (fst (rpc_retrieve_context rc ev v ten s))"
  "esteps (saga_effects (ev_codec ev)) s (fst (rpc_consolidate rc ord ev v s))"
  "esteps delete_effects s (fst (rpc_delete rc ev v ten s))"
  "esteps scope_effects s (fst (rpc_delete_scope rc ev v ten s))"
  "esteps unmerge_effects s (fst (rpc_unmerge rc ev v s))"
  "esteps reconcile_effects s (fst (rpc_reconcile rc ev v s))"
  "esteps X s (fst (rpc_get rc v ten s))" "esteps X s (fst (rpc_count rc v ten s))"
  "esteps X s (fst (rpc_audit rc v s))" "esteps X s (fst (rpc_list rc v ten s))"
  "esteps X s (fst (rpc_audit_log rc v s))" "esteps X s (fst (rpc_merges rc s))"
  unfolding handler_defs
  by (intro checked_steps answer_steps op_steps consolidate_both step_intros | assumption)+

lemma method_steps: "esteps (footprint ev m) s (fst (call_method rc ord ev m params ten s))"
  by (simp add: call_method_def footprint_def handler_steps esteps_refl)

lemma dispatch_steps:
  "esteps (footprint ev (strip_version (rq_method req))) s (fst (dispatch rc ord ev req ten s))"
  using method_steps [of ev "strip_version (rq_method req)" s rc ord "rq_params req" ten]
  by (auto simp: dispatch_def esteps_refl split: prod.split)

text \<open>The effects of a server at large: those of its requests and of an import.\<close>

definition server_effects :: "engine_env \<Rightarrow> effect set" where
  "server_effects ev =
     commit_effects ev \<union> retrieve_effects \<union> saga_effects (ev_codec ev) \<union> delete_effects \<union> scope_effects
     \<union> unmerge_effects \<union> reconcile_effects \<union> import_effects"

lemma footprint_server: "footprint ev m \<subseteq> server_effects ev"
  by (auto simp: footprint_def server_effects_def)

lemma dispatch_server: "esteps (server_effects ev) s (fst (dispatch rc ord ev req ten s))"
  using esteps_mono [OF dispatch_steps footprint_server] .

lemma import_server: "esteps (server_effects ev) s (fst (run_import im ev src s))"
  by (rule esteps_mono [OF import_steps [OF esteps_refl]]) (auto simp: server_effects_def)

section \<open>Laws of the effects\<close>

text \<open>Both stores stay well-formed, and the dimension of the vectors stays.\<close>

definition engine_wf :: "engine \<Rightarrow> bool" where
  "engine_wf s = (db_wf (eg_db s) \<and> store_wf (eg_store s))"

lemma empty_store_wf: "store_wf empty_store"
  by (simp add: store_wf_def empty_store_def tree_ok_def)

definition stays_wf :: "engine \<Rightarrow> engine \<Rightarrow> bool" where
  "stays_wf s t = (engine_wf s \<longrightarrow> engine_wf t \<and> ls_dim (eg_store t) = ls_dim (eg_store s))"

lemma insert_vector_wf: "store_wf t \<Longrightarrow> store_wf (fst (insert_vector i v t))"
  by (auto simp: insert_vector_def st_op_def insert_vec_wf split: list.split option.split)

lemma delete_vector_wf: "store_wf t \<Longrightarrow> store_wf (fst (delete_vector i t))"
  by (auto simp: delete_vector_def st_op_def delete_vec_wf split: list.split option.split)

lemma vector_dims:
  "ls_dim (fst (insert_vector i v t)) = ls_dim t" "ls_dim (fst (delete_vector i t)) = ls_dim t"
  by (auto simp: insert_vector_def delete_vector_def st_op_def insert_vec_def delete_vec_def Let_def
      split: list.split option.split)

interpretation ewf: engine_law stays_wf UNIV
proof unfold_locales
  fix x s
  show "stays_wf s (do_effect x s)"
    by (cases x) (simp_all add: stays_wf_def engine_wf_def db_exec_wf insert_vector_wf delete_vector_wf vector_dims
        del: db_exec.simps split: option.split)
qed (auto simp: stays_wf_def engine_wf_def read_db_def read_store_def tick_def)

text \<open>Without effects the tables and the vectors are the same.\<close>

definition same_data :: "engine \<Rightarrow> engine \<Rightarrow> bool" where
  "same_data s t =
     ((eg_db t)\<lparr> db_faults := [] \<rparr> = (eg_db s)\<lparr> db_faults := [] \<rparr>
      \<and> (eg_store t)\<lparr> ls_faults := [] \<rparr> = (eg_store s)\<lparr> ls_faults := [] \<rparr>)"

interpretation esame: engine_law same_data "{}"
  by unfold_locales (simp_all add: same_data_def read_db_def read_store_def tick_def)

section \<open>Laws of the statements\<close>

text \<open>
  A relation between databases that every change of the tables keeps is kept by every statement,
  whatever fails, except for the statements that write or prune the write log.
\<close>

fun writes_log :: "db_cmd \<Rightarrow> bool" where
  "writes_log (CPutWop m op p n) = True"
| "writes_log (CAppendWop op p n) = True"
| "writes_log (CPrune b) = True"
| "writes_log _ = False"

locale table_law =
  fixes G :: "db \<Rightarrow> db \<Rightarrow> bool"
  assumes faults: "G d (d\<lparr> db_faults := fs \<rparr>)"
    and trans: "\<lbrakk> G a b; G b c \<rbrakk> \<Longrightarrow> G a c"
    and items: "G d (put_item m d)" "G d (update_items p u d)" "G d (delete_item i d)"
    and merges: "G d (d\<lparr> db_merges := ms \<rparr>)" "G d (d\<lparr> db_merges := ms, db_merge_seq := n \<rparr>)"
    and graph: "G d (d\<lparr> db_relations := rs \<rparr>)" "G d (d\<lparr> db_entities := es \<rparr>)"
    and logs: "G d (d\<lparr> db_reconcile := db_reconcile d @ xs \<rparr>)"
      "G d (d\<lparr> db_consolidations := db_consolidations d @ ys \<rparr>)"
      "G d (d\<lparr> db_audit := db_audit d @ as, db_audit_seq := n \<rparr>)"
begin

lemma same: "G d d"
  using faults [of d "db_faults d"] by simp

lemma law_op:
  assumes "\<And>d. G d (fst (f d))"
  shows "G d (fst (db_op f d))"
proof -
  obtain d' r where op: "db_op f d = (d', r)" by fastforce
  then show ?thesis
  proof (cases rule: db_op_cases)
    case (success x fs)
    then have "G d (fst (f (d\<lparr> db_faults := fs \<rparr>)))"
      using trans [OF faults assms] by blast
    with success op show ?thesis by simp
  qed (simp add: op faults)
qed

lemma law_update: "(\<And>d. G d (u d)) \<Longrightarrow> G d (fst (db_update u d))"
  unfolding db_update_def by (rule law_op) simp

lemma law_query: "db_query q d = (d', r) \<Longrightarrow> G d d'"
  using query_tick [of q d] faults [of d "tl (db_faults d)"] by simp

lemma law_failures: "G d (fst (insert_failures n fs d))"
proof (induction fs arbitrary: d)
  case (Cons f fs)
  define u where "u = db_update (\<lambda>d. d\<lparr> db_reconcile := db_reconcile d @
      [\<lparr> rc_at = n, rc_id = cf_id f, rc_stage = cf_stage f, rc_error = cf_error f \<rparr>] \<rparr>)"
  have "G d (fst (u d))" unfolding u_def by (rule law_update) (rule logs)
  with Cons trans show ?case
    by (auto simp: u_def [symmetric] split: prod.split sum.split)
qed (simp add: same)

lemma law_record: "G d (fst (record_consolidation rep n d))"
proof -
  define u where "u = db_update (\<lambda>d. d\<lparr> db_consolidations := db_consolidations d @ [(n, rep)] \<rparr>)"
  have "G d (fst (u d))" unfolding u_def by (rule law_update) (rule logs)
  with law_failures trans show ?thesis
    by (fastforce simp: record_consolidation_def u_def [symmetric] split: prod.split sum.split)
qed

lemma law_unmerge: "G d (fst (unmerge_log k d))"
proof -
  define u where "u = db_update (\<lambda>d. d\<lparr> db_merges := filter (\<lambda>r. me_id r \<noteq> k) (db_merges d) \<rparr>)"
  have "G d (fst (u d))" for d unfolding u_def by (rule law_update) (rule merges)
  then have "u d = (d', r) \<Longrightarrow> G d d'" for d d' r by (metis fst_conv)
  then show ?thesis
    by (auto simp: unmerge_log_def u_def [symmetric] split: prod.split sum.split option.split
        dest!: law_query intro: trans)
qed

lemma law_alias: "G d (fst (append_entity_alias e a d))"
  by (auto simp: append_entity_alias_def Let_def graph split: prod.split sum.split option.split
      dest!: law_query intro!: law_update elim!: trans)

lemma law_relation: "G d (fst (put_relation a b ty w pr n d))"
  unfolding put_relation_def by (rule law_update) (simp add: same graph)

lemma law_exec: "\<not> writes_log c \<Longrightarrow> G d (db_exec c d)"
  by (cases c) (auto simp: put_memory_def tombstone_memory_def untombstone_memory_def delete_by_session_def
    delete_by_session_tenant_def delete_where_def touch_access_batch_def record_merge_def
    physical_delete_def append_reconcile_def append_audit_def law_record law_unmerge law_alias law_relation Let_def
    same items merges logs intro!: law_update law_op)

end

text \<open>
  The audit log, the log of reconciliations, the log of runs and the write log only grow, as
  long as nobody prunes the write log.
\<close>

definition logs_grow :: "db \<Rightarrow> db \<Rightarrow> bool" where
  "logs_grow d d' =
     (prefix (db_audit d) (db_audit d') \<and> prefix (db_wop d) (db_wop d')
      \<and> prefix (db_consolidations d) (db_consolidations d') \<and> prefix (db_reconcile d) (db_reconcile d'))"

interpretation tgrow: table_law logs_grow
  by unfold_locales
    (auto simp: logs_grow_def put_item_def update_items_def delete_item_def intro: prefix_order.trans)

lemma logs_grow_exec: "(\<forall>b. c \<noteq> CPrune b) \<Longrightarrow> logs_grow d (db_exec c d)"
proof (cases "writes_log c")
  case True
  moreover have "logs_grow d (fst (add_wop op p n (put_item m d)))" "logs_grow d (fst (add_wop op p n d))" for op p n m d
    by (simp_all add: add_wop_def Let_def logs_grow_def put_item_def)
  moreover assume "\<forall>b. c \<noteq> CPrune b"
  ultimately show ?thesis
    by (cases c) (simp_all add: put_memory_with_wop_def append_wop_def tgrow.law_op)
qed (simp add: tgrow.law_exec)

definition history_grows :: "engine \<Rightarrow> engine \<Rightarrow> bool" where
  "history_grows s t = logs_grow (eg_db s) (eg_db t)"

interpretation ehist: engine_law history_grows "- range (XDb \<circ> CPrune)"
proof unfold_locales
  fix x s
  assume "x \<in> - range (XDb \<circ> CPrune)"
  then show "history_grows s (do_effect x s)"
    by (cases x) (auto simp: history_grows_def tgrow.same simp del: db_exec.simps intro!: logs_grow_exec split: option.split)
qed (auto simp: history_grows_def read_db_def read_store_def tick_def tgrow.faults tgrow.same intro: tgrow.trans)

lemma server_never_prunes: "server_effects ev \<subseteq> - range (XDb \<circ> CPrune)"
  by (auto simp: server_effects_def elim: commit_effects.cases retrieve_effects.cases saga_effects.cases
      delete_effects.cases scope_effects.cases unmerge_effects.cases reconcile_effects.cases import_effects.cases)

text \<open>What the server writes to the log of replication.\<close>

definition no_new_entry :: "db \<Rightarrow> db \<Rightarrow> bool" where
  "no_new_entry d d' = (db_wop d' = db_wop d)"

interpretation tlog: table_law no_new_entry
  by unfold_locales (auto simp: no_new_entry_def put_item_def update_items_def delete_item_def)

inductive loggable :: "payload_codec \<Rightarrow> string \<Rightarrow> string \<Rightarrow> bool" for c where
  lg_commit: "\<lbrakk> pc_enc c (m, Some v) = Inr p; mi_vector_ref m = show_nat (unat (i :: vid)) \<rbrakk> \<Longrightarrow>
    loggable c ''commit'' p"
| lg_delete: "loggable c ''delete'' p"
| lg_scope: "loggable c ''delete_scope'' p"
| lg_recycle: "loggable c ''recycle'' p"
| lg_promote: "loggable c ''promote'' (i @ tab @ ''Long'')"
| lg_merge: "loggable c ''merge'' p"
| lg_summary: "loggable c ''summarize'' p"
| lg_extract: "loggable c ''reextract'' (case pc_item_enc c m of Inr p \<Rightarrow> p | Inl e \<Rightarrow> [])"

definition logs_well :: "payload_codec \<Rightarrow> engine \<Rightarrow> engine \<Rightarrow> bool" where
  "logs_well c s t =
     (\<exists>ws. db_wop (eg_db t) = db_wop (eg_db s) @ ws \<and> (\<forall>w \<in> set ws. loggable c (we_op w) (we_payload w)))"

lemma logs_well_same: "no_new_entry (eg_db s) (eg_db t) \<Longrightarrow> logs_well c s t"
  by (simp add: logs_well_def no_new_entry_def)

lemma server_entry:
  assumes "XDb k \<in> server_effects ev" and "writes_log k"
  shows "\<exists>op p n. (k = CAppendWop op p n \<or> (\<exists>m. k = CPutWop m op p n)) \<and> loggable (ev_codec ev) op p"
  using assms
  by (auto simp: server_effects_def elim!: commit_effects.cases retrieve_effects.cases saga_effects.cases
      delete_effects.cases scope_effects.cases unmerge_effects.cases reconcile_effects.cases import_effects.cases
      intro: loggable.intros)

lemma exec_entry:
  assumes "k = CAppendWop op p n \<or> (\<exists>m. k = CPutWop m op p n)"
  shows "db_wop (db_exec k d) = db_wop d \<or> (\<exists>w. db_wop (db_exec k d) = db_wop d @ [w] \<and> we_op w = op \<and> we_payload w = p)"
proof -
  have a: "db_wop d1 = db_wop d \<or> (\<exists>w. db_wop d1 = db_wop d @ [w] \<and> we_op w = op \<and> we_payload w = p)"
    if "append_wop op p n d = (d1, r)" for d1 r
    using append_wop_cases [OF that] by (cases r) (auto simp: same_tables_facts)
  have m: "db_wop d1 = db_wop d \<or> (\<exists>w. db_wop d1 = db_wop d @ [w] \<and> we_op w = op \<and> we_payload w = p)"
    if "put_memory_with_wop m op p n d = (d1, r)" for m d1 r
    using put_with_wop_cases [OF that] by (cases r) (auto simp: same_tables_facts)
  note facts = a [OF prod.collapse [symmetric]] m [OF prod.collapse [symmetric]]
  from assms show ?thesis
  proof
    assume "k = CAppendWop op p n"
    then show ?thesis using facts(1) by (simp only: db_exec.simps)
  next
    assume "\<exists>m. k = CPutWop m op p n"
    then show ?thesis using facts(2) by (elim exE) (simp only: db_exec.simps)
  qed
qed

interpretation elog: engine_law "logs_well (ev_codec ev)" "server_effects ev" for ev :: engine_env
proof unfold_locales
  fix s :: engine
  show "logs_well (ev_codec ev) s s" "logs_well (ev_codec ev) s (read_db s)" "logs_well (ev_codec ev) s (read_store s)" "logs_well (ev_codec ev) s (tick s)"
    by (simp_all add: logs_well_def read_db_def read_store_def tick_def)
next
  fix s t u :: engine
  assume "logs_well (ev_codec ev) s t" "logs_well (ev_codec ev) t u"
  then show "logs_well (ev_codec ev) s u" by (fastforce simp: logs_well_def)
next
  fix x s
  assume x: "x \<in> server_effects ev"
  show "logs_well (ev_codec ev) s (do_effect x s)"
  proof (cases "\<exists>k. x = XDb k \<and> writes_log k")
    case True
    then obtain k where k: "x = XDb k" "writes_log k" by blast
    from server_entry [OF x [unfolded k(1)] k(2)] obtain op p n where
      kk: "k = CAppendWop op p n \<or> (\<exists>m. k = CPutWop m op p n)" and l: "loggable (ev_codec ev) op p" by blast
    from exec_entry [OF kk, of "eg_db s"] l k(1) show ?thesis by (auto simp: logs_well_def)
  next
    case False
    then have "no_new_entry (eg_db s) (eg_db (do_effect x s))"
      by (cases x) (auto intro!: tlog.law_exec simp: tlog.same simp del: db_exec.simps split: option.split)
    then show ?thesis by (rule logs_well_same)
  qed
qed

end
