(* ===== verification/Race.thy ===== *)
theory Race
  imports Steps
begin

text \<open>
  A commit and a reconciliation at the same time. Neither takes the lock of the other, so their
  calls to the two stores interleave. Each is cut into the calls it makes, one step per call
  (a row of the report is written with the call before it); alone, the steps of a thread are
  the whole operation. The last sections have the race of the two, and a deletion in the middle
  of a commit.
\<close>

section \<open>The commit of a turn as a thread\<close>

datatype commit_thread =
    CtInsert | CtPersist | CtCleanup turn_failure | CtExtract | CtFetch "entity_node list \<times> bool"
  | CtAttach memory_item | CtEnd "memory_error + turn_failure + string"

text \<open>The item \<open>m0\<close> and the vector \<open>w\<close> of the turn are computed before the first call to a store.\<close>

definition stored_item :: "memory_item \<Rightarrow> memory_item" where
  "stored_item m0 = m0\<lparr> mi_vector_ref := show_nat (unat (vector_id_from_ulid (mi_id m0))), mi_entities_pending := True \<rparr>"

fun commit_step ::
  "engine_env \<Rightarrow> nat \<Rightarrow> turn \<Rightarrow> memory_item \<Rightarrow> vec \<Rightarrow> commit_thread \<times> engine \<Rightarrow> commit_thread \<times> engine" where
  "commit_step ev now t m0 w (CtInsert, s) =
     (case on_store (insert_vector (vector_id_from_ulid (mi_id m0)) w) s of
        (s1, Inl e) \<Rightarrow> (CtEnd (Inr (Inl (turn_failed t ''insert_vector'' e))), s1)
      | (s1, Inr _) \<Rightarrow> (CtPersist, s1))"
| "commit_step ev now t m0 w (CtPersist, s) =
     (case pc_enc (ev_codec ev) (stored_item m0, Some w) of
        Inl e \<Rightarrow> (CtEnd (Inl (ESerde e)), s)
      | Inr payload \<Rightarrow>
          (case on_db (put_memory_with_wop (stored_item m0) ''commit'' payload now) s of
             (s1, Inl e) \<Rightarrow> (CtCleanup (turn_failed t ''persist'' e), s1)
           | (s1, Inr _) \<Rightarrow> (CtExtract, s1)))"
| "commit_step ev now t m0 w (CtCleanup f, s) =
     (CtEnd (Inr (Inl f)), fst (on_store (delete_vector (vector_id_from_ulid (mi_id m0))) s))"
| "commit_step ev now t m0 w (CtExtract, s) =
     (case ev_extract ev of
        None \<Rightarrow> (CtEnd (Inr (Inr (mi_id m0))), s)
      | Some ex \<Rightarrow> (case call (\<lambda>n. ex n (mi_content m0)) s of (s1, r) \<Rightarrow> (CtFetch r, s1)))"
| "commit_step ev now t m0 w (CtFetch r, s) =
     (case on_db (get_memory (mi_id m0)) s of
        (s1, Inr (Some m)) \<Rightarrow> (CtAttach (m\<lparr> mi_entities := fst r, mi_entities_pending := \<not> snd r \<rparr>), s1)
      | (s1, _) \<Rightarrow> (CtEnd (Inr (Inr (mi_id m0))), s1))"
| "commit_step ev now t m0 w (CtAttach m, s) = (CtEnd (Inr (Inr (mi_id m0))), fst (on_db (put_memory m) s))"
| "commit_step ev now t m0 w (CtEnd r, s) = (CtEnd r, s)"

section \<open>The reconciliation as a thread\<close>

datatype recon_phase =
    RpList | RpForward "memory_item list" | RpIds | RpOrphans "vid list" | RpMerges | RpTombs
  | RpVector "memory_item list" | RpRow memory_item "memory_item list" | RpEnd "memory_error + nat"

record recon_thread =
  rk_phase :: recon_phase
  rk_rows :: "memory_item list"
  rk_seen :: "vid list"
  rk_sources :: "string set"
  rk_count :: nat
  rk_fails :: "consolidation_failure list"

definition recon_start :: "consolidation_failure list \<Rightarrow> recon_thread" where
  "recon_start fl =
     \<lparr> rk_phase = RpList, rk_rows = [], rk_seen = [], rk_sources = {}, rk_count = 0, rk_fails = fl \<rparr>"

fun recon_step ::
  "engine_env \<Rightarrow> nat \<Rightarrow> ns_filter \<Rightarrow> recon_thread \<times> engine \<Rightarrow> recon_thread \<times> engine" where
  "recon_step ev now f (k, s) =
     (case rk_phase k of
        RpList \<Rightarrow>
           (case on_db (list_all_by_tenant_scoped (ev_tenant ev) f) s of
             (s1, Inl e) \<Rightarrow> (k\<lparr> rk_phase := RpEnd (Inl e) \<rparr>, s1)
           | (s1, Inr rows) \<Rightarrow> (k\<lparr> rk_phase := RpForward rows, rk_rows := rows \<rparr>, s1))
       | RpForward [] \<Rightarrow> (k\<lparr> rk_phase := RpIds \<rparr>, s)
       | RpForward (m # ms) \<Rightarrow> (k\<lparr> rk_phase := RpForward ms \<rparr>, reconcile_forward_one now m s)
       | RpIds \<Rightarrow>
           (case on_store list_vector_ids s of
             (s1, Inr vs) \<Rightarrow> (k\<lparr> rk_phase := RpOrphans vs, rk_seen := vs \<rparr>, s1)
           | (s1, Inl e) \<Rightarrow> (k\<lparr> rk_phase := RpOrphans [], rk_seen := [] \<rparr>, s1))
       | RpOrphans [] \<Rightarrow> (k\<lparr> rk_phase := RpMerges \<rparr>, s)
       | RpOrphans (v # vs) \<Rightarrow>
           (k\<lparr> rk_phase := RpOrphans vs \<rparr>, reconcile_orphan now (known_refs (rk_rows k)) v s)
       | RpMerges \<Rightarrow>
           (case on_db list_merge_log s of
             (s1, logs) \<Rightarrow>
               (k\<lparr> rk_phase := RpTombs,
                   rk_sources := (case logs of Inr rows \<Rightarrow> me_source ` set rows | Inl _ \<Rightarrow> {}) \<rparr>, s1))
       | RpTombs \<Rightarrow>
           (case on_db list_tombstoned s of
             (s1, Inl e) \<Rightarrow> (k\<lparr> rk_phase := RpEnd (Inl e) \<rparr>, s1)
           | (s1, Inr ts) \<Rightarrow> (k\<lparr> rk_phase := RpVector ts \<rparr>, s1))
       | RpVector [] \<Rightarrow> (k\<lparr> rk_phase := RpEnd (Inr (rk_count k)) \<rparr>, s)
       | RpVector (t # ts) \<Rightarrow>
           (if mi_id t \<in> rk_sources k then (k\<lparr> rk_phase := RpVector ts \<rparr>, s)
           else case parse_u64 (mi_vector_ref t) of
                  Some v \<Rightarrow>
                    (case on_store (delete_vector (of_nat v)) s of
                       (s1, r) \<Rightarrow> (k\<lparr> rk_phase := (if is_ok r then RpRow t ts else RpVector ts) \<rparr>, s1))
                | None \<Rightarrow>
                    (k\<lparr> rk_phase := RpVector ts \<rparr>,
                     log_reconcile now (mi_id t) ''bad-vector-ref''
                       ''tombstone vector_ref not u64, ghost vector may remain'' s))
       | RpRow t ts \<Rightarrow>
           (case raw_db (physical_delete (mi_id t)) s of
             (s1, Inl e) \<Rightarrow>
               (k\<lparr> rk_phase := RpVector ts,
                   rk_fails := rk_fails k @ [failure (mi_id t) ''reconcile-physical-delete'' (persist_display e)] \<rparr>, s1)
           | (s1, Inr _) \<Rightarrow> (k\<lparr> rk_phase := RpVector ts, rk_count := rk_count k + 1 \<rparr>, s1))
       | RpEnd r \<Rightarrow> (k, s))"

declare recon_step.simps [simp del]

lemmas recon_at = recon_step.simps

section \<open>A thread alone\<close>

text \<open>A thread gets from one state to another in some number of its own steps.\<close>

definition alone :: "('a \<Rightarrow> 'a) \<Rightarrow> 'a \<Rightarrow> 'a \<Rightarrow> bool" where
  "alone f x y = (\<exists>n. (f ^^ n) x = y)"

lemma alone_refl: "alone f x x"
  unfolding alone_def by (rule exI [of _ 0]) simp

lemma alone_step: "alone f (f x) y \<Longrightarrow> alone f x y"
  unfolding alone_def by (metis comp_apply funpow_Suc_right)

lemma alone_trans: "\<lbrakk> alone f x y; alone f y z \<rbrakk> \<Longrightarrow> alone f x z"
  unfolding alone_def by (metis comp_apply funpow_add)

definition turn_start :: "engine_env \<Rightarrow> string \<Rightarrow> interaction \<Rightarrow> nat \<Rightarrow> turn \<Rightarrow> engine
    \<Rightarrow> engine \<times> (turn_failure + memory_item \<times> vec)" where
  "turn_start ev sess ix now t s =
     (case call (ev_ulid ev) s of
        (s0, i) \<Rightarrow>
          (case embed ev (mi_content (commit_item ev sess ix now t i)) s0 of
             (s1, Inl e) \<Rightarrow> (s1, Inl (turn_failed t ''embed'' e))
           | (s1, Inr w) \<Rightarrow> (s1, Inr (commit_item ev sess ix now t i, w))))"

lemma commit_item_id [simp]: "mi_id (commit_item ev sess ix now t i) = i"
  by (simp add: commit_item_def new_turn_skeleton_def with_namespace_def)

lemma turn_thread:
  "commit_turn ev sess ix now t s =
     (case turn_start ev sess ix now t s of
        (s1, Inl f) \<Rightarrow> (s1, Inr (Inl f))
      | (s1, Inr (m0, w)) \<Rightarrow>
          (case (commit_step ev now t m0 w ^^ 5) (CtInsert, s1) of
             (CtEnd r, s2) \<Rightarrow> (s2, r)
           | (c, s2) \<Rightarrow> (s2, Inl (ESerde []))))"
  unfolding commit_turn_def turn_start_def Let_def
  by (simp add: numeral_eq_Suc stored_item_def extract_and_attach_def split: prod.split sum.split option.split)

lemma turn_alone:
  assumes "turn_start ev sess ix now t s = (s1, Inr (m0, w))" and "commit_turn ev sess ix now t s = (s2, r)"
  shows "alone (commit_step ev now t m0 w) (CtInsert, s1) (CtEnd r, s2)"
proof -
  have e: "\<exists>r s'. (commit_step ev now t m0 w ^^ 5) (CtInsert, s1) = (CtEnd r, s')"
    by (simp add: numeral_eq_Suc split: prod.split sum.split option.split)
  then obtain q u where q: "(commit_step ev now t m0 w ^^ 5) (CtInsert, s1) = (CtEnd q, u)" by blast
  with assms turn_thread [of ev sess ix now t s] have "q = r" "u = s2" by simp_all
  with q show ?thesis unfolding alone_def by blast
qed

lemma forward_alone:
  "rk_phase k = RpForward ms \<Longrightarrow>
     alone (recon_step ev now f) (k, s) (k\<lparr> rk_phase := RpIds \<rparr>, fold (reconcile_forward_one now) ms s)"
proof (induction ms arbitrary: k s)
  case Nil
  show ?case by (rule alone_step) (simp add: recon_at Nil alone_refl)
next
  case (Cons m ms)
  show ?case
    using Cons.IH [of "k\<lparr> rk_phase := RpForward ms \<rparr>" "reconcile_forward_one now m s"] Cons.prems
    by - (rule alone_step, simp add: recon_at)
qed

lemma orphans_alone:
  "rk_phase k = RpOrphans vs \<Longrightarrow>
     alone (recon_step ev now f) (k, s)
       (k\<lparr> rk_phase := RpMerges \<rparr>, fold (reconcile_orphan now (known_refs (rk_rows k))) vs s)"
proof (induction vs arbitrary: k s)
  case Nil
  show ?case by (rule alone_step) (simp add: recon_at Nil alone_refl)
next
  case (Cons v vs)
  show ?case
    using Cons.IH [of "k\<lparr> rk_phase := RpOrphans vs \<rparr>" "reconcile_orphan now (known_refs (rk_rows k)) v s"] Cons.prems
    by - (rule alone_step, simp add: recon_at)
qed

lemma tomb_alone:
  assumes k: "rk_phase k = RpVector (t # ts)"
    and r: "reconcile_tombstone now (rk_sources k) t (s, rk_count k, rk_fails k) = (u, c, g)"
  shows "alone (recon_step ev now f) (k, s) (k\<lparr> rk_phase := RpVector ts, rk_count := c, rk_fails := g \<rparr>, u)"
proof -
  have stay: "k\<lparr> rk_phase := p, rk_count := rk_count k, rk_fails := x \<rparr> = k\<lparr> rk_phase := p, rk_fails := x \<rparr>"
    "k\<lparr> rk_phase := p, rk_fails := rk_fails k \<rparr> = k\<lparr> rk_phase := p \<rparr>"
    "k\<lparr> rk_phase := p, rk_count := n, rk_fails := rk_fails k \<rparr> = k\<lparr> rk_phase := p, rk_count := n \<rparr>" for p x n
    by (cases k; simp)+
  show ?thesis
  proof (cases "mi_id t \<in> rk_sources k \<or> parse_u64 (mi_vector_ref t) = None")
    case True
    then show ?thesis using r k
      by - (rule alone_step, auto simp: recon_at reconcile_tombstone_def stay alone_refl)
  next
    case False
    then obtain v s1 q where v: "mi_id t \<notin> rk_sources k" "parse_u64 (mi_vector_ref t) = Some v"
      "on_store (delete_vector (of_nat v)) s = (s1, q)" by (cases "on_store (delete_vector (of_nat (the (parse_u64 (mi_vector_ref t))))) s") auto
    obtain s2 e where p: "raw_db (physical_delete (mi_id t)) s1 = (s2, e)" by fastforce
    show ?thesis
    proof (cases "is_ok q")
      case True
      have "alone (recon_step ev now f) (recon_step ev now f (k\<lparr> rk_phase := RpRow t ts \<rparr>, s1))
          (k\<lparr> rk_phase := RpVector ts, rk_count := c, rk_fails := g \<rparr>, u)"
        using r v p True by (cases e) (auto simp: recon_at reconcile_tombstone_def stay alone_refl)
      then show ?thesis using k v True by - (rule alone_step, rule alone_step, simp add: recon_at)
    next
      case fails: False
      then show ?thesis using r k v
        by - (rule alone_step, auto simp: recon_at reconcile_tombstone_def stay alone_refl)
    qed
  qed
qed

lemma tombs_alone:
  "\<lbrakk> rk_phase k = RpVector ts; fold (reconcile_tombstone now (rk_sources k)) ts (s, rk_count k, rk_fails k) = (s', n, fl) \<rbrakk>
     \<Longrightarrow> alone (recon_step ev now f) (k, s)
           (k\<lparr> rk_phase := RpEnd (Inr n), rk_count := n, rk_fails := fl \<rparr>, s')"
proof (induction ts arbitrary: k s)
  case Nil
  then show ?case by - (rule alone_step, cases k, simp add: recon_at alone_refl)
next
  case (Cons t ts)
  obtain u c g where r: "reconcile_tombstone now (rk_sources k) t (s, rk_count k, rk_fails k) = (u, c, g)"
    using prod_cases3 by blast
  show ?case
    using alone_trans [OF tomb_alone [OF Cons.prems(1) r]
        Cons.IH [of "k\<lparr> rk_phase := RpVector ts, rk_count := c, rk_fails := g \<rparr>" u]] Cons.prems(2) r by simp
qed

text \<open>The thread after its rows, after its vectors, and at the tombstones.\<close>

abbreviation recon_state ::
  "consolidation_failure list \<Rightarrow> memory_item list \<Rightarrow> vid list \<Rightarrow> string set \<Rightarrow> recon_phase \<Rightarrow> recon_thread" where
  "recon_state fl rows vs src p \<equiv>
     \<lparr> rk_phase = p, rk_rows = rows, rk_seen = vs, rk_sources = src, rk_count = 0, rk_fails = fl \<rparr>"

lemma listing_alone:
  assumes "on_db (list_all_by_tenant_scoped (ev_tenant ev) f) s = (s1, Inr rows)"
    and "on_store list_vector_ids (fold (reconcile_forward_one now) rows s1) = (s3, ids)"
    and "vs = (case ids of Inr vs \<Rightarrow> vs | Inl _ \<Rightarrow> [])"
    and "on_db list_merge_log (fold (reconcile_orphan now (known_refs rows)) vs s3) = (s5, logs)"
  shows "alone (recon_step ev now f) (recon_start fl, s)
      (recon_state fl rows vs (case logs of Inr ms \<Rightarrow> me_source ` set ms | Inl _ \<Rightarrow> {}) RpTombs, s5)"
proof -
  let ?f = "recon_step ev now f" and ?s2 = "fold (reconcile_forward_one now) rows s1"
    and ?s4 = "fold (reconcile_orphan now (known_refs rows)) vs s3"
  have "alone ?f (recon_start fl, s) (recon_state fl rows [] {} (RpForward rows), s1)"
    using assms(1) by - (rule alone_step, simp add: recon_at recon_start_def alone_refl)
  moreover have "alone ?f (recon_state fl rows [] {} (RpForward rows), s1) (recon_state fl rows [] {} RpIds, ?s2)"
    using forward_alone [of "recon_state fl rows [] {} (RpForward rows)" rows ev now f s1] by simp
  moreover have "alone ?f (recon_state fl rows [] {} RpIds, ?s2) (recon_state fl rows vs {} (RpOrphans vs), s3)"
    using assms(2,3) by - (rule alone_step, cases ids, simp_all add: recon_at alone_refl)
  moreover have "alone ?f (recon_state fl rows vs {} (RpOrphans vs), s3) (recon_state fl rows vs {} RpMerges, ?s4)"
    using orphans_alone [of "recon_state fl rows vs {} (RpOrphans vs)" vs ev now f s3] by simp
  moreover have "alone ?f (recon_state fl rows vs {} RpMerges, ?s4)
      (recon_state fl rows vs (case logs of Inr ms \<Rightarrow> me_source ` set ms | Inl _ \<Rightarrow> {}) RpTombs, s5)"
    using assms(4) by - (rule alone_step, simp add: recon_at alone_refl)
  ultimately show ?thesis by (rule alone_trans [OF alone_trans [OF alone_trans [OF alone_trans]]])
qed

lemma recon_alone:
  assumes "consolidate_reconcile ev now f fl s = ((s', fl'), r)"
  shows "\<exists>k. alone (recon_step ev now f) (recon_start fl, s) (k, s') \<and> rk_phase k = RpEnd r \<and> rk_fails k = fl'"
proof -
  let ?f = "recon_step ev now f"
  obtain s1 q where l: "on_db (list_all_by_tenant_scoped (ev_tenant ev) f) s = (s1, q)" by fastforce
  show ?thesis
  proof (cases q)
    case (Inl e)
    then have "alone ?f (recon_start fl, s) (recon_state fl [] [] {} (RpEnd (Inl e)), s1)"
      using l by - (rule alone_step, simp add: recon_at recon_start_def alone_refl)
    with assms l Inl show ?thesis
      by (intro exI [of _ "recon_state fl [] [] {} (RpEnd (Inl e))"]) (simp add: consolidate_reconcile_def)
  next
    case (Inr rows)
    obtain s3 ids where i: "on_store list_vector_ids (fold (reconcile_forward_one now) rows s1) = (s3, ids)" by fastforce
    let ?vs = "case ids of Inr vs \<Rightarrow> vs | Inl _ \<Rightarrow> []"
    obtain s5 logs where m: "on_db list_merge_log (fold (reconcile_orphan now (known_refs rows)) ?vs s3) = (s5, logs)"
      by fastforce
    let ?src = "case logs of Inr rows \<Rightarrow> me_source ` set rows | Inl _ \<Rightarrow> {}"
    obtain s6 ts where t: "on_db list_tombstoned s5 = (s6, ts)" by fastforce
    note upto = listing_alone [OF l [unfolded Inr] i refl m, of fl]
    show ?thesis
    proof (cases ts)
      case e: (Inl e)
      have "alone ?f (recon_state fl rows ?vs ?src RpTombs, s5) (recon_state fl rows ?vs ?src (RpEnd (Inl e)), s6)"
        using t e by - (rule alone_step, simp add: recon_at alone_refl)
      from alone_trans [OF upto this] assms l Inr i m t e show ?thesis
        by (intro exI [of _ "recon_state fl rows ?vs ?src (RpEnd (Inl e))"]) (simp add: consolidate_reconcile_def Let_def)
    next
      case tombs: (Inr tombs)
      obtain s7 n fl7 where d: "fold (reconcile_tombstone now ?src) tombs (s6, 0, fl) = (s7, n, fl7)"
        using prod_cases3 by blast
      have "alone ?f (recon_state fl rows ?vs ?src RpTombs, s5) (recon_state fl rows ?vs ?src (RpVector tombs), s6)"
        using t tombs by - (rule alone_step, simp add: recon_at alone_refl)
      moreover have "alone ?f (recon_state fl rows ?vs ?src (RpVector tombs), s6)
          ((recon_state fl rows ?vs ?src (RpEnd (Inr n)))\<lparr> rk_count := n, rk_fails := fl7 \<rparr>, s7)"
        using tombs_alone [of "recon_state fl rows ?vs ?src (RpVector tombs)" tombs now s6 s7 n fl7 ev f] d by simp
      moreover have "s' = s7" "fl' = fl7" "r = Inr n"
        using assms l Inr i m t tombs d by (simp_all add: consolidate_reconcile_def Let_def)
      ultimately show ?thesis
        using alone_trans [OF alone_trans [OF upto]]
        by (intro exI [of _ "(recon_state fl rows ?vs ?src (RpEnd (Inr n)))\<lparr> rk_count := n, rk_fails := fl7 \<rparr>"]) simp
    qed
  qed
qed

section \<open>What a step does to the stores\<close>

lemma recon_engine:
  "snd (recon_step ev now f (k, s)) =
     (case rk_phase k of
        RpList \<Rightarrow> fst (on_db (list_all_by_tenant_scoped (ev_tenant ev) f) s)
      | RpForward (m # ms) \<Rightarrow> reconcile_forward_one now m s
      | RpIds \<Rightarrow> fst (on_store list_vector_ids s)
      | RpOrphans (v # vs) \<Rightarrow> reconcile_orphan now (known_refs (rk_rows k)) v s
      | RpMerges \<Rightarrow> fst (on_db list_merge_log s)
      | RpTombs \<Rightarrow> fst (on_db list_tombstoned s)
      | RpVector (t # ts) \<Rightarrow>
          (if mi_id t \<in> rk_sources k then s
           else case parse_u64 (mi_vector_ref t) of
                  Some v \<Rightarrow> fst (on_store (delete_vector (of_nat v)) s)
                | None \<Rightarrow> log_reconcile now (mi_id t) ''bad-vector-ref''
                     ''tombstone vector_ref not u64, ghost vector may remain'' s)
      | RpRow t ts \<Rightarrow> fst (raw_db (physical_delete (mi_id t)) s)
      | _ \<Rightarrow> s)"
  by (simp add: recon_at split: recon_phase.split list.split prod.split sum.split option.split)

lemma recon_steps: "esteps UNIV s (snd (recon_step ev now f (k, s)))"
  by (simp add: recon_engine steps_read_calls steps_on_db steps_looks steps_delete steps_commands forward_steps
      orphan_steps log_reconcile_steps esteps_refl split: recon_phase.split list.split option.split)

lemma commit_calls:
  "esteps UNIV s (fst (on_store (insert_vector v x) s))" "esteps UNIV s (fst (on_store (delete_vector v) s))"
  "esteps UNIV s (fst (on_db (put_memory_with_wop m op p n) s))" "esteps UNIV s (fst (on_db (get_memory i) s))"
  "esteps UNIV s (fst (on_db (put_memory m) s))" "esteps UNIV s (fst (call g s))"
  by (simp_all add: steps_insert steps_delete steps_commands steps_read_calls steps_on_db steps_call esteps_refl)

lemma commit_engine:
  "snd (commit_step ev now t m0 w (c, s)) =
     (case c of
        CtInsert \<Rightarrow> fst (on_store (insert_vector (vector_id_from_ulid (mi_id m0)) w) s)
      | CtPersist \<Rightarrow>
          (case pc_enc (ev_codec ev) (stored_item m0, Some w) of
             Inl e \<Rightarrow> s
           | Inr payload \<Rightarrow> fst (on_db (put_memory_with_wop (stored_item m0) ''commit'' payload now) s))
      | CtCleanup f \<Rightarrow> fst (on_store (delete_vector (vector_id_from_ulid (mi_id m0))) s)
      | CtExtract \<Rightarrow> (case ev_extract ev of None \<Rightarrow> s | Some ex \<Rightarrow> fst (call (\<lambda>n. ex n (mi_content m0)) s))
      | CtFetch r \<Rightarrow> fst (on_db (get_memory (mi_id m0)) s)
      | CtAttach m \<Rightarrow> fst (on_db (put_memory m) s)
      | CtEnd r \<Rightarrow> s)"
  by (cases c) (simp_all split: prod.split sum.split option.split)

lemma commit_stepped: "esteps UNIV s (snd (commit_step ev now t m0 w (c, s)))"
  by (simp add: commit_engine commit_calls esteps_refl split: commit_thread.split sum.split option.split)

text \<open>Rows: a step of the reconciliation keeps them, but for the purge of a tombstone.\<close>

definition recon_purges :: "recon_thread \<Rightarrow> string set" where
  "recon_purges k = (case rk_phase k of RpRow t ts \<Rightarrow> {mi_id t} | _ \<Rightarrow> {})"

lemma query_keeps: "same_rows s (fst (on_db (db_query q) s))"
  using query_rows [of q s] by (metis prod.collapse)

lemma recon_rows: "only_purges (recon_purges k) s (snd (recon_step ev now f (k, s)))"
proof -
  have list: "same_rows s (fst (on_db (list_all_by_tenant_scoped ten f) s))" for ten
    using scoped_rows [of ten f s] by (metis prod.collapse)
  have purge: "only_purges {i} s (fst (raw_db (physical_delete i) s))" for i
    using physical_delete_purges [of i s] by (metis prod.collapse)
  show ?thesis
    using list purge
    by (auto simp: query_keeps [unfolded same_rows_def] recon_engine recon_purges_def list_merge_log_def list_tombstoned_def same_rows_def
        split: recon_phase.split list.split option.split
        intro!: same_rows_purges forward_rows orphan_rows row_rows)
qed

text \<open>Vectors: a step of the reconciliation removes the ones it names.\<close>

definition recon_drops :: "recon_thread \<Rightarrow> vid set" where
  "recon_drops k =
     (case rk_phase k of
        RpOrphans (v # vs) \<Rightarrow> if unat v \<in> set (known_refs (rk_rows k)) then {} else {v}
      | RpVector (t # ts) \<Rightarrow> (case parse_u64 (mi_vector_ref t) of Some n \<Rightarrow> {of_nat n} | None \<Rightarrow> {})
      | _ \<Rightarrow> {})"

definition drops :: "vid set \<Rightarrow> lstore \<Rightarrow> lstore \<Rightarrow> bool" where
  "drops S t t' =
     ((\<forall>u. u \<notin> S \<longrightarrow> store_map t' u = store_map t u) \<and> (\<forall>u. store_map t u = None \<longrightarrow> store_map t' u = None)
      \<and> (ls_faults t = [] \<longrightarrow> ls_faults t' = []))"

lemma drops_refl [simp]: "drops S t t"
  by (simp add: drops_def)

lemma drops_read: "drops S (eg_store s) (eg_store (fst (on_store (get_vector v) s)))"
  "drops S (eg_store s) (eg_store (fst (on_store list_vector_ids s)))"
  by (simp_all add: on_store_fst get_vector_def list_vector_ids_def look_tick drops_def)

lemma delete_cases:
  "fst (delete_vector v t) = delete_vec v (t\<lparr> ls_faults := tl (ls_faults t) \<rparr>)
     \<or> fst (delete_vector v t) = t\<lparr> ls_faults := tl (ls_faults t) \<rparr> \<and> ls_faults t \<noteq> []"
  by (cases t; cases "ls_faults t") (auto simp: delete_vector_def st_op_def split: option.split)

lemma drops_delete: "drops {v} (eg_store s) (eg_store (fst (on_store (delete_vector v) s)))"
  using delete_cases [of v "eg_store s"]
  by (auto simp: on_store_fst drops_def store_map_delete) (auto simp: delete_vec_def)

lemma deleted:
  "ls_faults (eg_store s) = [] \<Longrightarrow> store_map (eg_store (fst (on_store (delete_vector v) s))) v = None"
  using delete_cases [of v "eg_store s"] by (auto simp: on_store_fst store_map_delete)

lemma forward_drops: "drops {} (eg_store s) (eg_store (reconcile_forward_one now m s))"
  using drops_read(1)
  by (auto simp: reconcile_forward_one_def split: option.split prod.split sum.split) (metis fst_conv)+

lemma recon_vectors: "drops (recon_drops k) (eg_store s) (eg_store (snd (recon_step ev now f (k, s))))"
proof -
  have db: "eg_store (fst (on_db g u)) = eg_store u" "eg_store (fst (raw_db h u)) = eg_store u"
    for g :: "db \<Rightarrow> db \<times> (persist_error + 'a)" and h :: "db \<Rightarrow> db \<times> 'b" and u
    by (simp_all add: on_db_def raw_db_def split: prod.split)
  have orphan: "drops {v} (eg_store s) (eg_store (reconcile_orphan now refs v s))"
    "unat v \<in> set refs \<Longrightarrow> reconcile_orphan now refs v s = s" for v refs
    using drops_delete [of v "log_reconcile now x ''orphan-vector'' y s" for x y]
    by (simp_all add: reconcile_orphan_def)
  show ?thesis
    by (auto simp: recon_engine recon_drops_def db orphan drops_read drops_delete forward_drops
        split: recon_phase.split list.split option.split)
qed

section \<open>Both threads\<close>

text \<open>A schedule says at each step whether the commit moves.\<close>

definition race_step ::
  "engine_env \<Rightarrow> nat \<Rightarrow> turn \<Rightarrow> memory_item \<Rightarrow> vec \<Rightarrow> nat \<Rightarrow> ns_filter \<Rightarrow> bool
     \<Rightarrow> commit_thread \<times> recon_thread \<times> engine \<Rightarrow> commit_thread \<times> recon_thread \<times> engine" where
  "race_step ev now t m0 w at_ms f b x =
     (case x of (c, k, s) \<Rightarrow>
        if b then (case commit_step ev now t m0 w (c, s) of (c1, s1) \<Rightarrow> (c1, k, s1))
        else (case recon_step ev at_ms f (k, s) of (k1, s1) \<Rightarrow> (c, k1, s1)))"

definition interleave ::
  "engine_env \<Rightarrow> nat \<Rightarrow> turn \<Rightarrow> memory_item \<Rightarrow> vec \<Rightarrow> nat \<Rightarrow> ns_filter \<Rightarrow> bool list
     \<Rightarrow> commit_thread \<times> recon_thread \<times> engine \<Rightarrow> commit_thread \<times> recon_thread \<times> engine" where
  "interleave ev now t m0 w at_ms f bs x = fold (race_step ev now t m0 w at_ms f) bs x"

text \<open>The id of the turn's vector. The reconciliation missed the turn if it saw the vector, but not the row.\<close>

abbreviation turn_vid :: "memory_item \<Rightarrow> vid" where
  "turn_vid m0 \<equiv> vector_id_from_ulid (mi_id m0)"

definition missed :: "memory_item \<Rightarrow> recon_thread \<Rightarrow> bool" where
  "missed m0 k = (turn_vid m0 \<in> set (rk_seen k) \<and> unat (turn_vid m0) \<notin> set (known_refs (rk_rows k)))"

text \<open>The row of the turn is live and names its vector, no other row does, and the live rows \<open>L\<close> are kept.\<close>

definition turn_row :: "memory_item \<Rightarrow> memory_item \<Rightarrow> bool" where
  "turn_row m0 m = (\<not> mi_tombstone m \<and> mi_vector_ref m = show_nat (unat (turn_vid m0)))"

definition rows_ok :: "memory_item \<Rightarrow> item_map \<Rightarrow> engine \<Rightarrow> bool" where
  "rows_ok m0 L s =
     ((\<forall>j m. items_of s j = Some m \<longrightarrow>
         (if j = mi_id m0 then turn_row m0 m else parse_u64 (mi_vector_ref m) \<noteq> Some (unat (turn_vid m0))))
      \<and> (\<forall>j m. L j = Some m \<longrightarrow> items_of s j = Some m \<and> \<not> mi_tombstone m \<and> j \<noteq> mi_id m0))"

definition commit_ok :: "memory_item \<Rightarrow> commit_thread \<Rightarrow> engine \<Rightarrow> bool" where
  "commit_ok m0 c s =
     (case c of
        CtInsert \<Rightarrow> items_of s (mi_id m0) = None \<and> store_map (eg_store s) (turn_vid m0) = None
      | CtAttach m \<Rightarrow> items_of s (mi_id m0) \<noteq> None \<and> mi_id m = mi_id m0 \<and> turn_row m0 m
      | CtExtract \<Rightarrow> items_of s (mi_id m0) \<noteq> None
      | CtFetch r \<Rightarrow> items_of s (mi_id m0) \<noteq> None
      | CtEnd (Inr (Inr i)) \<Rightarrow> items_of s (mi_id m0) \<noteq> None
      | _ \<Rightarrow> True)"

definition doomed :: "memory_item \<Rightarrow> item_map \<Rightarrow> memory_item \<Rightarrow> bool" where
  "doomed m0 L t =
     (mi_id t \<noteq> mi_id m0 \<and> L (mi_id t) = None \<and> parse_u64 (mi_vector_ref t) \<noteq> Some (unat (turn_vid m0)))"

definition recon_ok :: "memory_item \<Rightarrow> item_map \<Rightarrow> recon_thread \<Rightarrow> bool" where
  "recon_ok m0 L k =
     (case rk_phase k of
        RpList \<Rightarrow> rk_seen k = [] | RpForward ms \<Rightarrow> rk_seen k = [] | RpIds \<Rightarrow> rk_seen k = []
      | RpOrphans vs \<Rightarrow> set vs \<subseteq> set (rk_seen k)
      | RpVector ts \<Rightarrow> \<forall>t \<in> set ts. doomed m0 L t
      | RpRow t ts \<Rightarrow> \<forall>x \<in> set (t # ts). doomed m0 L x
      | _ \<Rightarrow> True)"

definition has_vector :: "commit_thread \<Rightarrow> bool" where
  "has_vector c =
     (case c of CtInsert \<Rightarrow> False | CtCleanup f \<Rightarrow> False | CtEnd (Inr (Inr i)) \<Rightarrow> True | CtEnd r \<Rightarrow> False | _ \<Rightarrow> True)"

definition vector_ok :: "memory_item \<Rightarrow> commit_thread \<Rightarrow> recon_thread \<Rightarrow> engine \<Rightarrow> bool" where
  "vector_ok m0 c k s =
     ((has_vector c \<longrightarrow> store_map (eg_store s) (turn_vid m0) \<noteq> None \<or> missed m0 k)
      \<and> (c = CtInsert \<longrightarrow> turn_vid m0 \<notin> set (rk_seen k)))"

definition race_ok :: "memory_item \<Rightarrow> item_map \<Rightarrow> commit_thread \<times> recon_thread \<times> engine \<Rightarrow> bool" where
  "race_ok m0 L x =
     (case x of (c, k, s) \<Rightarrow>
        engine_wf s \<and> rows_ok m0 L s \<and> commit_ok m0 c s \<and> recon_ok m0 L k \<and> vector_ok m0 c k s)"

lemma steps_wf: "esteps UNIV s t \<Longrightarrow> engine_wf s \<Longrightarrow> engine_wf t"
  using ewf.law_steps [of s t] by (simp add: stays_wf_def)

lemma rows_same: "items_of t = items_of s \<Longrightarrow> rows_ok m0 L t = rows_ok m0 L s"
  by (simp add: rows_ok_def)

lemma rows_put:
  "\<lbrakk> rows_ok m0 L s; items_of t = (items_of s)(mi_id m0 \<mapsto> m); turn_row m0 m \<rbrakk> \<Longrightarrow> rows_ok m0 L t"
  by (auto simp: rows_ok_def)

lemma store_items [simp]: "items_of (fst (on_store g s)) = items_of s"
  by (simp add: items_of_def)

text \<open>What a step of the commit has to keep.\<close>

definition turn_ok :: "memory_item \<Rightarrow> item_map \<Rightarrow> commit_thread \<Rightarrow> recon_thread \<Rightarrow> engine \<Rightarrow> bool" where
  "turn_ok m0 L c k s = (rows_ok m0 L s \<and> commit_ok m0 c s \<and> vector_ok m0 c k s)"

lemmas turn_defs = turn_ok_def commit_ok_def vector_ok_def has_vector_def

lemma stored_turn:
  "\<not> mi_tombstone m0 \<Longrightarrow> turn_row m0 (stored_item m0)" "mi_id (stored_item m0) = mi_id m0"
  by (simp_all add: turn_row_def stored_item_def)

lemma insert_keeps:
  assumes x: "turn_ok m0 L CtInsert k s" "engine_wf s" and st: "commit_step ev now t m0 w (CtInsert, s) = (c1, s1)"
  shows "turn_ok m0 L c1 k s1"
proof -
  obtain r where i: "on_store (insert_vector (turn_vid m0) w) s = (s1, r)"
    and c1: "c1 = (case r of Inl e \<Rightarrow> CtEnd (Inr (Inl (turn_failed t ''insert_vector'' e))) | Inr u \<Rightarrow> CtPersist)"
    using st by (auto split: prod.splits sum.splits)
  have items: "items_of s1 = items_of s" using i store_items by (metis fst_conv)
  have "store_map (eg_store s1) (turn_vid m0) \<noteq> None" if "r = Inr u" for u
    using insert_vector_Inr [of "turn_vid m0" w "eg_store s" "eg_store s1" u] on_store_parts [OF i] that x(2)
    by (simp add: engine_wf_def)
  then show ?thesis using x(1) c1 rows_same [OF items] by (cases r) (simp_all add: turn_defs)
qed

lemma persist_keeps:
  assumes m0: "\<not> mi_tombstone m0" and x: "turn_ok m0 L CtPersist k s"
    and st: "commit_step ev now t m0 w (CtPersist, s) = (c1, s1)"
  shows "turn_ok m0 L c1 k s1"
proof (cases "pc_enc (ev_codec ev) (stored_item m0, Some w)")
  case (Inl e)
  then show ?thesis using st x by (auto simp: turn_defs)
next
  case (Inr payload)
  obtain r where p: "on_db (put_memory_with_wop (stored_item m0) ''commit'' payload now) s = (s1, r)"
    and c1: "c1 = (case r of Inl e \<Rightarrow> CtCleanup (turn_failed t ''persist'' e) | Inr u \<Rightarrow> CtExtract)"
    using st Inr by (auto split: prod.splits sum.splits)
  from p obtain q where q: "put_memory_with_wop (stored_item m0) ''commit'' payload now (eg_db s) = (eg_db s1, q)"
    "r = map_err to_memory q" "eg_store s1 = eg_store s" by (rule on_db_parts)
  show ?thesis
  proof (cases q)
    case (Inl e)
    then have "items_of s1 = items_of s" using put_with_wop_cases [OF q(1)] same_items_of by simp
    from rows_same [OF this] show ?thesis using x c1 q Inl by (simp add: turn_defs)
  next
    case (Inr u)
    then have i: "items_of s1 = (items_of s)(mi_id m0 \<mapsto> stored_item m0)"
      using put_with_wop_cases [OF q(1)] stored_turn(2) by (simp add: items_of_def fun_eq_iff)
    then show ?thesis using rows_put [OF _ i stored_turn(1) [OF m0]] x c1 q Inr by (simp add: turn_defs)
  qed
qed

lemma extract_keeps:
  assumes x: "turn_ok m0 L CtExtract k s" and st: "commit_step ev now t m0 w (CtExtract, s) = (c1, s1)"
  shows "turn_ok m0 L c1 k s1"
proof -
  have e: "items_of s1 = items_of s" "eg_store s1 = eg_store s"
    "c1 = CtEnd (Inr (Inr (mi_id m0))) \<or> (\<exists>r. c1 = CtFetch r)"
    using st by (auto simp: call_def items_of_def split: option.splits)
  from e(3) show ?thesis
    using x rows_same [OF e(1)] e(1,2) by (elim disjE exE) (simp_all add: turn_defs)
qed

lemma fetch_keeps:
  assumes x: "turn_ok m0 L (CtFetch r) k s" and st: "commit_step ev now t m0 w (CtFetch r, s) = (c1, s1)"
  shows "turn_ok m0 L c1 k s1"
proof -
  obtain q where g: "on_db (get_memory (mi_id m0)) s = (s1, q)"
    and c1: "c1 = (case q of Inr (Some m) \<Rightarrow> CtAttach (m\<lparr> mi_entities := fst r, mi_entities_pending := \<not> snd r \<rparr>)
                          | _ \<Rightarrow> CtEnd (Inr (Inr (mi_id m0))))"
    using st by (auto split: prod.splits sum.splits option.splits)
  from g obtain p where p: "get_memory (mi_id m0) (eg_db s) = (eg_db s1, p)" "q = map_err to_memory p"
    "eg_store s1 = eg_store s" by (rule on_db_parts)
  have i: "items_of s1 = items_of s" using query_same [OF p(1) [unfolded get_memory_def]] same_items_of by blast
  show ?thesis
  proof (cases "\<exists>m. q = Inr (Some m)")
    case True
    then obtain m where m: "q = Inr (Some m)" by blast
    with p(2) have "p = Inr (Some m)" by (cases p) simp_all
    from get_memory_Inr [OF p(1) [unfolded this]] have "items_of s (mi_id m0) = Some m" by (simp add: items_of_def)
    then have "turn_row m0 m" "mi_id m = mi_id m0"
      using x find_item_id by (auto simp: turn_ok_def rows_ok_def items_of_def)
    then show ?thesis using m c1 x rows_same [OF i] i p(3) by (simp add: turn_defs turn_row_def)
  next
    case False
    then have "c1 = CtEnd (Inr (Inr (mi_id m0)))" using c1 by (auto split: sum.split option.split)
    then show ?thesis using x rows_same [OF i] i p(3) by (simp add: turn_defs)
  qed
qed

lemma attach_keeps:
  assumes x: "turn_ok m0 L (CtAttach m) k s" and st: "commit_step ev now t m0 w (CtAttach m, s) = (c1, s1)"
  shows "turn_ok m0 L c1 k s1"
proof -
  have m: "mi_id m = mi_id m0" "turn_row m0 m" using x by (simp_all add: turn_defs)
  obtain q where g: "on_db (put_memory m) s = (s1, q)" and c1: "c1 = CtEnd (Inr (Inr (mi_id m0)))"
    using st by (cases "on_db (put_memory m) s") simp
  from g obtain p where p: "put_memory m (eg_db s) = (eg_db s1, p)" "eg_store s1 = eg_store s" by (rule on_db_parts)
  have "items_of s1 = items_of s \<or> items_of s1 = (items_of s)(mi_id m0 \<mapsto> m)"
    using put_memory_cases [OF p(1)] same_items_of m(1) by (cases "snd (put_memory m (eg_db s))") (auto simp: p(1) items_of_def fun_eq_iff)
  then show ?thesis
  proof
    assume i: "items_of s1 = items_of s"
    then show ?thesis using c1 x rows_same [OF i] p(2) by (simp add: turn_defs)
  next
    assume i: "items_of s1 = (items_of s)(mi_id m0 \<mapsto> m)"
    then show ?thesis using c1 rows_put [OF _ i m(2)] x p(2) by (simp add: turn_defs)
  qed
qed

lemma commit_keeps:
  assumes m0: "\<not> mi_tombstone m0" and x: "race_ok m0 L (c, k, s)"
    and st: "commit_step ev now t m0 w (c, s) = (c1, s1)"
  shows "race_ok m0 L (c1, k, s1)"
proof -
  from x have y: "turn_ok m0 L c k s" "engine_wf s" by (simp_all add: race_ok_def turn_ok_def)
  have "engine_wf s1" using steps_wf [OF commit_stepped [of s ev now t m0 w c] y(2)] st by simp
  moreover have "turn_ok m0 L c1 k s1"
  proof (cases c)
    case (CtCleanup g)
    then have "rows_ok m0 L s1" "c1 = CtEnd (Inr (Inl g))"
      using st y(1) rows_same [OF store_items, of m0 L "delete_vector (turn_vid m0)" s] by (auto simp: turn_ok_def)
    then show ?thesis by (simp add: turn_defs)
  next
    case CtInsert
    show ?thesis using insert_keeps [OF y(1) [unfolded CtInsert] y(2) st [unfolded CtInsert]] .
  next
    case CtPersist
    show ?thesis using persist_keeps [OF m0 y(1) [unfolded CtPersist] st [unfolded CtPersist]] .
  next
    case CtExtract
    show ?thesis using extract_keeps [OF y(1) [unfolded CtExtract] st [unfolded CtExtract]] .
  next
    case (CtFetch r)
    show ?thesis using fetch_keeps [OF y(1) [unfolded CtFetch] st [unfolded CtFetch]] .
  next
    case (CtAttach m)
    show ?thesis using attach_keeps [OF y(1) [unfolded CtAttach] st [unfolded CtAttach]] .
  qed (use y st in simp)
  ultimately show ?thesis using x by (simp add: race_ok_def turn_ok_def)
qed

lemma recon_missed:
  "\<lbrakk> missed m0 k; recon_ok m0 L k; recon_step ev n f (k, s) = (k1, s1) \<rbrakk> \<Longrightarrow> missed m0 k1"
  by (auto simp: missed_def recon_ok_def recon_at split: recon_phase.splits list.splits prod.splits sum.splits
      option.splits if_splits)

lemma drops_missed:
  assumes "recon_ok m0 L k" and "turn_vid m0 \<in> recon_drops k"
  shows "missed m0 k"
proof (cases "rk_phase k")
  case (RpOrphans vs)
  then show ?thesis using assms by (auto simp: recon_drops_def recon_ok_def missed_def split: list.splits if_splits)
next
  case (RpVector ts)
  then obtain t n where t: "doomed m0 L t" "parse_u64 (mi_vector_ref t) = Some n" "turn_vid m0 = of_nat n"
    using assms by (auto simp: recon_drops_def recon_ok_def split: list.splits option.splits)
  then have "unat (turn_vid m0) = n" using parse_u64_bound [OF t(2)] by (simp add: unat_of_nat)
  with t show ?thesis by (simp add: doomed_def)
qed (use assms in \<open>simp_all add: recon_drops_def\<close>)

lemma purges_doomed: "\<lbrakk> recon_ok m0 L k; j \<in> recon_purges k \<rbrakk> \<Longrightarrow> j \<noteq> mi_id m0 \<and> L j = None"
  by (auto simp: recon_ok_def recon_purges_def doomed_def split: recon_phase.splits)

lemma rows_purged:
  assumes "rows_ok m0 L s" and k: "recon_ok m0 L k" and p: "only_purges (recon_purges k) s s1"
  shows "rows_ok m0 L s1" and "items_of s1 (mi_id m0) = items_of s (mi_id m0)"
proof -
  have e: "items_of s1 j = items_of s j \<or> j \<noteq> mi_id m0 \<and> L j = None \<and> items_of s1 j = None" for j
    using p purges_doomed [OF k, of j] by (auto simp: only_purges_def)
  show "items_of s1 (mi_id m0) = items_of s (mi_id m0)" using e [of "mi_id m0"] by simp
  show "rows_ok m0 L s1" unfolding rows_ok_def
  proof (intro conjI allI impI)
    fix j m assume "items_of s1 j = Some m"
    then have "items_of s j = Some m" using e [of j] by auto
    then show "if j = mi_id m0 then turn_row m0 m else parse_u64 (mi_vector_ref m) \<noteq> Some (unat (turn_vid m0))"
      using assms(1) by (simp add: rows_ok_def)
  next
    fix j m assume j: "L j = Some m"
    then have "items_of s1 j = items_of s j" using e [of j] by auto
    then show "items_of s1 j = Some m" "\<not> mi_tombstone m" "j \<noteq> mi_id m0"
      using assms(1) j by (auto simp: rows_ok_def)
  qed
qed

lemma tombs_doomed:
  assumes t: "on_db list_tombstoned s = (s1, Inr ts)" and "rows_ok m0 L s" and "engine_wf s" and "t \<in> set ts"
  shows "doomed m0 L t"
proof -
  have "ts = filter mi_tombstone (db_items (eg_db s))"
    using on_db_Inr(1) [OF t] unfolding list_tombstoned_def by (rule db_query_Inr) simp
  then have "mi_tombstone t" "items_of s (mi_id t) = Some t"
    using assms(3,4) find_item_wf by (auto simp: items_of_def engine_wf_def)
  then show ?thesis using assms(2) by (cases "L (mi_id t)") (auto simp: rows_ok_def doomed_def turn_row_def split: if_splits)
qed

lemma recon_ok_step:
  assumes k: "recon_ok m0 L k" and "rows_ok m0 L s" and "engine_wf s" and st: "recon_step ev n f (k, s) = (k1, s1)"
  shows "recon_ok m0 L k1"
proof (cases "rk_phase k")
  case RpTombs
  then show ?thesis
    using st tombs_doomed [OF _ assms(2,3)] by (auto simp: recon_at recon_ok_def split: prod.splits sum.splits)
qed (use k st in \<open>auto simp: recon_at recon_ok_def split: prod.splits sum.splits list.splits option.splits if_splits\<close>)

lemma vector_ids_faults: "vector_ids (t\<lparr> ls_faults := fs \<rparr>) = vector_ids t"
proof -
  have e: "ls_tomb (t\<lparr> ls_faults := fs \<rparr>) = ls_tomb t" "ls_vec (t\<lparr> ls_faults := fs \<rparr>) = ls_vec t" by simp_all
  show ?thesis unfolding vector_ids_def e by (rule refl)
qed

lemma ids_fresh:
  assumes "on_store list_vector_ids s = (s1, Inr vs)" and "engine_wf s" and "store_map (eg_store s) v = None"
  shows "v \<notin> set vs"
proof -
  have "vs = vector_ids (eg_store s)"
    using assms(1) vector_ids_faults
    by (auto simp: on_store_def list_vector_ids_def st_op_def split: list.splits option.splits)
  then show ?thesis using vector_ids_iff [of "eg_store s" v] assms(2,3) by (simp add: engine_wf_def)
qed

lemma recon_keeps:
  assumes x: "race_ok m0 L (c, k, s)" and st: "recon_step ev n f (k, s) = (k1, s1)"
  shows "race_ok m0 L (c, k1, s1)"
proof -
  from x have wf: "engine_wf s" and rows: "rows_ok m0 L s" and c: "commit_ok m0 c s"
    and k: "recon_ok m0 L k" and v: "vector_ok m0 c k s" by (simp_all add: race_ok_def)
  have s1: "engine_wf s1" "only_purges (recon_purges k) s s1" "drops (recon_drops k) (eg_store s) (eg_store s1)"
    using steps_wf [OF recon_steps [of s ev n f k] wf] recon_rows [of k s ev n f] recon_vectors [of k s ev n f] st by simp_all
  note r = rows_purged [OF rows k s1(2)]
  have gone: "store_map (eg_store s1) (turn_vid m0) = None" if "store_map (eg_store s) (turn_vid m0) = None"
    using that s1(3) by (simp add: drops_def)
  have c1: "commit_ok m0 c s1" using c r(2) gone by (auto simp: commit_ok_def split: commit_thread.splits sum.splits)
  have "store_map (eg_store s1) (turn_vid m0) \<noteq> None \<or> missed m0 k1" if "has_vector c"
  proof (cases "missed m0 k")
    case True
    then show ?thesis using recon_missed [OF _ k st] by simp
  next
    case False
    then have "turn_vid m0 \<notin> recon_drops k" using drops_missed [OF k] by blast
    then have "store_map (eg_store s1) (turn_vid m0) = store_map (eg_store s) (turn_vid m0)"
      using s1(3) by (simp add: drops_def)
    then show ?thesis using False that v by (simp add: vector_ok_def)
  qed
  moreover have "turn_vid m0 \<notin> set (rk_seen k1)" if "c = CtInsert"
  proof -
    have "turn_vid m0 \<notin> set (rk_seen k)" "store_map (eg_store s) (turn_vid m0) = None"
      using v c that by (simp_all add: vector_ok_def commit_ok_def)
    then show ?thesis using st ids_fresh [OF _ wf]
      by (auto simp: recon_at split: recon_phase.splits list.splits prod.splits sum.splits option.splits if_splits)
  qed
  ultimately have "vector_ok m0 c k1 s1" by (simp add: vector_ok_def)
  with s1(1) r(1) c1 recon_ok_step [OF k rows wf st] show ?thesis by (simp add: race_ok_def)
qed

lemma race_keeps:
  assumes "\<not> mi_tombstone m0" and "race_ok m0 L x"
  shows "race_ok m0 L (interleave ev now t m0 w n f bs x)"
  unfolding interleave_def using assms(2)
proof (induction bs arbitrary: x)
  case (Cons b bs)
  obtain c k s where x: "x = (c, k, s)" using prod_cases3 by blast
  obtain c1 s1 where c: "commit_step ev now t m0 w (c, s) = (c1, s1)" by fastforce
  obtain k1 s2 where k: "recon_step ev n f (k, s) = (k1, s2)" by fastforce
  have "race_ok m0 L (race_step ev now t m0 w n f b x)"
    using commit_keeps [OF assms(1) _ c] recon_keeps [OF _ k] Cons.prems by (simp add: x race_step_def c k)
  then show ?case using Cons.IH by simp
qed simp

text \<open>A missed vector is removed as soon as the reconciliation gets to it.\<close>

definition missed_gone :: "memory_item \<Rightarrow> commit_thread \<times> recon_thread \<times> engine \<Rightarrow> bool" where
  "missed_gone m0 x =
     (case x of (c, k, s) \<Rightarrow>
        ls_faults (eg_store s) = []
        \<and> (missed m0 k \<and> (\<forall>vs. rk_phase k = RpOrphans vs \<longrightarrow> turn_vid m0 \<notin> set vs)
             \<longrightarrow> store_map (eg_store s) (turn_vid m0) = None))"

lemma commit_gone:
  assumes g: "missed_gone m0 (c, k, s)" and x: "race_ok m0 L (c, k, s)"
    and st: "commit_step ev now t m0 w (c, s) = (c1, s1)"
  shows "missed_gone m0 (c1, k, s1)"
proof (cases "c = CtInsert")
  case True
  then have "\<not> missed m0 k" using x by (simp add: race_ok_def vector_ok_def missed_def)
  moreover have "ls_faults (eg_store s1) = []"
    using g st True by (auto simp: missed_gone_def on_store_def insert_vector_def st_op_def insert_vec_def Let_def
        split: prod.splits sum.splits if_splits)
  ultimately show ?thesis by (simp add: missed_gone_def)
next
  case False
  have "s1 = snd (commit_step ev now t m0 w (c, s))" using st by simp
  then have "drops {turn_vid m0} (eg_store s) (eg_store s1)"
    using False drops_delete [of "turn_vid m0" s]
    by (auto simp: commit_engine on_db_def raw_db_def call_def split: commit_thread.splits sum.splits option.splits prod.splits)
  then show ?thesis using g by (auto simp: missed_gone_def drops_def)
qed

lemma orphan_gone:
  assumes "ls_faults (eg_store s) = []" and "unat v \<notin> set refs"
  shows "store_map (eg_store (reconcile_orphan n refs v s)) v = None"
  using deleted [of "log_reconcile n x ''orphan-vector'' y s" v for x y] assms by (simp add: reconcile_orphan_def)

lemma recon_gone:
  assumes g: "missed_gone m0 (c, k, s)" and x: "recon_ok m0 L k" and st: "recon_step ev n f (k, s) = (k1, s1)"
  shows "missed_gone m0 (c, k1, s1)"
proof -
  have d: "drops (recon_drops k) (eg_store s) (eg_store s1)" using recon_vectors [of k s ev n f] st by simp
  have "store_map (eg_store s1) (turn_vid m0) = None"
    if m: "missed m0 k1" and o: "\<forall>vs. rk_phase k1 = RpOrphans vs \<longrightarrow> turn_vid m0 \<notin> set vs"
  proof (cases "missed m0 k \<and> (\<forall>vs. rk_phase k = RpOrphans vs \<longrightarrow> turn_vid m0 \<notin> set vs)")
    case True
    then show ?thesis using g d by (auto simp: missed_gone_def drops_def)
  next
    case False
    have "\<exists>vs. rk_phase k = RpOrphans (turn_vid m0 # vs) \<and> missed m0 k"
      using False st m o x
      by (auto simp: recon_at missed_def recon_ok_def split: recon_phase.splits list.splits prod.splits sum.splits
          option.splits if_splits)
    then show ?thesis using g st orphan_gone [of s "turn_vid m0"]
      by (auto simp: recon_at missed_def missed_gone_def)
  qed
  then show ?thesis using g d by (simp add: missed_gone_def drops_def)
qed

lemma race_gone:
  assumes "\<not> mi_tombstone m0" and "race_ok m0 L x" and "missed_gone m0 x"
  shows "missed_gone m0 (interleave ev now t m0 w n f bs x)"
  unfolding interleave_def using assms(2,3)
proof (induction bs arbitrary: x)
  case (Cons b bs)
  obtain c k s where x: "x = (c, k, s)" using prod_cases3 by blast
  obtain c1 s1 where c: "commit_step ev now t m0 w (c, s) = (c1, s1)" by fastforce
  obtain k1 s2 where k: "recon_step ev n f (k, s) = (k1, s2)" by fastforce
  have ok: "recon_ok m0 L k" using Cons.prems(1) by (simp add: x race_ok_def)
  have "race_ok m0 L (race_step ev now t m0 w n f b x)"
    using race_keeps [OF assms(1) Cons.prems(1), of ev now t w n f "[b]"] by (simp add: interleave_def)
  moreover have "missed_gone m0 (race_step ev now t m0 w n f b x)"
    using commit_gone [OF _ _ c] recon_gone [OF _ ok k] Cons.prems by (auto simp: x race_step_def c k)
  ultimately show ?case using Cons.IH by simp
qed simp

definition live_rows :: "engine \<Rightarrow> item_map" where
  "live_rows s = (\<lambda>i. case items_of s i of None \<Rightarrow> None | Some m \<Rightarrow> if mi_tombstone m then None else Some m)"

lemma race_start:
  assumes "engine_wf s" and "items_of s (mi_id m0) = None" and "store_map (eg_store s) (turn_vid m0) = None"
    and "\<forall>j m. items_of s j = Some m \<longrightarrow> parse_u64 (mi_vector_ref m) \<noteq> Some (unat (turn_vid m0))"
  shows "race_ok m0 (live_rows s) (CtInsert, recon_start fl, s)"
  using assms
  by (auto simp: race_ok_def rows_ok_def commit_ok_def recon_ok_def vector_ok_def has_vector_def recon_start_def
      live_rows_def split: option.splits if_splits)

text \<open>
  C9: A commit and a reconciliation at the same time. Whatever the order of their calls to the
  stores and whatever fails, when both have ended and the commit has reported the turn as stored,
  the memory is live and names its vector, and every other memory that was live at the start is
  unchanged. The vector is in the store, unless the reconciliation listed the rows before the
  commit wrote its row and listed the vectors after the commit inserted its vector: then the
  reconciliation has removed the vector as an orphan, and the memory is live without it.\<close>

theorem commit_reconcile_race:
  assumes "turn_start ev sess ix now t s = (s0, Inr (m0, w))" and "engine_wf s0"
    and "items_of s0 (mi_id m0) = None" and "store_map (eg_store s0) (turn_vid m0) = None"
    and "\<forall>j m. items_of s0 j = Some m \<longrightarrow> parse_u64 (mi_vector_ref m) \<noteq> Some (unat (turn_vid m0))"
    and "interleave ev now t m0 w n f bs (CtInsert, recon_start fl, s0) = (CtEnd (Inr (Inr i)), k, s')"
    and "rk_phase k = RpEnd r"
  shows "(\<exists>m. items_of s' (mi_id m0) = Some m \<and> turn_row m0 m)
    \<and> (\<forall>j m. items_of s0 j = Some m \<and> \<not> mi_tombstone m \<longrightarrow> items_of s' j = Some m)
    \<and> (\<not> missed m0 k \<longrightarrow> store_map (eg_store s') (turn_vid m0) \<noteq> None)
    \<and> (missed m0 k \<and> ls_faults (eg_store s0) = [] \<longrightarrow> store_map (eg_store s') (turn_vid m0) = None)"
proof -
  have m0: "\<not> mi_tombstone m0"
    using assms(1) by (auto simp: turn_start_def commit_item_def new_turn_skeleton_def with_namespace_def
        split: prod.splits sum.splits)
  note st = race_start [OF assms(2-5), of fl]
  have ok: "race_ok m0 (live_rows s0) (CtEnd (Inr (Inr i)), k, s')"
    using race_keeps [OF m0 st, of ev now t w n f bs] assms(6) by simp
  then have row: "\<exists>m. items_of s' (mi_id m0) = Some m \<and> turn_row m0 m"
    by (auto simp: race_ok_def commit_ok_def rows_ok_def)
  have kept: "items_of s' j = Some m" if "items_of s0 j = Some m" "\<not> mi_tombstone m" for j m
    using that ok by (simp add: race_ok_def rows_ok_def live_rows_def)
  have there: "\<not> missed m0 k \<longrightarrow> store_map (eg_store s') (turn_vid m0) \<noteq> None"
    using ok by (auto simp: race_ok_def vector_ok_def has_vector_def)
  have "missed_gone m0 (CtEnd (Inr (Inr i)), k, s')" if "ls_faults (eg_store s0) = []"
    using race_gone [OF m0 st, of ev now t w n f bs] assms(6) that
    by (simp add: missed_gone_def missed_def recon_start_def)
  then have "missed m0 k \<and> ls_faults (eg_store s0) = [] \<longrightarrow> store_map (eg_store s') (turn_vid m0) = None"
    using assms(7) by (auto simp: missed_gone_def)
  with row kept there show ?thesis by blast
qed

section \<open>A deletion in the middle of a commit\<close>

text \<open>
  A commit reads its row, to attach the entities that were extracted, and writes it back in a
  second transaction. A deletion between the two is undone: the memory is live again, its vector
  is gone, and the log of replication ends with the deletion.\<close>

lemma late_attach_revives:
  assumes f: "commit_step ev now t m0 w (CtFetch r, s) = (CtAttach m, s1)"
    and x: "items_of s (mi_id m0) = Some x" "\<not> mi_tombstone x" "parse_u64 (mi_vector_ref x) = Some v"
    and d: "delete_memory ev (mi_id m0) s1 = (s2, Inr ())"
    and p: "on_db (put_memory m) s2 = (s3, Inr u)"
  shows "commit_step ev now t m0 w (CtAttach m, s2) = (CtEnd (Inr (Inr (mi_id m0))), s3)
    \<and> items_of s3 (mi_id m0) = Some m \<and> \<not> mi_tombstone m \<and> store_map (eg_store s3) (of_nat v) = None
    \<and> (\<exists>ws. db_wop (eg_db s3) = db_wop (eg_db s1) @ ws
          \<and> map_option mi_tombstone (effects pc ws (items_of s1) (mi_id m0)) = Some True)"
proof -
  obtain q where g: "on_db (get_memory (mi_id m0)) s = (s1, q)"
    and m': "case q of Inr (Some y) \<Rightarrow> m = y\<lparr> mi_entities := fst r, mi_entities_pending := \<not> snd r \<rparr> | _ \<Rightarrow> False"
    using f by (auto split: prod.splits sum.splits option.splits)
  then obtain y where y: "q = Inr (Some y)" "m = y\<lparr> mi_entities := fst r, mi_entities_pending := \<not> snd r \<rparr>"
    by (auto split: sum.splits option.splits)
  have "y = x" "items_of s1 = items_of s"
    using get_memory_Inr [OF on_db_Inr(1) [OF g [unfolded y(1)]]] x(1) same_items_of by (auto simp: items_of_def)
  then have m: "m = x\<lparr> mi_entities := fst r, mi_entities_pending := \<not> snd r \<rparr>" "items_of s1 (mi_id m0) = Some x"
    using y(2) x(1) by simp_all
  have id: "mi_id m = mi_id m0" using m find_item_id [of "mi_id m0" "eg_db s1" x] by (simp add: items_of_def)
  have del: "hide_in (mi_id m0) (eg_db s1) (eg_db s2)" "store_map (eg_store s2) (of_nat v) = None"
    "log_adequate pc s1 s2"
    using delete_memory_facts [OF d, of pc] m(2) x(3) by (simp_all add: items_of_def)
  have put: "items_of s3 = (items_of s2)(mi_id m0 \<mapsto> m)" "db_wop (eg_db s3) = db_wop (eg_db s2)" "eg_store s3 = eg_store s2"
    using put_memory_cases [OF on_db_Inr(1) [OF p]] on_db_Inr(2) [OF p] id by (simp_all add: items_of_def fun_eq_iff)
  obtain ws where ws: "db_wop (eg_db s2) = db_wop (eg_db s1) @ ws" "items_of s2 = effects pc ws (items_of s1)"
    using del(3) by (auto simp: log_adequate_def)
  have "map_option mi_tombstone (items_of s2 (mi_id m0)) = Some True"
    using del(1) m(2) by (simp add: hide_in_def items_of_def)
  then have "\<exists>ws. db_wop (eg_db s3) = db_wop (eg_db s1) @ ws
      \<and> map_option mi_tombstone (effects pc ws (items_of s1) (mi_id m0)) = Some True"
    using ws put(2) by (intro exI [of _ ws]) simp
  moreover have "commit_step ev now t m0 w (CtAttach m, s2) = (CtEnd (Inr (Inr (mi_id m0))), s3)" using p by simp
  ultimately show ?thesis using put(1,3) del(2) m(1) x(2) by simp
qed

section \<open>Witnesses\<close>

definition race_turn :: turn where
  "race_turn = \<lparr> tu_idx = 0, tu_user = ''hi'', tu_assistant = ''yo'', tu_tools = [] \<rparr>"

abbreviation race_item :: memory_item where
  "race_item \<equiv> commit_item demo_env ''s'' demo_ix 7 race_turn ''0''"

text \<open>The rows are listed before the commit starts, the vectors between its two writes.\<close>

definition race_schedule :: "bool list" where
  "race_schedule = [False, True, False, False, False, False, False, False, False, True, True]"

lemma race_starts:
  "turn_start demo_env ''s'' demo_ix 7 race_turn demo_engine = (demo_engine\<lparr> eg_tick := 2 \<rparr>, Inr (race_item, [0, 0]))"
proof -
  have "show_nat 0 = ''0''" by code_simp
  then show ?thesis
    by (simp add: turn_start_def call_def embed_def demo_engine_def demo_env_def numeral_2_eq_2)
qed

lemma calm_calls:
  assumes "db_faults (eg_db s) = []"
  shows "on_db list_merge_log s = (s, Inr (rev (sort_key me_id (db_merges (eg_db s)))))"
    and "on_db list_tombstoned s = (s, Inr (filter mi_tombstone (db_items (eg_db s))))"
    and "db_items (eg_db s) = [] \<Longrightarrow> on_db (list_all_by_tenant_scoped ten (ns_filter_new [] [])) s = (s, Inr [])"
    and "\<exists>s' q. on_db (put_memory_with_wop m op p n) s = (s', Inr q)"
  using assms
  by (simp_all add: on_db_def raw_db_def list_merge_log_def list_tombstoned_def list_all_by_tenant_scoped_def
      scoped_query_def db_query_def db_op_def ns_predicate_def ns_filter_new_def ns_active_def order_created_def
      put_memory_with_wop_def add_wop_def Let_def)

lemma race_vector:
  "on_store (insert_vector v [0, 0]) (demo_engine\<lparr> eg_tick := 2 \<rparr>)
     = (demo_engine\<lparr> eg_store := insert_vec v [0, 0] empty_store, eg_tick := 2 \<rparr>, Inr ())"
  "on_store list_vector_ids (demo_engine\<lparr> eg_store := insert_vec v [0, 0] empty_store, eg_tick := 2 \<rparr>)
     = (demo_engine\<lparr> eg_store := insert_vec v [0, 0] empty_store, eg_tick := 2 \<rparr>, Inr [v])"
  by (simp_all add: on_store_def insert_vector_def list_vector_ids_def st_op_def demo_engine_def empty_store_def
      vector_ids_def insert_vec_def is_tombstoned_def tree_has_def Let_def)

lemma race_runs:
  "\<exists>k s'. interleave demo_env 7 race_turn race_item [0, 0] 7 (ns_filter_new [] []) race_schedule
       (CtInsert, recon_start [], demo_engine\<lparr> eg_tick := 2 \<rparr>) = (CtEnd (Inr (Inr ''0'')), k, s')
     \<and> rk_phase k = RpEnd (Inr 0) \<and> rk_seen k = [turn_vid race_item] \<and> rk_rows k = []"
proof -
  let ?v = "vector_id_from_ulid ''0''"
  define s1 where "s1 = demo_engine\<lparr> eg_store := insert_vec ?v [0, 0] empty_store, eg_tick := 2 \<rparr>"
  define s2 where "s2 = reconcile_orphan 7 [] ?v s1"
  let ?s0 = "demo_engine\<lparr> eg_tick := 2 \<rparr>" and ?f = "ns_filter_new [] []"
  have d0: "db_items (eg_db ?s0) = []" "db_faults (eg_db ?s0) = []"
    by (simp_all add: demo_engine_def empty_db_def)
  have d2: "db_items (eg_db s2) = []" "db_faults (eg_db s2) = []"
    using same_rowsD [OF orphan_rows [of s1 7 "[]" ?v]] by (simp_all add: s1_def s2_def demo_engine_def empty_db_def)
  obtain s3 q where s3: "on_db (put_memory_with_wop (stored_item race_item) ''commit'' ''0'' 7) s2 = (s3, Inr q)"
    using calm_calls(4) [OF d2(2)] by blast
  have codec: "pc_enc (ev_codec demo_env) (stored_item race_item, x) = Inr ''0''" "ev_extract demo_env = None" for x
    by (simp_all add: demo_env_def id_codec_def stored_turn(2))
  have v: "on_store (insert_vector ?v [0, 0]) ?s0 = (s1, Inr ())" "on_store list_vector_ids s1 = (s1, Inr [?v])"
    by (simp_all add: s1_def race_vector)
  have o: "reconcile_orphan 7 (known_refs []) ?v s1 = s2" by (simp add: s2_def known_refs_def)
  note calls = calm_calls(3) [OF d0(2,1)] v o calm_calls(1) [OF d2(2)] calm_calls(2) [OF d2(2)] d2 codec s3
  show ?thesis
    by (simp add: interleave_def race_schedule_def race_step_def recon_at recon_start_def calls)
qed

lemma commit_reconcile_witness:
  "\<exists>k s' m. interleave demo_env 7 race_turn race_item [0, 0] 7 (ns_filter_new [] []) race_schedule
       (CtInsert, recon_start [], demo_engine\<lparr> eg_tick := 2 \<rparr>) = (CtEnd (Inr (Inr ''0'')), k, s')
     \<and> items_of s' ''0'' = Some m \<and> \<not> mi_tombstone m \<and> store_map (eg_store s') (turn_vid race_item) = None"
proof -
  obtain k s' where r: "interleave demo_env 7 race_turn race_item [0, 0] 7 (ns_filter_new [] []) race_schedule
       (CtInsert, recon_start [], demo_engine\<lparr> eg_tick := 2 \<rparr>) = (CtEnd (Inr (Inr ''0'')), k, s')"
    "rk_phase k = RpEnd (Inr 0)" "rk_seen k = [turn_vid race_item]" "rk_rows k = []" using race_runs by blast
  have m: "missed race_item k" using r(3,4) by (simp add: missed_def known_refs_def)
  have s: "engine_wf (demo_engine\<lparr> eg_tick := 2 \<rparr>)" "items_of (demo_engine\<lparr> eg_tick := 2 \<rparr>) j = None"
    "store_map (eg_store (demo_engine\<lparr> eg_tick := 2 \<rparr>)) v = None"
    "ls_faults (eg_store (demo_engine\<lparr> eg_tick := 2 \<rparr>)) = []" for j v
    by (simp_all add: engine_wf_def demo_engine_def empty_store_wf items_of_def find_item_def)
       (simp_all add: empty_db_def store_map_def find_vec_def is_tombstoned_def tree_has_def empty_store_def)
  have "\<forall>j m. items_of (demo_engine\<lparr> eg_tick := 2 \<rparr>) j = Some m
      \<longrightarrow> parse_u64 (mi_vector_ref m) \<noteq> Some (unat (turn_vid race_item))" by (simp add: s(2))
  note o = commit_reconcile_race [OF race_starts s(1) s(2) s(3) this r(1,2)]
  then obtain x where x: "items_of s' (mi_id race_item) = Some x" "\<not> mi_tombstone x" by (auto simp: turn_row_def)
  have "store_map (eg_store s') (turn_vid race_item) = None" using o m s(4) by blast
  with x show ?thesis by (intro exI [of _ k] exI [of _ s'] exI [of _ x] conjI r(1)) simp_all
qed

end
