(* ===== verification/Identity.thy ===== *)
theory Identity
  imports Memo Extract
begin

text \<open>
  Who may call the HTTP server of \<open>fm-server\<close>: the static bearer key (\<open>auth.rs\<close>), the origin
  and tenant headers (\<open>tenant.rs\<close>), and the identity service that maps a token to its tenant
  (\<open>identity.rs\<close>).

  Headers are a function from a header name to its text, if there is one (\<open>HeaderMap\<close>, whose
  names are case-insensitive, belongs to the \<open>http\<close> crate). A refusal is a status and a body.
\<close>

type_synonym headers = "string \<Rightarrow> string option"

definition header_or_empty :: "headers \<Rightarrow> string \<Rightarrow> string" where
  "header_or_empty h k = (case h k of Some v \<Rightarrow> v | None \<Rightarrow> [])"

section \<open>The static key\<close>

definition check_bearer :: "headers \<Rightarrow> string \<Rightarrow> (nat \<times> string) + unit" where
  "check_bearer h api_key =
     (if constant_time_eq (header_or_empty h ''authorization'') (''Bearer '' @ api_key)
      then Inr () else Inl (401, ''unauthorized''))"

section \<open>Origin and tenant\<close>

definition GATEWAY_ROUTE_HEADER :: string where "GATEWAY_ROUTE_HEADER = ''X-Fusion-Route''"
definition GATEWAY_ROUTE_VALUE :: string where "GATEWAY_ROUTE_VALUE = ''gateway-decision''"
definition TENANT_HEADER :: string where "TENANT_HEADER = ''X-Fusion-Tenant''"

definition error_body :: "string \<Rightarrow> json" where
  "error_body msg = JObj [(''error'', JStr msg)]"

definition check_gateway_origin :: "headers \<Rightarrow> bool \<Rightarrow> string \<Rightarrow> bool \<Rightarrow> (nat \<times> json) + string" where
  "check_gateway_origin h required default_tenant is_public =
     (if required \<and> \<not> is_public \<and> header_or_empty h GATEWAY_ROUTE_HEADER \<noteq> GATEWAY_ROUTE_VALUE
      then Inl (403, error_body ''gateway-origin required: missing or invalid X-Fusion-Route header'')
      else Inr (case h TENANT_HEADER of Some t \<Rightarrow> t | None \<Rightarrow> default_tenant))"

section \<open>The identity service\<close>

record verify_claims =
  vc_tid :: string
  vc_status :: string
  vc_revoked :: bool

text \<open>No answer, or a status with the claims if the body can be read as such.\<close>

datatype verify_reply = VNone | VReply nat "verify_claims option"

record identity_conf =
  ic_base_url :: string
  ic_service_token :: string

record identity_env =
  id_post :: "nat \<Rightarrow> http_request \<Rightarrow> verify_reply"
  id_now :: "nat \<Rightarrow> nat"

type_synonym id_cache = "string \<Rightarrow> (string \<times> nat) option"

record verifier =
  vf_cache :: id_cache
  vf_tick :: nat

definition CACHE_TTL :: nat where "CACHE_TTL = 30 * 1000"

definition verifier_new :: "string \<Rightarrow> string \<Rightarrow> identity_conf \<times> verifier" where
  "verifier_new base tok =
     (\<lparr> ic_base_url = rev (dropWhile (\<lambda>x. x = CHR ''/'') (rev base)), ic_service_token = tok \<rparr>,
      \<lparr> vf_cache = (\<lambda>_. None), vf_tick = 0 \<rparr>)"

definition deny :: "string \<Rightarrow> nat \<times> json" where
  "deny msg = (401, error_body msg)"

definition verify_request :: "identity_conf \<Rightarrow> string \<Rightarrow> http_request" where
  "verify_request c jwt =
     \<lparr> hq_url = ic_base_url c @ ''/api/v1/auth/verify'', hq_bearer = Some (ic_service_token c),
       hq_body = JObj [(''token'', JStr jwt)] \<rparr>"

definition usage_request :: "identity_conf \<Rightarrow> string \<Rightarrow> string \<Rightarrow> nat \<Rightarrow> http_request" where
  "usage_request c tenant metric n =
     \<lparr> hq_url = ic_base_url c @ ''/api/v1/tenants/'' @ tenant @ ''/usage'',
       hq_bearer = Some (ic_service_token c),
       hq_body = JObj [(''metric'', JStr metric), (''value'', JNat n), (''source'', JStr ''fusion-memory'')] \<rparr>"

text \<open>The claims of an answer, or why it is refused.\<close>

definition judge :: "verify_reply \<Rightarrow> (nat \<times> json) + string" where
  "judge r =
     (case r of
        VNone \<Rightarrow> Inl (deny ''identity verification unavailable'')
      | VReply status body \<Rightarrow>
          if \<not> is_success status then Inl (deny ''invalid token'')
          else case body of
                 None \<Rightarrow> Inl (deny ''invalid token'')
               | Some claims \<Rightarrow>
                   if vc_revoked claims then Inl (deny ''revoked token'')
                   else if vc_status claims \<noteq> ''active'' then Inl (deny ''tenant not active'')
                   else Inr (vc_tid claims))"

definition id_lookup :: "nat \<Rightarrow> string \<Rightarrow> id_cache \<Rightarrow> id_cache \<times> string option" where
  "id_lookup now jwt c =
     (c, case c jwt of Some (tid, expiry) \<Rightarrow> if expiry > now then Some tid else None | None \<Rightarrow> None)"

definition id_insert :: "nat \<Rightarrow> string \<Rightarrow> string \<Rightarrow> id_cache \<Rightarrow> id_cache" where
  "id_insert now jwt tid c = c(jwt \<mapsto> (tid, now + CACHE_TTL))"

definition verify ::
  "identity_env \<Rightarrow> identity_conf \<Rightarrow> string \<Rightarrow> verifier \<Rightarrow> verifier \<times> ((nat \<times> json) + string)" where
  "verify im c jwt v =
     (let n = vf_tick v
      in case id_lookup (id_now im n) jwt (vf_cache v) of
           (m, Some tid) \<Rightarrow> (\<lparr> vf_cache = m, vf_tick = n + 1 \<rparr>, Inr tid)
         | (m, None) \<Rightarrow>
             (case judge (id_post im (n + 1) (verify_request c jwt)) of
                Inl e \<Rightarrow> (\<lparr> vf_cache = m, vf_tick = n + 2 \<rparr>, Inl e)
              | Inr tid \<Rightarrow>
                  (\<lparr> vf_cache = id_insert (id_now im (n + 2)) jwt tid m, vf_tick = n + 3 \<rparr>, Inr tid)))"

definition noop_verify :: "string \<Rightarrow> 'v \<Rightarrow> 'v \<times> ((nat \<times> json) + string)" where
  "noop_verify jwt v = (v, Inr [])"

section \<open>The rules of multi-tenant mode\<close>

definition bearer_jwt :: "headers \<Rightarrow> string option" where
  "bearer_jwt h = map_option trim (Option.bind (h ''authorization'') (strip_prefix ''Bearer ''))"

text \<open>The verifier is any implementation of the trait, as a function on its state.\<close>

definition enforce_multi_tenant ::
  "(string \<Rightarrow> 'v \<Rightarrow> 'v \<times> ((nat \<times> json) + string)) \<Rightarrow> headers \<Rightarrow> string \<Rightarrow> bool \<Rightarrow> 'v
     \<Rightarrow> 'v \<times> ((nat \<times> json) + string)" where
  "enforce_multi_tenant vf h tenant multi v =
     (if \<not> multi then (v, Inr tenant)
      else if tenant = [] then (v, Inl (401, error_body ''tenant required in multi-tenant mode''))
      else case bearer_jwt h of
             None \<Rightarrow> (v, Inl (401, error_body ''missing bearer JWT for identity verification''))
           | Some jwt \<Rightarrow>
               if jwt = [] then (v, Inl (401, error_body ''missing bearer JWT for identity verification''))
               else (case vf jwt v of
                       (v1, Inl e) \<Rightarrow> (v1, Inl e)
                     | (v1, Inr tid) \<Rightarrow>
                         if tid \<noteq> tenant
                         then (v1, Inl (403, error_body
                                 ''cross-tenant access denied: token tid does not match request tenant''))
                         else (v1, Inr tid)))"

section \<open>The key and the cache\<close>

lemma check_bearer_iff:
  "check_bearer h k = Inr () \<longleftrightarrow> header_or_empty h ''authorization'' = ''Bearer '' @ k"
  by (simp add: check_bearer_def constant_time_eq_iff)

definition id_holds :: "id_cache \<Rightarrow> string \<Rightarrow> string \<Rightarrow> nat \<Rightarrow> bool" where
  "id_holds c jwt tid t = (\<exists>e. c jwt = Some (tid, e) \<and> t = e - CACHE_TTL)"

interpretation idc: memo id_holds id_lookup id_insert "\<lambda>_. CACHE_TTL"
  by unfold_locales (auto simp: id_lookup_def id_insert_def id_holds_def split: option.splits if_splits)

section \<open>What an accepted token means\<close>

definition verify_all :: "identity_env \<Rightarrow> identity_conf \<Rightarrow> string list \<Rightarrow> verifier \<Rightarrow> verifier" where
  "verify_all im c jwts v = fold (\<lambda>j v. fst (verify im c j v)) jwts v"

text \<open>Before its call \<open>m\<close> the issuer answered that the token is the tenant's, good and active.\<close>

definition issuer_said :: "identity_env \<Rightarrow> identity_conf \<Rightarrow> nat \<Rightarrow> string \<Rightarrow> string \<Rightarrow> nat \<Rightarrow> bool" where
  "issuer_said im c m jwt tid t =
     (\<exists>n. n < m \<and> judge (id_post im n (verify_request c jwt)) = Inr tid \<and> t = id_now im (n + 1))"

definition verifier_ok :: "identity_env \<Rightarrow> identity_conf \<Rightarrow> verifier \<Rightarrow> bool" where
  "verifier_ok im c v = idc.genuine (issuer_said im c (vf_tick v)) (vf_cache v)"

lemma issuer_said_mono: "\<lbrakk> issuer_said im c m j t x; m \<le> n \<rbrakk> \<Longrightarrow> issuer_said im c n j t x"
  unfolding issuer_said_def using order_less_le_trans by blast

lemma genuine_issuer_mono:
  "\<lbrakk> idc.genuine (issuer_said im c m) k; m \<le> n \<rbrakk> \<Longrightarrow> idc.genuine (issuer_said im c n) k"
  by (erule idc.genuine_mono) (rule issuer_said_mono)

lemma verifier_new_ok: "verifier_ok im c (snd (verifier_new b k))"
  by (auto simp: verifier_ok_def verifier_new_def id_holds_def intro: idc.genuine_empty)

lemma verify_sound:
  assumes ok: "verifier_ok im c v" and run: "verify im c jwt v = (v', r)"
  shows "verifier_ok im c v'
    \<and> (\<forall>tid. r = Inr tid \<longrightarrow> (\<exists>n. judge (id_post im n (verify_request c jwt)) = Inr tid
           \<and> (n = vf_tick v + 1 \<or> id_now im (vf_tick v) \<le> id_now im (n + 1) + CACHE_TTL)))"
proof -
  obtain m ro where g: "id_lookup (id_now im (vf_tick v)) jwt (vf_cache v) = (m, ro)" by fastforce
  have "idc.genuine (issuer_said im c (vf_tick v)) m"
    using ok idc.genuine_ask g unfolding verifier_ok_def by blast
  then have gm: "idc.genuine (issuer_said im c n) m" if "vf_tick v \<le> n" for n
    using that by (rule genuine_issuer_mono)
  show ?thesis
  proof (cases ro)
    case (Some tid)
    then have out: "v' = \<lparr> vf_cache = m, vf_tick = vf_tick v + 1 \<rparr>" "r = Inr tid"
      using run g by (auto simp: verify_def Let_def)
    obtain t where "issuer_said im c (vf_tick v) jwt tid t" "id_now im (vf_tick v) \<le> t + CACHE_TTL"
      using ok g Some idc.genuine_answer unfolding verifier_ok_def by blast
    then show ?thesis using out gm [of "vf_tick v + 1"]
      by (auto simp: verifier_ok_def issuer_said_def)
  next
    case None
    show ?thesis
    proof (cases "judge (id_post im (vf_tick v + 1) (verify_request c jwt))")
      case (Inl e)
      then show ?thesis using run g None gm [of "vf_tick v + 2"]
        by (auto simp: verify_def Let_def verifier_ok_def)
    next
      case (Inr tid)
      have "issuer_said im c (vf_tick v + 3) jwt tid (id_now im (vf_tick v + 2))"
        unfolding issuer_said_def using Inr by (intro exI [of _ "vf_tick v + 1"]) simp
      then have "idc.genuine (issuer_said im c (vf_tick v + 3)) (id_insert (id_now im (vf_tick v + 2)) jwt tid m)"
        using gm [of "vf_tick v + 3"] by (intro idc.genuine_keep) auto
      then show ?thesis using run g None Inr by (auto simp: verify_def Let_def verifier_ok_def)
    qed
  qed
qed

lemma verify_ok: "verifier_ok im c v \<Longrightarrow> verifier_ok im c (fst (verify im c jwt v))"
  using verify_sound [of im c v jwt "fst (verify im c jwt v)" "snd (verify im c jwt v)"] by simp

lemma verify_all_ok: "verifier_ok im c v \<Longrightarrow> verifier_ok im c (verify_all im c jwts v)"
  by (induction jwts arbitrary: v) (simp_all add: verify_all_def verify_ok)

lemma enforce_accepts:
  assumes "enforce_multi_tenant vf h tenant True v = (v', Inr tid)"
  shows "tid = tenant \<and> tenant \<noteq> [] \<and> (\<exists>jwt. bearer_jwt h = Some jwt \<and> jwt \<noteq> [] \<and> vf jwt v = (v', Inr tenant))"
  using assms by (auto simp: enforce_multi_tenant_def split: if_splits option.splits prod.splits sum.splits)

text \<open>
  In multi-tenant mode a request for a tenant is let through only if it names a tenant and
  carries a bearer token that the identity service itself has mapped to this tenant, as active
  and not revoked: in answer to this request, or in an earlier answer kept for at most thirty
  seconds. This holds after any sequence of requests, whatever the service answers.\<close>
lemma accepted_token_was_verified:
  assumes "v = verify_all im c jwts (snd (verifier_new base key))"
    and "enforce_multi_tenant (verify im c) h tenant True v = (v', Inr tid)"
  shows "tid = tenant \<and> tenant \<noteq> [] \<and> (\<exists>jwt n. bearer_jwt h = Some jwt \<and> jwt \<noteq> []
     \<and> judge (id_post im n (verify_request c jwt)) = Inr tenant
     \<and> (n = vf_tick v + 1 \<or> id_now im (vf_tick v) \<le> id_now im (n + 1) + CACHE_TTL))"
proof -
  have ok: "verifier_ok im c v" unfolding assms(1) by (rule verify_all_ok [OF verifier_new_ok])
  from enforce_accepts [OF assms(2)] obtain jwt where j: "tid = tenant" "tenant \<noteq> []"
    "bearer_jwt h = Some jwt" "jwt \<noteq> []" "verify im c jwt v = (v', Inr tenant)" by blast
  with verify_sound [OF ok j(5)] show ?thesis by blast
qed

definition demo_issuer :: identity_env where
  "demo_issuer =
     \<lparr> id_post = (\<lambda>n q. VReply 200 (Some \<lparr> vc_tid = ''t1'', vc_status = ''active'', vc_revoked = (n \<noteq> 1) \<rparr>)),
       id_now = (\<lambda>n. 1000 * n) \<rparr>"

definition demo_headers :: headers where
  "demo_headers = [''authorization'' \<mapsto> ''Bearer abc'', TENANT_HEADER \<mapsto> ''t1'']"

lemma accepted_token_witness:
  "\<exists>n. judge (id_post demo_issuer n (verify_request (fst (verifier_new ''u'' ''k'')) ''abc'')) = Inr ''t1''"
proof -
  let ?c = "fst (verifier_new ''u'' ''k'')"
  have jwt: "bearer_jwt demo_headers = Some ''abc''"
    by (simp add: bearer_jwt_def demo_headers_def TENANT_HEADER_def strip_prefix_def starts_with_def
        trim_plain is_space_def)
  have run: "enforce_multi_tenant (verify demo_issuer ?c) demo_headers ''t1'' True
      (verify_all demo_issuer ?c [''abc''] (snd (verifier_new ''u'' ''k'')))
    = (fst (verify demo_issuer ?c ''abc'' (verify_all demo_issuer ?c [''abc''] (snd (verifier_new ''u'' ''k'')))),
       Inr ''t1'')"
    by (simp add: enforce_multi_tenant_def jwt verify_all_def verify_def verifier_new_def id_lookup_def
        id_insert_def judge_def is_success_def demo_issuer_def Let_def CACHE_TTL_def)
  from accepted_token_was_verified [OF refl run] jwt show ?thesis by auto
qed

end
