(* ===== verification/Metrics.thy ===== *)
theory Metrics
  imports Prelude
begin

text \<open>
  The request counters of the HTTP server (\<open>fm-server/metrics.rs\<close>): totals, a histogram of
  durations in fixed buckets, the gauges, and their text in the Prometheus format. The counters
  are 64-bit words that wrap. A duration is a real; the text of a float is a parameter.
\<close>

definition LATENCY_BUCKETS :: "(real \<times> string) list" where
  "LATENCY_BUCKETS =
     [(5 / 10000, ''0.0005''), (1 / 1000, ''0.001''), (5 / 1000, ''0.005''), (1 / 100, ''0.01''),
      (5 / 100, ''0.05''), (1 / 10, ''0.1''), (5 / 10, ''0.5''), (1, ''1''), (5, ''5''), (30, ''30'')]"

record http_metrics =
  mt_total :: "64 word"
  mt_errors :: "64 word"
  mt_buckets :: "64 word list"
  mt_sum :: "64 word"
  mt_count :: "64 word"
  mt_in_flight :: "64 word"
  mt_running :: "64 word"
  mt_pool :: "64 word"

definition metrics_new :: http_metrics where
  "metrics_new =
     \<lparr> mt_total = 0, mt_errors = 0, mt_buckets = replicate (length LATENCY_BUCKETS + 1) 0, mt_sum = 0,
       mt_count = 0, mt_in_flight = 0, mt_running = 0, mt_pool = 0 \<rparr>"

definition incr_total :: "http_metrics \<Rightarrow> http_metrics" where
  "incr_total m = m\<lparr> mt_total := mt_total m + 1 \<rparr>"

definition incr_error :: "http_metrics \<Rightarrow> http_metrics" where
  "incr_error m = m\<lparr> mt_errors := mt_errors m + 1 \<rparr>"

text \<open>The first bucket whose bound is not below the duration, or the last one.\<close>

fun bucket_index :: "(real \<times> string) list \<Rightarrow> real \<Rightarrow> nat" where
  "bucket_index [] secs = 0"
| "bucket_index (b # bs) secs = (if secs \<le> fst b then 0 else Suc (bucket_index bs secs))"

text \<open>The cast of a float to \<open>u64\<close> saturates and drops the fraction.\<close>

definition nanos_of :: "real \<Rightarrow> 64 word" where
  "nanos_of secs = of_nat (min (2 ^ 64 - 1) (nat \<lfloor>secs * 10 ^ 9\<rfloor>))"

definition observe_duration :: "real \<Rightarrow> http_metrics \<Rightarrow> http_metrics" where
  "observe_duration secs m =
     (let i = bucket_index LATENCY_BUCKETS secs
      in m\<lparr> mt_buckets := (mt_buckets m)[i := mt_buckets m ! i + 1],
            mt_sum := mt_sum m + nanos_of secs, mt_count := mt_count m + 1 \<rparr>)"

definition embedder_inc :: "http_metrics \<Rightarrow> http_metrics" where
  "embedder_inc m = m\<lparr> mt_in_flight := mt_in_flight m + 1 \<rparr>"

definition embedder_dec :: "http_metrics \<Rightarrow> http_metrics" where
  "embedder_dec m = m\<lparr> mt_in_flight := mt_in_flight m - 1 \<rparr>"

definition consolidate_set :: "bool \<Rightarrow> http_metrics \<Rightarrow> http_metrics" where
  "consolidate_set b m = m\<lparr> mt_running := (if b then 1 else 0) \<rparr>"

definition pool_set :: "64 word \<Rightarrow> http_metrics \<Rightarrow> http_metrics" where
  "pool_set n m = m\<lparr> mt_pool := n \<rparr>"

section \<open>The text\<close>

definition NL :: string where "NL = [char_of (10 :: nat)]"

definition metric_line :: "string \<Rightarrow> string \<Rightarrow> string" where
  "metric_line name v = name @ '' '' @ v @ NL"

definition metric_head :: "string \<Rightarrow> string \<Rightarrow> string \<Rightarrow> string" where
  "metric_head name kind help = ''# HELP '' @ name @ '' '' @ help @ NL @ ''# TYPE '' @ name @ '' '' @ kind @ NL"

definition counter_text :: "64 word \<Rightarrow> string" where
  "counter_text w = show_nat (unat w)"

definition bucket_line :: "string \<Rightarrow> 64 word \<Rightarrow> string" where
  "bucket_line le n =
     metric_line (''http_request_duration_seconds_bucket{le='' @ [CHR 0x22] @ le @ [CHR 0x22] @ ''}'') (counter_text n)"

text \<open>The counts up to each bound, the last one over all buckets.\<close>

fun cumulative :: "64 word \<Rightarrow> 64 word list \<Rightarrow> 64 word list" where
  "cumulative acc [] = []"
| "cumulative acc (n # ns) = (acc + n) # cumulative (acc + n) ns"

definition histogram_lines :: "http_metrics \<Rightarrow> (string \<times> 64 word) list" where
  "histogram_lines m = zip (map snd LATENCY_BUCKETS @ [''+Inf'']) (cumulative 0 (mt_buckets m))"

definition render_prometheus :: "(real \<Rightarrow> string) \<Rightarrow> http_metrics \<Rightarrow> string" where
  "render_prometheus show_f64 m =
     metric_head ''http_requests_total'' ''counter'' ''Total HTTP requests.''
     @ metric_line ''http_requests_total'' (counter_text (mt_total m))
     @ metric_head ''http_errors_total'' ''counter'' ''Total HTTP error responses.''
     @ metric_line ''http_errors_total'' (counter_text (mt_errors m))
     @ metric_head ''http_request_duration_seconds'' ''histogram'' ''Request latency histogram.''
     @ concat (map (\<lambda>(le, n). bucket_line le n) (histogram_lines m))
     @ metric_line ''http_request_duration_seconds_sum'' (show_f64 (real (unat (mt_sum m)) / 10 ^ 9))
     @ metric_line ''http_request_duration_seconds_count'' (counter_text (mt_count m))
     @ metric_head ''engine_embedder_in_flight'' ''gauge'' ''Embedder concurrent calls in flight.''
     @ metric_line ''engine_embedder_in_flight'' (counter_text (mt_in_flight m))
     @ metric_head ''engine_consolidate_running'' ''gauge'' ''Consolidate saga running (0/1).''
     @ metric_line ''engine_consolidate_running'' (counter_text (mt_running m))
     @ metric_head ''store_pool_in_use'' ''gauge'' ''r2d2 pool connections in use.''
     @ metric_line ''store_pool_in_use'' (counter_text (mt_pool m))"

section \<open>The histogram counts every observation\<close>

definition metrics_ok :: "http_metrics \<Rightarrow> bool" where
  "metrics_ok m = (length (mt_buckets m) = length LATENCY_BUCKETS + 1 \<and> sum_list (mt_buckets m) = mt_count m)"

lemma bucket_index_le: "bucket_index bs secs \<le> length bs"
  by (induction bs) auto

lemma metrics_new_ok: "metrics_ok metrics_new"
  by (simp add: metrics_ok_def metrics_new_def sum_list_replicate)

lemma sum_list_incr:
  "i < length ns \<Longrightarrow> sum_list (ns[i := ns ! i + 1]) = sum_list ns + (1 :: 64 word)"
proof (induction ns arbitrary: i)
  case (Cons n ns)
  then show ?case by (cases i) (simp_all add: algebra_simps)
qed simp

lemma metrics_ok_keep [simp]:
  "metrics_ok m \<Longrightarrow> metrics_ok (incr_total m)" "metrics_ok m \<Longrightarrow> metrics_ok (incr_error m)"
  by (simp_all add: metrics_ok_def incr_total_def incr_error_def)

lemma metrics_ok_observe [simp]: "metrics_ok m \<Longrightarrow> metrics_ok (observe_duration secs m)"
  using bucket_index_le [of LATENCY_BUCKETS secs]
  by (simp add: metrics_ok_def observe_duration_def Let_def sum_list_incr)

lemma length_cumulative [simp]: "length (cumulative acc ns) = length ns"
  by (induction ns arbitrary: acc) simp_all

lemma cumulative_Nil [simp]: "cumulative acc ns = [] \<longleftrightarrow> ns = []"
  by (cases ns) simp_all

lemma cumulative_last: "ns \<noteq> [] \<Longrightarrow> last (cumulative acc ns) = acc + sum_list ns"
  by (induction ns arbitrary: acc) (auto simp: algebra_simps)

lemma last_zip_eq: "\<lbrakk> length xs = length ys; xs \<noteq> [] \<rbrakk> \<Longrightarrow> last (zip xs ys) = (last xs, last ys)"
  by (induction xs ys rule: list_induct2) auto

lemma histogram_total: "metrics_ok m \<Longrightarrow> last (histogram_lines m) = (''+Inf'', mt_count m)"
proof -
  assume ok: "metrics_ok m"
  then have "mt_buckets m \<noteq> []" by (auto simp: metrics_ok_def)
  with ok show ?thesis
    by (simp add: histogram_lines_def last_zip_eq cumulative_last metrics_ok_def)
qed

end
