(* ===== verification/Http.thy ===== *)
theory Http
  imports Steps Identity Metrics
begin

text \<open>
  The HTTP server of \<open>fm-server\<close> (\<open>http.rs\<close>): its state and settings, the gates every data
  request passes, the handlers, the import route, the embedded web files and the routes.

  \<open>axum\<close> reads the body and matches the routes; its answers to a body that is too long or is no
  JSON are part of a body here. Files of the web build, the environment and the clock are
  parameters.
\<close>

section \<open>State, settings and answers\<close>

record 'v http_conf =
  hc_api_key :: string
  hc_gateway_required :: bool
  hc_default_tenant :: string
  hc_multi :: bool
  hc_verify :: "string \<Rightarrow> 'v \<Rightarrow> 'v \<times> ((nat \<times> json) + string)"
  hc_concrete :: bool

record 'v http_state =
  hs_engine :: engine
  hs_metrics :: http_metrics
  hs_verifier :: 'v

record server_env =
  se_codec :: rpc_codec
  se_order :: "string list \<Rightarrow> string list"
  se_engine :: engine_env
  se_import :: import_env
  se_home :: "string option"
  se_exists :: "string \<Rightarrow> bool"
  se_studio :: "string \<Rightarrow> studio_db"
  se_float :: "real \<Rightarrow> string"
  se_asset :: "string \<Rightarrow> string option"

datatype http_body =
    HText string
  | HJson json
  | HRpc rpc_response
  | HFile string string
  | HEmpty

type_synonym http_answer = "nat \<times> http_body"

type_synonym 'v http_handler = "'v http_state \<Rightarrow> 'v http_state \<times> http_answer"

definition MAX_HTTP_BODY_BYTES :: nat where "MAX_HTTP_BODY_BYTES = 8 * 1024 * 1024"

text \<open>A body: its length, and its value or axum's refusal of it.\<close>

record request_body =
  rb_len :: nat
  rb_value :: "http_answer + json"

definition read_body :: "request_body \<Rightarrow> http_answer + json" where
  "read_body b = (if rb_len b > MAX_HTTP_BODY_BYTES then Inl (413, HText ''length limit exceeded'') else rb_value b)"

section \<open>Public endpoints\<close>

definition healthz :: "server_env \<Rightarrow> 'v http_handler" where
  "healthz se st =
     (case count (se_engine se) None (hs_engine st) of
        (s1, Inr n) \<Rightarrow>
          (st\<lparr> hs_engine := s1 \<rparr>, (200, HJson (JObj [(''status'', JStr ''ok''), (''count'', JNat n)])))
      | (s1, Inl e) \<Rightarrow>
          (st\<lparr> hs_engine := s1 \<rparr>,
           (503, HJson (JObj [(''status'', JStr ''unhealthy''), (''error'', JStr (err_display e))]))))"

definition version_handler :: "'v http_handler" where
  "version_handler st = (st, (200, HJson (JObj [(''api_version'', JNat API_VERSION)])))"

definition metrics_handler :: "server_env \<Rightarrow> 'v http_handler" where
  "metrics_handler se st =
     (st, (200, HFile ''text/plain; version=0.0.4'' (render_prometheus (se_float se) (hs_metrics st))))"

section \<open>The gates\<close>

text \<open>A refused request is counted as a request and as an error.\<close>

definition refuse :: "'v http_state \<Rightarrow> http_answer \<Rightarrow> 'v http_state \<times> http_answer" where
  "refuse st a = (st\<lparr> hs_metrics := incr_error (incr_total (hs_metrics st)) \<rparr>, a)"

definition key_gate :: "'v http_conf \<Rightarrow> headers \<Rightarrow> http_answer + unit" where
  "key_gate hc h =
     (if hc_multi hc then Inr ()
      else case check_bearer h (hc_api_key hc) of
             Inl (c, msg) \<Rightarrow> Inl (c, HText msg)
           | Inr _ \<Rightarrow> Inr ())"

definition origin_gate :: "'v http_conf \<Rightarrow> headers \<Rightarrow> http_answer + string" where
  "origin_gate hc h =
     (case check_gateway_origin h (hc_gateway_required hc) (hc_default_tenant hc) False of
        Inl (c, b) \<Rightarrow> Inl (c, HJson b)
      | Inr t \<Rightarrow> Inr t)"

text \<open>The tenant of a request that may pass, or the refusal; the verifier may have been asked.\<close>

definition pass_gates :: "'v http_conf \<Rightarrow> headers \<Rightarrow> 'v http_state \<Rightarrow> 'v http_state \<times> (http_answer + string)" where
  "pass_gates hc h st =
     (case key_gate hc h of
        Inl a \<Rightarrow> (st, Inl a)
      | Inr _ \<Rightarrow>
          (case origin_gate hc h of
             Inl a \<Rightarrow> (st, Inl a)
           | Inr tenant \<Rightarrow>
               (case enforce_multi_tenant (hc_verify hc) h tenant (hc_multi hc) (hs_verifier st) of
                  (v, Inl (c, b)) \<Rightarrow> (st\<lparr> hs_verifier := v \<rparr>, Inl (c, HJson b))
                | (v, Inr _) \<Rightarrow> (st\<lparr> hs_verifier := v \<rparr>, Inr tenant))))"

section \<open>Requests for data\<close>

definition rpc_status :: "rpc_response \<Rightarrow> nat" where
  "rpc_status r = (case rs_error r of Some e \<Rightarrow> http_status_for_error (re_code e) | None \<Rightarrow> 200)"

text \<open>Dispatching a request that passed, and counting it.\<close>

definition run_rpc :: "server_env \<Rightarrow> real \<Rightarrow> rpc_request \<Rightarrow> string \<Rightarrow> 'v http_handler" where
  "run_rpc se secs req tenant st =
     (case dispatch (se_codec se) (se_order se) (se_engine se) req tenant (hs_engine st) of
        (s1, resp) \<Rightarrow>
          let m = observe_duration secs (incr_total (hs_metrics st))
          in (st\<lparr> hs_engine := s1, hs_metrics := (if rs_error resp \<noteq> None then incr_error m else m) \<rparr>,
              (rpc_status resp, HRpc resp)))"

definition handle_rpc :: "server_env \<Rightarrow> 'v http_conf \<Rightarrow> real \<Rightarrow> headers \<Rightarrow> json \<Rightarrow> 'v http_handler" where
  "handle_rpc se hc secs h body st =
     (case pass_gates hc h st of
        (st1, Inl a) \<Rightarrow> refuse st1 a
      | (st1, Inr tenant) \<Rightarrow>
          (case rd_rpc_request (se_codec se) body of
             None \<Rightarrow>
               refuse st1 (400, HJson (JObj [(''error'', JStr ''invalid json-rpc request''),
                 (''detail'', JStr (rc_error (se_codec se) ''RpcRequest'' body))]))
           | Some req \<Rightarrow> run_rpc se secs req tenant st1))"

definition http_get_memory :: "server_env \<Rightarrow> 'v http_conf \<Rightarrow> real \<Rightarrow> headers \<Rightarrow> string \<Rightarrow> 'v http_handler" where
  "http_get_memory se hc secs h i st =
     (case pass_gates hc h st of
        (st1, Inl a) \<Rightarrow> refuse st1 a
      | (st1, Inr tenant) \<Rightarrow>
          run_rpc se secs \<lparr> rq_jsonrpc = ''2.0'', rq_method = ''get'', rq_params = JObj [(''id'', JStr i)],
                            rq_id = JNat 0 \<rparr> tenant st1)"

section \<open>The import route\<close>

definition report_value :: "import_report \<Rightarrow> json" where
  "report_value r =
     JObj [(''imported'', JNat (ir_imported r)), (''skipped_archive'', JNat (ir_archive r)),
           (''skipped_empty'', JNat (ir_empty r)), (''failed'', JNat (ir_failed r))]"

text \<open>Its refusals are counted as errors, but not as requests.\<close>

definition import_refuse :: "nat \<Rightarrow> string \<Rightarrow> 'v http_handler" where
  "import_refuse c msg st = (st\<lparr> hs_metrics := incr_error (hs_metrics st) \<rparr>, (c, HJson (error_body msg)))"

definition import_source :: "server_env \<Rightarrow> json \<Rightarrow> string option" where
  "import_source se p =
     (case Option.bind (jget p ''source'') jas_str of
        Some s \<Rightarrow> Some s
      | None \<Rightarrow> map_option (\<lambda>hm. hm @ ''/.fusion-agent-studio/memory.db'') (se_home se))"

definition run_import_request :: "server_env \<Rightarrow> 'v http_conf \<Rightarrow> json \<Rightarrow> 'v http_handler" where
  "run_import_request se hc p st =
     (case import_source se p of
        None \<Rightarrow> import_refuse 400 ''source required when HOME unset'' st
      | Some db \<Rightarrow>
          if \<not> se_exists se db then import_refuse 404 (''source db not found: '' @ db) st
          else if \<not> hc_concrete hc
          then import_refuse 503 ''import unavailable: engine is not the concrete MemoryEngine'' st
          else (case run_import (se_import se) (se_engine se) (se_studio se db) (hs_engine st) of
                  (s1, Inr rep) \<Rightarrow> (st\<lparr> hs_engine := s1 \<rparr>, (200, HJson (report_value rep)))
                | (s1, Inl e) \<Rightarrow> import_refuse 500 e (st\<lparr> hs_engine := s1 \<rparr>)))"

definition import_route :: "server_env \<Rightarrow> 'v http_conf \<Rightarrow> headers \<Rightarrow> json \<Rightarrow> 'v http_handler" where
  "import_route se hc h p st =
     (case key_gate hc h of
        Inl a \<Rightarrow> refuse st a
      | Inr _ \<Rightarrow>
          (case origin_gate hc h of
             Inl a \<Rightarrow> refuse st a
           | Inr _ \<Rightarrow> run_import_request se hc p st))"

section \<open>The web files\<close>

definition mime_for :: "string \<Rightarrow> string" where
  "mime_for path =
     (let ext = last (split_on (CHR ''.'') path)
      in if ext = ''html'' then ''text/html; charset=utf-8''
         else if ext = ''js'' then ''application/javascript; charset=utf-8''
         else if ext = ''css'' then ''text/css; charset=utf-8''
         else if ext = ''json'' then ''application/json''
         else if ext = ''svg'' then ''image/svg+xml''
         else if ext = ''png'' then ''image/png''
         else if ext = ''ico'' then ''image/x-icon''
         else if ext = ''woff2'' then ''font/woff2''
         else ''application/octet-stream'')"

definition web_index :: "server_env \<Rightarrow> http_answer" where
  "web_index se =
     (case se_asset se ''index.html'' of
        Some c \<Rightarrow> (200, HFile (mime_for ''index.html'') c)
      | None \<Rightarrow> (404, HText ''web UI not built (crates/fm-server/web/dist missing)''))"

definition web_asset :: "server_env \<Rightarrow> string \<Rightarrow> http_answer" where
  "web_asset se path =
     (case se_asset se path of Some c \<Rightarrow> (200, HFile (mime_for path) c) | None \<Rightarrow> (404, HEmpty))"

section \<open>Routes\<close>

datatype endpoint =
    EHealth
  | EMetrics
  | ERpc
  | EImport
  | EWebIndex
  | EWebAsset string
  | EVersion
  | EGet string
  | EBadPath string

definition RPC_ROUTES :: "string list" where
  "RPC_ROUTES = [''commit'', ''retrieve'', ''consolidate'', ''audit'', ''delete'', ''delete_scope'', ''count'',
     ''list'', ''audit_log'', ''merges'', ''unmerge'', ''reconcile'']"

text \<open>
  A parameter of the path is percent-decoded; when its bytes are not UTF-8 the request is
  answered with 400 and the name of the parameter. The routes compare the path as it was sent.
\<close>

definition hex_value :: "char \<Rightarrow> nat option" where
  "hex_value c =
     (let n = (of_char c :: nat)
      in if 48 \<le> n \<and> n \<le> 57 then Some (n - 48)
         else if 65 \<le> n \<and> n \<le> 70 then Some (n - 55)
         else if 97 \<le> n \<and> n \<le> 102 then Some (n - 87)
         else None)"

fun percent_decode :: "string \<Rightarrow> string" where
  "percent_decode [] = []"
| "percent_decode (c # s) =
     (if c = CHR ''%'' then
        (case s of
           a # b # r \<Rightarrow>
             (case (hex_value a, hex_value b) of
                (Some x, Some y) \<Rightarrow> char_of (16 * x + y) # percent_decode r
              | _ \<Rightarrow> c # percent_decode s)
         | _ \<Rightarrow> c # percent_decode s)
      else c # percent_decode s)"

definition path_param :: "string \<Rightarrow> (string \<Rightarrow> endpoint) \<Rightarrow> string \<Rightarrow> endpoint" where
  "path_param name f x = (if is_utf8 (percent_decode x) then f (percent_decode x) else EBadPath name)"

definition get_route :: "string \<Rightarrow> endpoint option" where
  "get_route path =
     (if path = ''/healthz'' then Some EHealth
      else if path = ''/metrics'' then Some EMetrics
      else if path = ''/app'' then Some EWebIndex
      else case strip_prefix ''/app/'' path of
             Some rest \<Rightarrow> if rest = [] then None else Some (path_param ''path'' EWebAsset rest)
           | None \<Rightarrow>
               (case strip_prefix ''/v1/memory/'' path of
                  None \<Rightarrow> None
                | Some i \<Rightarrow>
                    if i = ''version'' then Some EVersion
                    else if i = [] \<or> CHR ''/'' \<in> set i \<or> i \<in> set RPC_ROUTES \<or> i = ''import'' then None
                    else Some (path_param ''id'' EGet i)))"

definition post_route :: "string \<Rightarrow> endpoint option" where
  "post_route path =
     (case strip_prefix ''/v1/memory/'' path of
        None \<Rightarrow> None
      | Some r \<Rightarrow> if r \<in> set RPC_ROUTES then Some ERpc else if r = ''import'' then Some EImport else None)"

datatype verb = GET | POST

record web_request =
  wr_verb :: verb
  wr_path :: string
  wr_headers :: headers
  wr_body :: request_body
  wr_secs :: real

definition route :: "web_request \<Rightarrow> endpoint option" where
  "route w = (case wr_verb w of GET \<Rightarrow> get_route (wr_path w) | POST \<Rightarrow> post_route (wr_path w))"

text \<open>
  The statuses of axum for a path or a verb without a handler are one status here. A HEAD request
  is the GET of its path without the body of the answer.
\<close>

definition serve_request :: "server_env \<Rightarrow> 'v http_conf \<Rightarrow> web_request \<Rightarrow> 'v http_handler" where
  "serve_request se hc w st =
     (case route w of
        None \<Rightarrow> (st, (404, HEmpty))
      | Some EHealth \<Rightarrow> healthz se st
      | Some EMetrics \<Rightarrow> metrics_handler se st
      | Some EVersion \<Rightarrow> version_handler st
      | Some EWebIndex \<Rightarrow> (st, web_index se)
      | Some (EWebAsset p) \<Rightarrow> (st, web_asset se p)
      | Some (EGet i) \<Rightarrow> http_get_memory se hc (wr_secs w) (wr_headers w) i st
      | Some (EBadPath p) \<Rightarrow> (st, (400, HText (''Invalid URL: Invalid UTF-8 in `'' @ p @ ''`'')))
      | Some ERpc \<Rightarrow>
          (case read_body (wr_body w) of
             Inl a \<Rightarrow> (st, a)
           | Inr v \<Rightarrow> handle_rpc se hc (wr_secs w) (wr_headers w) v st)
      | Some EImport \<Rightarrow>
          (case read_body (wr_body w) of
             Inl a \<Rightarrow> (st, a)
           | Inr v \<Rightarrow> import_route se hc (wr_headers w) v st))"

definition serve_all :: "server_env \<Rightarrow> 'v http_conf \<Rightarrow> web_request list \<Rightarrow> 'v http_state \<Rightarrow> 'v http_state" where
  "serve_all se hc ws st = fold (\<lambda>w st. fst (serve_request se hc w st)) ws st"

section \<open>What the gates guarantee\<close>

text \<open>The right to use the data of a tenant: the key, or a token of that tenant.\<close>

definition vouched :: "identity_env \<Rightarrow> identity_conf \<Rightarrow> verifier \<Rightarrow> headers \<Rightarrow> string \<Rightarrow> bool" where
  "vouched im c v h tenant =
     (tenant \<noteq> [] \<and> (\<exists>jwt n. bearer_jwt h = Some jwt \<and> jwt \<noteq> []
        \<and> judge (id_post im n (verify_request c jwt)) = Inr tenant
        \<and> (n = vf_tick v + 1 \<or> id_now im (vf_tick v) \<le> id_now im (n + 1) + CACHE_TTL)))"

definition real_verifier :: "identity_env \<Rightarrow> identity_conf \<Rightarrow> verifier http_conf \<Rightarrow> bool" where
  "real_verifier im c hc = (hc_multi hc \<and> hc_verify hc = verify im c)"

lemma pass_gates_parts:
  assumes "pass_gates hc h st = (st', r)"
  shows "hs_engine st' = hs_engine st \<and> hs_metrics st' = hs_metrics st"
  using assms
  by (auto simp: pass_gates_def split: sum.splits prod.splits)

lemma refuse_parts [simp]:
  "hs_engine (fst (refuse st a)) = hs_engine st" "hs_verifier (fst (refuse st a)) = hs_verifier st"
  "snd (refuse st a) = a"
  by (simp_all add: refuse_def)

lemma pass_gates_key:
  assumes "pass_gates hc h st = (st', Inr tenant)" and "\<not> hc_multi hc"
  shows "header_or_empty h ''authorization'' = ''Bearer '' @ hc_api_key hc"
  using assms by (auto simp: pass_gates_def key_gate_def check_bearer_iff split: sum.splits prod.splits)

lemma pass_gates_vouched:
  assumes gate: "pass_gates hc h st = (st', Inr tenant)" and real: "real_verifier im c hc"
    and ok: "verifier_ok im c (hs_verifier st)"
  shows "vouched im c (hs_verifier st) h tenant"
proof -
  obtain v tid where "enforce_multi_tenant (verify im c) h tenant True (hs_verifier st) = (v, Inr tid)"
    using gate real by (auto simp: pass_gates_def real_verifier_def split: sum.splits prod.splits)
  from enforce_accepts [OF this] obtain jwt where j: "tenant \<noteq> []" "bearer_jwt h = Some jwt" "jwt \<noteq> []"
    "verify im c jwt (hs_verifier st) = (v, Inr tenant)" by blast
  with verify_sound [OF ok j(4)] show ?thesis unfolding vouched_def by blast
qed

lemma enforce_verifier:
  "fst (enforce_multi_tenant vf h t multi v) = v \<or> (\<exists>jwt. fst (enforce_multi_tenant vf h t multi v) = fst (vf jwt v))"
  by (auto simp: enforce_multi_tenant_def split: option.splits prod.splits sum.splits) (metis fst_conv)+

lemma pass_gates_verifier:
  assumes "hc_verify hc = verify im c" and "verifier_ok im c (hs_verifier st)"
  shows "verifier_ok im c (hs_verifier (fst (pass_gates hc h st)))"
proof -
  have "verifier_ok im c (fst (enforce_multi_tenant (verify im c) h t m (hs_verifier st)))" for t m
    using enforce_verifier [of "verify im c" h t m "hs_verifier st"] assms(2) verify_ok by metis
  then show ?thesis using assms
    by (auto simp: pass_gates_def split: sum.split prod.split) (metis fst_conv)+
qed

lemma run_rpc_verifier [simp]: "hs_verifier (fst (run_rpc se secs req t st)) = hs_verifier st"
  by (simp add: run_rpc_def Let_def split: prod.split)

lemma run_import_request_verifier [simp]: "hs_verifier (fst (run_import_request se hc p st)) = hs_verifier st"
  by (simp add: run_import_request_def import_refuse_def split: prod.split sum.split option.split)

lemma serve_verifier_ok:
  assumes "hc_verify hc = verify im c" and "verifier_ok im c (hs_verifier st)"
  shows "verifier_ok im c (hs_verifier (fst (serve_request se hc w st)))"
proof -
  have g: "verifier_ok im c (hs_verifier st1)" if "pass_gates hc h st = (st1, r)" for h st1 r
    using pass_gates_verifier [OF assms, of h] that by simp
  then have "verifier_ok im c (hs_verifier (fst (handle_rpc se hc secs h body st)))"
    "verifier_ok im c (hs_verifier (fst (http_get_memory se hc secs h i st)))" for secs h body i
    by (auto simp: handle_rpc_def http_get_memory_def split: prod.split sum.split option.split)
  then show ?thesis using assms(2)
    by (auto simp: serve_request_def healthz_def metrics_handler_def version_handler_def import_route_def
        split: option.split endpoint.split prod.split sum.split)
qed

lemma serve_all_verifier_ok:
  assumes "hc_verify hc = verify im c" and "verifier_ok im c (hs_verifier st)"
  shows "verifier_ok im c (hs_verifier (serve_all se hc ws st))"
  using assms(2)
proof (induction ws arbitrary: st)
  case (Cons w ws)
  then show ?case using serve_verifier_ok [OF assms(1)] by (simp add: serve_all_def)
qed (simp add: serve_all_def)

section \<open>Writes\<close>

definition get_request :: "string \<Rightarrow> rpc_request" where
  "get_request i = \<lparr> rq_jsonrpc = ''2.0'', rq_method = ''get'', rq_params = JObj [(''id'', JStr i)], rq_id = JNat 0 \<rparr>"

text \<open>The RPC request that a web request carries.\<close>

definition carried :: "server_env \<Rightarrow> web_request \<Rightarrow> rpc_request option" where
  "carried se w =
     (case route w of
        Some ERpc \<Rightarrow> (case read_body (wr_body w) of Inl _ \<Rightarrow> None | Inr v \<Rightarrow> rd_rpc_request (se_codec se) v)
      | Some (EGet i) \<Rightarrow> Some (get_request i)
      | _ \<Rightarrow> None)"

definition tenantless :: "rpc_request \<Rightarrow> bool" where
  "tenantless req = (strip_version (rq_method req) \<in> {''consolidate'', ''unmerge'', ''reconcile''})"

lemma run_rpc_engine:
  "run_rpc se secs req t st = (st', a) \<Longrightarrow> \<exists>resp. dispatch (se_codec se) (se_order se) (se_engine se) req t (hs_engine st)
     = (hs_engine st', resp) \<and> a = (rpc_status resp, HRpc resp)"
  by (auto simp: run_rpc_def Let_def split: prod.splits)

text \<open>Whatever a request is, its effects on the engine are those of a server.\<close>

lemma pass_gates_engine: "pass_gates hc h st = (st1, r) \<Longrightarrow> hs_engine st1 = hs_engine st"
  using pass_gates_parts by metis

lemma run_rpc_steps:
  assumes "hs_engine st = s"
  shows "esteps (server_effects (se_engine se)) s (hs_engine (fst (run_rpc se secs req t st)))"
  using assms dispatch_server [of "se_engine se" s "se_codec se" "se_order se" req t]
  by (auto simp: run_rpc_def Let_def split: prod.split)

lemma import_request_steps:
  "esteps (server_effects (se_engine se)) (hs_engine st) (hs_engine (fst (run_import_request se hc p st)))"
proof -
  have "run_import im (se_engine se) src s = (s1, r) \<Longrightarrow> esteps (server_effects (se_engine se)) s s1"
    for im src s s1 r using import_server [of "se_engine se" s im src] by simp
  then show ?thesis
    by (auto simp: run_import_request_def import_refuse_def esteps_refl split: option.split prod.split sum.split)
qed

lemma refuse_engine [simp]: "hs_engine (fst (refuse st a)) = hs_engine st"
  by (simp add: refuse_def)

lemma gated_steps:
  "esteps (server_effects (se_engine se)) (hs_engine st) (hs_engine (fst (handle_rpc se hc secs h v st)))"
  "esteps (server_effects (se_engine se)) (hs_engine st) (hs_engine (fst (http_get_memory se hc secs h i st)))"
proof -
  obtain st1 r where g: "pass_gates hc h st = (st1, r)" by fastforce
  note run = run_rpc_steps [OF pass_gates_engine [OF g]] and e = pass_gates_engine [OF g]
  show "esteps (server_effects (se_engine se)) (hs_engine st) (hs_engine (fst (handle_rpc se hc secs h v st)))"
    using g e by (cases r) (simp_all add: handle_rpc_def esteps_refl run split: option.split)
  show "esteps (server_effects (se_engine se)) (hs_engine st) (hs_engine (fst (http_get_memory se hc secs h i st)))"
    using g e by (cases r) (simp_all add: http_get_memory_def esteps_refl run)
qed

lemma serve_steps:
  "esteps (server_effects (se_engine se)) (hs_engine st) (hs_engine (fst (serve_request se hc w st)))"
proof (cases "route w")
  case (Some e)
  show ?thesis
  proof (cases e)
    case EHealth
    obtain s1 r where c: "count (se_engine se) None (hs_engine st) = (s1, r)" by fastforce
    then have "esteps X (hs_engine st) s1" for X
      using read_steps(2) [OF esteps_refl] by (metis count_def fst_conv)
    then show ?thesis using Some EHealth c by (cases r) (simp_all add: serve_request_def healthz_def)
  next
    case EImport
    have "esteps (server_effects (se_engine se)) (hs_engine st) (hs_engine (fst (import_route se hc h p st)))"
      for h p using import_request_steps by (auto simp: import_route_def esteps_refl split: sum.split)
    then show ?thesis using Some EImport by (simp add: serve_request_def esteps_refl split: sum.split)
  qed (simp_all add: Some serve_request_def metrics_handler_def version_handler_def esteps_refl gated_steps
        split: sum.split)
qed (simp add: serve_request_def esteps_refl)

lemma serve_all_steps:
  "esteps (server_effects (se_engine se)) (hs_engine st) (hs_engine (serve_all se hc ws st))"
  unfolding serve_all_def
proof (induction ws arbitrary: st)
  case (Cons w ws)
  show ?case using esteps_trans [OF serve_steps Cons.IH] by simp
qed (simp add: esteps_refl)

lemma serve_all_wf: "engine_wf (hs_engine st) \<Longrightarrow> engine_wf (hs_engine (serve_all se hc ws st))"
  using ewf.law_steps [OF esteps_mono [OF serve_all_steps]] by (auto simp: stays_wf_def)

text \<open>A request that carries no RPC request and is no import changes no memory.\<close>

lemma serve_idle:
  assumes "carried se w = None" and "route w \<noteq> Some EImport"
  shows "find_item j (eg_db (hs_engine (fst (serve_request se hc w st)))) = find_item j (eg_db (hs_engine st))"
proof -
  have g: "hs_engine st1 = hs_engine st" if "pass_gates hc h st = (st1, r)" for h st1 r
    using pass_gates_parts [OF that] by simp
  have "only_hides {} (hs_engine st) (fst (count ev x (hs_engine st)))" for ev x
    unfolding count_def count_tenant_def count_by_session_tenant_def count_where_def
    by (simp add: hides_query split: option.split)
  then have c: "find_item j (eg_db s1) = find_item j (eg_db (hs_engine st))" if "count ev x (hs_engine st) = (s1, r)" for ev x s1 r
    using that only_hides_outside [of "{}" "hs_engine st" s1 j] by (metis empty_iff fst_conv)
  show ?thesis using assms g
    by (auto simp: carried_def serve_request_def healthz_def version_handler_def metrics_handler_def handle_rpc_def
        split: option.splits endpoint.splits sum.splits prod.splits dest: c)
qed

lemma serve_carried:
  assumes "carried se w = Some req"
  shows "(\<exists>st1 a. pass_gates hc (wr_headers w) st = (st1, Inl a) \<and> serve_request se hc w st = refuse st1 a)
    \<or> (\<exists>st1 t. pass_gates hc (wr_headers w) st = (st1, Inr t) \<and> serve_request se hc w st = run_rpc se (wr_secs w) req t st1)"
  using assms
  by (auto simp: carried_def serve_request_def handle_rpc_def http_get_memory_def get_request_def
      split: option.splits endpoint.splits sum.splits prod.splits)

text \<open>
  A request that changes a memory carried a token: of the memory's tenant, or, for a method without
  tenants or an id that is drawn again, of some tenant. Only the import needs none.
\<close>

lemma serve_keeps:
  assumes real: "real_verifier im c hc" and ok: "verifier_ok im c (hs_verifier st)"
    and wf: "db_wf (eg_db (hs_engine st))" and m: "find_item j (eg_db (hs_engine st)) = Some m"
    and run: "serve_request se hc w st = (st', a)"
    and changed: "find_item j (eg_db (hs_engine st')) \<noteq> Some m" and imp: "route w \<noteq> Some EImport"
  shows "\<exists>t req. vouched im c (hs_verifier st) (wr_headers w) t \<and> carried se w = Some req
    \<and> (mi_tenant m = t \<or> tenantless req \<or> (\<exists>n. ev_ulid (se_engine se) n = j))"
proof (cases "carried se w")
  case None
  then show ?thesis using serve_idle [OF None imp, of j hc st] run m changed by simp
next
  case (Some req)
  from serve_carried [OF Some, of hc st] consider
    st1 e where "pass_gates hc (wr_headers w) st = (st1, Inl e)" "serve_request se hc w st = refuse st1 e"
  | st1 t where "pass_gates hc (wr_headers w) st = (st1, Inr t)"
      "serve_request se hc w st = run_rpc se (wr_secs w) req t st1" by blast
  then show ?thesis
  proof cases
    case 1
    then have "hs_engine st' = hs_engine st" using run pass_gates_parts [OF 1(1)] by (auto simp: refuse_def)
    then show ?thesis using m changed by simp
  next
    case 2
    note v = pass_gates_vouched [OF 2(1) real ok]
    then have t: "t \<noteq> []" by (simp add: vouched_def)
    have e: "hs_engine st1 = hs_engine st" using pass_gates_parts [OF 2(1)] by simp
    obtain resp where "dispatch (se_codec se) (se_order se) (se_engine se) req t (hs_engine st) = (hs_engine st', resp)"
      using run_rpc_engine [of se "wr_secs w" req t st1 st' a] 2(2) run e by auto
    then have "mi_tenant m = t \<or> tenantless req \<or> (\<exists>n. ev_ulid (se_engine se) n = j)"
      using dispatch_keeps [OF wf m t] changed unfolding tenantless_def by blast
    then show ?thesis using v Some by blast
  qed
qed

text \<open>
  C3: The server as a whole, in multi-tenant mode, after any sequence of requests. When a request
  changes a stored memory, by whatever route, method and parameters, then it carried a bearer
  token that the identity service has mapped to the tenant of this memory (now, or at most
  thirty seconds before), with three exceptions: an import, which needs no token at all; a call
  of \<open>consolidate\<close>, \<open>unmerge\<close> or \<open>reconcile\<close>, which needs a token of any tenant; and
  an id that the generator can draw again, where a request with a token of any tenant can replace
  the memory. So without an import a change needs a token, and memories of the default tenant,
  which has no name, can be changed by the exceptions only.\<close>
theorem multi_tenant_write_confined:
  assumes "real_verifier im c hc" and "hs_verifier st0 = snd (verifier_new base key)"
    and "st = serve_all se hc ws st0" and "serve_request se hc w st = (st', a)"
    and "engine_wf (hs_engine st0)" and "find_item j (eg_db (hs_engine st)) = Some m"
    and "find_item j (eg_db (hs_engine st')) \<noteq> Some m"
  shows "vouched im c (hs_verifier st) (wr_headers w) (mi_tenant m)
    \<or> route w = Some EImport
    \<or> (\<exists>t req. vouched im c (hs_verifier st) (wr_headers w) t \<and> carried se w = Some req
         \<and> (tenantless req \<or> (\<exists>n. ev_ulid (se_engine se) n = j)))"
proof -
  have "verifier_ok im c (hs_verifier st)"
    unfolding assms(3) using assms(1,2) verifier_new_ok [of im c base key]
    by (intro serve_all_verifier_ok) (simp_all add: real_verifier_def)
  moreover have "db_wf (eg_db (hs_engine st))"
    using serve_all_wf [OF assms(5)] unfolding assms(3) by (simp add: engine_wf_def)
  ultimately show ?thesis using serve_keeps [OF assms(1) _ _ assms(6,4,7)] by blast
qed

section \<open>Reads\<close>

lemma get_tenant_only:
  assumes "get_memory_tenant i t s = (s', Inr (Some m))" and "t \<noteq> []"
  shows "mi_tenant m = t"
  using assms
  by (auto simp: get_memory_tenant_def then_do_def return_ok_def split: prod.splits sum.splits option.splits if_splits)

lemma dispatch_get:
  assumes "dispatch rc ord ev (get_request i) t s = (s', resp)" and "rs_result resp = Some v"
  shows "\<exists>k mo. get_memory_tenant k t s = (s', Inr mo) \<and> wc_item rc mo = Inr v"
proof -
  have "strip_version ''get'' = ''get''" by (simp add: starts_with_def)
  then show ?thesis using assms
    by (auto simp: dispatch_def get_request_def call_method_def rpc_get_def checked_def answer_def respond_def
        to_value_def map_err_Inr split: prod.splits sum.splits) blast
qed

text \<open>
  C13: In multi-tenant mode, after any sequence of requests, \<open>GET /v1/memory/\<close> answers with the
  text of a memory only if the request carried a token of the tenant of this memory. A memory of
  another tenant and a memory that does not exist give the same answer.\<close>
theorem multi_tenant_get_own:
  assumes "real_verifier im c hc" and "hs_verifier st0 = snd (verifier_new base key)"
    and "st = serve_all se hc ws st0" and "route w = Some (EGet i)"
    and "serve_request se hc w st = (st', (code, HRpc resp))" and "rs_result resp = Some v"
  shows "\<exists>mo. wc_item (se_codec se) mo = Inr v
    \<and> (\<forall>m. mo = Some m \<longrightarrow> vouched im c (hs_verifier st) (wr_headers w) (mi_tenant m))"
proof -
  have ok: "verifier_ok im c (hs_verifier st)"
    unfolding assms(3) using assms(1,2) verifier_new_ok [of im c base key]
    by (intro serve_all_verifier_ok) (simp_all add: real_verifier_def)
  have c: "carried se w = Some (get_request i)" using assms(4) by (simp add: carried_def)
  have "snd (refuse st1 e) = e" for st1 :: "verifier http_state" and e by simp
  moreover have "e \<noteq> (code, HRpc resp)" if "pass_gates hc (wr_headers w) st = (st1, Inl e)" for st1 e
    using that by (auto simp: pass_gates_def key_gate_def origin_gate_def split: sum.splits prod.splits if_splits)
  ultimately obtain st1 t where g: "pass_gates hc (wr_headers w) st = (st1, Inr t)"
    "run_rpc se (wr_secs w) (get_request i) t st1 = (st', (code, HRpc resp))"
    using serve_carried [OF c, of hc st] assms(5) by (metis snd_conv)
  have v: "vouched im c (hs_verifier st) (wr_headers w) t"
    by (rule pass_gates_vouched [OF g(1) assms(1) ok])
  obtain k s' mo where "get_memory_tenant k t (hs_engine st1) = (s', Inr mo)" "wc_item (se_codec se) mo = Inr v"
    using run_rpc_engine [OF g(2)] dispatch_get assms(6) by blast
  then show ?thesis using v get_tenant_only [of k t] by (metis vouched_def)
qed

section \<open>Refusals\<close>

lemma rpc_status_cases: "rpc_status r = n \<Longrightarrow> n \<in> {200, 400, 404, 503, 500}"
  by (auto simp: rpc_status_def http_status_for_error_def split: option.splits if_splits)

lemma run_rpc_refused:
  assumes "run_rpc se secs req t st = (st', (code, b))" and "code \<in> {400, 401, 403, 413}"
  shows "hs_engine st' = hs_engine st"
proof -
  obtain resp where r: "dispatch (se_codec se) (se_order se) (se_engine se) req t (hs_engine st) = (hs_engine st', resp)"
    "code = rpc_status resp" using run_rpc_engine [OF assms(1)] by auto
  with rpc_status_cases [of resp code] assms(2) have "rpc_status resp = 400" by auto
  then obtain e where "rs_error resp = Some e" "http_status_for_error (re_code e) = 400"
    by (auto simp: rpc_status_def split: option.splits)
  with bad_request_unchanged [OF r(1)] show ?thesis by simp
qed

text \<open>
  C17: A request that is refused, because it has no valid key or token (401), comes from elsewhere
  than the gateway or for another tenant (403), has a body that is too long (413) or does not
  make sense (400), has not touched the engine.\<close>
theorem refused_request_changes_nothing:
  assumes "serve_request se hc w st = (st', (code, b))" and "code \<in> {400, 401, 403, 413}"
  shows "hs_engine st' = hs_engine st"
proof (cases "carried se w")
  case (Some req)
  from serve_carried [OF Some, of hc st] show ?thesis
  proof (elim disjE exE conjE)
    fix st1 a
    assume "pass_gates hc (wr_headers w) st = (st1, Inl a)" and "serve_request se hc w st = refuse st1 a"
    then show ?thesis using assms(1) pass_gates_parts [of hc "wr_headers w" st st1] by (auto simp: refuse_def)
  next
    fix st1 t
    assume "pass_gates hc (wr_headers w) st = (st1, Inr t)"
      and "serve_request se hc w st = run_rpc se (wr_secs w) req t st1"
    then show ?thesis
      using assms run_rpc_refused [of se "wr_secs w" req t st1 st' code b] pass_gates_parts [of hc "wr_headers w" st st1]
      by simp
  qed
next
  case None
  have g: "hs_engine st1 = hs_engine st" if "pass_gates hc (wr_headers w) st = (st1, r)" for st1 r
    using pass_gates_parts [OF that] by simp
  have i: "hs_engine st' = hs_engine st"
    if "import_route se hc (wr_headers w) v st = (st', (k, b))" and "k \<in> {400, 401, 403, 413}" for v k
    using that
    by (auto simp: import_route_def refuse_def run_import_request_def import_refuse_def
        split: option.splits sum.splits prod.splits if_splits)
  show ?thesis using assms None g
    by (auto simp: carried_def serve_request_def healthz_def version_handler_def metrics_handler_def handle_rpc_def
        refuse_def split: option.splits endpoint.splits sum.splits prod.splits dest: i)
qed

section \<open>The import route\<close>

text \<open>
  The import route does not ask the identity service. In multi-tenant mode (without the
  gateway's own header check) a request with any headers, or none, runs the import of any file
  of the server's host that its body names.\<close>
lemma import_route_unauthenticated:
  assumes "hc_multi hc" and "\<not> hc_gateway_required hc"
  shows "import_route se hc h p st = run_import_request se hc p st"
  using assms by (simp add: import_route_def key_gate_def origin_gate_def check_gateway_origin_def)

section \<open>The counters\<close>

lemma metrics_ok_refuse [simp]: "metrics_ok (hs_metrics st) \<Longrightarrow> metrics_ok (hs_metrics (fst (refuse st a)))"
  by (simp add: refuse_def)

lemma metrics_ok_run_rpc [simp]:
  "metrics_ok (hs_metrics st) \<Longrightarrow> metrics_ok (hs_metrics (fst (run_rpc se secs req t st)))"
  by (simp add: run_rpc_def Let_def split: prod.split)

lemma metrics_ok_import [simp]:
  "metrics_ok (hs_metrics st) \<Longrightarrow> metrics_ok (hs_metrics (fst (run_import_request se hc p st)))"
  by (simp add: run_import_request_def import_refuse_def split: prod.split sum.split option.split)

lemma serve_metrics_ok:
  assumes ok: "metrics_ok (hs_metrics st)"
  shows "metrics_ok (hs_metrics (fst (serve_request se hc w st)))"
proof -
  have g: "metrics_ok (hs_metrics st1)" if "pass_gates hc h st = (st1, r)" for h st1 r
    using pass_gates_parts [OF that] ok by simp
  then have "metrics_ok (hs_metrics (fst (handle_rpc se hc secs h body st)))"
    "metrics_ok (hs_metrics (fst (http_get_memory se hc secs h i st)))" for secs h body i
    by (auto simp: handle_rpc_def http_get_memory_def split: prod.split sum.split option.split)
  then show ?thesis using ok
    by (auto simp: serve_request_def healthz_def metrics_handler_def version_handler_def import_route_def
        split: option.split endpoint.split prod.split sum.split)
qed

text \<open>
  The duration histogram is consistent after any sequence of requests, wrap-around included:
  its last bucket is the number of observations.\<close>
lemma histogram_consistent:
  assumes "hs_metrics st = metrics_new"
  shows "last (histogram_lines (hs_metrics (serve_all se hc ws st)))
     = (''+Inf'', mt_count (hs_metrics (serve_all se hc ws st)))"
proof -
  have "metrics_ok (hs_metrics st) \<Longrightarrow> metrics_ok (hs_metrics (serve_all se hc ws st))"
    by (induction ws arbitrary: st) (simp_all add: serve_all_def serve_metrics_ok)
  then show ?thesis using assms metrics_new_ok histogram_total by simp
qed

section \<open>A concrete server\<close>

definition demo_redactor :: redactor where
  "demo_redactor = \<lparr> rd_credentials = None, rd_is_match = (\<lambda>_ _. False), rd_replace_all = (\<lambda>_ _ x. x) \<rparr>"

definition demo_import :: import_env where
  "demo_import = \<lparr> im_json = (\<lambda>_. None), im_alphanumeric = (\<lambda>_. False), im_redactor = demo_redactor, im_redact_var = None \<rparr>"

definition demo_server :: server_env where
  "demo_server =
     \<lparr> se_codec = plain_codec, se_order = (\<lambda>x. x), se_engine = demo_env0, se_import = demo_import, se_home = None,
       se_exists = (\<lambda>_. True), se_studio = (\<lambda>_. studio_demo), se_float = (\<lambda>_. ''0''), se_asset = (\<lambda>_. None) \<rparr>"

definition demo_identity :: identity_conf where
  "demo_identity = fst (verifier_new ''u'' ''k'')"

definition demo_conf :: "verifier http_conf" where
  "demo_conf =
     \<lparr> hc_api_key = ''key'', hc_gateway_required = False, hc_default_tenant = [], hc_multi = True,
       hc_verify = verify demo_issuer demo_identity, hc_concrete = True \<rparr>"

definition demo_start :: "verifier http_state" where
  "demo_start = \<lparr> hs_engine = demo_replica, hs_metrics = metrics_new, hs_verifier = snd (verifier_new ''u'' ''k'') \<rparr>"

definition demo_web :: "verb \<Rightarrow> string \<Rightarrow> headers \<Rightarrow> json \<Rightarrow> web_request" where
  "demo_web vb path h v =
     \<lparr> wr_verb = vb, wr_path = path, wr_headers = h, wr_body = \<lparr> rb_len = 100, rb_value = Inr v \<rparr>, wr_secs = 0 \<rparr>"

definition delete_a :: json where
  "delete_a = JObj [(''jsonrpc'', JStr ''2.0''), (''method'', JStr ''delete''),
     (''params'', JObj [(''id'', JStr ''a''), (''confirm'', JBool True)]), (''id'', JNat 1)]"

lemma jwt_demo: "bearer_jwt demo_headers = Some ''abc''"
  by (simp add: bearer_jwt_def demo_headers_def TENANT_HEADER_def strip_prefix_def starts_with_def trim_plain is_space_def)

lemma demo_pass:
  "\<exists>v. pass_gates demo_conf demo_headers demo_start = (demo_start\<lparr> hs_verifier := v \<rparr>, Inr ''t1'')"
proof -
  have "check_gateway_origin demo_headers False [] False = Inr ''t1''"
    by (simp add: check_gateway_origin_def demo_headers_def TENANT_HEADER_def)
  then show ?thesis
    by (simp add: pass_gates_def key_gate_def origin_gate_def demo_conf_def enforce_multi_tenant_def jwt_demo
        verify_def demo_start_def verifier_new_def id_lookup_def judge_def is_success_def demo_issuer_def Let_def)
qed

lemma demo_post_route: "route (demo_web POST ''/v1/memory/count'' h v) = Some ERpc"
  using strip_prefix_append [of "''/v1/memory/''" "''count''"]
  by (simp add: route_def demo_web_def post_route_def RPC_ROUTES_def)

lemma demo_carried:
  "carried demo_server (demo_web POST ''/v1/memory/count'' h delete_a)
     = Some (demo_request ''delete'' (JObj [(''id'', JStr ''a''), (''confirm'', JBool True)]))"
  using demo_post_route [of h delete_a]
  by (simp add: carried_def demo_web_def read_body_def MAX_HTTP_BODY_BYTES_def rd_rpc_request_def demo_server_def
      plain_codec_def delete_a_def required_def defaulted_def demo_request_def)

lemma demo_real: "real_verifier demo_issuer demo_identity demo_conf"
  by (simp add: real_verifier_def demo_conf_def)

lemma demo_start_parts: "hs_verifier demo_start = snd (verifier_new ''u'' ''k'')" "hs_engine demo_start = demo_replica"
  "demo_start = serve_all se hc [] demo_start"
  by (simp_all add: demo_start_def serve_all_def)

lemma demo_no_ulid: "\<forall>n. ev_ulid (se_engine demo_server) n \<noteq> ''a''"
  by (simp add: demo_server_def demo_ulid)

lemma codec_unused: "delete_memory_tenant (ev\<lparr> ev_codec := c \<rparr>) i ten = delete_memory_tenant ev i ten"
proof -
  have "delete_memory (ev\<lparr> ev_codec := c \<rparr>) = delete_memory ev"
    by (simp add: fun_eq_iff delete_memory_def now_ms_def)
  then show ?thesis by (simp only: delete_memory_tenant_def)
qed

text \<open>The deletion of a memory through the server, whatever the codec of its log entries.\<close>

definition demo_delete :: web_request where
  "demo_delete = demo_web POST ''/v1/memory/count'' demo_headers delete_a"

definition coded_server :: "payload_codec \<Rightarrow> server_env" where
  "coded_server c = demo_server\<lparr> se_engine := demo_env0\<lparr> ev_codec := c \<rparr> \<rparr>"

lemma coded_plain: "coded_server no_codec = demo_server"
  by (simp add: coded_server_def demo_server_def demo_env0_def)

lemma demo_delete_served:
  "hs_engine (fst (serve_request (coded_server c) demo_conf demo_delete demo_start))
     = fst (delete_memory_tenant demo_env0 ''a'' ''t1'' demo_replica)"
proof -
  let ?se = "coded_server c" and ?ev = "demo_env0\<lparr> ev_codec := c \<rparr>"
  let ?req = "demo_request ''delete'' (JObj [(''id'', JStr ''a''), (''confirm'', JBool True)])"
  obtain v where g: "pass_gates demo_conf (wr_headers demo_delete) demo_start = (demo_start\<lparr> hs_verifier := v \<rparr>, Inr ''t1'')"
    using demo_pass by (auto simp: demo_delete_def demo_web_def)
  have "se_codec ?se = se_codec demo_server" by (simp add: coded_server_def)
  then have "carried ?se demo_delete = carried demo_server demo_delete" by (simp only: carried_def)
  then have c: "carried ?se demo_delete = Some ?req" using demo_carried by (simp add: demo_delete_def)
  have run: "serve_request ?se demo_conf demo_delete demo_start
      = run_rpc ?se (wr_secs demo_delete) ?req ''t1'' (demo_start\<lparr> hs_verifier := v \<rparr>)"
    using serve_carried [OF c, of demo_conf demo_start] g by simp
  have strip: "strip_version ''delete'' = ''delete''" by (simp add: starts_with_def)
  have "fst (call_method plain_codec (\<lambda>x. x) ?ev ''delete'' (JObj [(''id'', JStr ''a''), (''confirm'', JBool True)])
      ''t1'' demo_replica) = fst (delete_memory_tenant demo_env0 ''a'' ''t1'' demo_replica)"
    by (simp add: call_method_def rpc_delete_def checked_def decoded_def rd_delete_def plain_codec_def required_def
        defaulted_def answer_def codec_unused split: prod.split sum.split)
  then show ?thesis
    unfolding run by (auto simp: run_rpc_def dispatch_def demo_request_def strip demo_server_def coded_server_def
        demo_start_parts Let_def split: prod.split)
qed

lemma multi_tenant_write_witness:
  "vouched demo_issuer demo_identity (hs_verifier demo_start) demo_headers (mi_tenant item_a)"
proof -
  have changed: "find_item ''a'' (eg_db (hs_engine (fst (serve_request demo_server demo_conf demo_delete demo_start)))) \<noteq> Some item_a"
    using demo_delete_served [of no_codec] demo_deleted [of "''t1''"] by (simp add: coded_plain)
  have wf: "engine_wf (hs_engine demo_start)" "find_item ''a'' (eg_db (hs_engine demo_start)) = Some item_a"
    by (simp_all add: demo_start_parts demo_replica_def db_ab_def put_item_wf item_a_def item_b_def with_namespace_def
        engine_wf_def empty_store_wf)
  have strip: "strip_version ''delete'' = ''delete''" by (simp add: starts_with_def)
  have r: "route demo_delete \<noteq> Some EImport" "\<forall>req. carried demo_server demo_delete = Some req \<longrightarrow> \<not> tenantless req"
    using demo_carried strip by (simp_all add: demo_delete_def demo_post_route tenantless_def demo_request_def)
  have "wr_headers demo_delete = demo_headers" by (simp add: demo_delete_def demo_web_def)
  with multi_tenant_write_confined [OF demo_real demo_start_parts(1,3) prod.collapse [symmetric] wf changed] r demo_no_ulid
  show ?thesis by auto
qed

lemma multi_tenant_get_witness:
  "\<exists>m :: memory_item. mi_id m = ''a'' \<and> vouched demo_issuer demo_identity (hs_verifier demo_start) demo_headers (mi_tenant m)"
proof -
  let ?w = "demo_web GET ''/v1/memory/a'' demo_headers JNull"
  have route: "route ?w = Some (EGet ''a'')"
    using strip_prefix_append [of "''/v1/memory/''" "''a''"]
    by (simp add: route_def demo_web_def get_route_def RPC_ROUTES_def strip_prefix_def starts_with_def
        path_param_def is_utf8_def)
  have c: "carried demo_server ?w = Some (get_request ''a'')" using route by (simp add: carried_def)
  obtain v where g: "pass_gates demo_conf (wr_headers ?w) demo_start = (demo_start\<lparr> hs_verifier := v \<rparr>, Inr ''t1'')"
    using demo_pass by (auto simp: demo_web_def)
  have run: "serve_request demo_server demo_conf ?w demo_start
      = run_rpc demo_server (wr_secs ?w) (get_request ''a'') ''t1'' (demo_start\<lparr> hs_verifier := v \<rparr>)"
    using serve_carried [OF c, of demo_conf demo_start] g by simp
  have strip: "strip_version ''get'' = ''get''" by (simp add: starts_with_def)
  have nf: "db_faults db_ab = []" by (simp add: db_ab_def put_item_def empty_db_def)
  have f: "find_item ''a'' db_ab = Some item_a" "mi_tenant item_a = ''t1''" "mi_id item_a = ''a''"
    by (simp_all add: db_ab_def item_a_def item_b_def with_namespace_def)
  have "get_memory_tenant ''a'' ''t1'' demo_replica = (demo_replica, Inr (Some item_a))"
    by (simp add: get_memory_tenant_def then_do_def engine_get_memory_def on_db_def raw_db_def get_memory_def
        demo_replica_def nf f)
  then have "\<exists>st'. serve_request demo_server demo_conf ?w demo_start = (st', (200, HRpc (respond (JNat 0) (Inr (JStr ''a'')))))"
    unfolding run
    by (simp add: run_rpc_def dispatch_def get_request_def strip call_method_def rpc_get_def checked_def decoded_def
        rd_id_def required_def answer_def to_value_def demo_server_def plain_codec_def demo_start_parts f(3) respond_def
        rpc_status_def Let_def)
  then obtain st' where s: "serve_request demo_server demo_conf ?w demo_start
      = (st', (200, HRpc (respond (JNat 0) (Inr (JStr ''a'')))))" by blast
  have "rs_result (respond (JNat 0) (Inr (JStr ''a''))) = Some (JStr ''a'')" by (simp add: respond_def)
  from multi_tenant_get_own [OF demo_real demo_start_parts(1,3) route s this]
  obtain mo where mo: "wc_item plain_codec mo = Inr (JStr ''a'')"
    "\<And>m. mo = Some m \<Longrightarrow> vouched demo_issuer demo_identity (hs_verifier demo_start) demo_headers (mi_tenant m)"
    by (auto simp: demo_web_def demo_server_def)
  from mo(1) obtain m where m: "mo = Some m" "mi_id m = ''a''" by (cases mo) (auto simp: plain_codec_def)
  show ?thesis by (intro exI [of _ m] conjI m(2) mo(2) [OF m(1)])
qed

lemma refused_request_witness:
  "hs_engine (fst (serve_request demo_server demo_conf (demo_web POST ''/v1/memory/count'' (\<lambda>_. None) delete_a) demo_start))
     = hs_engine demo_start"
proof -
  have "\<exists>st'. serve_request demo_server demo_conf (demo_web POST ''/v1/memory/count'' (\<lambda>_. None) delete_a) demo_start
      = (st', (401, HJson (error_body ''tenant required in multi-tenant mode'')))"
    using serve_carried [OF demo_carried, of demo_conf "\<lambda>_. None" demo_start]
    by (auto simp: demo_web_def pass_gates_def key_gate_def origin_gate_def demo_conf_def check_gateway_origin_def
        enforce_multi_tenant_def refuse_def)
  then show ?thesis using refused_request_changes_nothing by fastforce
qed

lemma import_route_witness:
  "import_route demo_server demo_conf (\<lambda>_. None) JNull demo_start = run_import_request demo_server demo_conf JNull demo_start"
  by (rule import_route_unauthenticated) (simp_all add: demo_conf_def)

lemma histogram_witness:
  "last (histogram_lines (hs_metrics (serve_all demo_server demo_conf
      [demo_web POST ''/v1/memory/count'' demo_headers delete_a] demo_start)))
    = (''+Inf'', mt_count (hs_metrics (serve_all demo_server demo_conf
      [demo_web POST ''/v1/memory/count'' demo_headers delete_a] demo_start)))"
  by (rule histogram_consistent) (simp add: demo_start_def)

end
