(* ===== verification/Uds.thy ===== *)
theory Uds
  imports Confine
begin

text \<open>
  The Unix socket server of \<open>fm-server\<close> (\<open>uds.rs\<close>): the reading of lines from the buffer with
  a cap on their length, the handshake with the token, and the loop that answers one line with
  one line.

  The input of a connection is the list of buffers that \<open>fill_buf\<close> hands out, none longer than
  the capacity of the reader, and whether the end is an error or the end of the file. Strings
  are their bytes.
\<close>

section \<open>Reading a line\<close>

definition MAX_LINE_BYTES :: nat where "MAX_LINE_BYTES = 8 * 1024 * 1024"
definition MAX_CONNS :: nat where "MAX_CONNS = 256"
definition BUF_CAPACITY :: nat where "BUF_CAPACITY = 8192"

definition LF :: char where "LF = char_of (10 :: nat)"

datatype line_error = Oversized nat | Io

text \<open>The part of a buffer up to its line feed, or all of it.\<close>

definition chunk_of :: "string \<Rightarrow> string" where
  "chunk_of b = (if LF \<in> set b then takeWhile (\<lambda>c. c \<noteq> LF) b @ [LF] else b)"

definition after_chunk :: "string \<Rightarrow> string" where
  "after_chunk b = drop (length (chunk_of b)) b"

text \<open>
  The unread buffers, the line so far and the number of its bytes, or an error. A buffer that
  does not fit is left unread.
\<close>

fun read_line_capped ::
  "bool \<Rightarrow> nat \<Rightarrow> string \<Rightarrow> string list \<Rightarrow> string list \<times> string \<times> (line_error + nat)" where
  "read_line_capped io n line [] = ([], line, if io then Inl Io else Inr n)"
| "read_line_capped io n line (b # bs) =
     (if b = [] then read_line_capped io n line bs
      else if n + length (chunk_of b) > MAX_LINE_BYTES
      then (b # bs, line, Inl (Oversized (n + length (chunk_of b))))
      else if \<not> is_utf8 (chunk_of b) then (b # bs, line, Inl Io)
      else if LF \<in> set b then (after_chunk b # bs, line @ chunk_of b, Inr (n + length (chunk_of b)))
      else read_line_capped io (n + length (chunk_of b)) (line @ chunk_of b) bs)"

section \<open>A connection\<close>

record uds_conn =
  uc_input :: "string list"
  uc_engine :: engine
  uc_auth :: bool
  uc_out :: "string list"

record uds_env =
  ue_codec :: rpc_codec
  ue_order :: "string list \<Rightarrow> string list"
  ue_engine :: engine_env
  ue_token :: string
  ue_io_end :: bool
  ue_write :: "nat \<Rightarrow> bool"

definition uds_start :: "uds_env \<Rightarrow> string list \<Rightarrow> engine \<Rightarrow> uds_conn" where
  "uds_start ue bufs s = \<lparr> uc_input = bufs, uc_engine = s, uc_auth = (ue_token ue = []), uc_out = [] \<rparr>"

text \<open>Sending a line; the loop goes on if it can be written.\<close>

definition send_line :: "uds_env \<Rightarrow> rpc_response \<Rightarrow> uds_conn \<Rightarrow> uds_conn \<times> bool" where
  "send_line ue resp c =
     (if ue_write ue (length (uc_out c))
      then (c\<lparr> uc_out := uc_out c @ [serialize_response (ue_codec ue) resp @ [LF]] \<rparr>, True)
      else (c, False))"

definition oversized_message :: string where
  "oversized_message = ''line exceeds '' @ show_nat MAX_LINE_BYTES @ '' bytes''"

text \<open>What is done with a line that has a text: the handshake, or a request without a tenant.\<close>

definition answer_line :: "uds_env \<Rightarrow> string \<Rightarrow> uds_conn \<Rightarrow> uds_conn \<times> bool" where
  "answer_line ue x c =
     (if ue_token ue \<noteq> [] \<and> \<not> uc_auth c
      then if strip_prefix ''AUTH '' x = Some (ue_token ue)
           then send_line ue (respond JNull (Inr (JStr ''ok''))) (c\<lparr> uc_auth := True \<rparr>)
           else send_line ue (respond JNull (Inl err_unauthorized)) c
      else case parse_line (ue_codec ue) x of
             Some req \<Rightarrow>
               (case dispatch (ue_codec ue) (ue_order ue) (ue_engine ue) req [] (uc_engine c) of
                  (s1, resp) \<Rightarrow> send_line ue resp (c\<lparr> uc_engine := s1 \<rparr>))
           | None \<Rightarrow> send_line ue (respond JNull (Inl err_parse)) c)"

definition conn_step :: "uds_env \<Rightarrow> uds_conn \<Rightarrow> uds_conn \<times> bool" where
  "conn_step ue c =
     (case read_line_capped (ue_io_end ue) 0 [] (uc_input c) of
        (bufs, line, r) \<Rightarrow>
          let c1 = c\<lparr> uc_input := bufs \<rparr>
          in case r of
               Inr n \<Rightarrow>
                 if n = 0 then (c1, False)
                 else if trim line = [] then (c1, True)
                 else answer_line ue (trim line) c1
             | Inl (Oversized k) \<Rightarrow> send_line ue (respond JNull (Inl (err_invalid_params oversized_message))) c1
             | Inl Io \<Rightarrow> (c1, False))"

text \<open>The loop, with fuel: nothing if it runs out.\<close>

fun handle_conn :: "uds_env \<Rightarrow> nat \<Rightarrow> uds_conn \<Rightarrow> uds_conn option" where
  "handle_conn ue 0 c = None"
| "handle_conn ue (Suc n) c =
     (case conn_step ue c of
        (c1, True) \<Rightarrow> handle_conn ue n c1
      | (c1, False) \<Rightarrow> Some c1)"

text \<open>Accepting a connection under the cap on their number.\<close>

definition uds_accept :: "nat \<Rightarrow> nat \<times> bool" where
  "uds_accept live = (if live \<ge> MAX_CONNS then (live, False) else (live + 1, True))"

section \<open>What is read\<close>

lemma chunk_split: "chunk_of b @ after_chunk b = b"
proof -
  have d: "\<exists>r. dropWhile (\<lambda>c. c \<noteq> LF) b = LF # r" if "LF \<in> set b"
    using that by (induction b) auto
  have "\<exists>r. b = chunk_of b @ r"
  proof (cases "LF \<in> set b")
    case True
    then obtain r where "dropWhile (\<lambda>c. c \<noteq> LF) b = LF # r" using d by blast
    then have "b = (takeWhile (\<lambda>c. c \<noteq> LF) b @ [LF]) @ r"
      using takeWhile_dropWhile_id [of "\<lambda>c. c \<noteq> LF" b] by simp
    then show ?thesis using True unfolding chunk_of_def by metis
  qed (simp add: chunk_of_def)
  then obtain r where "b = chunk_of b @ r" by blast
  then have "drop (length (chunk_of b)) b = r" by (metis append_eq_conv_conj)
  with \<open>b = chunk_of b @ r\<close> show ?thesis by (simp add: after_chunk_def)
qed

lemma chunk_whole: "LF \<notin> set b \<Longrightarrow> chunk_of b = b"
  by (simp add: chunk_of_def)

lemma chunk_nonempty: "b \<noteq> [] \<Longrightarrow> chunk_of b \<noteq> []"
  by (simp add: chunk_of_def)

text \<open>A line is a piece of the input, and what is read is not read again.\<close>

lemma read_line_piece:
  "read_line_capped io n line bufs = (bufs', line', r) \<Longrightarrow> \<exists>x. line' = line @ x \<and> concat bufs = x @ concat bufs'"
proof (induction io n line bufs rule: read_line_capped.induct)
  case (2 io n line b bs)
  from 2(3) consider "b = []" "read_line_capped io n line bs = (bufs', line', r)"
    | "bufs' = b # bs" "line' = line"
    | "bufs' = after_chunk b # bs" "line' = line @ chunk_of b"
    | "b \<noteq> []" "n + length (chunk_of b) \<le> MAX_LINE_BYTES" "is_utf8 (chunk_of b)" "LF \<notin> set b"
      "read_line_capped io (n + length (chunk_of b)) (line @ chunk_of b) bs = (bufs', line', r)"
    by (auto split: if_splits)
  then show ?case
  proof cases
    case 1
    then show ?thesis using 2(1) by simp
  next
    case 3
    then show ?thesis using chunk_split [of b] by (metis append.assoc concat.simps(2))
  next
    case 4
    then show ?thesis using 2(2) chunk_whole [of b] by fastforce
  qed simp
qed simp

section \<open>The token\<close>

text \<open>
  A step without the handshake leaves the engine alone and the token comes only from the input.
\<close>

lemma send_line_parts [simp]:
  "uc_engine (fst (send_line ue r c)) = uc_engine c" "uc_auth (fst (send_line ue r c)) = uc_auth c"
  "uc_input (fst (send_line ue r c)) = uc_input c"
  by (simp_all add: send_line_def)

lemma answer_line_input [simp]: "uc_input (fst (answer_line ue x c)) = uc_input c"
  by (simp add: answer_line_def split: option.split prod.split)

lemma conn_step_piece: "\<exists>x. concat (uc_input c) = x @ concat (uc_input (fst (conn_step ue c)))"
proof -
  obtain bufs line r where g: "read_line_capped (ue_io_end ue) 0 [] (uc_input c) = (bufs, line, r)"
    by (metis prod.exhaust)
  then have "uc_input (fst (conn_step ue c)) = bufs"
    by (simp add: conn_step_def Let_def split: sum.split line_error.split)
  then show ?thesis using read_line_piece [OF g] by auto
qed

lemma trim_piece: "\<exists>u v. s = u @ trim s @ v"
proof -
  have "\<exists>v. t = rev (dropWhile is_space (rev t)) @ v" for t
    by (metis rev_append rev_rev_ident takeWhile_dropWhile_id)
  then obtain v where "dropWhile is_space s = trim s @ v" unfolding trim_def trim_with_def by blast
  moreover have "s = takeWhile is_space s @ dropWhile is_space s" by simp
  ultimately show ?thesis by metis
qed

lemma conn_step_auth:
  assumes tok: "ue_token ue \<noteq> []" and "\<not> uc_auth c"
  shows "uc_engine (fst (conn_step ue c)) = uc_engine c
    \<and> (uc_auth (fst (conn_step ue c)) \<longrightarrow> (\<exists>u v. concat (uc_input c) = u @ ''AUTH '' @ ue_token ue @ v))"
proof -
  obtain bufs line r where g: "read_line_capped (ue_io_end ue) 0 [] (uc_input c) = (bufs, line, r)"
    by (metis prod.exhaust)
  from read_line_piece [OF g] obtain u v where p: "concat (uc_input c) = u @ trim line @ v"
    using trim_piece [of line] by (metis append.assoc append_Nil)
  show ?thesis
  proof (cases "strip_prefix ''AUTH '' (trim line) = Some (ue_token ue)")
    case True
    then have "trim line = ''AUTH '' @ ue_token ue" by (simp add: strip_prefix_Some)
    then show ?thesis using p g assms
      by (auto simp: conn_step_def answer_line_def Let_def split: sum.split line_error.split)
  next
    case False
    then show ?thesis using g assms
      by (auto simp: conn_step_def answer_line_def Let_def split: sum.split line_error.split)
  qed
qed

lemma handle_conn_auth:
  assumes tok: "ue_token ue \<noteq> []"
  shows "\<lbrakk> handle_conn ue n c = Some c'; \<not> uc_auth c; uc_engine c' \<noteq> uc_engine c \<rbrakk>
    \<Longrightarrow> \<exists>u v. concat (uc_input c) = u @ ''AUTH '' @ ue_token ue @ v"
proof (induction n arbitrary: c)
  case (Suc n)
  obtain c1 go where s: "conn_step ue c = (c1, go)" by fastforce
  note step = conn_step_auth [OF tok Suc(3), unfolded s fst_conv]
  show ?case
  proof (cases "uc_auth c1")
    case True
    then show ?thesis using step by simp
  next
    case False
    then have go: "go" "handle_conn ue n c1 = Some c'" using Suc(2,4) s step by (cases go; auto)+
    then obtain u v where "concat (uc_input c1) = u @ ''AUTH '' @ ue_token ue @ v"
      using Suc(1) [OF go(2) False] Suc(4) step by auto
    moreover obtain x where "concat (uc_input c) = x @ concat (uc_input c1)"
      using conn_step_piece [of c ue] s by auto
    ultimately show ?thesis by (metis append.assoc)
  qed
qed simp

text \<open>
  C26: When a token is configured, nothing that is sent over the socket reaches the engine unless
  the words \<open>AUTH\<close> and the token occur in it: a connection that changed anything has sent them.\<close>
theorem uds_needs_token:
  assumes "ue_token ue \<noteq> []" and "handle_conn ue n (uds_start ue bufs s) = Some c"
    and "uc_engine c \<noteq> s"
  shows "\<exists>u v. concat bufs = u @ ''AUTH '' @ ue_token ue @ v"
  using handle_conn_auth [OF assms(1,2)] assms(1,3) by (simp add: uds_start_def)

section \<open>Lines and buffers\<close>

lemma chunk_of_append1: "LF \<in> set a \<Longrightarrow> chunk_of (a @ b) = chunk_of a"
  by (simp add: chunk_of_def)

lemma chunk_of_append2: "LF \<notin> set a \<Longrightarrow> chunk_of (a @ b) = a @ chunk_of b"
  by (induction a) (auto simp: chunk_of_def)

lemma after_chunk_append1: "LF \<in> set a \<Longrightarrow> after_chunk (a @ b) = after_chunk a @ b"
  using chunk_split [of a] chunk_split [of "a @ b"] by (metis append.assoc chunk_of_append1 same_append_eq)

lemma after_chunk_append2: "LF \<notin> set a \<Longrightarrow> after_chunk (a @ b) = after_chunk b"
  by (simp add: after_chunk_def chunk_of_append2)

lemma ascii_utf8: "\<forall>c \<in> set s. (of_char c :: nat) < 128 \<Longrightarrow> is_utf8 s"
proof -
  have "\<forall>b \<in> set bs. b < 128 \<Longrightarrow> utf8_bytes bs" for bs by (induction bs) auto
  then show "\<forall>c \<in> set s. (of_char c :: nat) < 128 \<Longrightarrow> is_utf8 s" by (simp add: is_utf8_def)
qed

definition is_ascii :: "string \<Rightarrow> bool" where
  "is_ascii s = (\<forall>c \<in> set s. (of_char c :: nat) < 128)"

lemma set_chunk: "set (chunk_of b) \<subseteq> set b"
  using chunk_split [of b] by (metis set_append sup_ge1)

lemma read_line_ascii:
  "\<lbrakk> \<forall>b \<in> set bufs. is_ascii b; n + length (chunk_of (concat bufs)) \<le> MAX_LINE_BYTES \<rbrakk> \<Longrightarrow>
   \<exists>bufs'. read_line_capped False n line bufs
       = (bufs', line @ chunk_of (concat bufs), Inr (n + length (chunk_of (concat bufs))))
     \<and> concat bufs' = after_chunk (concat bufs)"
proof (induction bufs arbitrary: n line)
  case Nil
  then show ?case by (simp add: chunk_of_def after_chunk_def)
next
  case (Cons b bs)
  have u: "is_utf8 (chunk_of b)" using Cons(2) set_chunk [of b] by (auto simp: is_ascii_def intro!: ascii_utf8)
  consider "b = []" | "b \<noteq> []" "LF \<in> set b" | "b \<noteq> []" "LF \<notin> set b" by blast
  then show ?case
  proof cases
    case 1
    then show ?thesis using Cons by simp
  next
    case 2
    then show ?thesis using Cons(3) u by (simp add: chunk_of_append1 after_chunk_append1)
  next
    case 3
    then show ?thesis
      using Cons(1) [of "n + length b" "line @ b"] Cons(2,3) u
      by (simp add: chunk_of_append2 after_chunk_append2 chunk_whole add.assoc)
  qed
qed

text \<open>
  For ASCII input the buffers do not matter: whatever way the bytes arrive in, a line that is
  not too long is read exactly up to its line feed (or the end), and the rest stays to be read.\<close>
lemma uds_line_is_first_line:
  assumes "\<forall>b \<in> set bufs. is_ascii b" and "length (chunk_of (concat bufs)) \<le> MAX_LINE_BYTES"
  shows "\<exists>bufs'. read_line_capped False 0 [] bufs
      = (bufs', chunk_of (concat bufs), Inr (length (chunk_of (concat bufs))))
    \<and> concat bufs' = after_chunk (concat bufs)"
  using read_line_ascii [of bufs 0 "[]"] assms by simp

text \<open>
  For other input they do: each buffer is decoded by itself. When a buffer ends inside a
  character, the connection is closed without an answer, although the line is good UTF-8.\<close>
lemma split_character_drops_connection:
  assumes "uc_input c = b # bs" and "b \<noteq> []" and "LF \<notin> set b" and "length b \<le> BUF_CAPACITY"
    and "\<not> is_utf8 b"
  shows "conn_step ue c = (c, False)"
proof -
  have "length b \<le> MAX_LINE_BYTES" using assms(4) by (simp add: BUF_CAPACITY_def MAX_LINE_BYTES_def)
  then show ?thesis using assms by (simp add: conn_step_def chunk_whole)
qed

section \<open>Lines that are too long\<close>

lemma read_line_fill:
  "\<lbrakk> \<forall>b \<in> set fs. LF \<notin> set b \<and> is_utf8 b; n + length (concat fs) \<le> MAX_LINE_BYTES \<rbrakk> \<Longrightarrow>
   read_line_capped io n line (fs @ bs) = read_line_capped io (n + length (concat fs)) (line @ concat fs) bs"
proof (induction fs arbitrary: n line)
  case (Cons f fs)
  then show ?case by (cases "f = []") (simp_all add: chunk_whole add.assoc)
qed simp

text \<open>
  A line over the cap is not skipped. Its beginning is answered with one error, but the buffer
  in which the cap is passed stays unread: the rest of the line, from there on, is then read as
  a line of its own and run as a request.\<close>
lemma oversized_tail_is_a_request:
  assumes "uc_input c = fs @ b # bs" and "\<forall>f \<in> set fs. LF \<notin> set f \<and> is_utf8 f"
    and "length (concat fs) \<le> MAX_LINE_BYTES" and "length (concat fs) + length (chunk_of b) > MAX_LINE_BYTES"
    and "LF \<in> set b" and "length b \<le> BUF_CAPACITY" and "is_utf8 (chunk_of b)" and "trim (chunk_of b) \<noteq> []"
  shows "conn_step ue c
      = send_line ue (respond JNull (Inl (err_invalid_params oversized_message))) (c\<lparr> uc_input := b # bs \<rparr>)
    \<and> conn_step ue (c\<lparr> uc_input := b # bs \<rparr>)
      = answer_line ue (trim (chunk_of b)) (c\<lparr> uc_input := after_chunk b # bs \<rparr>)"
proof -
  have ne: "b \<noteq> []" using assms(5) by auto
  have le: "length (chunk_of b) \<le> MAX_LINE_BYTES"
    using assms(6) arg_cong [OF chunk_split [of b], of length] by (simp add: BUF_CAPACITY_def MAX_LINE_BYTES_def)
  have "read_line_capped io 0 [] (fs @ b # bs)
      = (b # bs, concat fs, Inl (Oversized (length (concat fs) + length (chunk_of b))))" for io
    using read_line_fill [of fs 0 io "[]" "b # bs"] assms(2-4) ne by simp
  moreover have "read_line_capped io 0 [] (b # bs) = (after_chunk b # bs, chunk_of b, Inr (length (chunk_of b)))" for io
    using assms(5,7) ne le by simp
  moreover have "length (chunk_of b) \<noteq> 0" using chunk_nonempty [OF ne] by simp
  ultimately show ?thesis using assms(1,8) by (simp add: conn_step_def Let_def del: read_line_capped.simps)
qed

section \<open>The loop ends\<close>

definition small_buffers :: "string list \<Rightarrow> bool" where
  "small_buffers bufs = (\<forall>b \<in> set bufs. length b \<le> BUF_CAPACITY)"

lemma read_line_progress:
  "\<lbrakk> read_line_capped io n line bufs = (bufs', line', r); small_buffers bufs \<rbrakk> \<Longrightarrow>
   small_buffers bufs' \<and> (\<forall>k. r = Inr k \<longrightarrow> k + length (concat bufs') = n + length (concat bufs))
   \<and> (\<forall>k. r = Inl (Oversized k) \<longrightarrow>
        MAX_LINE_BYTES < n + length (concat bufs) - length (concat bufs') + BUF_CAPACITY)"
proof (induction io n line bufs rule: read_line_capped.induct)
  case (2 io n line b bs)
  have len: "length (chunk_of b) + length (after_chunk b) = length b"
    using chunk_split [of b] by (metis length_append)
  from 2(3) consider "b = []" "read_line_capped io n line bs = (bufs', line', r)"
    | "bufs' = b # bs" "r = Inl (Oversized (n + length (chunk_of b)))" "n + length (chunk_of b) > MAX_LINE_BYTES"
    | "bufs' = b # bs" "r = Inl Io"
    | "bufs' = after_chunk b # bs" "r = Inr (n + length (chunk_of b))"
    | "b \<noteq> []" "n + length (chunk_of b) \<le> MAX_LINE_BYTES" "is_utf8 (chunk_of b)" "LF \<notin> set b"
      "read_line_capped io (n + length (chunk_of b)) (line @ chunk_of b) bs = (bufs', line', r)"
    by (auto split: if_splits)
  then show ?case
  proof cases
    case 1
    then show ?thesis using 2(1,4) by (simp add: small_buffers_def)
  next
    case 5
    then show ?thesis using 2(2) [OF 5(1) _ _ 5(4)] 2(4) chunk_whole [of b] by (auto simp: small_buffers_def)
  qed (use 2(4) len in \<open>auto simp: small_buffers_def\<close>)
qed (auto split: if_splits)

lemma conn_step_progress:
  assumes "conn_step ue c = (c', True)" and "small_buffers (uc_input c)"
  shows "small_buffers (uc_input c') \<and> length (concat (uc_input c')) < length (concat (uc_input c))"
proof -
  obtain bufs line r where g: "read_line_capped (ue_io_end ue) 0 [] (uc_input c) = (bufs, line, r)"
    by (metis prod.exhaust)
  have "uc_input (fst (conn_step ue c)) = bufs"
    using g by (simp add: conn_step_def Let_def split: sum.split line_error.split)
  then have i: "uc_input c' = bufs" using assms(1) by simp
  note p = read_line_progress [OF g assms(2)]
  have "length (concat bufs) < length (concat (uc_input c))"
  proof (cases r)
    case (Inr k)
    then have "k \<noteq> 0" using assms(1) g by (auto simp: conn_step_def Let_def split: if_splits)
    then show ?thesis using p Inr by auto
  next
    case (Inl e)
    then obtain k where "e = Oversized k" using assms(1) g by (cases e) (auto simp: conn_step_def Let_def)
    then show ?thesis using p Inl by (auto simp: BUF_CAPACITY_def MAX_LINE_BYTES_def)
  qed
  with i p show ?thesis by simp
qed

lemma handle_conn_ends:
  "\<lbrakk> small_buffers (uc_input c); length (concat (uc_input c)) < n \<rbrakk> \<Longrightarrow> \<exists>c'. handle_conn ue n c = Some c'"
proof (induction n arbitrary: c)
  case (Suc n)
  obtain c1 go where s: "conn_step ue c = (c1, go)" by fastforce
  show ?case
  proof (cases go)
    case True
    then show ?thesis using conn_step_progress [of ue c c1] Suc s by simp
  qed (use s in simp)
qed simp

text \<open>
  C27: A connection is served to its end, whatever is sent and whatever fails: the loop ends after
  at most as many steps as bytes were sent, and one more.\<close>
theorem handle_conn_terminates:
  assumes "\<forall>b \<in> set bufs. length b \<le> BUF_CAPACITY"
  shows "\<exists>c. handle_conn ue (length (concat bufs) + 1) (uds_start ue bufs s) = Some c"
  by (rule handle_conn_ends) (use assms in \<open>simp_all add: uds_start_def small_buffers_def\<close>)

section \<open>Concrete connections\<close>

definition uds_codec :: rpc_codec where
  "uds_codec = plain_codec\<lparr> wc_response := (\<lambda>_. Inr ''r''),
     rc_line := (\<lambda>x. Some (demo_request ''delete'' (JObj [(''id'', JStr ''a''), (''confirm'', JBool True)]))) \<rparr>"

definition uds_demo :: "string \<Rightarrow> uds_env" where
  "uds_demo token =
     \<lparr> ue_codec = uds_codec, ue_order = (\<lambda>x. x), ue_engine = demo_env0, ue_token = token, ue_io_end = False,
       ue_write = (\<lambda>_. True) \<rparr>"

definition uds_idle :: "string list \<Rightarrow> uds_conn" where
  "uds_idle bufs = \<lparr> uc_input = bufs, uc_engine = demo_replica, uc_auth = True, uc_out = [] \<rparr>"

lemma LF_neq: "(of_char c :: nat) \<noteq> 10 \<Longrightarrow> LF \<noteq> c"
  by (auto simp: LF_def)

text \<open>The three bytes of a Chinese character.\<close>

definition ZHONG :: string where
  "ZHONG = map (char_of :: nat \<Rightarrow> char) [0xe4, 0xb8, 0xad]"

lemma split_character_witness:
  "is_utf8 (ZHONG @ [LF]) \<and> take 1 ZHONG @ drop 1 ZHONG = ZHONG
   \<and> conn_step (uds_demo []) (uds_idle [take 1 ZHONG, drop 1 ZHONG @ [LF]])
     = (uds_idle [take 1 ZHONG, drop 1 ZHONG @ [LF]], False)"
proof -
  have "is_utf8 (ZHONG @ [LF])" by (simp add: is_utf8_def ZHONG_def LF_def tail_byte_def)
  moreover have "LF \<notin> set (take 1 ZHONG)" by (simp add: ZHONG_def LF_def)
  moreover have "\<not> is_utf8 (take 1 ZHONG)" "take 1 ZHONG \<noteq> []" "length (take 1 ZHONG) \<le> BUF_CAPACITY"
    by (simp_all add: is_utf8_def ZHONG_def BUF_CAPACITY_def)
  ultimately show ?thesis
    using split_character_drops_connection [of "uds_idle [take 1 ZHONG, drop 1 ZHONG @ [LF]]" "take 1 ZHONG"
        "[drop 1 ZHONG @ [LF]]" "uds_demo []"]
    by (simp add: uds_idle_def)
qed

lemma uds_line_witness:
  "\<exists>bufs'. read_line_capped False 0 [] [''a'', ''b'' @ [LF], ''c''] = (bufs', ''ab'' @ [LF], Inr 3) \<and> concat bufs' = ''c''"
proof -
  have n: "LF \<noteq> CHR ''a''" "LF \<noteq> CHR ''b''" by (simp_all add: LF_neq)
  then have c: "chunk_of (concat [''a'', ''b'' @ [LF], ''c'']) = ''ab'' @ [LF]" by (auto simp: chunk_of_def)
  moreover from c have "after_chunk (concat [''a'', ''b'' @ [LF], ''c'']) = ''c''" by (simp add: after_chunk_def)
  moreover have "is_ascii ''a''" "is_ascii (''b'' @ [LF])" "is_ascii ''c''" by (simp_all add: is_ascii_def LF_def)
  ultimately show ?thesis using uds_line_is_first_line [of "[''a'', ''b'' @ [LF], ''c'']"]
    by (simp add: MAX_LINE_BYTES_def numeral_3_eq_3 del: read_line_capped.simps)
qed

lemma oversized_tail_witness:
  "conn_step (uds_demo []) (uds_idle [''x'' @ [LF]])
     = answer_line (uds_demo []) ''x'' (uds_idle [[]])"
proof -
  define fs where "fs = replicate 1024 (replicate 8192 (CHR ''a''))"
  have lf: "LF \<noteq> CHR ''a''" "LF \<noteq> CHR ''x''" by (simp_all add: LF_neq)
  then have x: "chunk_of (''x'' @ [LF]) = ''x'' @ [LF]" by (simp add: chunk_of_def)
  have len: "length (concat fs) = MAX_LINE_BYTES"
    by (simp only: fs_def length_concat map_replicate length_replicate sum_list_replicate MAX_LINE_BYTES_def) simp
  have fs: "\<forall>f \<in> set fs. LF \<notin> set f \<and> is_utf8 f"
    using lf(1) by (auto simp: fs_def intro!: ascii_utf8)
  have tr: "trim (''x'' @ [LF]) = ''x''" "is_utf8 (''x'' @ [LF])"
    by (simp_all add: trim_def trim_with_def is_space_def LF_def is_utf8_def)
  have "after_chunk (''x'' @ [LF]) = []" using x by (simp add: after_chunk_def)
  then show ?thesis
    using oversized_tail_is_a_request [of "uds_idle (fs @ [''x'' @ [LF]])" fs "''x'' @ [LF]" "[]" "uds_demo []"]
      fs len x tr
    by (simp add: uds_idle_def BUF_CAPACITY_def)
qed

lemma read_one_line:
  assumes "LF \<notin> set x" and "is_utf8 (x @ [LF])" and "length x < MAX_LINE_BYTES"
  shows "read_line_capped io 0 [] ((x @ [LF]) # bs) = ([] # bs, x @ [LF], Inr (length x + 1))"
    and "read_line_capped io 0 [] ([] # (x @ [LF]) # bs) = ([] # bs, x @ [LF], Inr (length x + 1))"
proof -
  have "chunk_of (x @ [LF]) = x @ [LF]" using assms(1) chunk_of_append2 [of x "[LF]"] by (simp add: chunk_of_def)
  moreover from this have "after_chunk (x @ [LF]) = []" by (simp add: after_chunk_def)
  ultimately show "read_line_capped io 0 [] ((x @ [LF]) # bs) = ([] # bs, x @ [LF], Inr (length x + 1))"
    and "read_line_capped io 0 [] ([] # (x @ [LF]) # bs) = ([] # bs, x @ [LF], Inr (length x + 1))"
    using assms by simp_all
qed

lemma uds_needs_token_witness:
  "\<exists>u v. concat [''AUTH k'' @ [LF], ''x'' @ [LF]] = u @ ''AUTH '' @ ''k'' @ v"
proof -
  let ?ue = "uds_demo ''k''"
  have lf: "LF \<notin> set ''AUTH k''" "LF \<notin> set ''x''" by (simp_all add: LF_neq)
  have u: "is_utf8 (''AUTH k'' @ [LF])" "is_utf8 (''x'' @ [LF])"
    "length ''AUTH k'' < MAX_LINE_BYTES" "length ''x'' < MAX_LINE_BYTES"
    by (simp_all add: is_utf8_def LF_def MAX_LINE_BYTES_def)
  note line = lf(1) u(1,3) lf(2) u(2,4)
  have tr: "trim (''AUTH k'' @ [LF]) = ''AUTH k''" "trim (''x'' @ [LF]) = ''x''"
    by (simp_all add: trim_def trim_with_def is_space_def LF_def)
  let ?c1 = "\<lparr> uc_input = [[], ''x'' @ [LF]], uc_engine = demo_replica, uc_auth = True, uc_out = [''r'' @ [LF]] \<rparr>"
  have auth: "strip_prefix ''AUTH '' ''AUTH k'' = Some ''k''" by (simp add: strip_prefix_def starts_with_def)
  have s1: "conn_step ?ue (uds_start ?ue [''AUTH k'' @ [LF], ''x'' @ [LF]] demo_replica) = (?c1, True)"
    using read_one_line(1) [OF line(1-3)] tr(1) auth
    by (simp add: conn_step_def uds_start_def uds_demo_def answer_line_def send_line_def serialize_response_def
        uds_codec_def del: read_line_capped.simps)
  have strip: "strip_version ''delete'' = ''delete''" by (simp add: starts_with_def)
  have "fst (call_method uds_codec (\<lambda>x. x) demo_env0 ''delete'' (JObj [(''id'', JStr ''a''), (''confirm'', JBool True)])
      [] demo_replica) = fst (delete_memory_tenant demo_env0 ''a'' [] demo_replica)"
    by (simp add: call_method_def rpc_delete_def checked_def decoded_def rd_delete_def plain_codec_def uds_codec_def
        required_def defaulted_def answer_def split: prod.split sum.split)
  then have s2: "\<exists>c2. conn_step ?ue ?c1 = (c2, True) \<and> uc_input c2 = [[]]
      \<and> uc_engine c2 = fst (delete_memory_tenant demo_env0 ''a'' [] demo_replica)"
    using read_one_line(2) [OF line(4-6)] tr(2) strip
    by (auto simp: conn_step_def uds_demo_def answer_line_def send_line_def parse_line_def serialize_response_def
        uds_codec_def demo_request_def dispatch_def split: prod.split simp del: read_line_capped.simps)
  then obtain c2 where c2: "conn_step ?ue ?c1 = (c2, True)" "uc_input c2 = [[]]"
    "uc_engine c2 = fst (delete_memory_tenant demo_env0 ''a'' [] demo_replica)" by blast
  then have s3: "conn_step ?ue c2 = (c2\<lparr> uc_input := [] \<rparr>, False)" by (simp add: conn_step_def uds_demo_def)
  have run: "handle_conn ?ue 3 (uds_start ?ue [''AUTH k'' @ [LF], ''x'' @ [LF]] demo_replica) = Some (c2\<lparr> uc_input := [] \<rparr>)"
    by (simp only: numeral_3_eq_3 handle_conn.simps s1 c2(1) s3 prod.case bool.case)
  have "find_item ''a'' (eg_db demo_replica) = Some item_a"
    by (simp add: demo_replica_def db_ab_def item_a_def item_b_def with_namespace_def)
  then have "uc_engine (c2\<lparr> uc_input := [] \<rparr>) \<noteq> demo_replica" using demo_deleted [of "[]"] c2(3) by auto
  from uds_needs_token [OF _ run this] show ?thesis by (simp add: uds_demo_def)
qed

lemma handle_conn_witness:
  "\<exists>c. handle_conn (uds_demo []) (length (concat [''ab'', [LF]]) + 1) (uds_start (uds_demo []) [''ab'', [LF]] demo_replica) = Some c"
  by (rule handle_conn_terminates) (simp add: BUF_CAPACITY_def)

end
