(* ===== verification/History.thy ===== *)
theory History
  imports Http Uds
begin

text \<open>
  What stays true of the engine behind the server, whatever requests arrive over HTTP and over
  the socket and whatever fails: both stores stay well-formed, the logs only grow, a method has
  no effects but its own, and every entry of the write log can be replayed.
\<close>

section \<open>The socket\<close>

lemma dispatch_serverD:
  "dispatch rc ord ev req t s = (s1, resp) \<Longrightarrow> esteps (server_effects ev) s s1"
  using dispatch_server [of ev s rc ord req t] by simp

lemma send_line_engine [simp]: "uc_engine (fst (send_line ue resp c)) = uc_engine c"
  by (simp add: send_line_def)

lemma answer_line_steps:
  "uc_engine c = s \<Longrightarrow>
     esteps (server_effects (ue_engine ue)) s (uc_engine (fst (answer_line ue x c)))"
  by (auto simp: answer_line_def esteps_refl split: option.split prod.split dest: dispatch_serverD)

lemma conn_steps:
  "esteps (server_effects (ue_engine ue)) (uc_engine c) (uc_engine (fst (conn_step ue c)))"
  by (auto simp: conn_step_def Let_def esteps_refl answer_line_steps split: prod.split sum.split line_error.split)

lemma handle_conn_steps:
  "handle_conn ue n c = Some c' \<Longrightarrow>
     esteps (server_effects (ue_engine ue)) (uc_engine c) (uc_engine c')"
proof (induction n arbitrary: c)
  case (Suc n)
  obtain c1 go where s: "conn_step ue c = (c1, go)" by fastforce
  have one: "esteps (server_effects (ue_engine ue)) (uc_engine c) (uc_engine c1)"
    using conn_steps [of ue c] s by simp
  show ?case
  proof (cases go)
    case True
    with Suc s have "esteps (server_effects (ue_engine ue)) (uc_engine c1) (uc_engine c')" by simp
    with one show ?thesis by (rule esteps_trans)
  next
    case False
    with Suc s one show ?thesis by simp
  qed
qed simp

section \<open>The state of the server\<close>

text \<open>
  C11: The stores behind the server keep their type, whatever HTTP requests it has answered
  and whatever lines a connection to its socket has sent, malformed ones included, under
  every pattern of failures of the database, the vector store, the embedder and the extractor:
  the ids of memories and entities are unique, links point to existing rows, the sequences of
  the logs are strictly ascending, and the vector store maps ids to vectors of its dimension,
  which is the same as at the start.\<close>

theorem served_state_wf:
  assumes "engine_wf (hs_engine st)" and "s = hs_engine (serve_all se hc ws st)"
    and "handle_conn ue n (uds_start ue bufs s) = Some c"
  shows "engine_wf s \<and> engine_wf (uc_engine c) \<and> ls_dim (eg_store (uc_engine c)) = ls_dim (eg_store (hs_engine st))"
proof -
  have "stays_wf (hs_engine st) s"
    unfolding assms(2) by (rule ewf.law_steps [OF esteps_mono [OF serve_all_steps]]) simp
  moreover have "stays_wf s (uc_engine c)"
    using ewf.law_steps [OF esteps_mono [OF handle_conn_steps [OF assms(3)]]] by (simp add: uds_start_def)
  ultimately show ?thesis using assms(1) by (simp add: stays_wf_def)
qed

text \<open>
  C19: The histories of the server cannot be rewritten through it: after any HTTP requests,
  and after any step of a connection to the socket, the audit log, the log of replication, the
  log of consolidation runs and the log of reconciliations begin with what they held before,
  whatever fails.\<close>

theorem served_history_grows:
  "history_grows (hs_engine st) (hs_engine (serve_all se hc ws st))
   \<and> history_grows (uc_engine c) (uc_engine (fst (conn_step ue c)))"
  using ehist.law_steps [OF esteps_mono [OF serve_all_steps server_never_prunes]]
    ehist.law_steps [OF esteps_mono [OF conn_steps server_never_prunes]] by simp

text \<open>
  C18: A request has only the effects of its method. Every change that a request makes to the
  two stores, whatever its parameters and its tenant and whatever fails on the way, is one of
  the statements in the footprint of its method: a retrieval only counts accesses and writes the
  audit log, a deletion only hides memories, drops vectors and logs itself, and a method that
  is not one of the eight that write leaves every table and every vector as they are.\<close>

theorem request_has_its_footprint:
  "esteps (footprint ev (strip_version (rq_method req))) s (fst (dispatch rc ord ev req ten s))
   \<and> (strip_version (rq_method req) \<notin> {''commit'', ''retrieve'', ''memory.retrieve_context'', ''consolidate'',
         ''delete'', ''delete_scope'', ''unmerge'', ''reconcile''}
      \<longrightarrow> same_data s (fst (dispatch rc ord ev req ten s)))"
proof (intro conjI impI)
  show f: "esteps (footprint ev (strip_version (rq_method req))) s (fst (dispatch rc ord ev req ten s))"
    by (rule dispatch_steps)
  assume "strip_version (rq_method req) \<notin> {''commit'', ''retrieve'', ''memory.retrieve_context'', ''consolidate'',
      ''delete'', ''delete_scope'', ''unmerge'', ''reconcile''}"
  then have "footprint ev (strip_version (rq_method req)) = {}" by (simp add: footprint_def)
  with f show "same_data s (fst (dispatch rc ord ev req ten s))" by (simp add: esame.law_steps)
qed

section \<open>The log can be replayed\<close>

text \<open>
  What the payloads of log entries rely on: an encoded item with its vector can be decoded
  and keeps its vector id, and every item alone can be encoded and decoded.\<close>

definition decodes :: "payload_codec \<Rightarrow> bool" where
  "decodes c =
     ((\<forall>m v p. pc_enc c (m, v) = Inr p \<longrightarrow> (\<exists>m' v'. pc_env c p = Inr (m', v') \<and> mi_vector_ref m' = mi_vector_ref m))
      \<and> (\<forall>m. \<exists>p m'. pc_item_enc c m = Inr p \<and> pc_item c p = Inr m'))"

text \<open>An error of the stores and the embedder of the follower itself.\<close>

definition own_error :: "cluster_error \<Rightarrow> bool" where
  "own_error e = ((\<exists>x. e = KPersist x) \<or> (\<exists>x. e = KMemory x))"

lemma own_errors [simp]: "own_error (KPersist x)" "own_error (KMemory y)"
  by (simp_all add: own_error_def)

lemma then_do_err:
  assumes "then_do f g s = (s', Inl e)" and "\<And>s s' e. f s = (s', Inl e) \<Longrightarrow> own_error e"
    and "\<And>a s s' e. g a s = (s', Inl e) \<Longrightarrow> own_error e"
  shows "own_error e"
  using assms by (auto simp: then_do_def split: prod.splits sum.splits)

lemma sink_errors:
  "sk_embed (engine_sink ev) x s = (s', Inl e) \<Longrightarrow> own_error e"
  "sk_put_item (engine_sink ev) m s = (s', Inl e) \<Longrightarrow> own_error e"
  "sk_insert_vector (engine_sink ev) i v s = (s', Inl e) \<Longrightarrow> own_error e"
  "sk_tombstone (engine_sink ev) j s = (s', Inl e) \<Longrightarrow> own_error e"
  "sk_record_merge (engine_sink ev) a b r n s = (s', Inl e) \<Longrightarrow> own_error e"
  "sk_promote_tier (engine_sink ev) j ''Long'' s = (s', Inl e) \<Longrightarrow> own_error e"
  by (auto simp: engine_sink_def engine_promote_tier_def promoted_tier_def map_err_Inl
      split: prod.splits sum.splits option.splits)

lemma last_tab: "split_on (char_of (9 :: nat)) (i @ tab @ x) = [a, b] \<Longrightarrow> split_on (char_of (9 :: nat)) x = [b]"
proof (induction i arbitrary: a)
  case Nil
  then show ?case by (simp add: tab_def)
next
  case (Cons ch i)
  show ?case
  proof (cases "ch = char_of (9 :: nat)")
    case True
    then have "split_on (char_of (9 :: nat)) (i @ tab @ x) = [b]" using Cons.prems by simp
    moreover have "length (split_on d (j @ d # y)) \<ge> 2" for d :: char and j y
      by (induction j) (auto split: list.split simp: Suc_le_eq neq_Nil_conv)
    ultimately show ?thesis by (metis One_nat_def append_Cons append_Nil length_Cons list.size(3) not_less_eq_eq numeral_2_eq_2 order_refl tab_def)
  next
    case False
    obtain q qs where q: "split_on (char_of (9 :: nat)) (i @ tab @ x) = q # qs"
      by (cases "split_on (char_of (9 :: nat)) (i @ tab @ x)") auto
    then have "split_on (char_of (9 :: nat)) (i @ tab @ x) = [q, b]" using Cons.prems False by simp
    then show ?thesis by (rule Cons.IH)
  qed
qed

lemma replay_loggable:
  assumes c: "decodes c" and l: "loggable c (we_op w) (we_payload w)"
    and run: "replay_one c (engine_sink ev) w s = (s', Inl e)"
  shows "own_error e"
  using l
proof cases
  case (lg_commit m v i)
  then obtain m' v' where d: "pc_env c (we_payload w) = Inr (m', v')" "mi_vector_ref m' = show_nat (unat i)"
    using c unfolding decodes_def by metis
  have "parse_u64 (show_nat (unat i)) = Some (unat i)"
    using unsigned_less [of i] by (intro parse_u64_show) simp
  then show ?thesis
    using run lg_commit(1) d
    by (auto simp: replay_one_def replay_commit_def decode_commit_payload_def return_ok_def split: option.splits
        elim!: then_do_err dest: sink_errors)
next
  case (lg_promote i)
  have "split_on (char_of (9 :: nat)) ''Long'' = [''Long'']" by (rule split_on_plain) (simp add: tab_char)
  then have "[j, t] = split_on (char_of (9 :: nat)) (i @ tab @ ''Long'') \<Longrightarrow> t = ''Long''" for j t
    using last_tab [of i "''Long''" j t] by simp
  then show ?thesis
    using run lg_promote
    by (auto simp: replay_one_def return_ok_def split: list.splits elim!: then_do_err dest: sink_errors)
next
  case (lg_extract m)
  then obtain p m' where "pc_item_enc c m = Inr p" "pc_item c p = Inr m'"
    using c unfolding decodes_def by blast
  then show ?thesis
    using run lg_extract
    by (auto simp: replay_one_def return_ok_def elim!: then_do_err dest: sink_errors)
qed (use run in \<open>auto simp: replay_one_def return_ok_def split: list.splits elim!: then_do_err dest: sink_errors\<close>)

lemma served_log_loggable:
  assumes "db_wop (eg_db (hs_engine st)) = []" and "w \<in> set (db_wop (eg_db (hs_engine (serve_all se hc ws st))))"
  shows "loggable (ev_codec (se_engine se)) (we_op w) (we_payload w)"
  using elog.law_steps [OF serve_all_steps [of se st hc ws]] assms by (auto simp: logs_well_def)


section \<open>Witnesses\<close>

lemma demo_start_wf: "engine_wf (hs_engine demo_start)"
  by (simp add: demo_start_parts demo_replica_def db_ab_def put_item_wf engine_wf_def empty_store_wf)

lemma served_state_witness:
  "\<exists>c. handle_conn (uds_demo ''k'') 100 (uds_start (uds_demo ''k'') [''AUTH k'' @ [LF], ''x'' @ [LF]]
        (hs_engine (serve_all demo_server demo_conf [demo_delete] demo_start))) = Some c
     \<and> engine_wf (uc_engine c) \<and> ls_dim (eg_store (uc_engine c)) = ls_dim (eg_store demo_replica)"
proof -
  let ?s = "hs_engine (serve_all demo_server demo_conf [demo_delete] demo_start)"
  let ?c = "uds_start (uds_demo ''k'') [''AUTH k'' @ [LF], ''x'' @ [LF]] ?s"
  have "small_buffers (uc_input ?c)" "length (concat (uc_input ?c)) < 100"
    by (simp_all add: uds_start_def small_buffers_def BUF_CAPACITY_def)
  then obtain c where c: "handle_conn (uds_demo ''k'') 100 ?c = Some c" using handle_conn_ends by blast
  from served_state_wf [OF demo_start_wf refl c] c show ?thesis by (auto simp: demo_start_parts)
qed

lemma footprint_witness:
  "same_data demo_replica (fst (dispatch plain_codec (\<lambda>x. x) demo_env0 (demo_request ''v1.audit_log'' JNull) ''t1'' demo_replica))"
  using request_has_its_footprint [of demo_env0 "demo_request ''v1.audit_log'' JNull" demo_replica plain_codec "\<lambda>x. x" "''t1''"]
  by (simp add: demo_request_def)

definition ref_codec :: payload_codec where
  "ref_codec =
     \<lparr> pc_enc = (\<lambda>(m, v). Inr (mi_vector_ref m)), pc_env = (\<lambda>p. Inr (item_a\<lparr> mi_vector_ref := p \<rparr>, None)),
       pc_item = (\<lambda>p. Inr item_a), pc_item_enc = (\<lambda>m. Inr []), pc_int_error = (\<lambda>_. ''no'') \<rparr>"

lemma demo_delete_log:
  "\<exists>w \<in> set (db_wop (eg_db (fst (delete_memory_tenant demo_env0 ''a'' ''t1'' demo_replica)))).
     we_op w = ''delete'' \<and> we_payload w = ''a''"
proof -
  have nf: "db_faults (eg_db demo_replica) = []" "db_faults (db_ab\<lparr> db_wop := x, db_wop_seq := y \<rparr>) = []" for x y
    by (simp_all add: demo_replica_def db_ab_def put_item_def empty_db_def)
  have ref: "parse_u64 [] = None" by (simp add: parse_u64_def parse_unsigned_def)
  show ?thesis
    by (simp add: delete_memory_tenant_def delete_memory_def then_do_def engine_get_memory_def on_db_def raw_db_def get_memory_def
        tombstone_memory_def nf demo_replica_def db_ab_def find_item_def drop_vector_def ref
        put_item_def replace_item_def item_a_def item_b_def with_namespace_def new_turn_skeleton_def append_audit_def
        now_ms_def call_def append_wop_def db_op_def update_items_def empty_db_def add_wop_def Let_def)
qed


end
