(* ===== verification/Replication.thy ===== *)
theory Replication
  imports History
begin

text \<open>
  Replication from end to end: the memories a follower shows after it has replayed the log of a
  leader are the memories the leader shows. Access counters and extracted entities are not
  replicated, nor are tombstones that the leader has purged, so both sides are compared by the
  live memories without them.
\<close>

section \<open>The live memories\<close>

definition bare :: "memory_item \<Rightarrow> memory_item" where
  "bare m = m\<lparr> mi_entities := [], mi_access_count := 0, mi_last_accessed := 0, mi_entities_pending := False \<rparr>"

definition shown :: "memory_item option \<Rightarrow> memory_item option" where
  "shown x = (case x of None \<Rightarrow> None | Some m \<Rightarrow> if mi_tombstone m then None else Some (bare m))"

definition live :: "engine \<Rightarrow> item_map" where
  "live s = (\<lambda>i. shown (items_of s i))"

fun live_action :: "action \<Rightarrow> item_map \<Rightarrow> item_map" where
  "live_action (APut m) f = f(mi_id m := shown (Some m))"
| "live_action (AHide i) f = f(i := None)"
| "live_action (ATier i t) f = f(i := map_option (mi_tier_update (\<lambda>_. t)) (f i))"
| "live_action ANone f = f"

definition live_effects :: "payload_codec \<Rightarrow> wop_entry list \<Rightarrow> item_map \<Rightarrow> item_map" where
  "live_effects c ws f = fold (\<lambda>w. live_action (action_of c w)) ws f"

lemma shown_simps [simp]:
  "shown None = None" "shown (Some m) = (if mi_tombstone m then None else Some (bare m))"
  "shown (map_option (mi_tombstone_update (\<lambda>_. True)) x) = None"
  "shown (map_option (mi_tier_update (\<lambda>_. t)) x) = map_option (mi_tier_update (\<lambda>_. t)) (shown x)"
  by (auto simp: shown_def bare_def split: option.split)

lemma bare_simps [simp]:
  "bare (m\<lparr> mi_entities := es, mi_entities_pending := b \<rparr>) = bare m"
  "bare (touch_item n m) = bare m"
  by (simp_all add: bare_def touch_item_def)

lemma live_effects_simps [simp]:
  "live_effects c [] f = f" "live_effects c (w # ws) f = live_effects c ws (live_action (action_of c w) f)"
  "live_effects c (ws @ vs) f = live_effects c vs (live_effects c ws f)"
  by (simp_all add: live_effects_def)

text \<open>The view follows the effects of the log.\<close>

lemma live_apply: "(\<lambda>i. shown (apply_action a f i)) = live_action a (\<lambda>i. shown (f i))"
  by (cases a) (auto simp: fun_eq_iff simp del: shown_simps(2))

lemma live_of_effects: "(\<lambda>i. shown (effects c ws f i)) = live_effects c ws (\<lambda>i. shown (f i))"
  by (induction ws arbitrary: f) (simp_all add: live_apply)

section \<open>What a call owes to the log\<close>

text \<open>
  A peaceful engine has a well-formed database without failures. The ids of its memories have no
  tabs, the separator of log payloads, and their weights are those of new memories.\<close>

definition tabless :: "string \<Rightarrow> bool" where
  "tabless i = (char_of (9 :: nat) \<notin> set i)"

definition storable :: "memory_item \<Rightarrow> bool" where
  "storable m = (tabless (mi_id m) \<and> mi_weight m = initial_weight (mi_type m))"

definition peaceful :: "engine \<Rightarrow> bool" where
  "peaceful s = (db_faults (eg_db s) = [] \<and> db_wf (eg_db s) \<and> (\<forall>m \<in> set (db_items (eg_db s)). storable m))"

lemma storable_simps [simp]:
  "storable (m\<lparr> mi_entities := es, mi_entities_pending := b \<rparr>) = storable m"
  "storable (touch_item n m) = storable m" "storable (m\<lparr> mi_tombstone := b \<rparr>) = storable m"
  "storable (m\<lparr> mi_tier := x \<rparr>) = storable m"
  by (simp_all add: storable_def touch_item_def)

lemma storable_put: "(\<forall>x \<in> set (db_items (put_item m d)). storable x) \<longleftrightarrow>
    storable m \<and> (\<forall>x \<in> set (db_items d). mi_id x \<noteq> mi_id m \<longrightarrow> storable x)"
  by (auto simp: put_item_def set_replace_item)

lemma storable_found: "\<lbrakk> peaceful s; find_item i (eg_db s) = Some m \<rbrakk> \<Longrightarrow> storable m \<and> mi_id m = i"
  by (auto simp: peaceful_def find_item_def find_Some_iff)

text \<open>
  After a call the live memories are those that its new log entries give, and one more
  action that is not logged yet. A call that owes nothing is mirrored by the log.\<close>

definition owes :: "payload_codec \<Rightarrow> action \<Rightarrow> engine \<Rightarrow> engine \<Rightarrow> bool" where
  "owes c a s t =
     (peaceful s \<longrightarrow> peaceful t
       \<and> (\<exists>ws. db_wop (eg_db t) = db_wop (eg_db s) @ ws \<and> live t = live_action a (live_effects c ws (live s))))"

abbreviation mirrored :: "payload_codec \<Rightarrow> engine \<Rightarrow> engine \<Rightarrow> bool" where
  "mirrored c \<equiv> owes c ANone"

lemma mirrored_refl: "mirrored c s s"
  unfolding owes_def by (intro impI conjI exI [of _ "[]"]) simp_all

lemma mirrored_owes:
  assumes "mirrored c s t" and "owes c a t u"
  shows "owes c a s u"
  unfolding owes_def
proof
  assume "peaceful s"
  with assms obtain ws vs where "peaceful u"
    "db_wop (eg_db t) = db_wop (eg_db s) @ ws" "live t = live_effects c ws (live s)"
    "db_wop (eg_db u) = db_wop (eg_db t) @ vs" "live u = live_action a (live_effects c vs (live t))"
    unfolding owes_def by auto
  then show "peaceful u \<and> (\<exists>ws. db_wop (eg_db u) = db_wop (eg_db s) @ ws \<and> live u = live_action a (live_effects c ws (live s)))"
    by (intro conjI exI [of _ "ws @ vs"]) simp_all
qed

interpretation mir: call_path "mirrored c" for c
  by unfold_locales (rule mirrored_refl, rule mirrored_owes)

named_theorems mirror_intros \<open>rules for calls that are mirrored by the log\<close>

declare mir.rules [mirror_intros]

section \<open>Effects that are mirrored\<close>

text \<open>
  The statements that write no memory, the counters of accesses, the entities attached to a
  memory, the vectors, and a commit whose log entry decodes to the stored memory.\<close>

fun bookkeeping :: "db_cmd \<Rightarrow> bool" where
  "bookkeeping (CAudit n a b x d) = True"
| "bookkeeping (CReconcile n i a e) = True"
| "bookkeeping (CRecordMerge a b r n) = True"
| "bookkeeping (CRecordConsolidation rep n) = True"
| "bookkeeping _ = False"

inductive_set mirrored_effects :: "payload_codec \<Rightarrow> effect set" for c where
  me_book: "bookkeeping k \<Longrightarrow> XDb k \<in> mirrored_effects c"
| me_touch: "XDb (CTouch is n) \<in> mirrored_effects c"
| me_attach: "XAttach i es p \<in> mirrored_effects c"
| me_insert: "XInsert v x \<in> mirrored_effects c"
| me_delete: "XDelete v \<in> mirrored_effects c"
| me_commit: "\<lbrakk> pc_env c p = Inr (m', x); mi_id m' = mi_id m; shown (Some m') = shown (Some m); storable m \<rbrakk>
    \<Longrightarrow> XDb (CPutWop m ''commit'' p n) \<in> mirrored_effects c"

lemma failures_calm:
  "db_faults d = [] \<Longrightarrow> db_faults (fst (insert_failures n fs d)) = []
     \<and> db_items (fst (insert_failures n fs d)) = db_items d \<and> db_wop (fst (insert_failures n fs d)) = db_wop d"
  by (induction fs arbitrary: d) simp_all

lemma book_calm:
  assumes "bookkeeping k" and "db_faults d = []"
  shows "db_faults (db_exec k d) = [] \<and> db_items (db_exec k d) = db_items d \<and> db_wop (db_exec k d) = db_wop d"
  using assms failures_calm [of "d\<lparr> db_consolidations := x \<rparr>" for x]
  by (cases k) (simp_all add: append_audit_def append_reconcile_def record_merge_def record_consolidation_def Let_def)

lemma owes_items:
  assumes "peaceful s \<Longrightarrow> db_faults (eg_db t) = [] \<and> db_wf (eg_db t) \<and> (\<forall>m \<in> set (db_items (eg_db t)). storable m)"
    and "peaceful s \<Longrightarrow> db_wop (eg_db t) = db_wop (eg_db s) \<and> live t = live_action a (live s)"
  shows "owes c a s t"
  unfolding owes_def
proof
  assume "peaceful s"
  with assms show "peaceful t \<and> (\<exists>ws. db_wop (eg_db t) = db_wop (eg_db s) @ ws \<and> live t = live_action a (live_effects c ws (live s)))"
    by (intro conjI exI [of _ "[]"]) (auto simp: peaceful_def)
qed

lemma mirrored_same:
  assumes "peaceful s \<Longrightarrow> db_faults (eg_db t) = [] \<and> db_wf (eg_db t)"
    and "peaceful s \<Longrightarrow> db_items (eg_db t) = db_items (eg_db s) \<and> db_wop (eg_db t) = db_wop (eg_db s)"
  shows "mirrored c s t"
proof (rule owes_items)
  assume s: "peaceful s"
  then show "db_faults (eg_db t) = [] \<and> db_wf (eg_db t) \<and> (\<forall>m \<in> set (db_items (eg_db t)). storable m)"
    using assms by (simp add: peaceful_def)
  show "db_wop (eg_db t) = db_wop (eg_db s) \<and> live t = live_action ANone (live s)"
    using assms(2) [OF s] by (simp add: live_def items_of_def find_item_def)
qed

lemma mirrored_book: "bookkeeping k \<Longrightarrow> mirrored c s (do_effect (XDb k) s)"
  using book_calm [of k "eg_db s"]
  by (intro mirrored_same) (auto simp: peaceful_def items_of_def find_item_def db_exec_wf simp del: db_exec.simps)

lemma mirrored_touch: "mirrored c s (do_effect (XDb (CTouch is n)) s)"
proof (rule owes_items)
  assume s: "peaceful s"
  then have nf: "db_faults (eg_db s) = []" by (simp add: peaceful_def)
  have e: "db_exec (CTouch is n) (eg_db s)
      = update_items (\<lambda>m. mi_id m \<in> set is \<and> \<not> mi_tombstone m) (touch_item n) (eg_db s)"
  proof -
    have set_is: "set (dedup_seen [] is) = set is" by (simp add: set_dedup_seen)
    then have "dedup_seen [] is = [] \<longleftrightarrow> is = []" by (metis set_empty)
    then show ?thesis using nf set_is by (cases "is = []") (simp_all add: touch_access_batch_def Let_def update_items_def)
  qed
  have f: "find_item j (update_items (\<lambda>m. mi_id m \<in> set is \<and> \<not> mi_tombstone m) (touch_item n) d)
      = map_option (\<lambda>m. if mi_id m \<in> set is \<and> \<not> mi_tombstone m then touch_item n m else m) (find_item j d)" for j d
    by (rule find_item_update) simp
  show "db_faults (eg_db (do_effect (XDb (CTouch is n)) s)) = [] \<and> db_wf (eg_db (do_effect (XDb (CTouch is n)) s))
      \<and> (\<forall>m \<in> set (db_items (eg_db (do_effect (XDb (CTouch is n)) s))). storable m)"
    using s db_exec_wf [of "eg_db s" "CTouch is n"]
    by (simp add: peaceful_def e del: db_exec.simps) (auto simp: update_items_def)
  show "db_wop (eg_db (do_effect (XDb (CTouch is n)) s)) = db_wop (eg_db s)
      \<and> live (do_effect (XDb (CTouch is n)) s) = live_action ANone (live s)"
    by (simp add: e live_def items_of_def fun_eq_iff f del: db_exec.simps)
       (auto simp: update_items_def shown_def split: option.split)
qed

lemma mirrored_attach: "mirrored c s (do_effect (XAttach i es p) s)"
proof (cases "find_item i (eg_db s)")
  case (Some m)
  let ?m = "m\<lparr> mi_entities := es, mi_entities_pending := p \<rparr>"
  have id: "mi_id m = i" using Some by (rule find_item_id)
  show ?thesis
  proof (rule owes_items)
    assume s: "peaceful s"
    then have e: "db_exec (CPut ?m) (eg_db s) = put_item ?m (eg_db s)"
      by (simp add: peaceful_def put_memory_def)
    have t: "do_effect (XAttach i es p) s = s\<lparr> eg_db := put_item ?m (eg_db s) \<rparr>"
      using Some e by simp
    show "db_faults (eg_db (do_effect (XAttach i es p) s)) = [] \<and> db_wf (eg_db (do_effect (XAttach i es p) s))
        \<and> (\<forall>x \<in> set (db_items (eg_db (do_effect (XAttach i es p) s))). storable x)"
      unfolding t using s storable_found [OF s Some]
      by (auto simp: peaceful_def put_item_wf storable_put) (simp add: put_item_def)
    show "db_wop (eg_db (do_effect (XAttach i es p) s)) = db_wop (eg_db s)
        \<and> live (do_effect (XAttach i es p) s) = live_action ANone (live s)"
      unfolding t using Some id by (auto simp: live_def items_of_def fun_eq_iff)
  qed
qed (simp add: mirrored_refl)

lemma mirrored_commit:
  assumes p: "pc_env c p = Inr (m', x)" "mi_id m' = mi_id m" "shown (Some m') = shown (Some m)" "storable m"
  shows "mirrored c s (do_effect (XDb (CPutWop m ''commit'' p n)) s)"
  unfolding owes_def
proof
  assume s: "peaceful s"
  define w where "w = \<lparr> we_seq = db_wop_seq (eg_db s) + 1, we_op = ''commit'', we_payload = p, we_at = u64_as_i64 n \<rparr>"
  let ?t = "do_effect (XDb (CPutWop m ''commit'' p n)) s"
  have e: "db_exec (CPutWop m ''commit'' p n) (eg_db s)
      = (put_item m (eg_db s))\<lparr> db_wop := db_wop (eg_db s) @ [w], db_wop_seq := db_wop_seq (eg_db s) + 1 \<rparr>"
    using s by (simp add: peaceful_def put_memory_with_wop_def add_wop_def Let_def w_def put_item_def)
  have i: "items_of ?t = (items_of s)(mi_id m \<mapsto> m)"
    by (simp add: e items_of_def fun_eq_iff del: db_exec.simps)
  have "action_of c w = APut m'" using p(1) by (simp add: action_of_def w_def decode_commit_payload_def)
  then have "live ?t = live_effects c [w] (live s)"
    using p(2,3) by (simp add: live_def i fun_eq_iff del: do_effect.simps shown_simps(2))
  moreover have "db_wop (eg_db ?t) = db_wop (eg_db s) @ [w]" by (simp add: e del: db_exec.simps)
  moreover have "db_wf (eg_db ?t)" using s db_exec_wf by (simp add: peaceful_def del: db_exec.simps)
  moreover have "db_faults (eg_db ?t) = []" using s by (simp add: e peaceful_def put_item_def del: db_exec.simps)
  moreover have "\<forall>x \<in> set (db_items (eg_db ?t)). storable x"
    using s p(4) storable_put [of m "eg_db s"] by (simp add: e peaceful_def del: db_exec.simps)
  ultimately show "peaceful ?t
      \<and> (\<exists>ws. db_wop (eg_db ?t) = db_wop (eg_db s) @ ws \<and> live ?t = live_action ANone (live_effects c ws (live s)))"
    by (intro conjI exI [of _ "[w]"]) (simp_all add: peaceful_def del: do_effect.simps)
qed

lemma mirrored_store: "eg_db t = eg_db s \<Longrightarrow> mirrored c s t"
  by (rule mirrored_same) (simp_all add: peaceful_def items_of_def)

interpretation emir: engine_law "mirrored c" "mirrored_effects c" for c
proof unfold_locales
  fix x s
  assume "x \<in> mirrored_effects c"
  then show "mirrored c s (do_effect x s)"
    by cases (auto simp del: do_effect.simps simp: mirrored_book mirrored_touch mirrored_attach mirrored_commit,
      auto intro: mirrored_store)
next
  fix s :: engine
  show "mirrored c s (read_db s)"
    by (rule mirrored_same) (auto simp: peaceful_def read_db_def items_of_def)
  show "mirrored c s (read_store s)" "mirrored c s (tick s)"
    by (auto simp: read_store_def tick_def intro: mirrored_store)
qed

section \<open>Changes that are logged after they are made\<close>

lemma tombstone_owes:
  assumes "raw_db (tombstone_memory i) s = (t, r)"
  shows "owes c (AHide i) s t" and "peaceful s \<Longrightarrow> r = Inr ()"
proof -
  have u: "tombstone_memory i (eg_db s) = (eg_db t, r)" using assms by (rule raw_dbD)
  have ok: "r = Inr () \<and> db_faults (eg_db t) = []" if "peaceful s"
    using u [symmetric] that by (simp add: peaceful_def tombstone_memory_def update_items_def)
  then show "peaceful s \<Longrightarrow> r = Inr ()" by simp
  show "owes c (AHide i) s t"
  proof (rule owes_items)
    assume s: "peaceful s"
    then have h: "hide_in i (eg_db s) (eg_db t)" "db_wop (eg_db t) = db_wop (eg_db s)"
      using tombstone_hides u ok by auto
    then have f: "items_of t = (items_of s)(i := map_option (mi_tombstone_update (\<lambda>_. True)) (items_of s i))"
      by (auto simp: hide_in_def items_of_def fun_eq_iff)
    have "db_wf (eg_db t)" using s u item_updates_wf(1) [of "eg_db s" i] by (simp add: peaceful_def)
    moreover have "eg_db t = update_items (\<lambda>m. mi_id m = i) (mi_tombstone_update (\<lambda>_. True)) (eg_db s)"
      using u s by (auto simp: peaceful_def tombstone_memory_def)
    ultimately show "db_faults (eg_db t) = [] \<and> db_wf (eg_db t) \<and> (\<forall>m \<in> set (db_items (eg_db t)). storable m)"
      using s by (auto simp: peaceful_def update_items_def)
    show "db_wop (eg_db t) = db_wop (eg_db s) \<and> live t = live_action (AHide i) (live s)"
      using h(2) by (simp add: live_def f fun_eq_iff del: shown_simps(2))
  qed
qed

lemma put_owes:
  assumes "raw_db (put_memory m) s = (t, r)" and "storable m"
  shows "owes c (APut m) s t" and "peaceful s \<Longrightarrow> r = Inr ()"
proof -
  have u: "put_memory m (eg_db s) = (eg_db t, r)" using assms(1) by (rule raw_dbD)
  have ok: "r = Inr () \<and> eg_db t = put_item m (eg_db s)" if "peaceful s"
    using u that by (auto simp: peaceful_def put_memory_def)
  then show "peaceful s \<Longrightarrow> r = Inr ()" by simp
  show "owes c (APut m) s t"
    unfolding owes_def
  proof
    assume s: "peaceful s"
    with ok have f: "items_of t = (items_of s)(mi_id m \<mapsto> m)" by (auto simp: items_of_def fun_eq_iff)
    have "db_faults (eg_db t) = []" "db_wop (eg_db t) = db_wop (eg_db s)" using ok s by (simp_all add: peaceful_def put_item_def)
    moreover have "db_wf (eg_db t)" using ok s by (simp add: peaceful_def put_item_wf)
    moreover have "\<forall>x \<in> set (db_items (eg_db t)). storable x"
      using ok s assms(2) storable_put [of m "eg_db s"] by (simp add: peaceful_def)
    moreover have "live t = live_action (APut m) (live s)" by (simp add: live_def f fun_eq_iff del: shown_simps(2))
    ultimately show "peaceful t \<and> (\<exists>ws. db_wop (eg_db t) = db_wop (eg_db s) @ ws
        \<and> live t = live_action (APut m) (live_effects c ws (live s)))"
      by (intro conjI exI [of _ "[]"]) (simp_all add: peaceful_def)
  qed
qed

text \<open>Calls that leave memories and log alone keep the debt; the log entry of the action pays it.\<close>

definition idle :: "engine \<Rightarrow> engine \<Rightarrow> bool" where
  "idle s t = (peaceful s \<longrightarrow> peaceful t \<and> db_items (eg_db t) = db_items (eg_db s) \<and> db_wop (eg_db t) = db_wop (eg_db s))"

lemma idle_items: "idle s t \<Longrightarrow> peaceful s \<Longrightarrow> items_of t = items_of s"
  by (simp add: idle_def items_of_def find_item_def)

lemma idle_db: "eg_db t = eg_db s \<Longrightarrow> idle s t"
  by (simp add: idle_def peaceful_def items_of_def)

lemma idle_book: "bookkeeping k \<Longrightarrow> idle s (do_effect (XDb k) s)"
  using book_calm [of k "eg_db s"] by (auto simp: idle_def peaceful_def items_of_def find_item_def db_exec_wf simp del: db_exec.simps)

lemma owes_idle:
  assumes "owes c a s t" and "idle t u"
  shows "owes c a s u"
  unfolding owes_def
proof
  assume "peaceful s"
  with assms obtain ws where "peaceful u" "items_of u = items_of t" "db_wop (eg_db u) = db_wop (eg_db t)"
    "db_wop (eg_db t) = db_wop (eg_db s) @ ws" "live t = live_action a (live_effects c ws (live s))"
    using idle_items unfolding owes_def idle_def by auto
  then show "peaceful u \<and> (\<exists>ws. db_wop (eg_db u) = db_wop (eg_db s) @ ws \<and> live u = live_action a (live_effects c ws (live s)))"
    by (intro conjI exI [of _ ws]) (simp_all add: live_def)
qed

lemma append_pays:
  assumes a: "owes c a s t" and l: "\<And>q n. live_action (action_of c \<lparr> we_seq = q, we_op = op, we_payload = p, we_at = n \<rparr>) = live_action a"
  shows "mirrored c s (fst (on_db (append_wop op p n) t))"
  unfolding owes_def
proof
  let ?u = "fst (on_db (append_wop op p n) t)"
  assume "peaceful s"
  with a obtain ws where t: "peaceful t" "db_wop (eg_db t) = db_wop (eg_db s) @ ws"
    "live t = live_action a (live_effects c ws (live s))" unfolding owes_def by blast
  define w where "w = \<lparr> we_seq = db_wop_seq (eg_db t) + 1, we_op = op, we_payload = p, we_at = u64_as_i64 n \<rparr>"
  have u: "eg_db ?u = (eg_db t)\<lparr> db_wop := db_wop (eg_db t) @ [w], db_wop_seq := db_wop_seq (eg_db t) + 1 \<rparr>"
    using t(1) by (simp add: peaceful_def on_db_def raw_db_def append_wop_def add_wop_def Let_def w_def)
  have i: "items_of ?u = items_of t" by (simp add: items_of_def u fun_eq_iff)
  have "db_wf (eg_db ?u)"
    using t(1) append_wop_wf [of "eg_db t" op p n] fst_on_db [of "append_wop op p n" t]
    by (auto simp: peaceful_def)
  then have "peaceful ?u" using t(1) by (simp add: peaceful_def u)
  moreover have "db_wop (eg_db ?u) = db_wop (eg_db s) @ ws @ [w]" using t(2) by (simp add: u)
  moreover have "live ?u = live_effects c (ws @ [w]) (live s)"
    using l [of "db_wop_seq (eg_db t) + 1" "u64_as_i64 n"] t(3) by (simp add: live_def i w_def)
  ultimately show "peaceful ?u
      \<and> (\<exists>ws. db_wop (eg_db ?u) = db_wop (eg_db s) @ ws \<and> live ?u = live_action ANone (live_effects c ws (live s)))"
    by (intro conjI exI [of _ "ws @ [w]"]) simp_all
qed

lemma owes_when: "(peaceful s \<Longrightarrow> owes c a s t) \<Longrightarrow> owes c a s t"
  by (auto simp: owes_def)

lemma owes_peaceful: "\<lbrakk> owes c a s t; peaceful s \<rbrakk> \<Longrightarrow> peaceful t"
  by (simp add: owes_def)

text \<open>Calls that only read, keep books and move vectors.\<close>

inductive_set quiet_effects :: "effect set" where
  qe_book: "bookkeeping k \<Longrightarrow> XDb k \<in> quiet_effects"
| qe_insert: "XInsert v x \<in> quiet_effects"
| qe_delete: "XDelete v \<in> quiet_effects"

interpretation eidle: engine_law idle quiet_effects
proof unfold_locales
  fix x s
  assume "x \<in> quiet_effects"
  then show "idle s (do_effect x s)"
    by cases (auto simp del: do_effect.simps simp: idle_book, auto intro: idle_db)
next
  fix s :: engine
  show "idle s (read_db s)" by (simp add: idle_def peaceful_def read_db_def items_of_def)
  show "idle s (read_store s)" "idle s (tick s)" by (auto simp: read_store_def tick_def intro: idle_db)
qed (auto simp: idle_def)

lemma quiet_mirrored: "quiet_effects \<subseteq> mirrored_effects c"
  by (auto elim!: quiet_effects.cases intro: mirrored_effects.intros)

lemma quiet_steps [mirror_intros]:
  "\<lbrakk> esteps quiet_effects t u; mirrored c s t \<rbrakk> \<Longrightarrow> mirrored c s u"
  using mirrored_owes [OF _ emir.law_steps [OF esteps_mono [OF _ quiet_mirrored]]] by blast

lemma quiet_audit: "XDb (CAudit n a b x d) \<in> quiet_effects" "XDb (CReconcile n i a e) \<in> quiet_effects"
  "XDb (CRecordMerge a b r n) \<in> quiet_effects" "XDb (CRecordConsolidation rep n) \<in> quiet_effects"
  by (auto intro: quiet_effects.intros)

text \<open>The entries that log a hidden memory.\<close>

lemma logs_hide:
  assumes "op = ''delete'' \<or> op = ''recycle''"
  shows "live_action (action_of c \<lparr> we_seq = q, we_op = op, we_payload = i, we_at = n \<rparr>) = live_action (AHide i)"
  using assms by (auto simp: action_of_def)

lemma hide_logged:
  assumes t: "mirrored c s t" and r: "raw_db (tombstone_memory i) t = (t1, r)" and q: "esteps quiet_effects t1 t2"
    and l: "\<And>q n. live_action (action_of c \<lparr> we_seq = q, we_op = op, we_payload = p, we_at = n \<rparr>) = live_action (AHide i)"
  shows "mirrored c s (fst (on_db (append_wop op p n) t2))"
proof (rule append_pays [OF _ l])
  have "owes c (AHide i) s t1" by (rule mirrored_owes [OF t tombstone_owes(1) [OF r]])
  then show "owes c (AHide i) s t2" by (rule owes_idle) (rule eidle.law_steps [OF q])
qed

section \<open>Deletion\<close>

lemma tombstone_calls:
  assumes "peaceful t"
  obtains t1 where "raw_db (tombstone_memory i) t = (t1, Inr ())" "on_db (tombstone_memory i) t = (t1, Inr ())"
proof -
  obtain t1 r where "raw_db (tombstone_memory i) t = (t1, r)" by fastforce
  with tombstone_owes(2) [OF this assms] that show ?thesis by (simp add: on_db_def)
qed

lemma append_calls:
  assumes "peaceful t"
  obtains q where "on_db (append_wop op p n) t = (fst (on_db (append_wop op p n) t), Inr q)"
  using assms by (auto simp: peaceful_def on_db_def raw_db_def append_wop_def add_wop_def Let_def)

lemma drop_vector_idle: "esteps quiet_effects t (fst (drop_vector mo t))"
  by (rule drop_vector_steps) (auto intro: quiet_effects.intros esteps_refl)

lemma delete_memory_mirrored:
  assumes t: "mirrored c s t"
  shows "mirrored c s (fst (delete_memory ev i t))"
proof (rule owes_when)
  assume s: "peaceful s"
  have rest: "mirrored c s (fst (then_do (on_db (tombstone_memory i)) (\<lambda>_ s. case now_ms ev s of
         (s1, now) \<Rightarrow> then_do (on_db (append_wop ''delete'' i now)) (\<lambda>_ s2.
             (fst (on_db (append_audit now ''delete'' ''delete'' i ''tombstone'') s2), Inr ())) s1) u))"
    if u: "mirrored c s u" for u
  proof -
    have pu: "peaceful u" using u s by (rule owes_peaceful)
    obtain u1 where u1: "raw_db (tombstone_memory i) u = (u1, Inr ())" "on_db (tombstone_memory i) u = (u1, Inr ())"
      by (rule tombstone_calls [OF pu])
    obtain u2 now where n: "now_ms ev u1 = (u2, now)" by fastforce
    have q: "esteps quiet_effects u1 u2" using steps_env(2) [OF esteps_refl, of _ u1 ev] n by simp
    have pu2: "peaceful u2"
      using eidle.law_steps [OF q] owes_peaceful [OF tombstone_owes(1) [OF u1(1)] pu] by (simp add: idle_def)
    define u3 where "u3 = fst (on_db (append_wop ''delete'' i now) u2)"
    obtain k where k: "on_db (append_wop ''delete'' i now) u2 = (u3, Inr k)"
      using append_calls [OF pu2] unfolding u3_def by metis
    have "mirrored c s u3" unfolding u3_def by (rule hide_logged [OF u u1(1) q logs_hide]) simp
    moreover have "esteps quiet_effects u3 (fst (on_db (append_audit now ''delete'' ''delete'' i ''tombstone'') u3))"
      by (intro step_intros quiet_audit)
    ultimately show ?thesis
      using quiet_steps by (simp add: then_do_def u1(2) n k)
  qed
  show "mirrored c s (fst (delete_memory ev i t))"
    unfolding delete_memory_def engine_get_memory_def
    by (intro mir.rules rest quiet_steps [OF drop_vector_idle] quiet_steps [OF steps_on_db [OF steps_read_calls(1) [OF esteps_refl]]] t | assumption)+
qed

lemma delete_mirrored:
  assumes "mirrored c s t"
  shows "mirrored c s (fst (delete_memory_tenant ev i ten t))"
  unfolding delete_memory_tenant_def engine_get_memory_def
  by (intro mir.rules delete_memory_mirrored quiet_steps [OF steps_on_db [OF steps_read_calls(1) [OF esteps_refl]]]
      assms | assumption)+

section \<open>Commits and queries\<close>

text \<open>
  What the encoding of payloads must give: an item that is encoded with its vector is decoded
  unchanged, and, if entities are extracted at all, every item can be encoded alone.\<close>

definition faithful :: "engine_env \<Rightarrow> bool" where
  "faithful ev =
     ((\<forall>m v p. storable m \<and> pc_enc (ev_codec ev) (m, Some v) = Inr p \<longrightarrow> (\<exists>v'. pc_env (ev_codec ev) p = Inr (m, v')))
      \<and> (ev_extract ev = None
         \<or> (\<forall>m. storable m \<longrightarrow> (\<exists>p. pc_item_enc (ev_codec ev) m = Inr p \<and> pc_item (ev_codec ev) p = Inr m)))
      \<and> (\<forall>n. tabless (ev_ulid ev n)))"

lemma faithfulD:
  assumes "faithful ev"
  shows "storable m \<Longrightarrow> pc_enc (ev_codec ev) (m, Some v) = Inr p \<Longrightarrow> \<exists>v'. pc_env (ev_codec ev) p = Inr (m, v')"
    and "ev_extract ev \<noteq> None \<Longrightarrow> storable m \<Longrightarrow>
      \<exists>p. pc_item_enc (ev_codec ev) m = Inr p \<and> pc_item (ev_codec ev) p = Inr m"
    and "tabless (ev_ulid ev n)"
  using assms by (auto simp: faithful_def)

lemma footprints_mirrored:
  assumes f: "faithful ev"
  shows "commit_effects ev \<subseteq> mirrored_effects (ev_codec ev)" "retrieve_effects \<subseteq> mirrored_effects c"
proof -
  show "commit_effects ev \<subseteq> mirrored_effects (ev_codec ev)"
  proof
    fix x assume "x \<in> commit_effects ev"
    then show "x \<in> mirrored_effects (ev_codec ev)"
    proof cases
      case (ce_store m v p i k n)
      then have m: "storable m" using faithfulD(3) [OF f] by (simp add: storable_def)
      then obtain v' where "pc_env (ev_codec ev) p = Inr (m, v')" using faithfulD(1) [OF f] ce_store(2) by blast
      then show ?thesis unfolding ce_store(1) using m by (intro me_commit) simp_all
    qed (auto intro: mirrored_effects.intros)
  qed
  show "retrieve_effects \<subseteq> mirrored_effects c"
    by (auto elim!: retrieve_effects.cases intro: mirrored_effects.intros)
qed

section \<open>Consolidation\<close>

text \<open>No statement meets a failure in an engine without failures.\<close>

definition stays_calm :: "engine \<Rightarrow> engine \<Rightarrow> bool" where
  "stays_calm s t = (db_faults (eg_db s) = [] \<and> db_wf (eg_db s) \<longrightarrow> db_faults (eg_db t) = [] \<and> db_wf (eg_db t))"

lemma exec_calm: "db_faults d = [] \<Longrightarrow> db_faults (db_exec k d) = []"
  using failures_calm [of "d\<lparr> db_consolidations := x \<rparr>" for x]
  by (cases k) (auto simp: put_memory_def put_item_def put_memory_with_wop_def add_wop_def tombstone_memory_def
      untombstone_memory_def update_items_def delete_by_session_def delete_by_session_tenant_def delete_where_def
      touch_access_batch_def record_consolidation_def append_wop_def prune_wop_before_def record_merge_def
      put_relation_def append_entity_alias_def physical_delete_def delete_item_def unmerge_log_def
      append_reconcile_def append_audit_def Let_def split: option.split)

interpretation ecalm: engine_law stays_calm UNIV
proof unfold_locales
  fix x s
  show "stays_calm s (do_effect x s)"
    by (cases x) (simp_all add: stays_calm_def exec_calm db_exec_wf del: db_exec.simps split: option.split)
qed (auto simp: stays_calm_def read_db_def read_store_def tick_def)

lemma adequate_mirrored:
  assumes "log_adequate c s t" and "peaceful s \<Longrightarrow> peaceful t"
  shows "mirrored c s t"
  unfolding owes_def
proof
  assume "peaceful s"
  moreover obtain ws where "db_wop (eg_db t) = db_wop (eg_db s) @ ws" "items_of t = effects c ws (items_of s)"
    using assms(1) unfolding log_adequate_def by blast
  ultimately show "peaceful t \<and> (\<exists>ws. db_wop (eg_db t) = db_wop (eg_db s) @ ws
      \<and> live t = live_action ANone (live_effects c ws (live s)))"
    using assms(2) by (intro conjI exI [of _ ws]) (simp_all add: live_def live_of_effects)
qed

lemma phase1_mirrored:
  assumes "distinct (map mi_id changed)" and "\<forall>m \<in> set changed. find_item (mi_id m) (eg_db s) = Some m"
  shows "mirrored c s (p1_eng (consolidate_phase1 now changed s))"
proof (rule owes_when)
  assume s: "peaceful s"
  let ?t = "p1_eng (consolidate_phase1 now changed s)"
  have good: "\<forall>m \<in> set changed. items_of s (mi_id m) = Some m \<and> char_of (9 :: nat) \<notin> set (mi_id m) \<and> storable m"
    using assms(2) storable_found [OF s] by (auto simp: items_of_def storable_def tabless_def)
  have run: "log_adequate c s ?t
      \<and> (\<forall>m \<in> set changed. items_of ?t (mi_id m) = Some (phase1_outcome now m))
      \<and> (\<forall>j. j \<notin> mi_id ` set changed \<longrightarrow> items_of ?t j = items_of s j)"
    using phase1_fold [of "\<lparr> p1_eng = s, p1_dropped = 0, p1_promoted = 0, p1_failures = [] \<rparr>" changed now c]
      s assms(1) good by (simp add: consolidate_phase1_def Let_def peaceful_def)
  have calm: "db_faults (eg_db ?t) = [] \<and> db_wf (eg_db ?t)"
    using ecalm.law_steps [OF esteps_mono [OF phase1_steps [OF esteps_refl]]] s
    by (simp add: stays_calm_def peaceful_def)
  have "storable m" if "m \<in> set (db_items (eg_db ?t))" for m
  proof -
    have f: "items_of ?t (mi_id m) = Some m" using calm that by (simp add: items_of_def find_item_wf)
    show ?thesis
    proof (cases "mi_id m \<in> mi_id ` set changed")
      case True
      then obtain x where "x \<in> set changed" "mi_id x = mi_id m" by force
      then have "m = phase1_outcome now x" "storable x" using run f good by auto
      then show ?thesis by (simp add: phase1_outcome_def)
    next
      case False
      then have "find_item (mi_id m) (eg_db s) = Some m" using run f by (simp add: items_of_def)
      then show ?thesis using storable_found [OF s] by blast
    qed
  qed
  with calm have "peaceful ?t" by (simp add: peaceful_def)
  with run show "mirrored c s ?t" by (intro adequate_mirrored) simp_all
qed

text \<open>A merge hides its source and logs it, whatever memory is the target.\<close>

lemma logs_merge:
  assumes "tabless a" and "tabless b"
  shows "live_action (action_of c \<lparr> we_seq = q, we_op = ''merge'',
      we_payload = a @ tab @ b @ tab @ merge_reason @ tab @ show_nat now, we_at = n \<rparr>) = live_action (AHide a)"
proof -
  have r: "char_of (9 :: nat) \<notin> set merge_reason" unfolding merge_reason_def tab_char by simp
  have "split_on (char_of (9 :: nat)) (a @ tab @ b @ tab @ merge_reason @ tab @ show_nat now)
      = [a, b, merge_reason, show_nat now]"
    using assms r show_nat_no_tab [of now] by (simp add: tabless_def tab_def split_on_append split_on_plain)
  then show ?thesis by (simp add: action_of_def)
qed

lemma record_merge_calls:
  assumes "peaceful t"
  obtains t1 where "raw_db (record_merge a b x n) t = (t1, Inr ())"
  using assms by (auto simp: peaceful_def raw_db_def record_merge_def Let_def)

lemma merge_with_mirrored:
  assumes "mirrored c s t" and src: "tabless (mi_id src)" and by_ids: "\<And>v m. by v = Some m \<Longrightarrow> tabless (mi_id m)"
  shows "mirrored c s (fst (merge_with by src vr vec now knn fl t))"
  using assms(1)
proof (induction knn arbitrary: fl t)
  case (Cons vk knn)
  obtain v k where vk: "vk = (v, k)" by fastforce
  have hit: "mirrored c s (fst (case raw_db (tombstone_memory (mi_id src)) t of
       (s1, Inl e) \<Rightarrow> merge_with by src vr vec now knn (fl @ [failure (mi_id src) ''merge'' (persist_display e)]) s1
     | (s1, Inr _) \<Rightarrow>
         let s2 = fst (on_store (delete_vector (of_nat vr)) s1)
         in case raw_db (record_merge (mi_id src) (mi_id tgt) merge_reason now) s2 of
              (s3, Inl e) \<Rightarrow>
                let s4 = fst (raw_db (untombstone_memory (mi_id src)) s3);
                    s5 = fst (on_store (insert_vector (of_nat vr) vec) s4)
                in (s5, 0, fl @ [failure (mi_id src) ''merge-log'' (persist_display e)])
            | (s3, Inr _) \<Rightarrow>
                (fst (on_db (append_wop ''merge''
                        (mi_id src @ tab @ mi_id tgt @ tab @ merge_reason @ tab @ show_nat now) now) s3), 1, fl)))"
    if "by x = Some tgt" for x tgt
  proof (rule owes_when)
    assume s: "peaceful s"
    have pt: "peaceful t" using Cons.prems s by (rule owes_peaceful)
    obtain s1 where s1: "raw_db (tombstone_memory (mi_id src)) t = (s1, Inr ())"
      by (rule tombstone_calls [OF pt])
    define s2 where "s2 = fst (on_store (delete_vector (of_nat vr)) s1)"
    have q2: "esteps quiet_effects s1 s2" unfolding s2_def by (intro step_intros quiet_effects.intros)
    have p2: "peaceful s2"
      using eidle.law_steps [OF q2] owes_peaceful [OF tombstone_owes(1) [OF s1] pt] by (simp add: idle_def)
    obtain s3 where s3: "raw_db (record_merge (mi_id src) (mi_id tgt) merge_reason now) s2 = (s3, Inr ())"
      by (rule record_merge_calls [OF p2])
    have "esteps quiet_effects s1 (fst (raw_db (record_merge (mi_id src) (mi_id tgt) merge_reason now) s2))"
      by (intro step_intros quiet_audit q2)
    then have q3: "esteps quiet_effects s1 s3" by (simp add: s3)
    have "mirrored c s (fst (on_db (append_wop ''merge''
        (mi_id src @ tab @ mi_id tgt @ tab @ merge_reason @ tab @ show_nat now) now) s3))"
      by (rule hide_logged [OF Cons.prems s1 q3 logs_merge [OF src by_ids [OF that]]])
    then show ?thesis by (simp add: s1 Let_def s2_def [symmetric] s3)
  qed
  show ?case unfolding merge_with.simps vk
    by (intro mir.at_if mir.at_case_option Cons hit | assumption)+
qed (simp add: assms)

lemma merge_all_mirrored:
  assumes "mirrored c s t" and src: "\<forall>m \<in> set srcs. tabless (mi_id m)" and ids: "\<And>v m. by v = Some m \<Longrightarrow> tabless (mi_id m)"
  shows "mirrored c s (fst (fst (merge_all ev by now srcs n fl t)))"
  using assms(1,2)
proof (induction srcs arbitrary: n fl t)
  case (Cons src rest)
  have looks: "mirrored c s (fst (on_store (get_vector v) u))" "mirrored c s (fst (on_store (search_knn knn q k) u))"
    if "mirrored c s u" for v knn q k u
    by (rule quiet_steps [OF steps_looks(1) [OF esteps_refl] that], rule quiet_steps [OF steps_looks(3) [OF esteps_refl] that])
  have m: "mirrored c s (fst (merge_with by src vr vec now knn fl u))" if "mirrored c s u" for vr vec knn fl u
    using that Cons.prems(2) ids by (intro merge_with_mirrored) auto
  have ih: "mirrored c s (fst (fst (merge_all ev by now rest n fl u)))" if "mirrored c s u" for n fl u
    using that Cons.prems(2) by (intro Cons.IH) simp_all
  show ?case unfolding merge_all.simps
    by (intro mir.rules looks m ih Cons.prems(1) | assumption | rule mir.deep_split)+
qed simp

lemma listed:
  assumes "on_db (list_all_by_tenant_scoped ten f) s = (t, Inr ms)"
  shows "set ms \<subseteq> set (db_items (eg_db s))"
proof -
  from on_db_Inr(1) [OF assms] obtain p where "ms = order_created
      (filter (\<lambda>m. \<not> mi_tombstone m \<and> mi_tenant m = ten \<and> sql_eval p m) (db_items (eg_db s)))"
    unfolding list_all_by_tenant_scoped_def by (auto dest!: scoped_query_Inr)
  then show ?thesis by (auto simp: order_created_def)
qed

lemma list_quiet: "esteps quiet_effects t (fst (on_db (list_all_by_tenant_scoped ten f) t))"
  by (intro step_intros)

lemma merge_mirrored:
  assumes t: "mirrored c s t" and src: "\<forall>m \<in> set changed. tabless (mi_id m)"
  shows "mirrored c s (fst (fst (consolidate_merge ev changed now f fl t)))"
proof (rule owes_when)
  assume s: "peaceful s"
  have pt: "peaceful t" using t s by (rule owes_peaceful)
  obtain t1 r where l: "on_db (list_all_by_tenant_scoped (ev_tenant ev) f) t = (t1, r)" by fastforce
  have t1: "mirrored c s t1" using quiet_steps [OF list_quiet t, of "ev_tenant ev" f] l by simp
  show "mirrored c s (fst (fst (consolidate_merge ev changed now f fl t)))"
  proof (cases r)
    case (Inr all)
    have "tabless (mi_id m)" if "by_vec_ref all v = Some m" for v m
    proof -
      have "m \<in> set all" using that by (auto simp: by_vec_ref_def find_Some_iff in_set_conv_nth) (metis Suc_less_eq diff_less_Suc length_rev nth_mem rev_nth set_rev in_set_conv_nth)
      then show ?thesis using listed [OF l [unfolded Inr]] pt by (auto simp: peaceful_def storable_def)
    qed
    then show ?thesis using l Inr t1 src by (simp add: consolidate_merge_def merge_all_mirrored)
  qed (use l t1 in \<open>simp add: consolidate_merge_def\<close>)
qed

text \<open>A late extraction logs the item it writes.\<close>

lemma reextract_mirrored:
  assumes f: "faithful ev" and t: "mirrored (ev_codec ev) s (fst x)" and m: "storable m"
  shows "mirrored (ev_codec ev) s (fst (reextract_one ev now m x))"
proof (rule owes_when)
  assume s: "peaceful s"
  obtain u n fl where x: "x = (u, n, fl)" by (metis prod.exhaust)
  show "mirrored (ev_codec ev) s (fst (reextract_one ev now m x))"
  proof (cases "ev_extract ev")
    case None
    then show ?thesis using t x by (simp add: reextract_one_def)
  next
    case (Some ex)
    obtain u1 ents ok where c: "call (\<lambda>k. ex k (mi_content m)) u = (u1, (ents, ok))" by (metis prod.exhaust)
    have u1: "mirrored (ev_codec ev) s u1"
      using quiet_steps [OF steps_call [OF esteps_refl], of "ev_codec ev" s u "\<lambda>k. ex k (mi_content m)"] t x c by simp
    let ?m = "m\<lparr> mi_entities := ents, mi_entities_pending := False \<rparr>"
    have sm: "storable ?m" using m by simp
    obtain u2 r where p: "raw_db (put_memory ?m) u1 = (u2, r)" by fastforce
    have r: "r = Inr ()" using put_owes(2) [OF p sm] owes_peaceful [OF u1 s] by simp
    have o: "owes (ev_codec ev) (APut ?m) s u2" by (rule mirrored_owes [OF u1 put_owes(1) [OF p sm]])
    obtain q where q: "pc_item_enc (ev_codec ev) ?m = Inr q" "pc_item (ev_codec ev) q = Inr ?m"
      using faithfulD(2) [OF f _ sm] Some by blast
    have "mirrored (ev_codec ev) s (fst (on_db (append_wop ''reextract'' q now) u2))"
      by (rule append_pays [OF o]) (use q(2) in \<open>simp add: action_of_def\<close>)
    then show ?thesis
      using Some x c p r q(1) u1 t by (simp add: reextract_one_def)
  qed
qed

text \<open>Reconciliation only purges memories that are hidden.\<close>

lemma purge_mirrored:
  assumes "shown (items_of u i) = None" and "raw_db (physical_delete i) u = (v, r)"
  shows "mirrored c u v" and "peaceful u \<Longrightarrow> items_of v = (items_of u)(i := None)"
proof -
  have p: "physical_delete i (eg_db u) = (eg_db v, r)" using assms(2) by (rule raw_dbD)
  have d: "eg_db v = delete_item i (eg_db u)" if "peaceful u"
    using p that by (auto simp: peaceful_def physical_delete_def)
  then show f: "peaceful u \<Longrightarrow> items_of v = (items_of u)(i := None)"
    by (auto simp: items_of_def fun_eq_iff find_item_delete)
  show "mirrored c u v"
  proof (rule owes_items)
    assume u: "peaceful u"
    then show "db_faults (eg_db v) = [] \<and> db_wf (eg_db v) \<and> (\<forall>m \<in> set (db_items (eg_db v)). storable m)"
      using d delete_item_wf by (auto simp: peaceful_def) (simp_all add: delete_item_def)
    show "db_wop (eg_db v) = db_wop (eg_db u) \<and> live v = live_action ANone (live u)"
      using d [OF u] f [OF u] assms(1) by (auto simp: live_def fun_eq_iff) (simp add: delete_item_def)
  qed
qed

definition all_dead :: "memory_item list \<Rightarrow> engine \<Rightarrow> bool" where
  "all_dead ms s = (\<forall>m \<in> set ms. shown (items_of s (mi_id m)) = None)"

lemma quiet_dead:
  assumes "esteps quiet_effects u v" and "peaceful u" and "all_dead ms u"
  shows "peaceful v \<and> all_dead ms v"
proof -
  have i: "idle u v" using assms(1) by (rule eidle.law_steps)
  with idle_items [OF i assms(2)] assms(2,3) show ?thesis by (simp add: all_dead_def idle_def)
qed

lemma log_quiet: "esteps quiet_effects t u \<Longrightarrow> esteps quiet_effects t (log_reconcile now i stage e u)"
  unfolding log_reconcile_def by (intro step_intros quiet_audit)

lemma tombstone_one_mirrored:
  assumes s: "peaceful s" and x: "mirrored c s (fst x)" "all_dead ms (fst x)" and m: "m \<in> set ms"
  shows "mirrored c s (fst (reconcile_tombstone now sources m x)) \<and> all_dead ms (fst (reconcile_tombstone now sources m x))"
proof -
  obtain u n fl where u: "x = (u, n, fl)" by (metis prod.exhaust)
  have pu: "peaceful u" using owes_peaceful [OF x(1) s] u by simp
  obtain u1 b where first: "(case parse_u64 (mi_vector_ref m) of
      Some v \<Rightarrow> (case on_store (delete_vector (of_nat v)) u of (s1, r) \<Rightarrow> (s1, is_ok r))
    | None \<Rightarrow> (log_reconcile now (mi_id m) ''bad-vector-ref''
                ''tombstone vector_ref not u64, ghost vector may remain'' u, False)) = (u1, b)" by fastforce
  have q: "esteps quiet_effects u u1"
  proof (cases "parse_u64 (mi_vector_ref m)")
    case None
    then show ?thesis using first log_quiet [OF esteps_refl] by auto
  next
    case (Some v)
    then have "u1 = fst (on_store (delete_vector (of_nat v)) u)" using first by (auto split: prod.splits)
    then show ?thesis by (simp only:) (intro step_intros quiet_effects.intros)
  qed
  have u1: "mirrored c s u1" "peaceful u1" "all_dead ms u1"
    using quiet_steps [OF q] quiet_dead [OF q pu] x u by simp_all
  obtain u2 r where p: "raw_db (physical_delete (mi_id m)) u1 = (u2, r)" by fastforce
  have dead: "shown (items_of u1 (mi_id m)) = None" using u1(3) m by (simp add: all_dead_def)
  have "mirrored c s u2" by (rule mirrored_owes [OF u1(1) purge_mirrored(1) [OF dead p]])
  moreover have "all_dead ms u2"
    using purge_mirrored(2) [OF dead p u1(2)] u1(3) by (simp add: all_dead_def)
  ultimately show ?thesis
    using u1 x u p first by (cases b; cases r) (simp_all add: reconcile_tombstone_def)
qed

lemma tombstone_fold_mirrored:
  assumes s: "peaceful s" and m: "set ts \<subseteq> set ms" and x: "mirrored c s (fst x)" "all_dead ms (fst x)"
  shows "mirrored c s (fst (fold (reconcile_tombstone now sources) ts x))"
  using m x
proof (induction ts arbitrary: x)
  case (Cons t ts)
  then show ?case using tombstone_one_mirrored [OF s, of c x ms t now sources] by simp
qed simp

lemma tombstoned_dead:
  assumes "on_db list_tombstoned t = (t1, Inr ms)" and "peaceful t"
  shows "all_dead ms t1"
proof -
  have l: "db_query (\<lambda>d. filter mi_tombstone (db_items d)) (eg_db t) = (eg_db t1, Inr ms)"
    using on_db_Inr(1) [OF assms(1)] by (simp add: list_tombstoned_def)
  then have ms: "ms = filter mi_tombstone (db_items (eg_db t))" by (rule db_query_Inr) simp
  have i: "items_of t1 = items_of t" using query_same [OF l] same_items_of by blast
  have "find_item (mi_id m) (eg_db t) = Some m" if "m \<in> set ms" for m
    using that assms(2) unfolding ms by (auto simp: peaceful_def intro: find_item_wf)
  then show ?thesis unfolding all_dead_def i using ms by (auto simp: items_of_def)
qed

lemma reconcile_pass_mirrored:
  assumes t: "mirrored c s t"
  shows "mirrored c s (fst (fst (consolidate_reconcile ev now f fl t)))"
proof (rule owes_when)
  assume s: "peaceful s"
  have fwd: "esteps quiet_effects u (fold (reconcile_forward_one now) all u)" for all u
  proof (rule es.fold_rule [where p = "\<lambda>x. x"])
    fix m v assume "esteps quiet_effects u v"
    then show "esteps quiet_effects u (reconcile_forward_one now m v)"
      unfolding reconcile_forward_one_def by - (intro step_intros es.plain log_quiet | assumption)+
  qed (rule esteps_refl)
  have orph: "esteps quiet_effects u (fold (reconcile_orphan now refs) vs u)" for refs vs u
  proof (rule es.fold_rule [where p = "\<lambda>x. x"])
    fix i v assume "esteps quiet_effects u v"
    then show "esteps quiet_effects u (reconcile_orphan now refs i v)"
      unfolding reconcile_orphan_def by - (intro es.plain steps_delete qe_delete log_quiet | assumption)+
  qed (rule esteps_refl)
  have read: "esteps quiet_effects u (fst (on_store list_vector_ids u))" "esteps quiet_effects u (fst (on_db list_merge_log u))"
    "esteps quiet_effects u (fst (on_db list_tombstoned u))" for u
    by (intro step_intros)+
  have rest: "mirrored c s (fst (fst (case on_db list_tombstoned u of
        (s6, Inl e) \<Rightarrow> ((s6, fl), Inl e)
      | (s6, Inr tombs) \<Rightarrow> (case fold (reconcile_tombstone now sources) tombs (s6, 0, fl) of
             (s7, n, fl7) \<Rightarrow> ((s7, fl7), Inr n)))))" if u: "mirrored c s u" for u sources
  proof -
    obtain u1 r where l: "on_db list_tombstoned u = (u1, r)" by fastforce
    have u1: "mirrored c s u1" using quiet_steps [OF read(3) u] l by simp
    show ?thesis
    proof (cases r)
      case (Inr tombs)
      have "all_dead tombs u1" using tombstoned_dead [OF l [unfolded Inr]] owes_peaceful [OF u s] by simp
      then have "mirrored c s (fst (fold (reconcile_tombstone now sources) tombs (u1, 0, fl)))"
        by (intro tombstone_fold_mirrored [OF s subset_refl]) (simp_all add: u1)
      then show ?thesis using l Inr by (simp split: prod.split) (metis fst_conv)
    qed (use l u1 in simp)
  qed
  show "mirrored c s (fst (fst (consolidate_reconcile ev now f fl t)))"
    unfolding consolidate_reconcile_def Let_def
    by (rule rest quiet_steps [OF list_quiet] quiet_steps [OF fwd] quiet_steps [OF orph]
        quiet_steps [OF read(1)] quiet_steps [OF read(2)] t | assumption | rule mir.rules)+
qed

lemma changed_listed:
  assumes "on_db (list_changed_since_scoped since f) t = (t1, Inr ms)" and "peaceful t"
  shows "distinct (map mi_id ms) \<and> (\<forall>m \<in> set ms. find_item (mi_id m) (eg_db t1) = Some m \<and> storable m)"
proof -
  from on_db_Inr(1) [OF assms(1)] obtain p where ms: "ms = order_created (filter (\<lambda>m. \<not> mi_tombstone m
        \<and> (u64_as_i64 (mi_last_accessed m) > u64_as_i64 since \<or> u64_as_i64 (mi_created m) > u64_as_i64 since)
        \<and> sql_eval p m) (db_items (eg_db t)))" and same: "same_tables (eg_db t) (eg_db t1)"
    unfolding list_changed_since_scoped_def by (auto dest!: scoped_query_Inr)
  have wf: "db_wf (eg_db t)" using assms(2) by (simp add: peaceful_def)
  have sub: "set ms \<subseteq> set (db_items (eg_db t))" by (auto simp: ms order_created_def)
  have "distinct (map mi_id (db_items (eg_db t)))" using wf by (simp add: db_wf_def items_wf_def)
  then have "inj_on mi_id (set (db_items (eg_db t)))" "distinct (db_items (eg_db t))" by (simp_all add: distinct_map)
  then have "distinct (map mi_id ms)"
    using sub by (auto simp: distinct_map ms order_created_def intro: inj_on_subset)
  moreover have "find_item (mi_id m) (eg_db t1) = Some m \<and> storable m" if "m \<in> set ms" for m
    using that sub find_item_wf [OF wf] same_tables_facts [OF same] assms(2) by (auto simp: peaceful_def)
  ultimately show ?thesis by blast
qed

lemma finish_mirrored: "mirrored c s t \<Longrightarrow> mirrored c s (fst (consolidate_finish f start rep t))"
proof (rule quiet_steps)
  have rows: "esteps quiet_effects t (fold (\<lambda>x. log_reconcile start (cf_id x) (cf_stage x) (cf_error x)) xs u)"
    if "esteps quiet_effects t u" for xs u
    by (rule es.fold_rule [where p = "\<lambda>x. x"]) (simp_all add: log_quiet that)
  show "esteps quiet_effects t (fst (consolidate_finish f start rep t))"
    unfolding consolidate_finish_def by (intro step_intros rows quiet_audit | assumption)+
qed

lemma consolidate_mirrored:
  assumes f: "faithful ev" and chat: "ev_chat ev = None" and t: "mirrored (ev_codec ev) s t"
  shows "mirrored (ev_codec ev) s (fst (consolidate_impl ord ev flt t))"
proof (rule owes_when)
  let ?R = "mirrored (ev_codec ev)"
  assume s: "peaceful s"
  have now: "esteps quiet_effects u (fst (now_ms ev u))" for u by (intro step_intros)
  have since: "esteps quiet_effects u (fst (on_db last_consolidate_at u))" for u by (intro step_intros)
  have lst: "esteps quiet_effects u (fst (on_db (list_changed_since_scoped k flt) u))" for u k by (intro step_intros)
  have body: "?R s (fst (let p = consolidate_phase1 start changed s1
            in case consolidate_merge ev changed start flt (p1_failures p) (p1_eng p) of
                 ((s2, fl2), Inl e) \<Rightarrow> (s2, Inl e)
               | ((s2, fl2), Inr merged) \<Rightarrow>
                   (case consolidate_summarize ord ev changed start flt fl2 s2 of
                      ((s3, fl3), Inl e) \<Rightarrow> (s3, Inl e)
                    | ((s3, fl3), Inr summarized) \<Rightarrow>
                        (case fold (reextract_one ev start) changed (s3, 0, fl3) of
                           (s4, reextracted, fl4) \<Rightarrow>
                             (case consolidate_reconcile ev start flt fl4 s4 of
                                ((s5, fl5), Inl e) \<Rightarrow> (s5, Inl e)
                              | ((s5, fl5), Inr reconciled) \<Rightarrow>
                                  (case now_ms ev s5 of
                                     (s6, end_ms) \<Rightarrow>
                                       consolidate_finish flt start
                                         \<lparr> cr_dropped = p1_dropped p, cr_promoted = p1_promoted p,
                                           cr_merged = merged, cr_summarized = summarized,
                                           cr_reextracted = reextracted, cr_reconciled = reconciled,
                                           cr_elapsed = end_ms - start, cr_failures = fl5 \<rparr> s6))))))"
    if l: "on_db (list_changed_since_scoped k flt) u = (s1, Inr changed)" and u: "?R s u" for k u s1 changed start
  proof -
    have pu: "peaceful u" using u s by (rule owes_peaceful)
    have s1: "?R s s1" using quiet_steps [OF lst u, of k] l by simp
    have ch: "distinct (map mi_id changed)" "\<forall>m \<in> set changed. find_item (mi_id m) (eg_db s1) = Some m"
      "\<forall>m \<in> set changed. storable m" using changed_listed [OF l pu] by simp_all
    then have tl: "\<forall>m \<in> set changed. tabless (mi_id m)" by (simp add: storable_def)
    have p: "?R s (p1_eng (consolidate_phase1 start changed s1))"
      by (rule mirrored_owes [OF s1 phase1_mirrored [OF ch(1,2)]])
    have sum: "?R s (fst (fst (consolidate_summarize ord ev changed start flt fl v)))" if "?R s v" for fl v
      using that by (simp add: consolidate_summarize_def chat)
    have ext: "?R s (fst (fold (reextract_one ev start) xs x))" if "?R s (fst x)" "set xs \<subseteq> set changed" for xs x
      using that ch(3)
    proof (induction xs arbitrary: x)
      case (Cons m xs)
      then show ?case using reextract_mirrored [OF f Cons.prems(1), of m start] by simp
    qed simp
    have ext': "?R s (fst (fold (reextract_one ev start) changed x))" if "?R s (fst x)" for x
      using ext [OF that subset_refl] .
    show ?thesis unfolding Let_def
      by (rule merge_mirrored sum ext' reconcile_pass_mirrored finish_mirrored quiet_steps [OF now] p tl
          | assumption | rule mir.rules | rule mir.fst_split | simp only: fst_conv)+
  qed
  obtain t0 start where n: "now_ms ev t = (t0, start)" by fastforce
  have t0: "?R s t0" using quiet_steps [OF now t] n by simp
  obtain t1 r where c: "on_db last_consolidate_at t0 = (t1, r)" by fastforce
  have t1: "?R s t1" using quiet_steps [OF since t0] c by simp
  show "?R s (fst (consolidate_impl ord ev flt t))"
  proof (cases r)
    case (Inr k)
    obtain t2 q where l: "on_db (list_changed_since_scoped k flt) t1 = (t2, q)" by fastforce
    have t2: "?R s t2" using quiet_steps [OF lst t1, of k] l by simp
    show ?thesis
    proof (cases q)
      case (Inr changed)
      show ?thesis
        using body [OF l [unfolded Inr] t1, of start] n c l \<open>r = Inr k\<close> Inr
        by (simp only: consolidate_impl_def then_do_def prod.case sum.case)
    qed (use n c l Inr t2 in \<open>simp add: consolidate_impl_def then_do_def\<close>)
  qed (use n c t1 in \<open>simp add: consolidate_impl_def then_do_def\<close>)
qed

section \<open>Requests\<close>

text \<open>
  The methods that write no entry, or an entry that followers skip, are excluded: undoing a
  merge and deleting a session.\<close>

definition unlogged :: "rpc_request \<Rightarrow> bool" where
  "unlogged req = (strip_version (rq_method req) \<in> {''delete_scope'', ''unmerge''})"

lemma answer_mirrored: "mirrored c s (fst (f t)) \<Longrightarrow> mirrored c s (fst (answer f k t))"
  by (simp add: answer_def split: prod.split sum.split) (metis fst_conv)

lemma checked_mirrored:
  assumes "\<And>p. mirrored c s (fst (k p s))"
  shows "mirrored c s (fst (checked r k s))"
  using assms by (simp add: checked_def mirrored_refl split: sum.split)

lemma delete_handler: "mirrored c s (fst (rpc_delete rc ev v ten s))"
  unfolding rpc_delete_def
  by (intro checked_mirrored answer_mirrored delete_mirrored mir.rules)

lemma reconcile_handler: "mirrored c s (fst (rpc_reconcile rc ev v s))"
proof -
  have "mirrored c s (fst (reconcile ev s))"
    unfolding reconcile_def
    by (rule reconcile_pass_mirrored quiet_steps [OF steps_env(2) [OF esteps_refl]] mir.refl
        | assumption | rule mir.rules | rule mir.fst_split | simp only: fst_conv)+
  then show ?thesis unfolding rpc_reconcile_def by (intro checked_mirrored answer_mirrored mir.rules)
qed

lemma consolidate_handler:
  assumes "faithful ev" and "ev_chat ev = None"
  shows "mirrored (ev_codec ev) s (fst (rpc_consolidate rc ord ev v s))"
  unfolding rpc_consolidate_def consolidate_memories_def consolidate_memories_scoped_def
  by (intro checked_mirrored answer_mirrored consolidate_mirrored assms mir.rules)

lemma dispatch_mirrored:
  assumes f: "faithful ev" and chat: "ev_chat ev = None" and l: "\<not> unlogged req"
  shows "mirrored (ev_codec ev) s (fst (dispatch rc ord ev req ten s))"
proof -
  let ?m = "strip_version (rq_method req)"
  have "footprint ev ?m \<subseteq> retrieve_effects" if "?m \<notin> {''delete'', ''consolidate'', ''reconcile'', ''commit''}"
    using that l by (simp add: unlogged_def footprint_def)
  then consider "?m = ''delete''" | "?m = ''consolidate''" | "?m = ''reconcile''" | "?m = ''commit''"
    | "footprint ev ?m \<subseteq> retrieve_effects" by blast
  then have "mirrored (ev_codec ev) s (fst (call_method rc ord ev ?m (rq_params req) ten s))"
  proof cases
    case 4
    then show ?thesis
      using emir.law_steps [OF esteps_mono [OF method_steps [of ev ?m s rc ord "rq_params req" ten]]]
        footprints_mirrored(1) [OF f] by (simp add: footprint_def)
  next
    case 5
    then show ?thesis
      using emir.law_steps [OF esteps_mono [OF method_steps [of ev ?m s rc ord "rq_params req" ten]]]
        footprints_mirrored(2) [OF f] by blast
  qed (simp_all add: call_method_def delete_handler reconcile_handler consolidate_handler f chat)
  then show ?thesis by (auto simp: dispatch_def mirrored_refl split: prod.split)
qed

text \<open>A web request is replicated unless it is an import or carries an unlogged request.\<close>

definition replicated :: "server_env \<Rightarrow> web_request \<Rightarrow> bool" where
  "replicated se w = (route w \<noteq> Some EImport \<and> (\<forall>req. carried se w = Some req \<longrightarrow> \<not> unlogged req))"

lemma serve_mirrored:
  assumes f: "faithful (se_engine se)" and chat: "ev_chat (se_engine se) = None" and w: "replicated se w"
  shows "mirrored (ev_codec (se_engine se)) (hs_engine st) (hs_engine (fst (serve_request se hc w st)))"
proof (cases "carried se w")
  case (Some req)
  then have l: "\<not> unlogged req" using w by (simp add: replicated_def)
  from serve_carried [OF Some, of hc st] consider
    st1 e where "pass_gates hc (wr_headers w) st = (st1, Inl e)" "serve_request se hc w st = refuse st1 e"
  | st1 t where "pass_gates hc (wr_headers w) st = (st1, Inr t)"
      "serve_request se hc w st = run_rpc se (wr_secs w) req t st1" by blast
  then show ?thesis
  proof cases
    case 1
    then show ?thesis using pass_gates_engine [OF 1(1)] by (simp add: mirrored_refl)
  next
    case 2
    have "mirrored (ev_codec (se_engine se)) (hs_engine st1) (hs_engine (fst (run_rpc se (wr_secs w) req t st1)))"
      using dispatch_mirrored [OF f chat l, of "hs_engine st1" "se_codec se" "se_order se" t]
      by (auto simp: run_rpc_def Let_def split: prod.split)
    then show ?thesis using 2(2) pass_gates_engine [OF 2(1)] by simp
  qed
next
  case None
  have "count (se_engine se) None s = (s1, r) \<Longrightarrow> mirrored c s s1" for s s1 r c
    using emir.law_steps [OF read_steps(2) [OF esteps_refl]] by (metis count_def fst_conv)
  then show ?thesis
    using None w by (auto simp: carried_def replicated_def serve_request_def healthz_def version_handler_def
        metrics_handler_def handle_rpc_def mirrored_refl dest: pass_gates_engine
        split: option.split endpoint.split sum.split prod.split option.splits endpoint.splits sum.splits)
qed

lemma serve_all_mirrored:
  assumes "faithful (se_engine se)" and "ev_chat (se_engine se) = None" and "\<forall>w \<in> set ws. replicated se w"
  shows "mirrored (ev_codec (se_engine se)) (hs_engine st) (hs_engine (serve_all se hc ws st))"
  unfolding serve_all_def using assms(3)
proof (induction ws arbitrary: st)
  case (Cons w ws)
  then have "mirrored (ev_codec (se_engine se)) (hs_engine st) (hs_engine (fst (serve_request se hc w st)))"
    by (intro serve_mirrored [OF assms(1,2)]) simp
  from mirrored_owes [OF this Cons.IH] Cons.prems show ?case by simp
qed (simp add: mirrored_refl)

section \<open>A follower that replays the log\<close>

text \<open>Where a log ends: the cursor of a follower that has replayed all of it.\<close>

definition log_end :: "wop_entry list \<Rightarrow> int" where
  "log_end ws = (if ws = [] then 0 else we_seq (last ws))"

lemma log_end_bounds:
  assumes "sorted_wrt (<) (map we_seq (old @ new))" and "\<forall>w \<in> set (old @ new). 0 < we_seq w"
  shows "0 \<le> log_end old" "\<forall>w \<in> set old. we_seq w \<le> log_end old" "\<forall>w \<in> set new. log_end old < we_seq w"
proof -
  have old: "we_seq w \<le> log_end old" if "w \<in> set old" for w
  proof -
    have "old \<noteq> []" using that by auto
    then obtain us u where o: "old = us @ [u]" by (metis append_butlast_last_id)
    then show ?thesis using that assms(1) by (auto simp: log_end_def sorted_wrt_append intro: less_imp_le)
  qed
  then show "\<forall>w \<in> set old. we_seq w \<le> log_end old" by simp
  show "0 \<le> log_end old" using assms(2) by (auto simp: log_end_def intro: less_imp_le)
  show "\<forall>w \<in> set new. log_end old < we_seq w"
    using assms by (auto simp: log_end_def sorted_wrt_append)
qed

text \<open>Batches after the end of the old entries are batches of the new ones.\<close>

lemma honest_rounds_new:
  assumes log: "sorted_wrt (<) (map we_seq new)" "\<forall>w \<in> set new. 0 < we_seq w"
  shows "\<lbrakk> \<forall>w \<in> set old. we_seq w \<le> q; 0 \<le> q; eng.follows pc f new q s;
           honest_rounds c pc cfg (engine_sink ev) (old @ new) nets (q, s) \<rbrakk>
         \<Longrightarrow> honest_rounds c pc cfg (engine_sink ev) new nets (q, s)"
proof (induction nets arbitrary: q s)
  case (Cons net nets)
  have old: "filter (\<lambda>w. we_seq w > q) old = []" using Cons.prems(1) by (auto simp: filter_empty_conv)
  then have h: "fetch c cfg net q = Inr resp \<Longrightarrow> honest new q resp" for resp
    using Cons.prems(4) by (simp add: honest_def)
  obtain q' t res where one: "sync_once c pc cfg (engine_sink ev) net (q, s) = ((q', t), res)"
    by (metis prod.exhaust)
  have "eng.follows pc f new q' t \<and> q \<le> q'"
    by (rule eng.follows_sync [OF log Cons.prems(2,3) h one])
  then have "honest_rounds c pc cfg (engine_sink ev) new nets (q', t)"
    using Cons.prems one by (intro Cons.IH) auto
  then show ?case using h one by (simp split: sum.split)
qed simp

lemma follower_mirrors:
  assumes m: "mirrored c s t" and s: "peaceful s"
    and q: "q = log_end (db_wop (eg_db s))" and live: "live f = live s"
    and h: "honest_rounds wc c cfg (engine_sink ev) (db_wop (eg_db t)) nets (q, f)"
    and run: "sync_rounds wc c cfg (engine_sink ev) nets (q, f) = (q', f')"
    and e: "q' = log_end (db_wop (eg_db t))"
  shows "live f' = live t"
proof -
  from m s obtain ws where t: "peaceful t" "db_wop (eg_db t) = db_wop (eg_db s) @ ws"
    "live t = live_effects c ws (live s)" unfolding owes_def by auto
  let ?old = "db_wop (eg_db s)"
  have log: "sorted_wrt (<) (map we_seq (?old @ ws))" "\<forall>w \<in> set (?old @ ws). 0 < we_seq w"
    using t(1) unfolding t(2) [symmetric] by (auto simp: peaceful_def db_wf_def logs_wf_def)
  then have new: "sorted_wrt (<) (map we_seq ws)" "\<forall>w \<in> set ws. 0 < we_seq w"
    by (auto simp: sorted_wrt_append)
  note b = log_end_bounds [OF log, folded q]
  have "filter (\<lambda>w. we_seq w \<le> q) ws = []" using b(3) by (auto simp: filter_empty_conv)
  then have f0: "eng.follows c (items_of f) ws q f" by (simp add: eng.follows_def eng.tracks_def effects_def)
  have "honest_rounds wc c cfg (engine_sink ev) ws nets (q, f)"
    using honest_rounds_new [OF new b(2,1) f0] h t(2) by simp
  from rounds_follow [OF new b(1) f0 this run] have f': "eng.follows c (items_of f) ws q' f'" by simp
  have le: "we_seq w \<le> q'" if "w \<in> set ws" for w
    using log_end_bounds(2) [of "?old @ ws" "[]"] log that unfolding e t(2) by simp
  then have "filter (\<lambda>w. we_seq w \<le> q') ws = ws" "filter (\<lambda>w. we_seq w > q') ws = []"
    by (auto simp: filter_id_conv filter_empty_conv leD)
  then have "items_of f' = effects c ws (items_of f)" using f' by (simp add: eng.follows_def eng.tracks_def)
  then have "live f' = live_effects c ws (live f)" by (simp add: live_def live_of_effects)
  then show ?thesis using live t(3) by simp
qed


definition mirror_codec :: payload_codec where
  "mirror_codec =
     \<lparr> pc_enc = (\<lambda>(m, v). if m = item_a then Inr [] else Inl ''no''), pc_env = (\<lambda>p. Inr (item_a, None)),
       pc_item = (\<lambda>p. Inr item_a), pc_item_enc = (\<lambda>m. Inl ''no''), pc_int_error = (\<lambda>_. ''no'') \<rparr>"

lemma demo_log_end:
  "\<exists>w. db_wop (eg_db (fst (delete_memory_tenant demo_env0 ''a'' ''t1'' demo_replica))) = [w]
     \<and> we_seq w = 1 \<and> we_op w = ''delete'' \<and> we_payload w = ''a''
     \<and> db_wop_seq (eg_db (fst (delete_memory_tenant demo_env0 ''a'' ''t1'' demo_replica))) = 1"
proof -
  have nf: "db_faults (eg_db demo_replica) = []" "db_faults (db_ab\<lparr> db_wop := x, db_wop_seq := y \<rparr>) = []" for x y
    by (simp_all add: demo_replica_def db_ab_def put_item_def empty_db_def)
  have ref: "parse_u64 [] = None" by (simp add: parse_u64_def parse_unsigned_def)
  show ?thesis
    by (simp add: delete_memory_tenant_def delete_memory_def then_do_def engine_get_memory_def on_db_def raw_db_def get_memory_def
        tombstone_memory_def nf demo_replica_def db_ab_def find_item_def drop_vector_def ref
        put_item_def replace_item_def item_a_def item_b_def with_namespace_def new_turn_skeleton_def append_audit_def
        now_ms_def call_def append_wop_def db_op_def update_items_def empty_db_def add_wop_def Let_def)
qed

lemma demo_faithful:
  "faithful (se_engine (coded_server mirror_codec))" "ev_chat (se_engine (coded_server mirror_codec)) = None"
proof -
  show "faithful (se_engine (coded_server mirror_codec))"
    by (simp add: faithful_def coded_server_def mirror_codec_def demo_env0_def tabless_def show_nat_no_tab)
  show "ev_chat (se_engine (coded_server mirror_codec)) = None" by (simp add: coded_server_def demo_env0_def)
qed

lemma demo_peaceful: "peaceful (hs_engine demo_start)"
proof -
  have e: "db_items (empty_db []) = []" by (simp add: empty_db_def)
  have "db_wf db_ab" by (simp add: db_ab_def put_item_wf)
  moreover have "db_faults db_ab = []" by (simp add: db_ab_def put_item_def empty_db_def)
  moreover have "storable item_a" "storable item_b"
    by (simp_all add: storable_def tabless_def tab_char item_a_def item_b_def with_namespace_def new_turn_skeleton_def)
  then have "\<forall>m \<in> set (db_items db_ab). storable m"
    using e by (auto simp: db_ab_def storable_put put_item_def set_replace_item)
  ultimately show ?thesis by (simp add: demo_start_parts demo_replica_def peaceful_def)
qed


end
