(* ===== verification/Restart.thy ===== *)
theory Restart
  imports Replication
begin

text \<open>
  Followers that restart and followers that become leaders. A replay never writes the log of the
  follower itself, and the code takes the end of this log as the cursor: a follower that restarts
  replays from the beginning, and a follower that is elected starts with an empty log.
\<close>

section \<open>A replay writes no log\<close>

definition log_kept :: "db \<Rightarrow> db \<Rightarrow> bool" where
  "log_kept d d' = (db_wop d' = db_wop d \<and> db_wop_seq d' = db_wop_seq d)"

interpretation tkeep: table_law log_kept
  by unfold_locales (auto simp: log_kept_def put_item_def update_items_def delete_item_def)

definition own_log :: "engine \<Rightarrow> engine \<Rightarrow> bool" where
  "own_log s t = log_kept (eg_db s) (eg_db t)"

definition sink_effects :: "effect set" where
  "sink_effects = {x. \<forall>k. x = XDb k \<longrightarrow> \<not> writes_log k \<and> (\<forall>b. k \<noteq> CPrune b)}"

interpretation ekeep: engine_law own_log sink_effects
proof unfold_locales
  fix x s
  assume "x \<in> sink_effects"
  then show "own_log s (do_effect x s)"
    by (cases x) (auto simp: own_log_def sink_effects_def tkeep.same tkeep.law_exec simp del: db_exec.simps
        split: option.split)
qed (auto simp: own_log_def read_db_def read_store_def tick_def tkeep.faults tkeep.same intro: tkeep.trans)

lemma sink_commands: "XDb (CPut m) \<in> sink_effects" "XDb (CTombstone i) \<in> sink_effects"
  "XDb (CRecordMerge a b r n) \<in> sink_effects" "XInsert v x \<in> sink_effects"
  by (simp_all add: sink_effects_def)

lemma map_err_fst: "fst (case p of (t, r) \<Rightarrow> (t, g r)) = fst p"
  by (cases p) simp

lemma sink_steps:
  "esteps sink_effects s (fst (sk_embed (engine_sink ev) y s))"
  "esteps sink_effects s (fst (sk_put_item (engine_sink ev) m s))"
  "esteps sink_effects s (fst (sk_insert_vector (engine_sink ev) v x s))"
  "esteps sink_effects s (fst (sk_tombstone (engine_sink ev) i s))"
  "esteps sink_effects s (fst (sk_promote_tier (engine_sink ev) i t s))"
  "esteps sink_effects s (fst (sk_record_merge (engine_sink ev) a b r n s))"
proof -
  show "esteps sink_effects s (fst (sk_promote_tier (engine_sink ev) i t s))"
    unfolding engine_sink_def engine_promote_tier_def sink.simps
    by (intro step_intros sink_commands | assumption | simp)+
qed (simp_all add: engine_sink_def map_err_fst steps_env steps_commands steps_insert sink_commands esteps_refl)

lemma at_list: "\<lbrakk> xs = [] \<Longrightarrow> esteps X s (fst f); \<And>y ys. xs = y # ys \<Longrightarrow> esteps X s (fst (g y ys)) \<rbrakk>
    \<Longrightarrow> esteps X s (fst (case xs of [] \<Rightarrow> f | y # ys \<Rightarrow> g y ys))"
  by (cases xs) simp_all

lemma replay_one_steps: "esteps sink_effects s (fst (replay_one c (engine_sink ev) w s))"
  unfolding replay_one_def replay_commit_def
  by (intro step_intros at_list es.at_apply sink_steps esteps_trans [OF _ sink_steps(1)] esteps_trans [OF _ sink_steps(2)]
      esteps_trans [OF _ sink_steps(3)] esteps_trans [OF _ sink_steps(4)] esteps_trans [OF _ sink_steps(5)]
      esteps_trans [OF _ sink_steps(6)] | assumption | rule es.fst_split)+

lemma replay_steps: "esteps sink_effects s (fst (replay_loop c (engine_sink ev) ws r s))"
proof (induction ws arbitrary: r s)
  case (Cons w ws)
  obtain s1 x where one: "replay_one c (engine_sink ev) w s = (s1, x)" by fastforce
  have "esteps sink_effects s s1" using replay_one_steps [of s c ev w] one by simp
  then have "esteps sink_effects s (fst (replay_loop c (engine_sink ev) ws q s1))" for q
    using Cons.IH by (rule esteps_trans)
  moreover note this [of "r\<lparr> ro_applied := a, ro_last_seq := n \<rparr>" for a n]
  ultimately show ?case using one \<open>esteps sink_effects s s1\<close> by (simp split: sum.split bool.split)
qed (simp add: esteps_refl)

lemma replay_stepsD: "replay_loop c (engine_sink ev) ws r s = (s', x) \<Longrightarrow> esteps sink_effects s s'"
  using replay_steps [of s c ev ws r] by simp

lemma sync_steps:
  "sync_rounds c pc cfg (engine_sink ev) nets (q, s) = (q', s') \<Longrightarrow> esteps sink_effects s s'"
proof (induction nets arbitrary: q s)
  case (Cons net nets)
  obtain q1 s1 r where one: "sync_once c pc cfg (engine_sink ev) net (q, s) = ((q1, s1), r)" by (metis prod.exhaust)
  have "esteps sink_effects s s1"
    using one by (auto simp: sync_once_def replay_wops_def Let_def esteps_refl split: sum.splits if_splits prod.splits
        dest: replay_stepsD)
  moreover have "esteps sink_effects s1 s'" using Cons one by simp
  ultimately show ?case by (rule esteps_trans)
qed (simp add: esteps_refl)

lemma sync_own_log:
  "sync_rounds c pc cfg (engine_sink ev) nets (q, s) = (q', s') \<Longrightarrow> own_log s s'"
  by (rule ekeep.law_steps [OF sync_steps])

section \<open>Replaying a log again\<close>

text \<open>
  What a log does to one memory: it puts a version of it there, whatever was there before, or it
  only marks the version that is there.\<close>

fun act_at :: "string \<Rightarrow> action \<Rightarrow> memory_item option \<Rightarrow> memory_item option" where
  "act_at i (APut m) x = (if i = mi_id m then Some m else x)"
| "act_at i (AHide j) x = (if i = j then map_option (mi_tombstone_update (\<lambda>_. True)) x else x)"
| "act_at i (ATier j t) x = (if i = j then map_option (mi_tier_update (\<lambda>_. t)) x else x)"
| "act_at i ANone x = x"

definition marks :: "bool \<Rightarrow> memory_tier option \<Rightarrow> memory_item \<Rightarrow> memory_item" where
  "marks b t m = m\<lparr> mi_tombstone := b \<or> mi_tombstone m, mi_tier := (case t of Some x \<Rightarrow> x | None \<Rightarrow> mi_tier m) \<rparr>"

lemma marks_twice: "marks b t (marks b t m) = marks b t m"
  by (cases t) (simp_all add: marks_def)

lemma effects_at: "effects c ws f i = fold (\<lambda>w. act_at i (action_of c w)) ws (f i)"
proof (induction ws arbitrary: f)
  case (Cons w ws)
  have "apply_action (action_of c w) f i = act_at i (action_of c w) (f i)" by (cases "action_of c w") auto
  then show ?case using Cons by simp
qed simp

lemma puts_or_marks:
  "\<exists>m b t. (\<forall>x. fold (\<lambda>w. act_at i (action_of c w)) ws x = Some m)
     \<or> (\<forall>x. fold (\<lambda>w. act_at i (action_of c w)) ws x = map_option (marks b t) x)"
proof (induction ws rule: rev_induct)
  case Nil
  have "marks False None = (\<lambda>m. m)" by (simp add: marks_def fun_eq_iff)
  then show ?case by (intro exI [of _ undefined] exI [of _ False] exI [of _ None]) (simp add: option.map_ident)
next
  case (snoc w ws)
  let ?F = "\<lambda>x. fold (\<lambda>w. act_at i (action_of c w)) ws x" and ?a = "action_of c w"
  have hide: "map_option (mi_tombstone_update (\<lambda>_. True)) (map_option (marks b t) x) = map_option (marks True t) x" for b t x
    by (cases x) (simp_all add: marks_def)
  have tier: "map_option (mi_tier_update (\<lambda>_. u)) (map_option (marks b t) x) = map_option (marks b (Some u)) x" for b t u x
    by (cases x) (simp_all add: marks_def)
  from snoc obtain m b t where "(\<forall>x. ?F x = Some m) \<or> (\<forall>x. ?F x = map_option (marks b t) x)" by blast
  then show ?case
  proof
    assume F: "\<forall>x. ?F x = Some m"
    have "act_at i ?a (Some m) \<noteq> None" by (cases ?a) simp_all
    then obtain m' where "act_at i ?a (Some m) = Some m'" by blast
    with F show ?thesis by (intro exI [of _ m'] exI [of _ b] exI [of _ t] disjI1) simp
  next
    assume F: "\<forall>x. ?F x = map_option (marks b t) x"
    have m: "\<exists>m b' t'. (\<forall>x. act_at i ?a (map_option (marks b t) x) = Some m)
        \<or> (\<forall>x. act_at i ?a (map_option (marks b t) x) = map_option (marks b' t') x)"
    proof (cases ?a)
      case (APut n)
      then show ?thesis by (cases "i = mi_id n") auto
    next
      case (AHide j)
      then show ?thesis using hide [of b t] by (cases "i = j") (auto simp: hide)
    next
      case (ATier j u)
      then show ?thesis by (cases "i = j") (auto simp: tier)
    qed auto
    then show ?thesis using F by simp
  qed
qed

lemma effects_again: "effects c ws (effects c ws f) = effects c ws f"
proof
  fix i
  obtain m b t where "(\<forall>x. fold (\<lambda>w. act_at i (action_of c w)) ws x = Some m)
      \<or> (\<forall>x. fold (\<lambda>w. act_at i (action_of c w)) ws x = map_option (marks b t) x)" using puts_or_marks by blast
  then show "effects c ws (effects c ws f) i = effects c ws f i"
    by (auto simp: effects_at option.map_comp comp_def marks_twice)
qed

lemma effects_absorb: "prefix ds ws \<Longrightarrow> effects c ws (effects c ds f) = effects c ws f"
  by (auto simp: prefix_def effects_again)

section \<open>Restarting\<close>

lemma own_cursor:
  assumes "last_log_seq s = (s0, Inr q)" and "db_wop (eg_db s) = []"
  shows "q = 0" "items_of s0 = items_of s" "db_wop (eg_db s0) = []"
proof -
  have l: "db_query (\<lambda>d. max_seq (db_wop d)) (eg_db s) = (eg_db s0, Inr q)"
    using on_db_Inr(1) [OF assms(1) [unfolded last_log_seq_def]] by (simp add: last_wop_seq_def)
  have "q = max_seq (db_wop (eg_db s))" using l by (rule db_query_Inr) simp
  then show "q = 0" using assms(2) by (simp add: max_seq_def)
  show "items_of s0 = items_of s" "db_wop (eg_db s0) = []"
    using query_same [OF l] same_items_of same_tables_facts assms(2) by auto
qed

text \<open>
  C6: A follower that restarts converges again. Wherever in the log of its leader it was stopped,
  it starts with the end of its own log as its cursor, which is 0 however often it was restarted,
  and replays the log of the leader from the beginning, over the memories that it has. Once its
  cursor has reached the end of the log, its memories are the effect of the log on the memories
  that it had before the first replay, each of them applied once: the second replay changes
  nothing, even though it brings deleted memories back for a while.\<close>

theorem restarted_follower_converges:
  assumes "sorted_wrt (<) (map we_seq ws)" and "\<forall>w \<in> set ws. 0 < we_seq w"
    and "prefix ds ws" and "items_of s = effects pc ds f" and "db_wop (eg_db s) = []"
    and "last_log_seq s = (s0, Inr q)"
    and "honest_rounds c pc cfg (engine_sink ev) ws nets (q, s0)"
    and "sync_rounds c pc cfg (engine_sink ev) nets (q, s0) = (q', s')"
    and "\<forall>w \<in> set ws. we_seq w \<le> q'"
  shows "q = 0 \<and> items_of s' = effects pc ws f \<and> db_wop (eg_db s') = []"
proof -
  note own = own_cursor [OF assms(6,5)]
  have "filter (\<lambda>w. we_seq w \<le> q) ws = []" using assms(2) own(1) by (auto simp: filter_empty_conv)
  then have "eng.follows pc (items_of s) ws q s0" using own(2) by (simp add: eng.follows_def eng.tracks_def)
  from rounds_follow [OF assms(1,2) _ this assms(7,8)] own(1) have f: "eng.follows pc (items_of s) ws q' s'" by simp
  have "filter (\<lambda>w. we_seq w \<le> q') ws = ws" "filter (\<lambda>w. we_seq w > q') ws = []"
    using assms(9) by (auto simp: filter_id_conv filter_empty_conv leD)
  then have "items_of s' = effects pc ws (effects pc ds f)"
    using f assms(4) by (simp add: eng.follows_def eng.tracks_def)
  moreover have "db_wop (eg_db s') = []"
    using sync_own_log [OF assms(8)] own(3) by (simp add: own_log_def log_kept_def)
  ultimately show ?thesis using effects_absorb [OF assms(3)] own(1) by simp
qed

section \<open>A new leader\<close>

lemma honest_nothing:
  "\<lbrakk> \<forall>w \<in> set ws. we_seq w \<le> q; honest ws q resp \<rbrakk> \<Longrightarrow> sr_entries resp = []"
proof -
  assume "\<forall>w \<in> set ws. we_seq w \<le> q" and h: "honest ws q resp"
  then have "filter (\<lambda>w. we_seq w > q) ws = []" by (auto simp: filter_empty_conv)
  with h show ?thesis by (simp add: honest_def)
qed

lemma sync_nothing:
  assumes "\<forall>w \<in> set ws. we_seq w \<le> q" and "0 \<le> q" and "honest_rounds c pc cfg k ws nets (q, s)"
  shows "sync_rounds c pc cfg k nets (q, s) = (q, s)"
  using assms(3)
proof (induction nets)
  case (Cons net nets)
  have "fst (sync_once c pc cfg k net (q, s)) = (q, s)"
    using Cons.prems honest_nothing [OF assms(1)] assms(2)
    by (auto simp: sync_once_def replay_wops_def no_outcome_def Let_def split: sum.split)
  then show ?case using Cons by simp
qed simp

text \<open>
  C7: A new leader does not reach the followers of the old one. A follower that becomes the
  leader starts with the log it had before it ever followed, an empty one, whatever it has
  replayed. Another follower keeps the cursor it has in the log of the old leader; as long as
  the new leader has not logged more entries than this cursor, no request that the new leader
  answers has any effect on that follower, however often it synchronises.\<close>

theorem failover_strands_followers:
  assumes "engine_wf f0" and "db_wop (eg_db f0) = []" and "db_wop_seq (eg_db f0) = 0"
    and "sync_rounds c pc cfg (engine_sink ev) nets (q0, f0) = (q1, hs_engine st)"
    and "s = hs_engine (serve_all se hc reqs st)" and "db_wop_seq (eg_db s) \<le> q" and "0 \<le> q"
    and "honest_rounds c' pc' cfg' k (db_wop (eg_db s)) nets' (q, g)"
  shows "db_wop (eg_db (hs_engine st)) = [] \<and> db_wop_seq (eg_db (hs_engine st)) = 0
    \<and> sync_rounds c' pc' cfg' k nets' (q, g) = (q, g)"
proof -
  have "own_log f0 (hs_engine st)" using sync_own_log [OF assms(4)] .
  moreover have "engine_wf (hs_engine st)"
    using ewf.law_steps [OF esteps_mono [OF sync_steps [OF assms(4)] subset_UNIV]] assms(1) by (simp add: stays_wf_def)
  then have "engine_wf s" unfolding assms(5) by (rule serve_all_wf)
  then have "\<forall>w \<in> set (db_wop (eg_db s)). we_seq w \<le> q"
    using assms(6) by (auto simp: engine_wf_def db_wf_def logs_wf_def)
  ultimately show ?thesis using assms(2,3) sync_nothing [OF _ assms(7,8)] by (simp add: own_log_def log_kept_def)
qed

section \<open>Witnesses\<close>

abbreviation demo_net :: "string \<Rightarrow> cluster_error + string" where
  "demo_net \<equiv> \<lambda>_. send tiny_codec FSyncResponse (Inr ''x'')"

lemma demo_round:
  assumes "db_faults (eg_db s) = []" and "db_wop (eg_db s) = []"
  shows "\<exists>s'. sync_rounds (log_codec demo_log) no_codec demo_sync (engine_sink demo_env0) [demo_net] (0, s) = (1, s')
     \<and> db_faults (eg_db s') = [] \<and> db_wop (eg_db s') = []"
proof -
  obtain s' where r: "replay_wops no_codec (engine_sink demo_env0) demo_log s =
      (s', \<lparr> ro_applied = 1, ro_skipped = 0, ro_last_seq = 1, ro_failed = False, ro_permanent = False \<rparr>)"
    and s': "db_faults (eg_db s') = []" "db_wop (eg_db s') = []"
    using assms by (simp add: replay_wops_def demo_log_def no_outcome_def replay_one_def then_do_def return_ok_def
        engine_sink_def raw_db_def tombstone_memory_def update_items_def)
  then show ?thesis
    using demo_fetch [of demo_log 0] by (intro exI [of _ s']) (simp add: sync_once_def stale_leader_def demo_sync_def)
qed

lemma demo_honest:
  "honest_rounds (log_codec demo_log) no_codec demo_sync (engine_sink demo_env0) demo_log [demo_net] (0, s)"
  using demo_fetch [of demo_log 0] by (simp add: honest_def demo_log_def)

lemma restarted_follower_witness:
  "\<exists>s1 s2. sync_rounds (log_codec demo_log) no_codec demo_sync (engine_sink demo_env0) [demo_net] (0, demo_replica) = (1, s1)
     \<and> sync_rounds (log_codec demo_log) no_codec demo_sync (engine_sink demo_env0) [demo_net] (0, s1) = (1, s2)
     \<and> items_of s2 = effects no_codec demo_log (items_of demo_replica)"
proof -
  have log: "sorted_wrt (<) (map we_seq demo_log)" "\<forall>w \<in> set demo_log. 0 < we_seq w" "\<forall>w \<in> set demo_log. we_seq w \<le> 1"
    by (simp_all add: demo_log_def)
  have z: "db_faults (eg_db demo_replica) = []" "db_wop (eg_db demo_replica) = []"
    by (simp_all add: demo_replica_def db_ab_def put_item_def empty_db_def)
  obtain s1 where s1: "sync_rounds (log_codec demo_log) no_codec demo_sync (engine_sink demo_env0) [demo_net] (0, demo_replica) = (1, s1)"
    "db_faults (eg_db s1) = []" "db_wop (eg_db s1) = []" using demo_round [OF z] by blast
  obtain s2 where s2: "sync_rounds (log_codec demo_log) no_codec demo_sync (engine_sink demo_env0) [demo_net] (0, s1) = (1, s2)"
    using demo_round [OF s1(2,3)] by blast
  have cursor: "db_faults (eg_db s) = [] \<Longrightarrow> db_wop (eg_db s) = [] \<Longrightarrow> last_log_seq s = (s, Inr 0)" for s
    by (simp add: last_log_seq_def last_wop_seq_def on_db_def raw_db_def max_seq_def)
  have f: "items_of s1 = effects no_codec demo_log (items_of demo_replica)"
    using restarted_follower_converges [OF log(1,2) _ _ z(2) cursor [OF z] demo_honest s1(1) log(3), of "[]" "items_of demo_replica"]
    by simp
  show ?thesis
    using restarted_follower_converges [OF log(1,2) _ f s1(3) cursor [OF s1(2,3)] demo_honest s2 log(3)] s1(1) s2
    by blast
qed

lemma failover_witness:
  "\<exists>s. s = hs_engine (serve_all (coded_server no_codec) demo_conf [demo_delete] demo_start)
     \<and> items_of s ''a'' \<noteq> items_of demo_replica ''a''
     \<and> sync_rounds (log_codec []) no_codec demo_sync (engine_sink demo_env0) [demo_net] (1, demo_replica) = (1, demo_replica)"
proof -
  let ?st = "serve_all (coded_server no_codec) demo_conf [demo_delete] demo_start"
  have s: "hs_engine ?st = fst (delete_memory_tenant demo_env0 ''a'' ''t1'' demo_replica)"
    by (simp add: serve_all_def demo_delete_served)
  obtain w where w: "db_wop (eg_db (hs_engine ?st)) = [w]" "we_seq w = 1" "db_wop_seq (eg_db (hs_engine ?st)) = 1"
    using demo_log_end unfolding s by blast
  have z: "engine_wf demo_replica" "db_wop (eg_db demo_replica) = []" "db_wop_seq (eg_db demo_replica) = 0"
    using demo_start_wf by (simp_all add: demo_start_parts demo_replica_def db_ab_def put_item_def empty_db_def)
  have run: "sync_rounds (log_codec []) no_codec demo_sync (engine_sink demo_env0) [] (0, demo_replica) = (0, hs_engine demo_start)"
    by (simp add: demo_start_parts)
  have seq: "db_wop_seq (eg_db (hs_engine ?st)) \<le> 1" using w(3) by simp
  have h: "honest_rounds (log_codec []) no_codec demo_sync (engine_sink demo_env0) (db_wop (eg_db (hs_engine ?st))) [demo_net] (1, demo_replica)"
    using demo_fetch [of "[]" 1] w by (simp add: honest_def)
  have "find_item ''a'' (eg_db demo_replica) = Some item_a"
    by (simp add: demo_replica_def db_ab_def item_a_def item_b_def with_namespace_def)
  then have changed: "items_of (hs_engine ?st) ''a'' \<noteq> items_of demo_replica ''a''"
    using demo_deleted [of "''t1''"] unfolding s by (simp add: items_of_def)
  from failover_strands_followers [OF z run refl seq _ h] changed show ?thesis by simp
qed

end
