(* ===== verification/Serve.thy ===== *)
theory Serve
  imports Http Uds Config
begin

text \<open>
  The start of the server (\<open>fm-server/main.rs\<close> and \<open>fm-server/lib.rs\<close>): the configuration is
  checked, the engine is built, and the tasks are started: those of the cluster, the Unix socket
  and HTTP. The tasks are values here; what they do is in the theories about them.
\<close>

datatype server_task =
    TaskCluster cluster_task
  | TaskUds string string
  | TaskHttp nat server_config

definition http_tasks :: "server_config \<Rightarrow> server_task list" where
  "http_tasks c = (if http_ok c then [TaskHttp (cg_port c) c] else [])"

definition uds_tasks :: "server_config \<Rightarrow> server_task list" where
  "uds_tasks c = (if cg_uds c then [TaskUds (cg_sock c) (cg_uds_token c)] else [])"

text \<open>
  The state of the host besides its files: the cluster files of a data directory, the last
  sequence of the log, and the opening of the engine's parts.
\<close>

record host =
  ho_os :: os
  ho_home :: "string \<Rightarrow> home"
  ho_last :: "memory_error + int"
  ho_open :: opener

definition serve :: "host \<Rightarrow> server_config \<Rightarrow> bool \<Rightarrow> string + server_task list" where
  "serve ho c stub =
     bind_res (build_server_engine (os_var (ho_os ho)) (ho_open ho) c stub) (\<lambda>_.
     let h = ho_home ho (cg_data_dir c);
         role = detect_role_with_home (os_var (ho_os ho)) (Some h);
         tasks = map TaskCluster (spawn_cluster (os_var (ho_os ho)) role h (ho_last ho)) @ uds_tasks c @ http_tasks c
     in if tasks = [] then Inl ''no server enabled (UDS off + HTTP off/unconfigured)'' else Inr tasks)"

text \<open>The settings of the HTTP server, with the verifier that is chosen for it.\<close>

definition http_conf_of :: "identity_env \<Rightarrow> server_config \<Rightarrow> verifier http_conf" where
  "http_conf_of im c =
     \<lparr> hc_api_key = cg_api_key c, hc_gateway_required = cg_gateway c, hc_default_tenant = cg_tenant c,
       hc_multi = cg_multi c,
       hc_verify = (if cg_multi c then verify im (fst (verifier_new (cg_identity_url c) (cg_identity_token c)))
                    else noop_verify),
       hc_concrete = True \<rparr>"

datatype main_result = ConfigError config_error | ServeError string | Started "server_task list"

definition stub_var :: "os_env \<Rightarrow> bool" where
  "stub_var env = (case env ''FUSION_MEMORY_STUB'' of Some v \<Rightarrow> parse_env_bool v | None \<Rightarrow> False)"

definition main_start :: "host \<Rightarrow> main_result" where
  "main_start ho =
     (let c = from_file_or_env (ho_os ho)
      in case validate c of
           Inl e \<Rightarrow> ConfigError e
         | Inr _ \<Rightarrow>
             (case serve ho c (stub_var (os_var (ho_os ho))) of
                Inl e \<Rightarrow> ServeError e
              | Inr ts \<Rightarrow> Started ts))"

section \<open>What a started server is\<close>

lemma validate_Inr:
  "validate c = Inr () \<longleftrightarrow> cg_dim c \<noteq> 0 \<and> (cg_uds c \<longrightarrow> cg_sock c \<noteq> []) \<and> \<not> http_needs_token c
     \<and> (cg_multi c \<longrightarrow> http_ok c \<and> cg_identity_token c \<noteq> [])"
  by (auto simp: validate_def http_needs_token_def http_ok_def)

lemma serve_tasks:
  "serve ho c stub = Inr ts \<Longrightarrow>
     \<exists>cl. ts = map TaskCluster cl @ uds_tasks c @ http_tasks c \<and> ts \<noteq> []"
  by (auto simp: serve_def bind_res_eq_Inr Let_def split: if_splits)

text \<open>
  C28: A server that starts has at least one task, a socket path if it serves the socket, and HTTP
  only with a key. If multi-tenant mode is on, then HTTP is served, with the real verifier and a
  token for the identity service. And it serves HTTP whenever a port is set: to start with the
  socket alone, which the documentation promises for a server without a key, is an error.\<close>
theorem started_server_is_safe:
  assumes "main_start ho = Started ts"
  shows "\<exists>c cl. c = from_file_or_env (ho_os ho) \<and> ts = map TaskCluster cl @ uds_tasks c @ http_tasks c \<and> ts \<noteq> []
    \<and> (TaskUds (cg_sock c) (cg_uds_token c) \<in> set ts \<longrightarrow> cg_sock c \<noteq> [])
    \<and> (\<forall>port c'. TaskHttp port c' \<in> set ts \<longrightarrow> c' = c \<and> cg_api_key c \<noteq> [])
    \<and> (cg_multi c \<longrightarrow> TaskHttp (cg_port c) c \<in> set ts
          \<and> real_verifier im (fst (verifier_new (cg_identity_url c) (cg_identity_token c))) (http_conf_of im c)
          \<and> cg_identity_token c \<noteq> [])
    \<and> (cg_port c > 0 \<longrightarrow> TaskHttp (cg_port c) c \<in> set ts)"
proof -
  let ?c = "from_file_or_env (ho_os ho)"
  have v: "validate ?c = Inr ()" and s: "serve ho ?c (stub_var (os_var (ho_os ho))) = Inr ts"
    using assms by (auto simp: main_start_def Let_def split: sum.splits)
  from serve_tasks [OF s] obtain cl where ts: "ts = map TaskCluster cl @ uds_tasks ?c @ http_tasks ?c" "ts \<noteq> []" by blast
  have a: "TaskUds (cg_sock ?c) (cg_uds_token ?c) \<in> set ts \<longrightarrow> cg_sock ?c \<noteq> []"
    using v ts(1) by (auto simp: validate_Inr uds_tasks_def http_tasks_def split: if_splits)
  have b: "\<forall>port c'. TaskHttp port c' \<in> set ts \<longrightarrow> c' = ?c \<and> cg_api_key ?c \<noteq> []"
    using ts(1) by (auto simp: uds_tasks_def http_tasks_def http_ok_def split: if_splits)
  have d: "cg_multi ?c \<longrightarrow> TaskHttp (cg_port ?c) ?c \<in> set ts
      \<and> real_verifier im (fst (verifier_new (cg_identity_url ?c) (cg_identity_token ?c))) (http_conf_of im ?c)
      \<and> cg_identity_token ?c \<noteq> []"
    using v ts(1) by (auto simp: validate_Inr http_tasks_def real_verifier_def http_conf_of_def)
  have e: "cg_port ?c > 0 \<longrightarrow> TaskHttp (cg_port ?c) ?c \<in> set ts"
    using v ts(1) by (auto simp: validate_Inr http_tasks_def http_ok_def http_needs_token_def)
  show ?thesis by (intro exI [of _ ?c] exI [of _ cl] conjI refl ts a b d e)
qed

text \<open>
  Without any setting the server does not start: the default port is open and there is no key.\<close>
lemma default_config_refused:
  assumes "\<forall>v. os_var (ho_os ho) v = None" and "os_file (ho_os ho) ''.fusion-memory/fusion-memory.toml'' = None"
  shows "main_start ho = ConfigError (NoApiKey 11435)"
proof -
  let ?os = "ho_os ho"
  have "config_file_path ?os = None"
    using assms by (simp add: config_file_path_def default_data_dir_def path_join_def Let_def)
  then have "from_file_or_env ?os = server_config_default ?os"
    using assms(1)
    by (simp add: from_file_or_env_def loaded_file_def set_opt_def apply_env_def fill_secrets_from_files_def
        fill_secret_def Let_def)
  then show ?thesis
    using assms(1) by (simp add: main_start_def validate_def server_config_default_def default_data_dir_def
        path_join_def SOCK_NAME_def Let_def)
qed

section \<open>Concrete hosts\<close>

definition demo_host :: "os_env \<Rightarrow> host" where
  "demo_host env =
     \<lparr> ho_os = demo_os\<lparr> os_var := env \<rparr>, ho_home = (\<lambda>_. \<lparr> hm_role = None, hm_epoch = None \<rparr>), ho_last = Inr 0,
       ho_open = demo_opener \<rparr>"

lemma default_config_witness: "main_start (demo_host (\<lambda>_. None)) = ConfigError (NoApiKey 11435)"
  by (rule default_config_refused) (simp_all add: demo_host_def demo_os_def)

definition key_var :: os_env where
  "key_var = [''FUSION_MEMORY_API_KEY'' \<mapsto> ''k'']"

lemma demo_started:
  "\<exists>ts. main_start (demo_host key_var) = Started ts
     \<and> from_file_or_env (ho_os (demo_host key_var))
       = (server_config_default (ho_os (demo_host key_var)))\<lparr> cg_api_key := ''k'' \<rparr>
     \<and> cg_uds (from_file_or_env (ho_os (demo_host key_var)))
     \<and> cg_port (from_file_or_env (ho_os (demo_host key_var))) = 11435"
proof -
  let ?os = "ho_os (demo_host key_var)"
  have "config_file_path ?os = None"
    by (simp add: config_file_path_def demo_host_def demo_os_def key_var_def Let_def)
  then have c: "from_file_or_env ?os = (server_config_default ?os)\<lparr> cg_api_key := ''k'' \<rparr>"
    by (simp add: from_file_or_env_def loaded_file_def set_opt_def apply_env_def fill_secrets_from_files_def
        fill_secret_def Let_def demo_host_def demo_os_def key_var_def)
  have "\<exists>ts. main_start (demo_host key_var) = Started ts"
    unfolding main_start_def c
    by (auto simp: Let_def validate_def server_config_default_def default_data_dir_def path_join_def SOCK_NAME_def
        http_ok_def serve_def build_server_engine_def demo_host_def demo_opener_def uds_tasks_def)
  then show ?thesis by (auto simp: c server_config_default_def Let_def)
qed

lemma started_server_witness:
  "\<exists>ts c. main_start (demo_host key_var) = Started ts \<and> TaskHttp 11435 c \<in> set ts \<and> cg_api_key c \<noteq> []"
proof -
  obtain ts where ts: "main_start (demo_host key_var) = Started ts"
    and c: "cg_port (from_file_or_env (ho_os (demo_host key_var))) = 11435"
      "cg_api_key (from_file_or_env (ho_os (demo_host key_var))) = ''k''"
    using demo_started by auto
  then have "TaskHttp 11435 (from_file_or_env (ho_os (demo_host key_var))) \<in> set ts"
    using started_server_is_safe [OF ts] by auto
  moreover have "cg_api_key (from_file_or_env (ho_os (demo_host key_var))) \<noteq> []" using c(2) by simp
  ultimately show ?thesis using ts by blast
qed

end
