(* ===== verification/Shutdown.thy ===== *)
theory Shutdown
  imports Serve
begin

text \<open>
  The running server (\<open>fm-server/lib.rs\<close>, \<open>serve\<close> and \<open>install_signal_handler\<close>; \<open>uds.rs\<close>,
  \<open>serve\<close>; \<open>http.rs\<close>, \<open>serve\<close>) as a state machine: the tasks bind, accept and end, connections
  and requests come and go, a signal is passed on to the two listeners, and the main task waits
  for the first task that ends. What a request does is in the other theories; here it is only
  begun and finished, or cut off when the process exits.
\<close>

section \<open>States and events\<close>

datatype task_state =
    Absent
  | Starting
  | Listening
  | Ended "string + unit"
  | Aborted

record server_run =
  sr_signal :: bool
  sr_uds :: task_state
  sr_uds_told :: bool
  sr_uds_live :: nat
  sr_http :: task_state
  sr_http_told :: bool
  sr_http_live :: nat
  sr_cluster :: "task_state list"
  sr_exit :: "(string + unit) option"
  sr_cut :: nat

datatype uds_event =
    UdsTold
  | UdsBind "string option"
  | UdsAccept
  | UdsAcceptError
  | UdsClose
  | UdsStop

datatype http_event =
    HttpTold
  | HttpBind "string option"
  | HttpBegin
  | HttpFinish
  | HttpStop

datatype run_event =
    Signal
  | Uds uds_event
  | Http http_event
  | ClusterEnd nat "string + unit"
  | MainExit

definition is_uds :: "server_task \<Rightarrow> bool" where
  "is_uds t = (case t of TaskUds _ _ \<Rightarrow> True | _ \<Rightarrow> False)"

definition is_http :: "server_task \<Rightarrow> bool" where
  "is_http t = (case t of TaskHttp _ _ \<Rightarrow> True | _ \<Rightarrow> False)"

definition run_start :: "server_task list \<Rightarrow> server_run" where
  "run_start ts =
     \<lparr> sr_signal = False,
       sr_uds = (if list_ex is_uds ts then Starting else Absent), sr_uds_told = False, sr_uds_live = 0,
       sr_http = (if list_ex is_http ts then Starting else Absent), sr_http_told = False, sr_http_live = 0,
       sr_cluster = map (\<lambda>_. Listening) (filter (\<lambda>t. \<not> is_uds t \<and> \<not> is_http t) ts),
       sr_exit = None, sr_cut = 0 \<rparr>"

section \<open>Steps\<close>

text \<open>The results of the tasks that have ended: the main task gets one of them.\<close>

definition ended :: "task_state \<Rightarrow> (string + unit) list" where
  "ended t = (case t of Ended r \<Rightarrow> [r] | _ \<Rightarrow> [])"

definition ended_tasks :: "server_run \<Rightarrow> (string + unit) list" where
  "ended_tasks s = ended (sr_uds s) @ ended (sr_http s) @ concat (map ended (sr_cluster s))"

definition abort_task :: "task_state \<Rightarrow> task_state" where
  "abort_task t = (case t of Starting \<Rightarrow> Aborted | Listening \<Rightarrow> Aborted | _ \<Rightarrow> t)"

text \<open>
  The exit: the result is that of a task that has ended, the other tasks are aborted, and with
  the process every connection and request that is still being served is gone.
\<close>

definition main_exit :: "server_run \<Rightarrow> server_run" where
  "main_exit s =
     s\<lparr> sr_uds := abort_task (sr_uds s), sr_http := abort_task (sr_http s),
        sr_cluster := map abort_task (sr_cluster s),
        sr_exit := Some (hd (ended_tasks s)), sr_cut := sr_uds_live s + sr_http_live s,
        sr_uds_live := 0, sr_http_live := 0 \<rparr>"

text \<open>
  The socket's loop. Once it was told to stop it accepts nothing (the stop is looked at first),
  and ends at once, whatever connections are served.
\<close>

fun uds_serve :: "uds_event \<Rightarrow> server_run \<Rightarrow> server_run option" where
  "uds_serve UdsTold s = (if sr_signal s then Some (s\<lparr> sr_uds_told := True \<rparr>) else None)"
| "uds_serve (UdsBind r) s =
     (if sr_uds s = Starting
      then Some (s\<lparr> sr_uds := (case r of None \<Rightarrow> Listening | Some e \<Rightarrow> Ended (Inl e)) \<rparr>) else None)"
| "uds_serve UdsAccept s =
     (if sr_uds s = Listening \<and> \<not> sr_uds_told s
      then Some (s\<lparr> sr_uds_live := fst (uds_accept (sr_uds_live s)) \<rparr>) else None)"
| "uds_serve UdsAcceptError s = (if sr_uds s = Listening \<and> \<not> sr_uds_told s then Some s else None)"
| "uds_serve UdsClose s =
     (if sr_uds_live s > 0 then Some (s\<lparr> sr_uds_live := sr_uds_live s - 1 \<rparr>) else None)"
| "uds_serve UdsStop s =
     (if sr_uds s = Listening \<and> sr_uds_told s then Some (s\<lparr> sr_uds := Ended (Inr ()) \<rparr>) else None)"

text \<open>HTTP, with axum's graceful shutdown: it ends when no request is being served.\<close>

fun http_serve :: "http_event \<Rightarrow> server_run \<Rightarrow> server_run option" where
  "http_serve HttpTold s = (if sr_signal s then Some (s\<lparr> sr_http_told := True \<rparr>) else None)"
| "http_serve (HttpBind r) s =
     (if sr_http s = Starting
      then Some (s\<lparr> sr_http := (case r of None \<Rightarrow> Listening | Some e \<Rightarrow> Ended (Inl e)) \<rparr>) else None)"
| "http_serve HttpBegin s =
     (if sr_http s = Listening \<and> \<not> sr_http_told s
      then Some (s\<lparr> sr_http_live := sr_http_live s + 1 \<rparr>) else None)"
| "http_serve HttpFinish s =
     (if sr_http_live s > 0 then Some (s\<lparr> sr_http_live := sr_http_live s - 1 \<rparr>) else None)"
| "http_serve HttpStop s =
     (if sr_http s = Listening \<and> sr_http_told s \<and> sr_http_live s = 0
      then Some (s\<lparr> sr_http := Ended (Inr ()) \<rparr>) else None)"

text \<open>One event of the process, as long as it has not exited.\<close>

definition server_step :: "run_event \<Rightarrow> server_run \<Rightarrow> server_run option" where
  "server_step e s =
     (if sr_exit s \<noteq> None then None
      else case e of
             Signal \<Rightarrow> Some (s\<lparr> sr_signal := True \<rparr>)
           | Uds u \<Rightarrow> uds_serve u s
           | Http h \<Rightarrow> http_serve h s
           | ClusterEnd i r \<Rightarrow>
               if i < length (sr_cluster s) \<and> sr_cluster s ! i = Listening
               then Some (s\<lparr> sr_cluster := (sr_cluster s)[i := Ended r] \<rparr>) else None
           | MainExit \<Rightarrow> if ended_tasks s \<noteq> [] then Some (main_exit s) else None)"

inductive runs_to :: "server_run \<Rightarrow> server_run \<Rightarrow> bool" for s0 where
  here: "runs_to s0 s0"
| there: "\<lbrakk> runs_to s0 s; server_step e s = Some t \<rbrakk> \<Longrightarrow> runs_to s0 t"

fun run_all :: "run_event list \<Rightarrow> server_run \<Rightarrow> server_run option" where
  "run_all [] s = Some s"
| "run_all (e # es) s = Option.bind (server_step e s) (run_all es)"

lemma run_all_runs: "\<lbrakk> run_all es s = Some t; runs_to s0 s \<rbrakk> \<Longrightarrow> runs_to s0 t"
  by (induction es arbitrary: s) (auto simp: bind_eq_Some_conv intro: there)

lemma run_all_append: "run_all (xs @ ys) s = Option.bind (run_all xs s) (run_all ys)"
  by (induction xs arbitrary: s) (auto split: Option.bind_splits)

section \<open>The cap on connections\<close>

text \<open>At no time are more than \<open>MAX_CONNS\<close> connections of the socket served.\<close>

lemma live_connections_capped:
  assumes "runs_to (run_start ts) s"
  shows "sr_uds_live s \<le> MAX_CONNS"
  using assms
proof (induction rule: runs_to.induct)
  case here
  show ?case by (simp add: run_start_def)
next
  case (there s e t)
  then show ?case
    by (auto simp: server_step_def uds_accept_def main_exit_def split: if_splits run_event.splits
        elim!: uds_serve.elims http_serve.elims)
qed

section \<open>Stopping\<close>

text \<open>What a server without the socket and without cluster tasks keeps.\<close>

definition http_alone :: "server_run \<Rightarrow> bool" where
  "http_alone s = (sr_uds s = Absent \<and> sr_uds_live s = 0 \<and> sr_cluster s = [] \<and> sr_cut s = 0
     \<and> (sr_http s = Starting \<or> sr_http s = Absent \<longrightarrow> sr_http_live s = 0)
     \<and> (\<forall>r. sr_http s = Ended r \<longrightarrow> sr_http_live s = 0))"

lemma http_alone_step: "\<lbrakk> http_alone s; server_step e s = Some t \<rbrakk> \<Longrightarrow> http_alone t"
  by (auto simp: server_step_def http_alone_def main_exit_def ended_tasks_def ended_def abort_task_def
      split: if_splits option.splits task_state.splits run_event.splits
      elim!: uds_serve.elims http_serve.elims)

lemma http_alone_runs: "\<lbrakk> runs_to s0 s; http_alone s0 \<rbrakk> \<Longrightarrow> http_alone s"
  by (induction rule: runs_to.induct) (auto intro: http_alone_step)

lemma begin_many:
  "\<lbrakk> sr_exit s = None; sr_http s = Listening; \<not> sr_http_told s \<rbrakk> \<Longrightarrow>
     run_all (replicate n (Http HttpBegin)) s = Some (s\<lparr> sr_http_live := sr_http_live s + n \<rparr>)"
  by (induction n arbitrary: s) (simp_all add: server_step_def)

definition cut_run :: "nat \<Rightarrow> run_event list" where
  "cut_run n =
     [Uds (UdsBind None), Http (HttpBind None)] @ replicate n (Http HttpBegin)
     @ [Signal, Http HttpTold, Uds UdsTold, Uds UdsStop, MainExit]"

lemma cut_run_cuts:
  assumes "list_ex is_uds ts" and "list_ex is_http ts"
  shows "\<exists>s. run_all (cut_run n) (run_start ts) = Some s \<and> sr_signal s \<and> sr_exit s = Some (Inr ()) \<and> sr_cut s = n"
  using assms
  by (simp add: cut_run_def run_all_append begin_many server_step_def run_start_def main_exit_def ended_tasks_def ended_def)

text \<open>
  C29: A signal is meant to let the requests that are being served finish. A server of HTTP alone
  does: whatever happens, it exits without cutting a request off. A server with the socket does
  not: its loop ends at once, the main task takes that for the end and aborts the rest, so any
  number of requests may be cut off, and the exit is reported as a success.
\<close>

theorem shutdown_drains_http_alone:
  assumes "main_start ho = Started ts"
  shows "(\<not> cg_uds (from_file_or_env (ho_os ho)) \<and> \<not> list_ex (\<lambda>t. \<not> is_uds t \<and> \<not> is_http t) ts
      \<and> runs_to (run_start ts) s \<longrightarrow> sr_cut s = 0)
    \<and> (cg_uds (from_file_or_env (ho_os ho)) \<and> cg_port (from_file_or_env (ho_os ho)) > 0 \<longrightarrow>
        (\<exists>t. runs_to (run_start ts) t \<and> sr_signal t \<and> sr_exit t = Some (Inr ()) \<and> sr_cut t = n))"
proof -
  let ?c = "from_file_or_env (ho_os ho)"
  obtain cl where ts: "ts = map TaskCluster cl @ uds_tasks ?c @ http_tasks ?c" and v: "validate ?c = Inr ()"
    using assms serve_tasks by (auto simp: main_start_def Let_def split: sum.splits) blast
  have "http_alone (run_start ts)" if "\<not> cg_uds ?c" "\<not> list_ex (\<lambda>t. \<not> is_uds t \<and> \<not> is_http t) ts"
  proof -
    have "\<not> list_ex is_uds ts"
      using that(1) by (auto simp: ts list_ex_iff is_uds_def uds_tasks_def http_tasks_def split: if_splits)
    moreover have "filter (\<lambda>t. \<not> is_uds t \<and> \<not> is_http t) ts = []"
      using that(2) by (auto simp: list_ex_iff filter_empty_conv)
    ultimately show ?thesis by (simp add: http_alone_def run_start_def)
  qed
  then have a: "\<not> cg_uds ?c \<and> \<not> list_ex (\<lambda>t. \<not> is_uds t \<and> \<not> is_http t) ts \<and> runs_to (run_start ts) s \<longrightarrow> sr_cut s = 0"
    using http_alone_runs by (auto simp: http_alone_def)
  have "\<exists>t. runs_to (run_start ts) t \<and> sr_signal t \<and> sr_exit t = Some (Inr ()) \<and> sr_cut t = n"
    if "cg_uds ?c" "cg_port ?c > 0"
  proof -
    have "list_ex is_uds ts" "list_ex is_http ts"
      using that v
      by (auto simp: ts list_ex_iff is_uds_def is_http_def uds_tasks_def http_tasks_def validate_Inr http_ok_def
          http_needs_token_def)
    from cut_run_cuts [OF this] show ?thesis using run_all_runs [OF _ here] by blast
  qed
  with a show ?thesis by blast
qed

lemma shutdown_witness:
  "\<exists>ts t. main_start (demo_host key_var) = Started ts \<and> runs_to (run_start ts) t \<and> sr_exit t = Some (Inr ()) \<and> sr_cut t = 3"
proof -
  obtain ts where ts: "main_start (demo_host key_var) = Started ts" "cg_uds (from_file_or_env (ho_os (demo_host key_var)))"
    "cg_port (from_file_or_env (ho_os (demo_host key_var))) > 0"
    using demo_started by auto
  from shutdown_drains_http_alone [OF ts(1), of _ 3] ts show ?thesis by blast
qed

end
